(* ===== verification/StupPrelude.thy ===== *)
theory StupPrelude
  imports Main "HOL-Library.Char_ord" "HOL-Library.List_Lexorder"
    "HOL-Library.Product_Lexorder" "HOL-Library.Option_ord"
begin

text \<open>
  What the components share: the ways a call can fail and the result type, loops that stop at
  the first failure, \<open>std::map\<close> as a key-sorted association list, \<open>std::set<std::string>\<close> and
  \<open>sort_uniq\<close> as strictly sorted lists, and list lemmas.

  A string is a list of bytes; \<open>HOL-Library.Char_ord\<close> orders bytes as unsigned numbers and
  \<open>HOL-Library.List_Lexorder\<close> orders strings lexicographically, as \<open>std::string::operator<\<close>
  and \<open>strcmp\<close> (on strings with no NUL byte) do.
\<close>

named_theorems res_simps \<open>evaluation of results\<close>

section \<open>Failure\<close>

text \<open>
  \<open>AssertFail\<close>: an \<open>assert\<close> that does not hold, the process aborts. \<open>NullDeref\<close>: a null pointer
  is dereferenced. \<open>OutOfBounds\<close>: an index outside a vector, a buffer or a string is used, which
  is undefined behaviour in C++. \<open>Uninitialized\<close>: a variable is read that was never set.
  \<open>Hang\<close>: a loop that never ends. \<open>Throw\<close>: a C++ exception.
\<close>

datatype exn =
    RuntimeError string
  | NullStringException
  | StdOutOfRange
  | ConnectionFailed
  | NoConnection
  | RequestFailed
  | Disconnected
  | RecvFailed
  | TpHashNotFound
  | NotPo
  | PoHeaderIncomplete
  | GettextParserException string

datatype error = AssertFail | NullDeref | OutOfBounds | Uninitialized | Hang | Throw exn

type_synonym 'a res = "error + 'a"

fun rbind :: "'a res \<Rightarrow> ('a \<Rightarrow> 'b res) \<Rightarrow> 'b res" where
  "rbind (Inl e) f = Inl e"
| "rbind (Inr x) f = f x"

definition rassert :: "bool \<Rightarrow> 'a res \<Rightarrow> 'a res" where
  "rassert b r = (if b then r else Inl AssertFail)"

fun rfold :: "('s \<Rightarrow> 'a \<Rightarrow> 's res) \<Rightarrow> 's \<Rightarrow> 'a list \<Rightarrow> 's res" where
  "rfold f s [] = Inr s"
| "rfold f s (x # xs) = rbind (f s x) (\<lambda>s'. rfold f s' xs)"

fun rmap :: "('a \<Rightarrow> 'b res) \<Rightarrow> 'a list \<Rightarrow> 'b list res" where
  "rmap f [] = Inr []"
| "rmap f (x # xs) = rbind (f x) (\<lambda>y. rbind (rmap f xs) (\<lambda>ys. Inr (y # ys)))"

text \<open>A loop over the indices of two vectors is a loop over their pairs.\<close>

lemma rfold_zip_aux:
  assumes "length xs = length ys" "k \<le> length xs"
  shows "rfold (\<lambda>s i. g s (xs ! i) (ys ! i)) s [k..<length xs]
    = rfold (\<lambda>s p. g s (fst p) (snd p)) s (zip (List.drop k xs) (List.drop k ys))"
  using assms
proof (induction "length xs - k" arbitrary: k s)
  case 0
  then show ?case by simp
next
  case (Suc n)
  then have k: "k < length xs" "k < length ys" by simp_all
  have n: "n = length xs - Suc k" "Suc k \<le> length xs" using Suc.hyps(2) k by simp_all
  have "List.drop k xs = xs ! k # List.drop (Suc k) xs" "List.drop k ys = ys ! k # List.drop (Suc k) ys"
      "[k..<length xs] = k # [Suc k..<length xs]"
    using k by (simp_all add: Cons_nth_drop_Suc upt_conv_Cons)
  then show ?case using Suc.hyps(1)[OF n(1) Suc.prems(1) n(2)] by simp
qed

lemma rfold_zip:
  assumes "length xs = length ys"
  shows "rfold (\<lambda>s i. g s (xs ! i) (ys ! i)) s [0..<length xs]
    = rfold (\<lambda>s p. g s (fst p) (snd p)) s (zip xs ys)"
  using rfold_zip_aux[of xs ys 0] assms by simp

lemma rfold_cong:
  "(\<And>s x. x \<in> set xs \<Longrightarrow> f s x = g s x) \<Longrightarrow> rfold f s xs = rfold g s xs"
  by (induction xs arbitrary: s) (auto intro!: arg_cong2[of _ _ _ _ rbind] ext)

text \<open>\<open>v[i]\<close> on a vector: undefined behaviour out of range.\<close>

definition nth_res :: "'a list \<Rightarrow> nat \<Rightarrow> 'a res" where
  "nth_res xs i = (if i < length xs then Inr (xs ! i) else Inl OutOfBounds)"

lemma rbind_eq_Inr [res_simps]: "rbind m f = Inr y \<longleftrightarrow> (\<exists>x. m = Inr x \<and> f x = Inr y)"
  by (cases m) auto

lemma rbind_eq_Inl [res_simps]:
  "rbind m f = Inl e \<longleftrightarrow> m = Inl e \<or> (\<exists>x. m = Inr x \<and> f x = Inl e)"
  by (cases m) auto

lemma rbind_assoc: "rbind (rbind m f) g = rbind m (\<lambda>x. rbind (f x) g)"
  by (cases m) auto

lemma rbind_Inr_right [simp]: "rbind m Inr = m"
  by (cases m) auto

lemma rassert_True [simp]: "rassert True r = r"
  and rassert_False [simp]: "rassert False r = Inl AssertFail"
  by (simp_all add: rassert_def)

lemma rassert_eq_Inr [res_simps]: "rassert b r = Inr y \<longleftrightarrow> b \<and> r = Inr y"
  by (simp add: rassert_def)

lemma rassert_eq_Inl [res_simps]:
  "rassert b r = Inl e \<longleftrightarrow> (\<not> b \<and> e = AssertFail) \<or> (b \<and> r = Inl e)"
  by (auto simp: rassert_def)

lemma rfold_append: "rfold f s (xs @ ys) = rbind (rfold f s xs) (\<lambda>s'. rfold f s' ys)"
  by (induction xs arbitrary: s) (auto simp: rbind_assoc)

text \<open>An invariant kept by the loop body holds when the loop ends.\<close>

lemma rfold_invariant:
  assumes "rfold f s xs = Inr t" and "P s"
    and "\<And>s x s'. x \<in> set xs \<Longrightarrow> P s \<Longrightarrow> f s x = Inr s' \<Longrightarrow> P s'"
  shows "P t"
  using assms
proof (induction xs arbitrary: s)
  case Nil
  then show ?case by simp
next
  case (Cons x xs)
  then obtain s' where "f s x = Inr s'" "rfold f s' xs = Inr t"
    by (auto simp: res_simps)
  with Cons show ?case by (metis list.set_intros)
qed

lemma rmap_Inr_map: "(\<And>x. x \<in> set xs \<Longrightarrow> f x = Inr (g x)) \<Longrightarrow> rmap f xs = Inr (map g xs)"
  by (induction xs) auto

lemma rmap_eq_Inr: "rmap f xs = Inr ys \<longleftrightarrow> list_all2 (\<lambda>x y. f x = Inr y) xs ys"
  by (induction xs arbitrary: ys) (auto simp: res_simps list_all2_Cons1)

lemma rmap_length: "rmap f xs = Inr ys \<Longrightarrow> length ys = length xs"
  by (simp add: rmap_eq_Inr list_all2_lengthD)

lemma nth_res_Inr [simp]: "i < length xs \<Longrightarrow> nth_res xs i = Inr (xs ! i)"
  by (simp add: nth_res_def)

lemma nth_res_eq_Inr [res_simps]: "nth_res xs i = Inr x \<longleftrightarrow> i < length xs \<and> xs ! i = x"
  by (auto simp: nth_res_def)

section \<open>\<open>std::map\<close>\<close>

text \<open>
  A \<open>std::map\<close> is the list of its pairs in the order its iterator visits them: strictly
  ascending by key. \<open>om_set\<close> is \<open>m[k] = v\<close>, \<open>om_erase\<close> is \<open>m.erase(k)\<close>, lookup is \<open>map_of\<close>.
\<close>

type_synonym ('k, 'v) omap = "('k \<times> 'v) list"

definition om_inv :: "('k::linorder, 'v) omap \<Rightarrow> bool" where
  "om_inv m \<longleftrightarrow> sorted_wrt (<) (map fst m)"

fun om_set :: "'k::linorder \<Rightarrow> 'v \<Rightarrow> ('k, 'v) omap \<Rightarrow> ('k, 'v) omap" where
  "om_set k v [] = [(k, v)]"
| "om_set k v (p # m) =
     (if k < fst p then (k, v) # p # m else if k = fst p then (k, v) # m else p # om_set k v m)"

definition om_erase :: "'k \<Rightarrow> ('k, 'v) omap \<Rightarrow> ('k, 'v) omap" where
  "om_erase k m = filter (\<lambda>p. fst p \<noteq> k) m"

definition om_keys :: "('k, 'v) omap \<Rightarrow> 'k list" where
  "om_keys m = map fst m"

text \<open>\<open>m[k]\<close> on the right of an assignment: inserts the default value when \<open>k\<close> is absent.\<close>

definition om_touch :: "'k::linorder \<Rightarrow> 'v \<Rightarrow> ('k, 'v) omap \<Rightarrow> ('k, 'v) omap" where
  "om_touch k dflt m = (if map_of m k = None then om_set k dflt m else m)"

lemma map_of_om_set: "map_of (om_set k v m) = (map_of m)(k \<mapsto> v)"
  by (induction m) (auto simp: fun_eq_iff)

lemma map_of_om_erase: "map_of (om_erase k m) = (map_of m)(k := None)"
  by (induction m) (auto simp: fun_eq_iff om_erase_def)

lemma fst_set_om_set: "fst ` set (om_set k v m) = insert k (fst ` set m)"
  by (induction m) auto

lemma om_inv_Nil: "om_inv []"
  by (simp add: om_inv_def)

lemma om_inv_set: "om_inv m \<Longrightarrow> om_inv (om_set k v m)"
  by (induction m) (auto simp: om_inv_def fst_set_om_set[simplified])

lemma om_inv_erase: "om_inv m \<Longrightarrow> om_inv (om_erase k m)"
  unfolding om_inv_def om_erase_def by (induction m) auto

lemma om_inv_distinct: "om_inv m \<Longrightarrow> distinct (map fst m)"
  by (simp add: om_inv_def strict_sorted_iff)

lemma om_inv_map_of: "om_inv m \<Longrightarrow> map_of m k = Some v \<longleftrightarrow> (k, v) \<in> set m"
  by (simp add: om_inv_distinct)

lemma om_inv_touch: "om_inv m \<Longrightarrow> om_inv (om_touch k v m)"
  by (simp add: om_touch_def om_inv_set)

lemma map_of_om_touch:
  "map_of (om_touch k d m) = (if map_of m k = None then (map_of m)(k \<mapsto> d) else map_of m)"
  by (simp add: om_touch_def map_of_om_set)

lemma om_ext:
  assumes "om_inv m" "om_inv m'" "map_of m = map_of m'"
  shows "m = m'"
proof -
  have keys: "distinct (map fst m)" "distinct (map fst m')"
    using assms by (simp_all add: om_inv_distinct)
  then have "set m = set m'"
    by (metis assms(3) set_map_of_compr)
  then have "set (map fst m) = set (map fst m')" by simp
  then have fst_eq: "map fst m = map fst m'"
    using assms by (auto simp: om_inv_def intro: strict_sorted_equal)
  show ?thesis
  proof (rule nth_equalityI)
    show "length m = length m'" using fst_eq by (metis length_map)
    fix i assume i: "i < length m"
    then have i': "i < length m'" using fst_eq by (metis length_map)
    have "map_of m (fst (m ! i)) = Some (snd (m ! i))"
      using keys(1) i by simp
    moreover have "map_of m' (fst (m' ! i)) = Some (snd (m' ! i))"
      using keys(2) i' by simp
    moreover have "fst (m ! i) = fst (m' ! i)"
      using fst_eq i i' by (metis nth_map)
    ultimately show "m ! i = m' ! i"
      using assms(3) by (metis option.inject prod.expand)
  qed
qed

section \<open>The map interface\<close>

text \<open>
  What the clients of \<open>std::map\<close> rely on: lookups after updates, the iteration order, and that
  the operations keep the representation invariant.
\<close>

locale std_map =
  fixes find :: "'m \<Rightarrow> 'k::linorder \<Rightarrow> 'v option"
    and put :: "'k \<Rightarrow> 'v \<Rightarrow> 'm \<Rightarrow> 'm"
    and drop :: "'k \<Rightarrow> 'm \<Rightarrow> 'm"
    and keys :: "'m \<Rightarrow> 'k list"
    and inv :: "'m \<Rightarrow> bool"
  assumes find_put: "inv m \<Longrightarrow> find (put k v m) k' = (if k' = k then Some v else find m k')"
    and find_drop: "inv m \<Longrightarrow> find (drop k m) k' = (if k' = k then None else find m k')"
    and inv_put: "inv m \<Longrightarrow> inv (put k v m)"
    and inv_drop: "inv m \<Longrightarrow> inv (drop k m)"
    and keys_find: "inv m \<Longrightarrow> k \<in> set (keys m) \<longleftrightarrow> find m k \<noteq> None"
    and keys_sorted: "inv m \<Longrightarrow> sorted_wrt (<) (keys m)"
begin

lemma keys_put: "inv m \<Longrightarrow> set (keys (put k v m)) = insert k (set (keys m))"
  by (rule set_eqI) (simp add: keys_find inv_put find_put)

lemma keys_drop: "inv m \<Longrightarrow> set (keys (drop k m)) = set (keys m) - {k}"
  by (rule set_eqI) (simp add: keys_find inv_drop find_drop)

lemma keys_distinct: "inv m \<Longrightarrow> distinct (keys m)"
  using keys_sorted strict_sorted_iff by blast

text \<open>Renaming a key: \<open>m[new] = m[old]; m.erase(old)\<close>.\<close>

lemma find_rename:
  assumes "inv m" "old \<noteq> new"
  shows "find (drop old (put new v m)) k
    = (if k = old then None else if k = new then Some v else find m k)"
  using assms by (simp add: find_drop inv_put find_put)

lemma find_put_all:
  assumes "inv m" and "distinct (map fst ps)"
  shows "find (fold (\<lambda>p. put (fst p) (snd p)) ps m) k
    = (case map_of ps k of None \<Rightarrow> find m k | Some v \<Rightarrow> Some v)"
  using assms
proof (induction ps arbitrary: m)
  case Nil
  then show ?case by simp
next
  case (Cons p ps)
  then have "map_of ps (fst p) = None"
    by (simp add: map_of_eq_None_iff)
  with Cons show ?case
    by (auto simp: inv_put find_put split: option.splits)
qed

end

interpretation om: std_map map_of om_set om_erase om_keys om_inv
proof unfold_locales
  fix m :: "('a, 'b) omap" and k
  assume "om_inv m"
  then show "sorted_wrt (<) (om_keys m)" by (simp add: om_keys_def om_inv_def)
qed (simp_all add: map_of_om_set map_of_om_erase om_inv_set om_inv_erase om_keys_def
      map_of_eq_None_iff)

section \<open>Sorted sets and \<open>sort_uniq\<close>\<close>

text \<open>\<open>std::set::insert\<close> on the sorted list of the set's elements.\<close>

fun ss_insert :: "'a::linorder \<Rightarrow> 'a list \<Rightarrow> 'a list" where
  "ss_insert x [] = [x]"
| "ss_insert x (y # ys) =
     (if x < y then x # y # ys else if x = y then y # ys else y # ss_insert x ys)"

definition ss_erase :: "'a \<Rightarrow> 'a list \<Rightarrow> 'a list" where
  "ss_erase x xs = filter (\<lambda>y. y \<noteq> x) xs"

definition sset :: "'a::linorder list \<Rightarrow> bool" where
  "sset xs \<longleftrightarrow> sorted_wrt (<) xs"

lemma set_ss_insert [simp]: "set (ss_insert x xs) = insert x (set xs)"
  by (induction xs) auto

lemma sset_insert [simp]: "sset xs \<Longrightarrow> sset (ss_insert x xs)"
  by (induction xs) (auto simp: sset_def)

lemma set_ss_erase [simp]: "set (ss_erase x xs) = set xs - {x}"
  by (auto simp: ss_erase_def)

lemma sset_erase [simp]: "sset xs \<Longrightarrow> sset (ss_erase x xs)"
  by (simp add: sset_def ss_erase_def sorted_wrt_filter)

lemma sset_Nil [simp]: "sset []"
  by (simp add: sset_def)

lemma sset_fold_insert: "sset xs \<Longrightarrow> sset (fold ss_insert ys xs)"
  by (induction ys arbitrary: xs) auto

lemma set_fold_insert: "set (fold ss_insert ys xs) = set ys \<union> set xs"
  by (induction ys arbitrary: xs) auto

lemma sset_fold_erase: "sset xs \<Longrightarrow> sset (fold ss_erase ys xs)"
  by (induction ys arbitrary: xs) auto

lemma set_fold_erase: "set (fold ss_erase ys xs) = set xs - set ys"
  by (induction ys arbitrary: xs) auto

lemma sset_unique: "sset xs \<Longrightarrow> sset ys \<Longrightarrow> set xs = set ys \<Longrightarrow> xs = ys"
  unfolding sset_def by (rule strict_sorted_equal) auto

text \<open>\<open>std::unique\<close> followed by the resize: drops every element equal to the one before it.\<close>

fun uniq :: "'a list \<Rightarrow> 'a list" where
  "uniq (x # y # xs) = (if x = y then uniq (y # xs) else x # uniq (y # xs))"
| "uniq xs = xs"

lemma set_uniq [simp]: "set (uniq xs) = set xs"
  by (induction xs rule: uniq.induct) auto

lemma sset_uniq: "sorted xs \<Longrightarrow> sset (uniq xs)"
  by (induction xs rule: uniq.induct) (auto simp: sset_def)

lemma uniq_sset: "sset xs \<Longrightarrow> uniq xs = xs"
  by (induction xs rule: uniq.induct) (auto simp: sset_def)

lemma sset_imp_sorted: "sset xs \<Longrightarrow> sorted xs"
  by (simp add: sset_def strict_sorted_iff)

section \<open>Lists\<close>

lemma find_None_iff_all: "find P xs = None \<longleftrightarrow> (\<forall>x\<in>set xs. \<not> P x)"
  by (auto simp: find_None_iff)

lemma find_SomeD: "find P xs = Some x \<Longrightarrow> x \<in> set xs \<and> P x"
  by (auto simp: find_Some_iff)

end
