(* ===== verification/OptString.thy ===== *)
theory OptString
  imports StupPrelude
begin

text \<open>
  \<open>gtpo/optstring.cpp\<close>: a string or null. The record keeps the class's two fields; \<open>os_view\<close> is
  the value it stands for, and the comparison operators are shown to be those of that value.
\<close>

record opt_string =
  m_isNull :: bool
  m_string :: string

text \<open>The constructors: from a C string that may be null, from \<open>nullptr\<close>, from a string, by copy.\<close>

definition os_of_cstr :: "string option \<Rightarrow> opt_string" where
  "os_of_cstr s = (case s of
      Some str \<Rightarrow> \<lparr>m_isNull = False, m_string = str\<rparr>
    | None \<Rightarrow> \<lparr>m_isNull = True, m_string = []\<rparr>)"

definition os_nullptr :: opt_string where
  "os_nullptr = \<lparr>m_isNull = True, m_string = []\<rparr>"

definition os_of_string :: "string \<Rightarrow> opt_string" where
  "os_of_string s = \<lparr>m_isNull = False, m_string = s\<rparr>"

definition os_copy :: "opt_string \<Rightarrow> opt_string" where
  "os_copy s = \<lparr>m_isNull = m_isNull s, m_string = m_string s\<rparr>"

definition os_isNull :: "opt_string \<Rightarrow> bool" where
  "os_isNull s = m_isNull s"

definition os_empty :: "opt_string \<Rightarrow> bool" where
  "os_empty s \<longleftrightarrow> \<not> os_isNull s \<and> m_string s = []"

definition os_to_string :: "opt_string \<Rightarrow> string res" where
  "os_to_string s = (if m_isNull s then Inl (Throw NullStringException) else Inr (m_string s))"

definition os_eq :: "opt_string \<Rightarrow> opt_string \<Rightarrow> bool" where
  "os_eq s t \<longleftrightarrow> (os_isNull s \<and> os_isNull t)
    \<or> (\<not> os_isNull s \<and> \<not> os_isNull t \<and> m_string s = m_string t)"

definition os_less :: "opt_string \<Rightarrow> opt_string \<Rightarrow> bool" where
  "os_less s t = (if os_isNull t then False else if os_isNull s then True
    else m_string s < m_string t)"

text \<open>The characters \<open>c_str()\<close> points to when it returns.\<close>

definition os_c_str :: "opt_string \<Rightarrow> string res" where
  "os_c_str s = os_to_string s"

definition os_setNull :: "opt_string \<Rightarrow> opt_string" where
  "os_setNull s = s\<lparr>m_isNull := True, m_string := []\<rparr>"

definition os_print :: "opt_string \<Rightarrow> string res" where
  "os_print s = (if os_isNull s then Inr ''(null)'' else os_to_string s)"

section \<open>The value\<close>

definition os_view :: "opt_string \<Rightarrow> string option" where
  "os_view s = (if m_isNull s then None else Some (m_string s))"

lemmas os_defs = os_of_cstr_def os_nullptr_def os_of_string_def os_copy_def os_isNull_def
  os_empty_def os_to_string_def os_c_str_def os_setNull_def os_print_def

lemma os_view_new [simp]:
  "os_view (os_of_cstr c) = c" "os_view os_nullptr = None" "os_view (os_of_string s) = Some s"
  "os_view (os_copy x) = os_view x" "os_view (os_setNull x) = None"
  by (auto simp: os_view_def os_defs split: option.splits)

lemma os_eq_iff [simp]: "os_eq s t \<longleftrightarrow> os_view s = os_view t"
  by (auto simp: os_eq_def os_view_def os_isNull_def)

lemma os_isNull_iff [simp]: "os_isNull s \<longleftrightarrow> os_view s = None"
  by (simp add: os_isNull_def os_view_def)

lemma os_empty_iff [simp]: "os_empty s \<longleftrightarrow> os_view s = Some []"
  by (auto simp: os_defs os_view_def)

lemma os_less_iff [simp]: "os_less s t \<longleftrightarrow> os_view s < os_view t"
  by (auto simp: os_less_def os_view_def os_isNull_def)

lemma os_to_string_view:
  "os_to_string s = (case os_view s of None \<Rightarrow> Inl (Throw NullStringException) | Some x \<Rightarrow> Inr x)"
  by (simp add: os_to_string_def os_view_def)

lemma os_c_str_view:
  "os_c_str s = (case os_view s of None \<Rightarrow> Inl (Throw NullStringException) | Some x \<Rightarrow> Inr x)"
  by (simp add: os_c_str_def os_to_string_view)

lemma os_view_of_fields [simp]:
  "os_view \<lparr>m_isNull = b, m_string = s\<rparr> = (if b then None else Some s)"
  by (simp add: os_view_def)

text \<open>
  The order is a strict total order on the strings and the null string.
\<close>

lemma opt_string_order:
  "os_eq a b \<longleftrightarrow> os_view a = os_view b"
  "\<not> os_less a a"
  "os_less a b \<longrightarrow> os_less b c \<longrightarrow> os_less a c"
  "os_less a b \<or> os_less b a \<or> os_eq a b"
  by (auto simp: neq_iff)

end
