(* ===== verification/Json.thy ===== *)
theory Json
  imports StupPrelude
begin

text \<open>
  JSON documents as the code builds them with \<open>rapidjson::PrettyWriter\<close> and reads them back from a
  \<open>rapidjson::Document\<close>: a tree. Writing a tree as text and parsing it is rapidjson's work and a
  parameter of the operations that use files. The accessors assert the type they read, as
  rapidjson's do; \<open>operator[]\<close> and \<open>HasMember\<close> look at the first member of that name.
\<close>

datatype json =
    JNull
  | JBool bool
  | JInt int
  | JNum string  \<comment> \<open>any other number, by its text\<close>
  | JStr string
  | JArr "json list"
  | JObj "(string \<times> json) list"

fun j_is_object :: "json \<Rightarrow> bool" where
  "j_is_object (JObj ms) = True"
| "j_is_object _ = False"

fun j_has :: "json \<Rightarrow> string \<Rightarrow> bool res" where
  "j_has (JObj ms) k = Inr (map_of ms k \<noteq> None)"
| "j_has _ k = Inl AssertFail"

fun j_get :: "json \<Rightarrow> string \<Rightarrow> json res" where
  "j_get (JObj ms) k = (case map_of ms k of Some v \<Rightarrow> Inr v | None \<Rightarrow> Inl AssertFail)"
| "j_get _ k = Inl AssertFail"

fun j_string :: "json \<Rightarrow> string res" where
  "j_string (JStr s) = Inr s"
| "j_string _ = Inl AssertFail"

fun j_bool :: "json \<Rightarrow> bool res" where
  "j_bool (JBool b) = Inr b"
| "j_bool _ = Inl AssertFail"

fun j_int :: "json \<Rightarrow> int res" where
  "j_int (JInt i) = Inr i"
| "j_int _ = Inl AssertFail"

fun j_array :: "json \<Rightarrow> json list res" where
  "j_array (JArr xs) = Inr xs"
| "j_array _ = Inl AssertFail"

definition j_member_if :: "json \<Rightarrow> string \<Rightarrow> json option res" where
  "j_member_if j k = rbind (j_has j k) (\<lambda>b. if b then rbind (j_get j k) (\<lambda>v. Inr (Some v)) else Inr None)"

lemma j_get_obj [simp]: "map_of ms k = Some v \<Longrightarrow> j_get (JObj ms) k = Inr v"
  by simp

lemma j_member_if_obj [simp]: "j_member_if (JObj ms) k = Inr (map_of ms k)"
  by (simp add: j_member_if_def split: option.split)

end
