(* ===== verification/Messages.thy ===== *)
theory Messages
  imports OptString Json
begin

text \<open>
  \<open>gtpo/messagetranslationbase.cpp\<close>, \<open>message.cpp\<close>, \<open>iddiffmessage.cpp\<close>, \<open>messageoriginaltext.cpp\<close>,
  \<open>messagegroup.cpp\<close> and the \<open>po_message_*\<close> helpers of \<open>gettextpo-helper.cpp\<close>: translations,
  the messages that carry them, and groups of translations of one original text.

  A class that derives from another is a record that extends another record. A \<open>po_message_t\<close> of
  libgettext-po is the record of what the library's accessors return for it.
\<close>

section \<open>A message as libgettext-po shows it\<close>

record po_message =
  po_msgctxt :: "string option"
  po_msgid :: string
  po_msgid_plural :: "string option"
  po_msgstr :: string
  po_plural_forms :: "string list"  \<comment> \<open>what \<open>po_message_msgstr_plural\<close> returns for 0, 1, ...\<close>
  po_fuzzy :: bool
  po_obsolete :: bool
  po_comments :: string
  po_extracted_comments :: "string option"
  po_filepos :: "(string \<times> int) list"  \<comment> \<open>file and start line; -1: no line\<close>
  po_formats :: "string list"
  po_range :: "(int \<times> int) option"

definition po_message_msgstr_plural :: "po_message \<Rightarrow> nat \<Rightarrow> string option" where
  "po_message_msgstr_plural m i =
     (if i < length (po_plural_forms m) then Some (po_plural_forms m ! i) else None)"

text \<open>\<open>for (i = 0; po_message_msgstr_plural(message, i); i ++);\<close>\<close>

function n_plurals_from :: "po_message \<Rightarrow> nat \<Rightarrow> nat" where
  "n_plurals_from m i =
     (case po_message_msgstr_plural m i of None \<Rightarrow> i | Some s \<Rightarrow> n_plurals_from m (Suc i))"
  by pat_completeness auto
termination
  by (relation "measure (\<lambda>(m, i). length (po_plural_forms m) - i)")
    (auto simp: po_message_msgstr_plural_def split: if_splits)

declare n_plurals_from.simps [simp del]

definition po_message_n_plurals :: "po_message \<Rightarrow> nat" where
  "po_message_n_plurals m = n_plurals_from m 0"

function all_forms_empty_from :: "po_message \<Rightarrow> nat \<Rightarrow> bool" where
  "all_forms_empty_from m i =
     (case po_message_msgstr_plural m i of
        None \<Rightarrow> True
      | Some s \<Rightarrow> if s \<noteq> [] then False else all_forms_empty_from m (Suc i))"
  by pat_completeness auto
termination
  by (relation "measure (\<lambda>(m, i). length (po_plural_forms m) - i)")
    (auto simp: po_message_msgstr_plural_def split: if_splits)

declare all_forms_empty_from.simps [simp del]

definition po_message_is_untranslated :: "po_message \<Rightarrow> bool" where
  "po_message_is_untranslated m =
     (case po_message_msgstr_plural m 0 of
        Some s \<Rightarrow> all_forms_empty_from m 0
      | None \<Rightarrow> po_msgstr m = [])"

text \<open>\<open>compare_po_message_msgstr\<close>: whether the two differ; it asserts the counts are equal.\<close>

function forms_differ_from :: "po_message \<Rightarrow> po_message \<Rightarrow> nat \<Rightarrow> nat \<Rightarrow> bool" where
  "forms_differ_from a b i n =
     (if i < n then
        (if po_message_msgstr_plural a i \<noteq> po_message_msgstr_plural b i then True
         else forms_differ_from a b (Suc i) n)
      else False)"
  by pat_completeness auto
termination
  by (relation "measure (\<lambda>(a, b, i, n). n - i)") auto

declare forms_differ_from.simps [simp del]

definition compare_po_message_msgstr :: "po_message \<Rightarrow> po_message \<Rightarrow> bool res" where
  "compare_po_message_msgstr a b =
     (let n = po_message_n_plurals a in
      rassert (n = po_message_n_plurals b)
        (if n > 0 then Inr (forms_differ_from a b 0 n) else Inr (po_msgstr a \<noteq> po_msgstr b)))"

lemma n_plurals_from_eq: "i \<le> length (po_plural_forms m) \<Longrightarrow> n_plurals_from m i = length (po_plural_forms m)"
  by (induction m i rule: n_plurals_from.induct)
    (subst n_plurals_from.simps, auto simp: po_message_msgstr_plural_def)

lemma po_message_n_plurals_eq [simp]: "po_message_n_plurals m = length (po_plural_forms m)"
  by (simp add: po_message_n_plurals_def n_plurals_from_eq)

lemma all_forms_empty_from_eq:
  "all_forms_empty_from m i \<longleftrightarrow> (\<forall>s\<in>set (List.drop i (po_plural_forms m)). s = [])"
proof (induction m i rule: all_forms_empty_from.induct)
  case (1 m i)
  show ?case
  proof (cases "i < length (po_plural_forms m)")
    case True
    then have "List.drop i (po_plural_forms m)
        = po_plural_forms m ! i # List.drop (Suc i) (po_plural_forms m)"
      by (simp add: Cons_nth_drop_Suc)
    with 1 True show ?thesis
      by (subst all_forms_empty_from.simps) (auto simp: po_message_msgstr_plural_def)
  next
    case False
    then show ?thesis
      by (subst all_forms_empty_from.simps) (simp add: po_message_msgstr_plural_def)
  qed
qed

lemma po_message_is_untranslated_iff:
  "po_message_is_untranslated m \<longleftrightarrow>
     (if po_plural_forms m = [] then po_msgstr m = [] else \<forall>s\<in>set (po_plural_forms m). s = [])"
  by (auto simp: po_message_is_untranslated_def po_message_msgstr_plural_def
      all_forms_empty_from_eq)

section \<open>\<open>MessageTranslationBase\<close>\<close>

record translation =
  m_plural :: bool
  m_fuzzy :: bool
  m_msgstr :: "opt_string list"

definition mtb_empty :: translation where
  "mtb_empty = \<lparr>m_plural = False, m_fuzzy = False, m_msgstr = []\<rparr>"

definition numPlurals :: "'a translation_scheme \<Rightarrow> nat" where
  "numPlurals m = length (m_msgstr m)"

definition isPlural :: "'a translation_scheme \<Rightarrow> bool" where
  "isPlural m = m_plural m"

definition isFuzzy :: "'a translation_scheme \<Rightarrow> bool" where
  "isFuzzy m = m_fuzzy m"

definition msgstr :: "'a translation_scheme \<Rightarrow> nat \<Rightarrow> opt_string res" where
  "msgstr m i = rassert (i < length (m_msgstr m)) (Inr (m_msgstr m ! i))"

definition setMsgstr :: "'a translation_scheme \<Rightarrow> nat \<Rightarrow> opt_string \<Rightarrow> 'a translation_scheme res" where
  "setMsgstr m i s = rassert (i < length (m_msgstr m))
     (rassert (os_isNull (m_msgstr m ! i)) (Inr (m\<lparr>m_msgstr := (m_msgstr m)[i := s]\<rparr>)))"

text \<open>The constructor from a \<open>po_message_t\<close>.\<close>

definition mtb_of_po :: "po_message \<Rightarrow> translation res" where
  "mtb_of_po pm =
     (let n0 = po_message_n_plurals pm;
          plural = (n0 > 0);
          n = (if n0 < 1 then 1 else n0);
          m0 = \<lparr>m_plural = plural, m_fuzzy = False, m_msgstr = replicate n os_nullptr\<rparr>
      in rbind
           (rfold (\<lambda>m i.
              if plural then setMsgstr m i (os_of_cstr (po_message_msgstr_plural pm i))
              else rassert (i = 0) (setMsgstr m i (os_of_cstr (Some (po_msgstr pm)))))
              m0 [0..<n])
           (\<lambda>m. Inr (m\<lparr>m_fuzzy := po_fuzzy pm\<rparr>)))"

text \<open>\<open>std::vector<OptString>::operator==\<close> compares the lengths, then element by element.\<close>

definition equalMsgstr :: "'a translation_scheme \<Rightarrow> 'b translation_scheme \<Rightarrow> bool" where
  "equalMsgstr a b = (if numPlurals a \<noteq> numPlurals b then False
     else list_all2 os_eq (m_msgstr a) (m_msgstr b))"

definition equalTranslations :: "'a translation_scheme \<Rightarrow> 'b translation_scheme \<Rightarrow> bool" where
  "equalTranslations a b \<longleftrightarrow> equalMsgstr a b \<and> m_fuzzy a = m_fuzzy b"

definition mtb_isUntranslated :: "'a translation_scheme \<Rightarrow> bool" where
  "mtb_isUntranslated m = list_all os_empty (m_msgstr m)"

text \<open>\<open>formatString\<close>: quotes a string; a control character other than newline and tab aborts.\<close>

fun escape_chars :: "string \<Rightarrow> string res" where
  "escape_chars [] = Inr []"
| "escape_chars (c # cs) =
     rbind
       (if c = CHR 0x22 then Inr [CHR 0x5C, CHR 0x22]
        else if c = CHR 0x5C then Inr [CHR 0x5C, CHR 0x5C]
        else if c = CHR 0x0A then Inr [CHR 0x5C, CHR ''n'']
        else if c = CHR 0x09 then Inr [CHR 0x5C, CHR ''t'']
        else if c < CHR '' '' then Inl AssertFail
        else Inr [c])
       (\<lambda>e. rbind (escape_chars cs) (\<lambda>es. Inr (e @ es)))"

definition formatString :: "string \<Rightarrow> string res" where
  "formatString s = rbind (escape_chars s) (\<lambda>e. Inr ([CHR 0x22] @ e @ [CHR 0x22]))"

definition format_form :: "'a translation_scheme \<Rightarrow> nat \<Rightarrow> string res" where
  "format_form m i = rbind (msgstr m i) (\<lambda>s. rbind (os_to_string s) formatString)"

definition formatPoMessage :: "'a translation_scheme \<Rightarrow> string res" where
  "formatPoMessage m = rassert (numPlurals m > 0)
     (rbind (format_form m 0) (\<lambda>f0.
        rfold (\<lambda>res i. rbind (format_form m i) (\<lambda>f. Inr (res @ '' '' @ f)))
          ((if isFuzzy m then ''f'' else []) @ f0) [1..<numPlurals m]))"

text \<open>The object \<open>writeJson\<close> writes.\<close>

definition mtb_writeJson :: "'a translation_scheme \<Rightarrow> json res" where
  "mtb_writeJson m = rassert (numPlurals m > 0)
     (rbind (rmap (\<lambda>i. rbind (msgstr m i) os_c_str) [0..<numPlurals m])
        (\<lambda>forms. Inr (JObj [(''fuzzy'', JBool (isFuzzy m)), (''msgstr'', JArr (map JStr forms))])))"

text \<open>What a translation says: its forms, each a string or null.\<close>

definition mt_view :: "'a translation_scheme \<Rightarrow> string option list" where
  "mt_view m = map os_view (m_msgstr m)"

lemma equalMsgstr_iff [simp]: "equalMsgstr a b \<longleftrightarrow> mt_view a = mt_view b"
proof -
  have "list_all2 os_eq xs ys \<longleftrightarrow> map os_view xs = map os_view ys" for xs ys
    by (auto simp: list_all2_conv_all_nth list_eq_iff_nth_eq)
  moreover have "mt_view a = mt_view b \<Longrightarrow> numPlurals a = numPlurals b"
    unfolding mt_view_def numPlurals_def by (metis length_map)
  ultimately show ?thesis
    by (auto simp: equalMsgstr_def mt_view_def)
qed

lemma numPlurals_view: "numPlurals m = length (mt_view m)"
  by (simp add: numPlurals_def mt_view_def)

lemma mtb_isUntranslated_iff: "mtb_isUntranslated m \<longleftrightarrow> (\<forall>s\<in>set (mt_view m). s = Some [])"
  by (simp add: mtb_isUntranslated_def mt_view_def list_all_iff)

lemma msgstr_view: "i < numPlurals m \<Longrightarrow> \<exists>s. msgstr m i = Inr s \<and> os_view s = mt_view m ! i"
  by (simp add: msgstr_def numPlurals_def mt_view_def)

text \<open>The constructor never fails, and reads the forms libgettext-po has.\<close>

lemma set_forms_loop:
  assumes "n = length (m_msgstr m)" "k \<le> n" "\<forall>i\<in>{k..<n}. os_view (m_msgstr m ! i) = None"
  shows "rfold (\<lambda>m i. setMsgstr m i (f i)) m [k..<n]
    = Inr (m\<lparr>m_msgstr := take k (m_msgstr m) @ map f [k..<n]\<rparr>)"
  using assms
proof (induction "n - k" arbitrary: k m)
  case 0
  then show ?case by simp
next
  case (Suc d)
  then have k: "k < n" by simp
  let ?m = "m\<lparr>m_msgstr := (m_msgstr m)[k := f k]\<rparr>"
  have step: "setMsgstr m k (f k) = Inr ?m"
    using Suc.prems k by (simp add: setMsgstr_def)
  have "rfold (\<lambda>m i. setMsgstr m i (f i)) ?m [Suc k..<n]
    = Inr (?m\<lparr>m_msgstr := take (Suc k) (m_msgstr ?m) @ map f [Suc k..<n]\<rparr>)"
    using Suc k by (intro Suc.hyps(1)) auto
  moreover have "take (Suc k) ((m_msgstr m)[k := f k]) = take k (m_msgstr m) @ [f k]"
    using k Suc.prems by (simp add: take_Suc_conv_app_nth)
  ultimately show ?case
    using k step by (simp add: upt_conv_Cons)
qed

lemma mtb_of_po_eq:
  "mtb_of_po pm = Inr \<lparr>m_plural = po_plural_forms pm \<noteq> [], m_fuzzy = po_fuzzy pm,
     m_msgstr = map (\<lambda>s. os_of_cstr (Some s))
       (if po_plural_forms pm = [] then [po_msgstr pm] else po_plural_forms pm)\<rparr>"
proof (cases "po_plural_forms pm = []")
  case True
  then show ?thesis
    by (simp add: mtb_of_po_def setMsgstr_def Let_def)
next
  case False
  let ?l = "po_plural_forms pm"
  from False have n: "\<not> length ?l < 1" by (cases ?l) auto
  let ?m0 = "\<lparr>m_plural = True, m_fuzzy = False, m_msgstr = replicate (length ?l) os_nullptr\<rparr>"
  have "rfold (\<lambda>m i. setMsgstr m i (os_of_cstr (po_message_msgstr_plural pm i))) ?m0 [0..<length ?l]
    = Inr (?m0\<lparr>m_msgstr := take 0 (m_msgstr ?m0)
        @ map (\<lambda>i. os_of_cstr (po_message_msgstr_plural pm i)) [0..<length ?l]\<rparr>)"
    by (rule set_forms_loop) auto
  moreover have "map (\<lambda>i. os_of_cstr (po_message_msgstr_plural pm i)) [0..<length ?l]
    = map (\<lambda>s. os_of_cstr (Some s)) ?l"
    by (rule nth_equalityI) (auto simp: po_message_msgstr_plural_def)
  ultimately show ?thesis
    using False n by (simp add: mtb_of_po_def Let_def)
qed

text \<open>A message with forms, none of them null, is written with all of them.\<close>

lemma mtb_writeJson_cases:
  "mtb_writeJson m = (if m_msgstr m = [] then Inl AssertFail
     else if \<forall>s\<in>set (m_msgstr m). \<not> m_isNull s
       then Inr (JObj [(''fuzzy'', JBool (m_fuzzy m)), (''msgstr'', JArr (map (JStr \<circ> m_string) (m_msgstr m)))])
     else Inl (Throw NullStringException))"
proof -
  have fold: "rmap (\<lambda>i. rbind (msgstr m i) os_c_str) [k..<length (m_msgstr m)]
    = (if \<forall>s\<in>set (List.drop k (m_msgstr m)). \<not> m_isNull s
       then Inr (map m_string (List.drop k (m_msgstr m))) else Inl (Throw NullStringException))"
    if "k \<le> length (m_msgstr m)" for k
    using that
  proof (induction "length (m_msgstr m) - k" arbitrary: k)
    case 0
    then show ?case by simp
  next
    case (Suc d)
    then have k: "k < length (m_msgstr m)" by simp
    then have "[k..<length (m_msgstr m)] = k # [Suc k..<length (m_msgstr m)]"
      "List.drop k (m_msgstr m) = m_msgstr m ! k # List.drop (Suc k) (m_msgstr m)"
      by (simp_all add: upt_conv_Cons Cons_nth_drop_Suc)
    with k Suc show ?case by (auto simp: msgstr_def os_c_str_def os_to_string_def)
  qed
  show ?thesis
    using fold[of 0] by (auto simp: mtb_writeJson_def numPlurals_def isFuzzy_def)
qed

end
