(* ===== verification/PoMessages.thy ===== *)
theory PoMessages
  imports Messages
begin

text \<open>
  \<open>gtpo/message.cpp\<close>, \<open>iddiffmessage.cpp\<close>, \<open>messageoriginaltext.cpp\<close>, \<open>messagegroup.cpp\<close>.
  An \<open>IddiffMessage\<close> has no field of its own, so it is a \<open>translation\<close>; a \<open>Message\<close> extends it.
\<close>

section \<open>\<open>Message\<close>\<close>

record message = translation +
  m_obsolete :: bool
  m_untranslated :: bool
  m_msgcomments :: opt_string
  m_index :: int
  m_filename :: string
  m_edited :: bool

definition message_of_base :: "translation \<Rightarrow> int \<Rightarrow> string \<Rightarrow> opt_string \<Rightarrow> message" where
  "message_of_base t index filename comments =
     translation.extend t \<lparr>m_obsolete = False, m_untranslated = False, m_msgcomments = comments,
       m_index = index, m_filename = filename, m_edited = False\<rparr>"

definition setMsgcomments :: "message \<Rightarrow> string \<Rightarrow> message res" where
  "setMsgcomments m s = rassert (os_isNull (m_msgcomments m))
     (Inr (m\<lparr>m_msgcomments := os_of_string s\<rparr>))"

definition message_copy :: "message \<Rightarrow> message" where
  "message_copy m = \<lparr>m_plural = m_plural m, m_fuzzy = m_fuzzy m, m_msgstr = m_msgstr m,
     m_obsolete = m_obsolete m, m_untranslated = m_untranslated m,
     m_msgcomments = m_msgcomments m, m_index = m_index m, m_filename = m_filename m,
     m_edited = m_edited m\<rparr>"

definition message_of_po :: "po_message \<Rightarrow> int \<Rightarrow> string \<Rightarrow> message res" where
  "message_of_po pm index filename =
     rbind (mtb_of_po pm) (\<lambda>t.
       setMsgcomments
         ((message_of_base t index filename os_nullptr)
            \<lparr>m_obsolete := po_obsolete pm, m_untranslated := po_message_is_untranslated pm\<rparr>)
         (po_comments pm))"

definition message_of_msgstr0 :: "bool \<Rightarrow> string \<Rightarrow> string \<Rightarrow> int \<Rightarrow> message res" where
  "message_of_msgstr0 fuzzy msgcomment msgstr0 n_plurals =
     rbind (setMsgcomments ((message_of_base mtb_empty (-1) [] os_nullptr)\<lparr>m_fuzzy := fuzzy\<rparr>)
              msgcomment)
       (\<lambda>m. rassert (n_plurals = 0 \<or> n_plurals = 1)
          (Inr (m\<lparr>m_plural := n_plurals > 0, m_msgstr := m_msgstr m @ [os_of_string msgstr0]\<rparr>)))"

definition message_of_counts :: "bool \<Rightarrow> int \<Rightarrow> string \<Rightarrow> message" where
  "message_of_counts fuzzy n_plurals msgcomment =
     (message_of_base mtb_empty (-1) [] (os_of_string msgcomment))
       \<lparr>m_fuzzy := fuzzy, m_plural := n_plurals > 0\<rparr>"

text \<open>\<open>Message\<close> overrides the virtual \<open>isUntranslated\<close>; \<open>isTranslated\<close> uses the override.\<close>

definition msg_isUntranslated :: "message \<Rightarrow> bool" where
  "msg_isUntranslated m = m_untranslated m"

definition msg_isTranslated :: "message \<Rightarrow> bool" where
  "msg_isTranslated m \<longleftrightarrow> \<not> isFuzzy m \<and> \<not> msg_isUntranslated m"

definition isEdited :: "message \<Rightarrow> bool" where
  "isEdited m = m_edited m"

definition editFuzzy :: "message \<Rightarrow> bool \<Rightarrow> message" where
  "editFuzzy m fuzzy = (if fuzzy = m_fuzzy m then m else m\<lparr>m_fuzzy := fuzzy, m_edited := True\<rparr>)"

definition editMsgstr :: "message \<Rightarrow> nat \<Rightarrow> opt_string \<Rightarrow> message res" where
  "editMsgstr m i s = rassert (i < numPlurals m)
     (rassert (\<not> os_isNull (m_msgstr m ! i))
        (Inr (if os_eq (m_msgstr m ! i) s then m
              else m\<lparr>m_msgstr := (m_msgstr m)[i := s], m_edited := True\<rparr>)))"

definition editMsgcomments :: "message \<Rightarrow> opt_string \<Rightarrow> message" where
  "editMsgcomments m s = (if os_eq (m_msgcomments m) s then m
     else m\<lparr>m_msgcomments := s, m_edited := True\<rparr>)"

definition equalTranslationsComments :: "message \<Rightarrow> message \<Rightarrow> bool res" where
  "equalTranslationsComments m o' = rassert (m_plural m = isPlural o')
     (Inr (equalTranslations m o' \<and> os_eq (m_msgcomments m) (m_msgcomments o')))"

definition msg_clearTranslation :: "message \<Rightarrow> message res" where
  "msg_clearTranslation m =
     rbind (rfold (\<lambda>m i. editMsgstr m i os_nullptr) m [0..<numPlurals m])
       (\<lambda>m. Inr (m\<lparr>m_untranslated := True, m_edited := True\<rparr>))"

section \<open>\<open>IddiffMessage\<close>\<close>

definition im_of_message :: "message \<Rightarrow> translation" where
  "im_of_message m = translation.truncate m"

definition addMsgstr :: "translation \<Rightarrow> opt_string \<Rightarrow> translation" where
  "addMsgstr m s = m\<lparr>m_msgstr := m_msgstr m @ [s]\<rparr>"

definition setFuzzy :: "translation \<Rightarrow> bool \<Rightarrow> translation" where
  "setFuzzy m f = m\<lparr>m_fuzzy := f\<rparr>"

definition copyTranslationsToMessage :: "translation \<Rightarrow> message \<Rightarrow> message res" where
  "copyTranslationsToMessage t m = rassert (numPlurals t = numPlurals m)
     (rfold (\<lambda>m i. rbind (msgstr t i) (\<lambda>s. editMsgstr m i s)) m [0..<numPlurals t])"

definition im_isTranslated :: "translation \<Rightarrow> bool" where
  "im_isTranslated m \<longleftrightarrow> \<not> isFuzzy m \<and> \<not> mtb_isUntranslated m"

section \<open>\<open>MessageOriginalText\<close> and \<open>MessageGroup\<close>\<close>

record orig_text =
  m_msgid :: opt_string
  m_msgidPlural :: opt_string
  m_msgctxt :: opt_string

definition orig_empty :: orig_text where
  "orig_empty = \<lparr>m_msgid = os_nullptr, m_msgidPlural = os_nullptr, m_msgctxt = os_nullptr\<rparr>"

definition orig_of_po :: "po_message \<Rightarrow> orig_text" where
  "orig_of_po pm = \<lparr>m_msgid = os_of_cstr (Some (po_msgid pm)),
     m_msgidPlural = os_of_cstr (po_msgid_plural pm), m_msgctxt = os_of_cstr (po_msgctxt pm)\<rparr>"

definition setMsgid :: "'a orig_text_scheme \<Rightarrow> string \<Rightarrow> 'a orig_text_scheme res" where
  "setMsgid t s = rassert (os_isNull (m_msgid t)) (Inr (t\<lparr>m_msgid := os_of_string s\<rparr>))"

definition setMsgidPlural :: "'a orig_text_scheme \<Rightarrow> string \<Rightarrow> 'a orig_text_scheme res" where
  "setMsgidPlural t s =
     rassert (os_isNull (m_msgidPlural t)) (Inr (t\<lparr>m_msgidPlural := os_of_string s\<rparr>))"

definition setMsgctxt :: "'a orig_text_scheme \<Rightarrow> string \<Rightarrow> 'a orig_text_scheme res" where
  "setMsgctxt t s = rassert (os_isNull (m_msgctxt t)) (Inr (t\<lparr>m_msgctxt := os_of_string s\<rparr>))"

definition get_msgidPlural :: "'a orig_text_scheme \<Rightarrow> opt_string res" where
  "get_msgidPlural t = rassert (\<not> os_isNull (m_msgid t)) (Inr (m_msgidPlural t))"

definition get_msgctxt :: "'a orig_text_scheme \<Rightarrow> opt_string res" where
  "get_msgctxt t = rassert (\<not> os_isNull (m_msgid t)) (Inr (m_msgctxt t))"

definition orig_eq :: "'a orig_text_scheme \<Rightarrow> 'b orig_text_scheme \<Rightarrow> bool" where
  "orig_eq a b \<longleftrightarrow> os_eq (m_msgid a) (m_msgid b) \<and> os_eq (m_msgidPlural a) (m_msgidPlural b)
     \<and> os_eq (m_msgctxt a) (m_msgctxt b)"

text \<open>
  \<open>std::tuple\<close>'s \<open><\<close>: the first component that differs decides, and two components are the same
  when neither is less than the other.
\<close>

definition orig_less :: "'a orig_text_scheme \<Rightarrow> 'b orig_text_scheme \<Rightarrow> bool" where
  "orig_less a b =
     (if os_less (m_msgctxt a) (m_msgctxt b) then True
      else if os_less (m_msgctxt b) (m_msgctxt a) then False
      else if os_less (m_msgid a) (m_msgid b) then True
      else if os_less (m_msgid b) (m_msgid a) then False
      else os_less (m_msgidPlural a) (m_msgidPlural b))"

record message_group = orig_text +
  m_messages :: "message list"

definition group_of_po :: "po_message \<Rightarrow> int \<Rightarrow> string \<Rightarrow> message_group res" where
  "group_of_po pm index filename = rbind (message_of_po pm index filename)
     (\<lambda>m. Inr (orig_text.extend (orig_of_po pm) \<lparr>m_messages = [m]\<rparr>))"

definition addMessage :: "message_group \<Rightarrow> message \<Rightarrow> message_group" where
  "addMessage g m = g\<lparr>m_messages := m_messages g @ [m]\<rparr>"

definition group_size :: "message_group \<Rightarrow> nat" where
  "group_size g = length (m_messages g)"

definition group_message :: "message_group \<Rightarrow> nat \<Rightarrow> message res" where
  "group_message g i = rassert (i < group_size g) (Inr (m_messages g ! i))"

definition group_copy :: "message_group \<Rightarrow> message_group" where
  "group_copy o' = orig_text.extend
     \<lparr>m_msgid = m_msgid o', m_msgidPlural = m_msgidPlural o', m_msgctxt = m_msgctxt o'\<rparr>
     \<lparr>m_messages = map message_copy (m_messages o')\<rparr>"

definition mergeMessageGroup :: "message_group \<Rightarrow> message_group \<Rightarrow> message_group res" where
  "mergeMessageGroup g other =
     rfold (\<lambda>g i. rbind (group_message other i) (\<lambda>m. Inr (addMessage g (message_copy m))))
       g [0..<group_size other]"

definition equalOrigText :: "message_group \<Rightarrow> message_group \<Rightarrow> bool" where
  "equalOrigText a b = orig_eq a b"

definition compareByMsgid :: "message_group \<Rightarrow> message_group \<Rightarrow> bool" where
  "compareByMsgid a b = orig_less a b"

definition updateTranslationFrom :: "message_group \<Rightarrow> message_group \<Rightarrow> message_group res" where
  "updateTranslationFrom g from' = rassert (group_size g = 1) (rassert (group_size from' = 1)
     (rbind (group_message from' 0)
        (\<lambda>m. Inr (g\<lparr>m_messages := (m_messages g)[0 := message_copy m]\<rparr>))))"

definition group_clearTranslation :: "message_group \<Rightarrow> message_group res" where
  "group_clearTranslation g = rassert (group_size g = 1)
     (rbind (msg_clearTranslation (m_messages g ! 0))
        (\<lambda>m. Inr (g\<lparr>m_messages := (m_messages g)[0 := m]\<rparr>)))"


section \<open>Facts\<close>

lemma message_copy_eq [simp]: "message_copy m = m"
  by (simp add: message_copy_def)

lemma group_copy_eq [simp]: "group_copy g = g"
  by (cases g) (simp add: group_copy_def orig_text.extend_def map_idI)

lemma im_of_message_simps [simp]:
  "m_msgstr (im_of_message m) = m_msgstr m" "m_fuzzy (im_of_message m) = m_fuzzy m"
  "m_plural (im_of_message m) = m_plural m" "mt_view (im_of_message m) = mt_view m"
  by (simp_all add: im_of_message_def translation.truncate_def mt_view_def)

lemma mt_view_update [simp]:
  "mt_view (m\<lparr>m_fuzzy := b\<rparr>) = mt_view m" "mt_view (m\<lparr>m_plural := b\<rparr>) = mt_view m"
  "mt_view (m\<lparr>m_msgstr := xs\<rparr>) = map os_view xs"
  by (simp_all add: mt_view_def)

lemma mt_view_message_update [simp]:
  fixes m :: message
  shows "mt_view (m\<lparr>m_edited := b\<rparr>) = mt_view m" "mt_view (m\<lparr>m_untranslated := b\<rparr>) = mt_view m"
    "mt_view (m\<lparr>m_msgcomments := c\<rparr>) = mt_view m"
  by (simp_all add: mt_view_def)

lemma editFuzzy_simps [simp]:
  "m_fuzzy (editFuzzy m b) = b" "mt_view (editFuzzy m b) = mt_view m"
  "m_msgstr (editFuzzy m b) = m_msgstr m"
  "m_untranslated (editFuzzy m b) = m_untranslated m"
  "m_msgcomments (editFuzzy m b) = m_msgcomments m"
  "m_edited (editFuzzy m b) \<longleftrightarrow> m_edited m \<or> b \<noteq> m_fuzzy m"
  by (auto simp: editFuzzy_def)

text \<open>Editing forms one by one, from the \<open>k\<close>th on, when every form present is non-null.\<close>

definition same_but_msgstr :: "message \<Rightarrow> message \<Rightarrow> bool" where
  "same_but_msgstr m m' \<longleftrightarrow> m_fuzzy m' = m_fuzzy m \<and> m_plural m' = m_plural m
     \<and> m_obsolete m' = m_obsolete m \<and> m_untranslated m' = m_untranslated m
     \<and> m_msgcomments m' = m_msgcomments m \<and> m_index m' = m_index m \<and> m_filename m' = m_filename m"

lemma editMsgstr_Inr:
  assumes "i < length (mt_view m)" "mt_view m ! i \<noteq> None"
  shows "\<exists>m'. editMsgstr m i s = Inr m' \<and> mt_view m' = (mt_view m)[i := os_view s]
    \<and> same_but_msgstr m m' \<and> (m_edited m' \<longleftrightarrow> m_edited m \<or> mt_view m ! i \<noteq> os_view s)"
proof -
  have i: "i < length (m_msgstr m)" and v: "os_view (m_msgstr m ! i) = mt_view m ! i"
    using assms by (simp_all add: mt_view_def)
  show ?thesis
  proof (cases "mt_view m ! i = os_view s")
    case True
    then have "(mt_view m)[i := os_view s] = mt_view m" by (metis list_update_id)
    with True i v assms show ?thesis
      by (simp add: editMsgstr_def same_but_msgstr_def numPlurals_def)
  next
    case False
    with i v assms show ?thesis
      by (simp add: editMsgstr_def same_but_msgstr_def numPlurals_def mt_view_def map_update)
  qed
qed

lemma edit_loop:
  assumes "n = length (mt_view m)" "k \<le> n" "\<forall>i\<in>{k..<n}. mt_view m ! i \<noteq> None"
  shows "\<exists>m'. rfold (\<lambda>m i. editMsgstr m i (f i)) m [k..<n] = Inr m'
    \<and> mt_view m' = take k (mt_view m) @ map (\<lambda>i. os_view (f i)) [k..<n]
    \<and> same_but_msgstr m m' \<and> (m_edited m' \<longleftrightarrow> m_edited m \<or> mt_view m' \<noteq> mt_view m)"
  using assms
proof (induction "n - k" arbitrary: k m)
  case 0
  then show ?case by (simp add: same_but_msgstr_def)
next
  case (Suc d)
  then have k: "k < n" by simp
  with Suc.prems obtain m1 where m1: "editMsgstr m k (f k) = Inr m1"
      "mt_view m1 = (mt_view m)[k := os_view (f k)]" "same_but_msgstr m m1"
      "m_edited m1 \<longleftrightarrow> m_edited m \<or> mt_view m ! k \<noteq> os_view (f k)"
    using editMsgstr_Inr[of k m "f k"] by force
  have "\<exists>m'. rfold (\<lambda>m i. editMsgstr m i (f i)) m1 [Suc k..<n] = Inr m'
    \<and> mt_view m' = take (Suc k) (mt_view m1) @ map (\<lambda>i. os_view (f i)) [Suc k..<n]
    \<and> same_but_msgstr m1 m' \<and> (m_edited m' \<longleftrightarrow> m_edited m1 \<or> mt_view m' \<noteq> mt_view m1)"
    using Suc.prems m1 k Suc.hyps(2) by (intro Suc.hyps(1)) auto
  then obtain m' where m': "rfold (\<lambda>m i. editMsgstr m i (f i)) m1 [Suc k..<n] = Inr m'"
      "mt_view m' = take (Suc k) (mt_view m1) @ map (\<lambda>i. os_view (f i)) [Suc k..<n]"
      "same_but_msgstr m1 m'" "m_edited m' \<longleftrightarrow> m_edited m1 \<or> mt_view m' \<noteq> mt_view m1"
    by blast
  have tk: "take (Suc k) (mt_view m1) = take k (mt_view m) @ [os_view (f k)]"
    using m1(2) k Suc.prems by (simp add: take_Suc_conv_app_nth)
  then have view: "mt_view m' = take k (mt_view m) @ map (\<lambda>i. os_view (f i)) [k..<n]"
    using m'(2) k by (simp add: upt_conv_Cons)
  have at_k: "mt_view m' ! k = os_view (f k)"
    using view k Suc.prems by (simp add: nth_append)
  have "m_edited m' \<longleftrightarrow> m_edited m \<or> mt_view m' \<noteq> mt_view m"
  proof (cases "mt_view m ! k = os_view (f k)")
    case True
    then have "mt_view m1 = mt_view m" using m1(2) by (metis list_update_id)
    with True m1(4) m'(4) show ?thesis by simp
  next
    case False
    with at_k have "mt_view m' \<noteq> mt_view m" by auto
    with False m1(4) m'(4) show ?thesis by simp
  qed
  moreover have "rfold (\<lambda>m i. editMsgstr m i (f i)) m [k..<n] = Inr m'"
    using m1(1) m'(1) k by (simp add: upt_conv_Cons)
  moreover have "same_but_msgstr m m'"
    using m1(3) m'(3) by (simp add: same_but_msgstr_def)
  ultimately show ?case using view by blast
qed

text \<open>Copying all forms of an iddiff message into a message.\<close>

lemma copyTranslations_ok:
  assumes "numPlurals t = numPlurals m" "None \<notin> set (mt_view m)"
  shows "\<exists>m'. copyTranslationsToMessage t m = Inr m' \<and> mt_view m' = mt_view t
    \<and> same_but_msgstr m m' \<and> (m_edited m' \<longleftrightarrow> m_edited m \<or> mt_view m \<noteq> mt_view t)"
proof -
  let ?f = "\<lambda>m i. editMsgstr m i (m_msgstr t ! i)"
  have n: "numPlurals t = length (mt_view m)"
    using assms(1) by (simp add: numPlurals_view)
  have "\<exists>m'. rfold ?f m [0..<length (mt_view m)] = Inr m'
    \<and> mt_view m' = take 0 (mt_view m) @ map (\<lambda>i. os_view (m_msgstr t ! i)) [0..<length (mt_view m)]
    \<and> same_but_msgstr m m' \<and> (m_edited m' \<longleftrightarrow> m_edited m \<or> mt_view m' \<noteq> mt_view m)"
    using assms(2) by (intro edit_loop) (auto simp: in_set_conv_nth)
  then obtain m' where m': "rfold ?f m [0..<numPlurals t] = Inr m'" "same_but_msgstr m m'"
      "m_edited m' \<longleftrightarrow> m_edited m \<or> mt_view m' \<noteq> mt_view m"
      "mt_view m' = map (\<lambda>i. os_view (m_msgstr t ! i)) [0..<numPlurals t]"
    unfolding n by auto
  have view: "mt_view m' = mt_view t"
    unfolding m'(4) by (rule nth_equalityI) (simp_all add: mt_view_def numPlurals_def)
  have "rfold (\<lambda>m i. rbind (msgstr t i) (\<lambda>s. editMsgstr m i s)) m [0..<numPlurals t]
    = rfold ?f m [0..<numPlurals t]"
    by (rule rfold_cong) (simp add: msgstr_def numPlurals_def)
  with m'(1) assms(1) have "copyTranslationsToMessage t m = Inr m'"
    by (simp add: copyTranslationsToMessage_def)
  with m' view show ?thesis by metis
qed

lemma msg_clearTranslation_ok:
  assumes "None \<notin> set (mt_view m)"
  shows "\<exists>m'. msg_clearTranslation m = Inr m' \<and> mt_view m' = replicate (numPlurals m) None
    \<and> m_untranslated m' \<and> m_edited m' \<and> m_fuzzy m' = m_fuzzy m"
proof -
  have "\<exists>m'. rfold (\<lambda>m i. editMsgstr m i os_nullptr) m [0..<length (mt_view m)] = Inr m'
    \<and> mt_view m' = take 0 (mt_view m) @ map (\<lambda>i. os_view os_nullptr) [0..<length (mt_view m)]
    \<and> same_but_msgstr m m' \<and> (m_edited m' \<longleftrightarrow> m_edited m \<or> mt_view m' \<noteq> mt_view m)"
    using assms by (intro edit_loop) (auto simp: in_set_conv_nth)
  then show ?thesis
    by (auto simp: msg_clearTranslation_def numPlurals_view same_but_msgstr_def map_replicate_const)
qed

lemma msg_clearTranslation_null:
  assumes "m_msgstr m \<noteq> []" "os_view (hd (m_msgstr m)) = None"
  shows "msg_clearTranslation m = Inl AssertFail"
proof -
  from assms(1) have n: "[0..<numPlurals m] = 0 # [1..<numPlurals m]"
    by (simp add: numPlurals_def upt_conv_Cons)
  from assms have "editMsgstr m 0 os_nullptr = Inl AssertFail"
    by (simp add: editMsgstr_def numPlurals_def hd_conv_nth)
  with n show ?thesis by (simp add: msg_clearTranslation_def)
qed

text \<open>Merging appends clones of the other group's messages.\<close>

lemma mergeMessageGroup_eq:
  "mergeMessageGroup g other = Inr (g\<lparr>m_messages := m_messages g @ m_messages other\<rparr>)"
proof -
  have "k \<le> group_size other \<Longrightarrow>
    rfold (\<lambda>g i. rbind (group_message other i) (\<lambda>m. Inr (addMessage g (message_copy m))))
       g [0..<k] = Inr (g\<lparr>m_messages := m_messages g @ take k (m_messages other)\<rparr>)" for k
  proof (induction k)
    case 0
    then show ?case by simp
  next
    case (Suc k)
    then show ?case
      by (simp add: rfold_append group_message_def addMessage_def group_size_def
          take_Suc_conv_app_nth)
  qed
  from this[of "group_size other"] show ?thesis
    by (simp add: mergeMessageGroup_def group_size_def)
qed

text \<open>The order of messages by their original text.\<close>

definition orig_key :: "'a orig_text_scheme \<Rightarrow> string option \<times> string option \<times> string option" where
  "orig_key t = (os_view (m_msgctxt t), os_view (m_msgid t), os_view (m_msgidPlural t))"

lemma orig_eq_iff: "orig_eq a b \<longleftrightarrow> orig_key a = orig_key b"
  by (auto simp: orig_eq_def orig_key_def)

lemma orig_less_iff: "orig_less a b \<longleftrightarrow> orig_key a < orig_key b"
  by (auto simp: orig_less_def orig_key_def less_prod_def')

text \<open>What \<open>readMessages\<close> builds.\<close>

lemma message_of_po_eq:
  "message_of_po pm i fn = Inr \<lparr>m_plural = po_plural_forms pm \<noteq> [], m_fuzzy = po_fuzzy pm,
     m_msgstr = map (\<lambda>s. os_of_cstr (Some s))
       (if po_plural_forms pm = [] then [po_msgstr pm] else po_plural_forms pm),
     m_obsolete = po_obsolete pm, m_untranslated = po_message_is_untranslated pm,
     m_msgcomments = os_of_string (po_comments pm), m_index = i, m_filename = fn,
     m_edited = False\<rparr>"
  by (simp add: message_of_po_def mtb_of_po_eq message_of_base_def setMsgcomments_def
      translation.extend_def)

lemma message_of_po_untranslated:
  "message_of_po pm i fn = Inr m \<Longrightarrow> msg_isUntranslated m = mtb_isUntranslated m"
  by (auto simp: message_of_po_eq msg_isUntranslated_def mtb_isUntranslated_iff mt_view_def
      po_message_is_untranslated_iff split: if_splits)

end
