(* ===== verification/FileDateTime.thy ===== *)
theory FileDateTime
  imports OptString
begin

text \<open>
  \<open>gtpo/filedatetime.cpp\<close>: a point in time (seconds since 1970 in UTC) with a time zone used for
  display only, its text form, and the comparisons. \<open>gmtime\<close>, \<open>mktime\<close> (in UTC), \<open>strftime\<close>,
  \<open>sprintf\<close> and \<open>sscanf\<close> are modelled as far as the class uses them, on the proleptic Gregorian
  calendar. The default constructor leaves \<open>m_date\<close> and \<open>m_timezone\<close> unset, so it takes the values
  that happen to be there as arguments.
\<close>

record file_date_time =
  m_init :: bool
  m_date :: int
  m_timezone :: int

definition fdt_default :: "int \<Rightarrow> int \<Rightarrow> file_date_time" where
  "fdt_default garbage_date garbage_tz =
     \<lparr>m_init = False, m_date = garbage_date, m_timezone = garbage_tz\<rparr>"

definition fdt_of_time :: "int \<Rightarrow> file_date_time" where
  "fdt_of_time t = \<lparr>m_init = True, m_date = t, m_timezone = 0\<rparr>"

definition fdt_copy :: "file_date_time \<Rightarrow> file_date_time" where
  "fdt_copy o' = \<lparr>m_init = m_init o', m_date = m_date o', m_timezone = m_timezone o'\<rparr>"

definition fdt_clear :: "file_date_time \<Rightarrow> file_date_time" where
  "fdt_clear d = d\<lparr>m_init := False\<rparr>"

definition fdt_isNull :: "file_date_time \<Rightarrow> bool" where
  "fdt_isNull d = (\<not> m_init d)"

definition fdt_less :: "file_date_time \<Rightarrow> file_date_time \<Rightarrow> bool" where
  "fdt_less a b \<longleftrightarrow> m_date a < m_date b"

definition fdt_greater :: "file_date_time \<Rightarrow> file_date_time \<Rightarrow> bool" where
  "fdt_greater a b \<longleftrightarrow> m_date a > m_date b"

text \<open>\<open>now\<close> is \<open>time(NULL)\<close>, \<open>gmtoff\<close> the local zone's offset in seconds.\<close>

definition fdt_setCurrentDateTime :: "int \<Rightarrow> int \<Rightarrow> file_date_time \<Rightarrow> file_date_time res" where
  "fdt_setCurrentDateTime now gmtoff d =
     rassert (gmtoff mod 3600 = 0)
       (Inr (d\<lparr>m_init := True, m_date := now, m_timezone := gmtoff div 3600\<rparr>))"

definition addSeconds :: "file_date_time \<Rightarrow> int \<Rightarrow> file_date_time" where
  "addSeconds d s = (if \<not> fdt_isNull d then d\<lparr>m_date := m_date d + s\<rparr> else d)"

definition plusSeconds :: "file_date_time \<Rightarrow> int \<Rightarrow> file_date_time" where
  "plusSeconds d s = addSeconds (fdt_copy d) s"

definition plusHours :: "file_date_time \<Rightarrow> int \<Rightarrow> file_date_time" where
  "plusHours d h = plusSeconds d (h * 3600)"

definition plusDays :: "file_date_time \<Rightarrow> int \<Rightarrow> file_date_time" where
  "plusDays d n = plusSeconds d (n * 24 * 3600)"

text \<open>The conversion to \<open>git_time_t\<close>, which \<open><=\<close> and \<open>>=\<close> go through.\<close>

definition fdt_time :: "file_date_time \<Rightarrow> int" where
  "fdt_time d = (if fdt_isNull d then 0 else m_date d)"

definition isBetween :: "file_date_time \<Rightarrow> file_date_time \<Rightarrow> file_date_time \<Rightarrow> bool" where
  "isBetween d a b =
     (if fdt_time a \<le> fdt_time b then fdt_time d \<ge> fdt_time a \<and> fdt_time d \<le> fdt_time b
      else fdt_time d \<ge> fdt_time b \<and> fdt_time d \<le> fdt_time a)"

section \<open>The calendar\<close>

text \<open>
  Days are counted from 1970-01-01; years start in March inside the computation, so that the
  leap day is the last day of a year, and repeat every 400 years (146097 days).
\<close>

definition days_from_civil :: "int \<Rightarrow> int \<Rightarrow> int \<Rightarrow> int" where
  "days_from_civil y m d =
     (let y' = (if m \<le> 2 then y - 1 else y);
          mp = (if m > 2 then m - 3 else m + 9);
          yoe = y' mod 400;
          doy = (153 * mp + 2) div 5 + d - 1
      in (y' div 400) * 146097 + (yoe * 365 + yoe div 4 - yoe div 100 + doy) - 719468)"

definition civil_from_days :: "int \<Rightarrow> int \<times> int \<times> int" where
  "civil_from_days n =
     (let z = n + 719468;
          doe = z mod 146097;
          yoe = (doe - doe div 1460 + doe div 36524 - doe div 146096) div 365;
          doy = doe - (365 * yoe + yoe div 4 - yoe div 100);
          mp = (5 * doy + 2) div 153;
          d = doy - (153 * mp + 2) div 5 + 1;
          m = (if mp < 10 then mp + 3 else mp - 9);
          y = yoe + (z div 146097) * 400
      in (if m \<le> 2 then y + 1 else y, m, d))"

record tm =
  tm_year :: int   \<comment> \<open>the year itself, not the year less 1900\<close>
  tm_mon :: int    \<comment> \<open>1 to 12\<close>
  tm_mday :: int
  tm_hour :: int
  tm_min :: int

definition gmtime :: "int \<Rightarrow> tm" where
  "gmtime t = (case civil_from_days (t div 86400) of (y, m, d) \<Rightarrow>
     \<lparr>tm_year = y, tm_mon = m, tm_mday = d, tm_hour = t mod 86400 div 3600,
      tm_min = t mod 3600 div 60\<rparr>)"

text \<open>\<open>mktime\<close> in UTC, with \<open>tm_sec = 0\<close>; a month outside 1 to 12 carries into the year.\<close>

definition mktime :: "tm \<Rightarrow> int" where
  "mktime t =
     (let y = tm_year t + (tm_mon t - 1) div 12; m = (tm_mon t - 1) mod 12 + 1
      in days_from_civil y m 1 * 86400 + (tm_mday t - 1) * 86400
         + tm_hour t * 3600 + tm_min t * 60)"

section \<open>Decimal numbers\<close>

definition digit_char :: "nat \<Rightarrow> char" where
  "digit_char n = char_of (48 + n)"

fun nat_dec :: "nat \<Rightarrow> string" where
  "nat_dec n = (if n < 10 then [digit_char n] else nat_dec (n div 10) @ [digit_char (n mod 10)])"

declare nat_dec.simps [simp del]

definition int_dec :: "int \<Rightarrow> string" where
  "int_dec i = (if i < 0 then CHR ''-'' # nat_dec (nat (- i)) else nat_dec (nat i))"

text \<open>\<open>%02d\<close> of a number that is not negative.\<close>

definition dec2 :: "int \<Rightarrow> string" where
  "dec2 i = (if i < 10 then CHR ''0'' # int_dec i else int_dec i)"

definition is_digit :: "char \<Rightarrow> bool" where
  "is_digit c \<longleftrightarrow> 48 \<le> (of_char c :: nat) \<and> (of_char c :: nat) < 58"

definition is_space :: "char \<Rightarrow> bool" where
  "is_space c \<longleftrightarrow> c = CHR '' '' \<or> (9 \<le> (of_char c :: nat) \<and> (of_char c :: nat) \<le> 13)"

definition digits_val :: "string \<Rightarrow> nat" where
  "digits_val ds = foldl (\<lambda>v c. 10 * v + (of_char c - 48)) 0 ds"

text \<open>One \<open>%d\<close> of \<open>sscanf\<close>: the number read and the rest, None when the conversion fails.\<close>

definition scan_d :: "string \<Rightarrow> (int \<times> string) option" where
  "scan_d s =
     (let s1 = dropWhile is_space s;
          neg = (s1 \<noteq> [] \<and> hd s1 = CHR ''-'');
          s2 = (if s1 \<noteq> [] \<and> (hd s1 = CHR ''-'' \<or> hd s1 = CHR ''+'') then tl s1 else s1);
          ds = takeWhile is_digit s2
      in if ds = [] then None
         else Some ((if neg then - int (digits_val ds) else int (digits_val ds)),
                    dropWhile is_digit s2))"

definition scan_lit :: "char \<Rightarrow> string \<Rightarrow> string option" where
  "scan_lit c s = (case s of [] \<Rightarrow> None | x # xs \<Rightarrow> if x = c then Some xs else None)"

text \<open>
  \<open>sscanf(str, "%d-%d-%d %d:%d%d", ...)\<close>: the five fields and the zone. The code does not look
  at the result, so a text that gives fewer than five fields leaves a field of \<open>tm\<close> unset, which
  \<open>mktime\<close> then reads; the zone keeps its initial 0 when the last conversion fails.
\<close>

definition scan_date :: "string \<Rightarrow> (tm \<times> int) res" where
  "scan_date s =
     (case Option.bind (scan_d s) (\<lambda>(y, s). Option.bind (scan_lit CHR ''-'' s) (\<lambda>s.
           Option.bind (scan_d s) (\<lambda>(m, s). Option.bind (scan_lit CHR ''-'' s) (\<lambda>s.
           Option.bind (scan_d s) (\<lambda>(d, s). let s = dropWhile is_space s in
           Option.bind (scan_d s) (\<lambda>(h, s). Option.bind (scan_lit CHR '':'' s) (\<lambda>s.
           Option.bind (scan_d s) (\<lambda>(mi, s).
             Some (\<lparr>tm_year = y, tm_mon = m, tm_mday = d, tm_hour = h, tm_min = mi\<rparr>,
                   (case scan_d s of None \<Rightarrow> 0 | Some (z, _) \<Rightarrow> z)))))))))) of
        None \<Rightarrow> Inl Uninitialized
      | Some r \<Rightarrow> Inr r)"

section \<open>Text form\<close>

text \<open>\<open>strftime(str, 99, "%Y-%m-%d %H:%M", tm)\<close>\<close>

definition strftime_minutes :: "tm \<Rightarrow> string" where
  "strftime_minutes t = int_dec (tm_year t) @ ''-'' @ dec2 (tm_mon t) @ ''-'' @ dec2 (tm_mday t)
     @ '' '' @ dec2 (tm_hour t) @ '':'' @ dec2 (tm_min t)"

definition dateString :: "file_date_time \<Rightarrow> string" where
  "dateString d =
     (if fdt_isNull d then []
      else strftime_minutes (gmtime (m_date d + 3600 * m_timezone d))
        @ [if m_timezone d \<ge> 0 then CHR ''+'' else CHR ''-''] @ dec2 \<bar>m_timezone d\<bar> @ ''00'')"

text \<open>C's \<open>%\<close> and \<open>/\<close> truncate towards zero; the test \<open>m_timezone % 100 == 0\<close> is divisibility,
  and the division that follows is exact.\<close>

definition fromString :: "file_date_time \<Rightarrow> string \<Rightarrow> file_date_time res" where
  "fromString d s =
     (if length s > 0 then
        rbind (scan_date s) (\<lambda>(t, tz).
          rassert (tz mod 100 = 0)
            (Inr (d\<lparr>m_init := True, m_timezone := tz div 100,
                    m_date := mktime t - 3600 * (tz div 100)\<rparr>)))
      else Inr (d\<lparr>m_init := False\<rparr>))"

section \<open>Facts\<close>

lemma fdt_copy_eq [simp]: "fdt_copy d = d"
  by (simp add: fdt_copy_def)

lemma isBetween_iff:
  "isBetween d a b \<longleftrightarrow> min (fdt_time a) (fdt_time b) \<le> fdt_time d
     \<and> fdt_time d \<le> max (fdt_time a) (fdt_time b)"
  by (auto simp: isBetween_def)

lemma isBetween_sym: "isBetween d a b = isBetween d b a"
  by (simp add: isBetween_iff min.commute max.commute)

lemma fdt_time_plus [simp]:
  "m_init d \<Longrightarrow> fdt_time (plusSeconds d s) = fdt_time d + s"
  "m_init d \<Longrightarrow> fdt_time (plusHours d h) = fdt_time d + 3600 * h"
  "m_init d \<Longrightarrow> fdt_time (plusDays d n) = fdt_time d + 86400 * n"
  by (simp_all add: plusDays_def plusHours_def plusSeconds_def addSeconds_def fdt_time_def
      fdt_isNull_def)

end
