(* ===== verification/IddiffChange.thy ===== *)
theory IddiffChange
  imports PoMessages
begin

text \<open>
  \<open>gtpo/iddiffchange.cpp\<close>: the changes of one message ID, three sections of iddiff messages.
  The sections hold pointers, and \<open>eraseItem\<close> compares them as pointers, so an item is the pair
  of an address and the message stored there. A message does not change once it is in a section.
\<close>

type_synonym im_ptr = "nat \<times> translation"

record iddiff_change =
  m_removedItems :: "im_ptr list"
  m_addedItems :: "im_ptr list"
  m_reviewComment :: "im_ptr option"

definition new_change :: iddiff_change where
  "new_change = \<lparr>m_removedItems = [], m_addedItems = [], m_reviewComment = None\<rparr>"

definition change_clearReviewComment :: "iddiff_change \<Rightarrow> iddiff_change" where
  "change_clearReviewComment c = c\<lparr>m_reviewComment := None\<rparr>"

definition emptyRemoved :: "iddiff_change \<Rightarrow> bool" where
  "emptyRemoved c \<longleftrightarrow> m_removedItems c = []"

definition emptyAdded :: "iddiff_change \<Rightarrow> bool" where
  "emptyAdded c \<longleftrightarrow> m_addedItems c = []"

definition emptyReview :: "iddiff_change \<Rightarrow> bool" where
  "emptyReview c \<longleftrightarrow> m_reviewComment c = None"

definition change_empty :: "iddiff_change \<Rightarrow> bool" where
  "change_empty c \<longleftrightarrow> emptyReview c \<and> emptyAdded c \<and> emptyRemoved c"

text \<open>Erases the first element that is the same pointer, and throws when there is none.\<close>

fun eraseItem :: "im_ptr list \<Rightarrow> nat \<Rightarrow> im_ptr list res" where
  "eraseItem [] a = Inl (Throw (RuntimeError ''item not found''))"
| "eraseItem (x # xs) a = (if fst x = a then Inr xs else rbind (eraseItem xs a) (\<lambda>ys. Inr (x # ys)))"

definition change_eraseRemoved :: "iddiff_change \<Rightarrow> nat \<Rightarrow> iddiff_change res" where
  "change_eraseRemoved c a =
     rbind (eraseItem (m_removedItems c) a) (\<lambda>xs. Inr (c\<lparr>m_removedItems := xs\<rparr>))"

definition change_eraseAdded :: "iddiff_change \<Rightarrow> nat \<Rightarrow> iddiff_change res" where
  "change_eraseAdded c a =
     rbind (eraseItem (m_addedItems c) a) (\<lambda>xs. Inr (c\<lparr>m_addedItems := xs\<rparr>))"

section \<open>Facts\<close>

text \<open>What the item at an address says.\<close>

definition item_view :: "im_ptr \<Rightarrow> string option list" where
  "item_view x = mt_view (snd x)"

lemma item_view_Pair [simp]: "item_view (a, t) = mt_view t"
  by (simp add: item_view_def)

lemma eraseItem_present:
  "a \<in> fst ` set xs \<Longrightarrow> \<exists>us x vs. xs = us @ x # vs \<and> fst x = a \<and> a \<notin> fst ` set us
     \<and> eraseItem xs a = Inr (us @ vs)"
proof (induction xs)
  case Nil
  then show ?case by simp
next
  case (Cons y ys)
  show ?case
  proof (cases "fst y = a")
    case True
    then show ?thesis by (intro exI[of _ "[]"]) auto
  next
    case False
    with Cons obtain us x vs where "ys = us @ x # vs" "fst x = a" "a \<notin> fst ` set us"
        "eraseItem ys a = Inr (us @ vs)" by auto
    with False show ?thesis by (intro exI[of _ "y # us"]) auto
  qed
qed

lemma eraseItem_absent:
  "a \<notin> fst ` set xs \<Longrightarrow> eraseItem xs a = Inl (Throw (RuntimeError ''item not found''))"
  by (induction xs) auto

text \<open>With distinct addresses and distinct texts, erasing an item removes exactly its text.\<close>

lemma eraseItem_views:
  assumes "x \<in> set xs" "distinct (map fst xs)" "distinct (map item_view xs)"
  shows "\<exists>ys. eraseItem xs (fst x) = Inr ys \<and> set ys = set xs - {x}
    \<and> item_view ` set ys = item_view ` set xs - {item_view x} \<and> distinct (map fst ys)
    \<and> distinct (map item_view ys) \<and> length ys = length xs - 1"
proof -
  from assms(1) have "fst x \<in> fst ` set xs" by simp
  then obtain us y vs where xs: "xs = us @ y # vs" "fst y = fst x"
      and er: "eraseItem xs (fst x) = Inr (us @ vs)"
    using eraseItem_present by blast
  have "y = x"
    using assms(1,2) xs by (auto simp: in_set_conv_decomp)
  then have "set (us @ vs) = set xs - {x}"
    using assms(2) xs by (auto simp: in_set_conv_decomp)
  moreover have "item_view ` set (us @ vs) = item_view ` set xs - {item_view x}"
    using assms(3) xs \<open>y = x\<close> by (simp, blast)
  ultimately show ?thesis
    using er xs assms(2,3) by auto
qed

lemma find_view_Some:
  "List.find (\<lambda>x. equalMsgstr (snd x) t) xs = Some x \<Longrightarrow> x \<in> set xs \<and> item_view x = mt_view t"
  by (auto dest: find_SomeD simp: item_view_def)

lemma find_view_None:
  "List.find (\<lambda>x. equalMsgstr (snd x) t) xs = None \<longleftrightarrow> mt_view t \<notin> item_view ` set xs"
  unfolding item_view_def by (force simp: find_None_iff)

end
