(* ===== verification/Iddiff.thy ===== *)
theory Iddiff
  imports IddiffChange FileDateTime
begin

text \<open>
  \<open>class Iddiff\<close> (\<open>gtpo/iddiff.cpp\<close>, lines 744-756 and 883-1299, with the ID substitution of lines
  690-742): the store of changes by message ID, its low-level operations, merging, accepting and
  rejecting translations, and filtering. \<open>m_items\<close> maps an ID to a pointer to its changes, None is
  the null pointer that \<open>operator[]\<close> leaves behind for an absent ID. \<open>heap_next\<close> is the address the
  next \<open>new IddiffMessage\<close> returns.
\<close>

record iddiff =
  m_subject :: string
  m_authors :: "string list"
  m_diffDate :: file_date_time
  m_items :: "(int, iddiff_change option) omap"
  m_minimizedIds :: bool
  heap_next :: nat

definition new_iddiff :: "file_date_time \<Rightarrow> iddiff" where
  "new_iddiff null_date = \<lparr>m_subject = [], m_authors = [], m_diffDate = null_date, m_items = [],
     m_minimizedIds = False, heap_next = 0\<rparr>"

section \<open>Clearing\<close>

definition clearIddiff :: "iddiff \<Rightarrow> iddiff" where
  "clearIddiff d = d\<lparr>m_items := []\<rparr>"

definition clearReviewComments :: "iddiff \<Rightarrow> iddiff res" where
  "clearReviewComments d =
     rbind (rmap (\<lambda>(k, oc). case oc of None \<Rightarrow> Inl NullDeref
              | Some c \<Rightarrow> Inr (k, Some (change_clearReviewComment c))) (m_items d))
       (\<lambda>its. Inr (d\<lparr>m_items := its\<rparr>))"

definition clearReviewComment :: "iddiff \<Rightarrow> int \<Rightarrow> iddiff" where
  "clearReviewComment d k =
     (let d' = d\<lparr>m_items := om_touch k None (m_items d)\<rparr>
      in case map_of (m_items d') k of
           Some (Some c) \<Rightarrow> d'\<lparr>m_items := om_set k (Some (change_clearReviewComment c)) (m_items d')\<rparr>
         | _ \<Rightarrow> d')"

section \<open>Finding\<close>

text \<open>\<open>m_items.find(msg_id)\<close> and the dereference of what it finds.\<close>

definition find_change :: "iddiff \<Rightarrow> int \<Rightarrow> iddiff_change option res" where
  "find_change d k = (case map_of (m_items d) k of
      None \<Rightarrow> Inr None
    | Some None \<Rightarrow> Inl NullDeref
    | Some (Some c) \<Rightarrow> Inr (Some c))"

definition findRemovedAll :: "iddiff \<Rightarrow> int \<Rightarrow> im_ptr list res" where
  "findRemovedAll d k = rbind (find_change d k) (\<lambda>oc. case oc of
      Some c \<Rightarrow> Inr (if \<not> emptyRemoved c then m_removedItems c else [])
    | None \<Rightarrow> Inr [])"

definition findAddedAll :: "iddiff \<Rightarrow> int \<Rightarrow> im_ptr list res" where
  "findAddedAll d k = rbind (find_change d k) (\<lambda>oc. case oc of
      Some c \<Rightarrow> Inr (if \<not> emptyAdded c then m_addedItems c else [])
    | None \<Rightarrow> Inr [])"

definition findAddedSingle :: "iddiff \<Rightarrow> int \<Rightarrow> im_ptr option res" where
  "findAddedSingle d k = rbind (findAddedAll d k) (\<lambda>arr. rassert (length arr \<le> 1)
     (Inr (if length arr = 1 then Some (arr ! 0) else None)))"

definition findRemovedSingle :: "iddiff \<Rightarrow> int \<Rightarrow> im_ptr option res" where
  "findRemovedSingle d k = rbind (findRemovedAll d k) (\<lambda>arr. rassert (length arr \<le> 1)
     (Inr (if length arr = 1 then Some (arr ! 0) else None)))"

definition findIddiffMessageList :: "im_ptr list \<Rightarrow> translation \<Rightarrow> im_ptr option" where
  "findIddiffMessageList l item = List.find (\<lambda>x. equalMsgstr (snd x) item) l"

definition findRemoved :: "iddiff \<Rightarrow> int \<Rightarrow> translation \<Rightarrow> im_ptr option res" where
  "findRemoved d k item = rbind (findRemovedAll d k) (\<lambda>l. Inr (findIddiffMessageList l item))"

definition findAdded :: "iddiff \<Rightarrow> int \<Rightarrow> translation \<Rightarrow> im_ptr option res" where
  "findAdded d k item = rbind (findAddedAll d k) (\<lambda>l. Inr (findIddiffMessageList l item))"

definition isAcceptAlreadyReviewed :: "iddiff \<Rightarrow> int \<Rightarrow> translation \<Rightarrow> bool res" where
  "isAcceptAlreadyReviewed d k item = rbind (findAdded d k item) (\<lambda>r. Inr (r \<noteq> None))"

definition isRejectAlreadyReviewed :: "iddiff \<Rightarrow> int \<Rightarrow> translation \<Rightarrow> bool res" where
  "isRejectAlreadyReviewed d k item = rbind (findRemoved d k item) (\<lambda>r. Inr (r \<noteq> None))"

text \<open>The text of the review comment; \<open>m_items[msg_id]\<close> inserts a null pointer when absent.\<close>

definition reviewCommentText :: "iddiff \<Rightarrow> int \<Rightarrow> (opt_string \<times> iddiff) res" where
  "reviewCommentText d k =
     (let d' = d\<lparr>m_items := om_touch k None (m_items d)\<rparr>
      in case map_of (m_items d') k of
           Some (Some c) \<Rightarrow> (case m_reviewComment c of
               Some it \<Rightarrow> rbind (msgstr (snd it) 0) (\<lambda>s. Inr (s, d'))
             | None \<Rightarrow> Inr (os_nullptr, d'))
         | _ \<Rightarrow> Inr (os_nullptr, d'))"

section \<open>Inserting and erasing\<close>

text \<open>\<open>if (!m_items[msg_id]) m_items[msg_id] = new IddiffChange();\<close> and the object found there.\<close>

definition change_of :: "iddiff \<Rightarrow> int \<Rightarrow> iddiff_change" where
  "change_of d k = (case map_of (m_items d) k of Some (Some c) \<Rightarrow> c | _ \<Rightarrow> new_change)"

definition put_change :: "iddiff \<Rightarrow> int \<Rightarrow> iddiff_change \<Rightarrow> iddiff" where
  "put_change d k c = d\<lparr>m_items := om_set k (Some c) (m_items d)\<rparr>"

definition insertRemoved :: "iddiff \<Rightarrow> int \<Rightarrow> im_ptr \<Rightarrow> iddiff res" where
  "insertRemoved d k item = rbind (findRemoved d k (snd item)) (\<lambda>r.
     if r \<noteq> None then Inr d
     else rbind (findAdded d k (snd item)) (\<lambda>a. rassert (a = None)
       (let c = change_of d k
        in Inr (put_change d k (c\<lparr>m_removedItems := m_removedItems c @ [item]\<rparr>)))))"

text \<open>
  The conflict message: it prints both translations as JSON, which throws for a null form, then
  the assertion fails.
\<close>

definition report_conflict :: "translation \<Rightarrow> translation \<Rightarrow> 'a res" where
  "report_conflict old new =
     rbind (mtb_writeJson old) (\<lambda>j. rbind (mtb_writeJson new) (\<lambda>j. Inl AssertFail))"

text \<open>The loop over the ID's added translations: True to return early, or the abort.\<close>

fun added_is_duplicate :: "im_ptr list \<Rightarrow> translation \<Rightarrow> bool res" where
  "added_is_duplicate [] item = Inr False"
| "added_is_duplicate (x # xs) item =
     (if equalMsgstr (snd x) item then Inr True else Inl AssertFail)"

definition insertAdded :: "iddiff \<Rightarrow> int \<Rightarrow> im_ptr \<Rightarrow> iddiff res" where
  "insertAdded d k item = rbind (findRemoved d k (snd item)) (\<lambda>r.
     case r of Some old \<Rightarrow> report_conflict (snd old) (snd item)
     | None \<Rightarrow> rbind (findAddedAll d k) (\<lambda>added.
       rbind (added_is_duplicate added (snd item)) (\<lambda>dup.
         if dup then Inr d
         else (let c = change_of d k
               in Inr (put_change d k (c\<lparr>m_addedItems := m_addedItems c @ [item]\<rparr>))))))"

definition insertReview :: "iddiff \<Rightarrow> int \<Rightarrow> im_ptr \<Rightarrow> iddiff res" where
  "insertReview d k item =
     (let c = change_of d k
      in rassert (emptyReview c) (rassert (im_isTranslated (snd item))
           (Inr (put_change d k (c\<lparr>m_reviewComment := Some item\<rparr>)))))"

text \<open>\<open>new IddiffMessage(*item)\<close>, then the insertion.\<close>

definition alloc :: "iddiff \<Rightarrow> iddiff" where
  "alloc d = d\<lparr>heap_next := Suc (heap_next d)\<rparr>"

definition insertRemovedClone :: "iddiff \<Rightarrow> int \<times> im_ptr \<Rightarrow> iddiff res" where
  "insertRemovedClone d p = insertRemoved (alloc d) (fst p) (heap_next d, snd (snd p))"

definition insertAddedClone :: "iddiff \<Rightarrow> int \<times> im_ptr \<Rightarrow> iddiff res" where
  "insertAddedClone d p = insertAdded (alloc d) (fst p) (heap_next d, snd (snd p))"

definition insertReviewClone :: "iddiff \<Rightarrow> int \<times> im_ptr \<Rightarrow> iddiff res" where
  "insertReviewClone d p = insertReview (alloc d) (fst p) (heap_next d, snd (snd p))"

definition clearEmptyMessageData :: "iddiff \<Rightarrow> int \<Rightarrow> iddiff res" where
  "clearEmptyMessageData d k = rbind (find_change d k) (\<lambda>oc. case oc of
      Some c \<Rightarrow> Inr (if change_empty c then d\<lparr>m_items := om_erase k (m_items d)\<rparr> else d)
    | None \<Rightarrow> Inr d)"

definition eraseRemoved :: "iddiff \<Rightarrow> int \<Rightarrow> nat \<Rightarrow> iddiff res" where
  "eraseRemoved d k a = rassert (map_of (m_items d) k \<noteq> None)
     (rbind (find_change d k) (\<lambda>oc. case oc of
        Some c \<Rightarrow> rbind (change_eraseRemoved c a)
                    (\<lambda>c'. clearEmptyMessageData (put_change d k c') k)
      | None \<Rightarrow> Inl NullDeref))"

definition eraseAdded :: "iddiff \<Rightarrow> int \<Rightarrow> nat \<Rightarrow> iddiff res" where
  "eraseAdded d k a = rassert (map_of (m_items d) k \<noteq> None)
     (rbind (find_change d k) (\<lambda>oc. case oc of
        Some c \<Rightarrow> rbind (change_eraseAdded c a)
                    (\<lambda>c'. clearEmptyMessageData (put_change d k c') k)
      | None \<Rightarrow> Inl NullDeref))"

section \<open>Listing\<close>

text \<open>The pairs of an ID and an item of one section, in the order of the IDs.\<close>

fun section_vector ::
  "(iddiff_change \<Rightarrow> im_ptr list) \<Rightarrow> (int \<times> iddiff_change option) list \<Rightarrow> (int \<times> im_ptr) list res"
where
  "section_vector sec [] = Inr []"
| "section_vector sec ((k, oc) # its) = (case oc of
      None \<Rightarrow> Inl NullDeref
    | Some c \<Rightarrow> rbind (section_vector sec its) (\<lambda>v. Inr (map (\<lambda>x. (k, x)) (sec c) @ v)))"

definition getRemovedVector :: "iddiff \<Rightarrow> (int \<times> im_ptr) list res" where
  "getRemovedVector d = section_vector m_removedItems (m_items d)"

definition getAddedVector :: "iddiff \<Rightarrow> (int \<times> im_ptr) list res" where
  "getAddedVector d = section_vector m_addedItems (m_items d)"

definition getReviewVector :: "iddiff \<Rightarrow> (int \<times> im_ptr) list res" where
  "getReviewVector d =
     section_vector (\<lambda>c. case m_reviewComment c of Some x \<Rightarrow> [x] | None \<Rightarrow> []) (m_items d)"

definition sort_uniq :: "'a::linorder list \<Rightarrow> 'a list" where
  "sort_uniq v = uniq (sort v)"

definition involvedIds :: "iddiff \<Rightarrow> int list" where
  "involvedIds d = sort_uniq (om_keys (m_items d))"

section \<open>Merging\<close>

definition mergeHeaders :: "iddiff \<Rightarrow> iddiff \<Rightarrow> iddiff" where
  "mergeHeaders d diff =
     (let d1 = (if fdt_isNull (m_diffDate d) \<or> fdt_greater (m_diffDate diff) (m_diffDate d)
                then d\<lparr>m_diffDate := m_diffDate diff\<rparr> else d)
      in d1\<lparr>m_authors := sort_uniq (m_authors d1 @ m_authors diff)\<rparr>)"

definition merge :: "iddiff \<Rightarrow> iddiff \<Rightarrow> iddiff res" where
  "merge d diff =
     rbind (getRemovedVector diff) (\<lambda>other_removed.
     rbind (getAddedVector diff) (\<lambda>other_added.
     rbind (getReviewVector diff) (\<lambda>other_review.
     rbind (rfold insertRemovedClone d other_removed) (\<lambda>d1.
     rbind (rfold insertAddedClone d1 other_added) (\<lambda>d2.
     rbind (rfold insertReviewClone d2 other_review) (\<lambda>d3.
       Inr (mergeHeaders d3 diff)))))))"

text \<open>\<open>for i < numPlurals(): push_back(std::string(msgstr(i)))\<close>\<close>

definition msgstr_strings :: "translation \<Rightarrow> string list res" where
  "msgstr_strings t = rmap (\<lambda>i. rbind (msgstr t i) os_to_string) [0..<numPlurals t]"

definition mergeTrComments_item :: "iddiff \<Rightarrow> int \<times> im_ptr \<Rightarrow> iddiff res" where
  "mergeTrComments_item d p =
     rbind (findAddedSingle d (fst p)) (\<lambda>prev. case prev of
       Some prevMessage \<Rightarrow>
         rbind (msgstr_strings (snd (snd p))) (\<lambda>c1.
         rbind (msgstr_strings (snd prevMessage)) (\<lambda>c2.
           let comments = sort_uniq (c1 @ c2);
               new_message = foldl (\<lambda>m c. addMsgstr m (os_of_string c)) mtb_empty comments
           in rbind (eraseAdded (alloc d) (fst p) (fst prevMessage)) (\<lambda>d'.
                insertAddedClone d' (fst p, (heap_next d, new_message)))))
     | None \<Rightarrow> insertAddedClone d p)"

definition mergeTrComments :: "iddiff \<Rightarrow> iddiff \<Rightarrow> iddiff res" where
  "mergeTrComments d diff =
     rbind (getReviewVector diff) (\<lambda>rv. rassert (rv = [])
     (rbind (getRemovedVector diff) (\<lambda>other_removed.
      rbind (getAddedVector diff) (\<lambda>other_added. rassert (other_removed = [])
      (rbind (rfold mergeTrComments_item d other_added) (\<lambda>d'.
         Inr (mergeHeaders d' diff)))))))"

section \<open>Reviewing\<close>

text \<open>\<open>item\<close> is a pointer; None is null.\<close>

definition rejectTranslation :: "iddiff \<Rightarrow> int \<Rightarrow> im_ptr option \<Rightarrow> iddiff res" where
  "rejectTranslation d k item = rassert (k \<noteq> 0) (case item of
      None \<Rightarrow> Inl AssertFail
    | Some it \<Rightarrow>
        rbind (findAddedSingle d k) (\<lambda>added.
        rbind (case added of
                 Some a \<Rightarrow> if equalMsgstr (snd a) (snd it) then eraseAdded d k (fst a) else Inr d
               | None \<Rightarrow> Inr d) (\<lambda>d1.
        rbind (findRemoved d1 k (snd it)) (\<lambda>removed.
          if removed = None then insertRemovedClone d1 (k, it) else Inr d1))))"

definition acceptTranslation :: "iddiff \<Rightarrow> int \<Rightarrow> im_ptr option \<Rightarrow> iddiff res" where
  "acceptTranslation d k item = rassert (k \<noteq> 0) (case item of
      None \<Rightarrow> Inl AssertFail
    | Some it \<Rightarrow>
        rbind (findRemoved d k (snd it)) (\<lambda>removed.
        rbind (case removed of Some r \<Rightarrow> eraseRemoved d k (fst r) | None \<Rightarrow> Inr d) (\<lambda>d1.
        rbind (findAddedSingle d1 k) (\<lambda>added. case added of
            None \<Rightarrow> insertAddedClone d1 (k, it)
          | Some a \<Rightarrow>
              if \<not> equalMsgstr (snd a) (snd it) then
                rbind (insertAddedClone d1 (k, it)) (\<lambda>d2. rejectTranslation d2 k (Some a))
              else Inr d1))))"

definition filterTrustedIddiff :: "iddiff \<Rightarrow> iddiff \<Rightarrow> iddiff \<Rightarrow> iddiff res" where
  "filterTrustedIddiff d filtr input_diff =
     rbind (getReviewVector input_diff) (\<lambda>rv. rassert (rv = [])
     (rbind (getRemovedVector input_diff) (\<lambda>other_removed.
      rbind (getAddedVector input_diff) (\<lambda>other_added.
      rbind (rfold (\<lambda>d p. rbind (findRemoved filtr (fst p) (snd (snd p))) (\<lambda>r.
               if r = None then insertRemovedClone d p else Inr d)) d other_removed) (\<lambda>d1.
      rbind (rfold (\<lambda>d p. rbind (findAdded filtr (fst p) (snd (snd p))) (\<lambda>r.
               if r = None then insertAddedClone d p else Inr d)) d1 other_added) (\<lambda>d2.
        Inr (mergeHeaders d2 input_diff)))))))"

definition id_setCurrentDateTime :: "int \<Rightarrow> int \<Rightarrow> iddiff \<Rightarrow> iddiff res" where
  "id_setCurrentDateTime now gmtoff d =
     rbind (fdt_setCurrentDateTime now gmtoff (m_diffDate d)) (\<lambda>t. Inr (d\<lparr>m_diffDate := t\<rparr>))"

section \<open>Minimizing the IDs\<close>

definition substituteMsgId :: "iddiff \<Rightarrow> int \<Rightarrow> int \<Rightarrow> iddiff res" where
  "substituteMsgId d oldId newId =
     (if oldId = newId then Inr d
      else rbind (clearEmptyMessageData d oldId) (\<lambda>d1.
           rbind (clearEmptyMessageData d1 newId) (\<lambda>d2.
             rassert (map_of (m_items d2) newId = None)
               (Inr (case map_of (m_items d2) oldId of
                  Some v \<Rightarrow> d2\<lparr>m_items := om_erase oldId (om_set newId v (m_items d2))\<rparr>
                | None \<Rightarrow> d2)))))"

text \<open>\<open>getMinIds\<close> is the request to the server, \<open>stupidsClient.getMinIds(ids)\<close>.\<close>

definition minimizeIds :: "(int list \<Rightarrow> int list res) \<Rightarrow> iddiff \<Rightarrow> iddiff res" where
  "minimizeIds getMinIds d =
     (let msg_ids = involvedIds d
      in rbind (getMinIds msg_ids) (\<lambda>min_ids. rassert (length msg_ids = length min_ids)
           (rbind (rfold (\<lambda>d i. rbind (nth_res msg_ids i) (\<lambda>a. rbind (nth_res min_ids i)
                     (\<lambda>b. substituteMsgId d a b))) d [0..<length msg_ids])
              (\<lambda>d'. Inr (d'\<lparr>m_minimizedIds := True\<rparr>)))))"

end
