(* ===== verification/IddiffSpec.thy ===== *)
theory IddiffSpec
  imports Iddiff
begin

text \<open>
  What an \<open>Iddiff\<close> means, and that its operations implement it. The abstract state gives, for each
  message ID, the set of rejected translations, the set of accepted ones and the review comment.
  \<open>iddiff_ok\<close> is the representation invariant the operations keep.
\<close>

section \<open>The invariant\<close>

definition change_items :: "iddiff_change \<Rightarrow> im_ptr list" where
  "change_items c = m_removedItems c @ m_addedItems c @
     (case m_reviewComment c of Some x \<Rightarrow> [x] | None \<Rightarrow> [])"

text \<open>
  In one ID's changes no translation occurs twice, whether in one section or in both; at most one
  is accepted; the review comment is translated; addresses are allocated and distinct.
\<close>

definition change_ok :: "nat \<Rightarrow> iddiff_change \<Rightarrow> bool" where
  "change_ok n c \<longleftrightarrow> distinct (map item_view (m_removedItems c @ m_addedItems c))
     \<and> length (m_addedItems c) \<le> 1
     \<and> distinct (map fst (change_items c)) \<and> (\<forall>x\<in>set (change_items c). fst x < n)
     \<and> (\<forall>x. m_reviewComment c = Some x \<longrightarrow> im_isTranslated (snd x))"

definition iddiff_ok :: "iddiff \<Rightarrow> bool" where
  "iddiff_ok d \<longleftrightarrow> om_inv (m_items d)
     \<and> (\<forall>k v. map_of (m_items d) k = Some v \<longrightarrow> (\<exists>c. v = Some c \<and> change_ok (heap_next d) c))"

definition removed_of :: "iddiff \<Rightarrow> int \<Rightarrow> string option list set" where
  "removed_of d k = item_view ` set (m_removedItems (change_of d k))"

definition added_of :: "iddiff \<Rightarrow> int \<Rightarrow> string option list set" where
  "added_of d k = item_view ` set (m_addedItems (change_of d k))"

definition review_of :: "iddiff \<Rightarrow> int \<Rightarrow> string option list option" where
  "review_of d k = map_option item_view (m_reviewComment (change_of d k))"

lemma change_ok_new [simp]: "change_ok n new_change"
  by (simp add: change_ok_def new_change_def change_items_def)

lemma change_ok_mono: "change_ok n c \<Longrightarrow> n \<le> n' \<Longrightarrow> change_ok n' c"
  by (fastforce simp: change_ok_def)

lemma iddiff_ok_change: "iddiff_ok d \<Longrightarrow> change_ok (heap_next d) (change_of d k)"
  by (auto simp: iddiff_ok_def change_of_def split: option.splits)

lemma iddiff_ok_new: "iddiff_ok (new_iddiff t)"
  by (simp add: iddiff_ok_def new_iddiff_def om_inv_Nil)

lemma change_of_put [simp]:
  "change_of (put_change d k c) j = (if j = k then c else change_of d j)"
  by (simp add: change_of_def put_change_def om.find_put[of "m_items d"] map_of_om_set)

lemma heap_next_put [simp]: "heap_next (put_change d k c) = heap_next d"
  by (simp add: put_change_def)

lemma change_of_alloc [simp]: "change_of (alloc d) k = change_of d k"
  and heap_next_alloc [simp]: "heap_next (alloc d) = Suc (heap_next d)"
  by (simp_all add: alloc_def change_of_def)

lemma iddiff_ok_put: "iddiff_ok d \<Longrightarrow> change_ok (heap_next d) c \<Longrightarrow> iddiff_ok (put_change d k c)"
  by (auto simp: iddiff_ok_def put_change_def om_inv_set map_of_om_set)

lemma iddiff_ok_alloc: "iddiff_ok d \<Longrightarrow> iddiff_ok (alloc d)"
  unfolding iddiff_ok_def alloc_def by (simp, meson change_ok_mono le_SucI le_refl)

lemma find_change_ok:
  "iddiff_ok d \<Longrightarrow> find_change d k = Inr (case map_of (m_items d) k of
      Some (Some c) \<Rightarrow> Some c | _ \<Rightarrow> None)"
  by (auto simp: find_change_def iddiff_ok_def split: option.splits)

lemma findRemovedAll_ok: "iddiff_ok d \<Longrightarrow> findRemovedAll d k = Inr (m_removedItems (change_of d k))"
  by (auto simp: findRemovedAll_def find_change_ok change_of_def new_change_def emptyRemoved_def
      split: option.splits)

lemma findAddedAll_ok: "iddiff_ok d \<Longrightarrow> findAddedAll d k = Inr (m_addedItems (change_of d k))"
  by (auto simp: findAddedAll_def find_change_ok change_of_def new_change_def emptyAdded_def
      split: option.splits)

lemma findRemoved_ok:
  "iddiff_ok d \<Longrightarrow> findRemoved d k t = Inr (findIddiffMessageList (m_removedItems (change_of d k)) t)"
  by (simp add: findRemoved_def findRemovedAll_ok)

lemma findAdded_ok:
  "iddiff_ok d \<Longrightarrow> findAdded d k t = Inr (findIddiffMessageList (m_addedItems (change_of d k)) t)"
  by (simp add: findAdded_def findAddedAll_ok)

lemma findList_None:
  "findIddiffMessageList l t = None \<longleftrightarrow> mt_view t \<notin> item_view ` set l"
  by (simp add: findIddiffMessageList_def find_view_None del: equalMsgstr_iff)

lemma findList_Some:
  "findIddiffMessageList l t = Some x \<Longrightarrow> x \<in> set l \<and> item_view x = mt_view t"
  by (simp add: findIddiffMessageList_def find_view_Some del: equalMsgstr_iff)

lemma findAddedSingle_ok:
  assumes "iddiff_ok d"
  shows "findAddedSingle d k = Inr (case m_addedItems (change_of d k) of [] \<Rightarrow> None | x # _ \<Rightarrow> Some x)"
proof -
  have "length (m_addedItems (change_of d k)) \<le> 1"
    using iddiff_ok_change[OF assms] by (simp add: change_ok_def)
  then show ?thesis
    by (cases "m_addedItems (change_of d k)") (auto simp: findAddedSingle_def findAddedAll_ok[OF assms])
qed

section \<open>The abstract operations\<close>

record sections =
  s_removed :: "string option list set"
  s_added :: "string option list set"
  s_review :: "string option list option"

definition sections_of :: "iddiff \<Rightarrow> int \<Rightarrow> sections" where
  "sections_of d k = \<lparr>s_removed = removed_of d k, s_added = added_of d k, s_review = review_of d k\<rparr>"

type_synonym patch = "int \<Rightarrow> sections"

definition p_remove :: "patch \<Rightarrow> int \<Rightarrow> string option list \<Rightarrow> patch option" where
  "p_remove p k v =
     (if v \<in> s_removed (p k) then Some p
      else if v \<in> s_added (p k) then None
      else Some (p(k := (p k)\<lparr>s_removed := insert v (s_removed (p k))\<rparr>)))"

definition p_add :: "patch \<Rightarrow> int \<Rightarrow> string option list \<Rightarrow> patch option" where
  "p_add p k v =
     (if v \<in> s_removed (p k) then None
      else if s_added (p k) = {} then Some (p(k := (p k)\<lparr>s_added := {v}\<rparr>))
      else if s_added (p k) = {v} then Some p
      else None)"

definition p_review :: "patch \<Rightarrow> int \<Rightarrow> string option list \<Rightarrow> patch option" where
  "p_review p k v =
     (if s_review (p k) = None then Some (p(k := (p k)\<lparr>s_review := Some v\<rparr>)) else None)"

text \<open>
  What a result of the code means: a conflict is the abstract None. A conflict aborts, or throws
  when its message is about a null string.
\<close>

definition conflict_error :: "error \<Rightarrow> bool" where
  "conflict_error e \<longleftrightarrow> e = AssertFail \<or> e = Throw NullStringException"

lemma report_conflict_Inl: "\<exists>e. report_conflict a b = Inl e \<and> conflict_error e"
  by (simp add: report_conflict_def mtb_writeJson_cases conflict_error_def)

definition refines :: "iddiff res \<Rightarrow> patch option \<Rightarrow> bool" where
  "refines r p \<longleftrightarrow> (case r of
      Inr d \<Rightarrow> iddiff_ok d \<and> p = Some (sections_of d)
    | Inl e \<Rightarrow> conflict_error e \<and> p = None)"

lemma refines_cases:
  "refines r p \<Longrightarrow> (\<And>d. r = Inr d \<Longrightarrow> iddiff_ok d \<Longrightarrow> p = Some (sections_of d) \<Longrightarrow> P)
    \<Longrightarrow> (\<And>e. r = Inl e \<Longrightarrow> conflict_error e \<Longrightarrow> p = None \<Longrightarrow> P) \<Longrightarrow> P"
  by (auto simp: refines_def split: sum.splits)

lemma refines_Some: "refines r (Some p) \<longleftrightarrow> (\<exists>d. r = Inr d \<and> iddiff_ok d \<and> sections_of d = p)"
  and refines_None: "refines r None \<longleftrightarrow> (\<exists>e. r = Inl e \<and> conflict_error e)"
  by (auto simp: refines_def split: sum.splits)

lemma sections_of_alloc [simp]: "sections_of (alloc d) = sections_of d"
  by (rule ext) (simp add: sections_of_def removed_of_def added_of_def review_of_def)

lemma sections_of_put:
  "sections_of (put_change d k c) = (sections_of d)(k :=
     \<lparr>s_removed = item_view ` set (m_removedItems c), s_added = item_view ` set (m_addedItems c),
      s_review = map_option item_view (m_reviewComment c)\<rparr>)"
  by (rule ext) (simp add: sections_of_def removed_of_def added_of_def review_of_def)

lemma sections_of_sel:
  "s_removed (sections_of d k) = item_view ` set (m_removedItems (change_of d k))"
  "s_added (sections_of d k) = item_view ` set (m_addedItems (change_of d k))"
  "s_review (sections_of d k) = map_option item_view (m_reviewComment (change_of d k))"
  by (simp_all add: sections_of_def removed_of_def added_of_def review_of_def)

lemma insertRemoved_eq:
  "iddiff_ok d \<Longrightarrow> insertRemoved d k it =
     (if item_view it \<in> removed_of d k then Inr d
      else if item_view it \<in> added_of d k then Inl AssertFail
      else Inr (put_change d k ((change_of d k)
             \<lparr>m_removedItems := m_removedItems (change_of d k) @ [it]\<rparr>)))"
  by (simp add: insertRemoved_def findRemoved_ok findAdded_ok findList_None removed_of_def
      added_of_def item_view_def[of it] rassert_def Let_def del: not_None_eq)

lemma refines_abort [simp]: "refines (Inl AssertFail) p \<longleftrightarrow> p = None"
  by (simp add: refines_def conflict_error_def)

lemma insertAdded_conflict:
  assumes "iddiff_ok d" "item_view it \<in> removed_of d k"
  shows "\<exists>e. insertAdded d k it = Inl e \<and> conflict_error e"
proof -
  have "findIddiffMessageList (m_removedItems (change_of d k)) (snd it) \<noteq> None"
    using assms(2) unfolding findList_None removed_of_def item_view_def by simp
  then show ?thesis
    using report_conflict_Inl by (auto simp: insertAdded_def findRemoved_ok[OF assms(1)])
qed

lemma insertAdded_eq:
  assumes ok: "iddiff_ok d" and fresh: "item_view it \<notin> removed_of d k"
  shows "insertAdded d k it =
     (if m_addedItems (change_of d k) = []
        then Inr (put_change d k ((change_of d k)\<lparr>m_addedItems := [it]\<rparr>))
      else if item_view (hd (m_addedItems (change_of d k))) = item_view it then Inr d
      else Inl AssertFail)"
proof -
  have "findIddiffMessageList (m_removedItems (change_of d k)) (snd it) = None"
    using fresh unfolding findList_None removed_of_def item_view_def by simp
  then show ?thesis
    by (cases "m_addedItems (change_of d k)")
      (simp_all add: insertAdded_def findRemoved_ok[OF ok] findAddedAll_ok[OF ok] item_view_def Let_def)
qed

lemma added_of_cases:
  assumes "iddiff_ok d"
  obtains (none) "m_addedItems (change_of d k) = []" "added_of d k = {}"
  | (one) x where "m_addedItems (change_of d k) = [x]" "added_of d k = {item_view x}"
proof -
  have "length (m_addedItems (change_of d k)) \<le> 1"
    using iddiff_ok_change[OF assms] by (simp add: change_ok_def)
  then show ?thesis
    using that by (cases "m_addedItems (change_of d k)") (auto simp: added_of_def)
qed

lemma insertRemoved_refines:
  assumes ok: "iddiff_ok d" and "a < heap_next d" "a \<notin> fst ` set (change_items (change_of d k))"
  shows "refines (insertRemoved d k (a, t)) (p_remove (sections_of d) k (mt_view t))"
proof (cases "mt_view t \<in> removed_of d k \<union> added_of d k")
  case True
  with ok show ?thesis
    by (auto simp: insertRemoved_eq refines_def conflict_error_def p_remove_def sections_of_def)
next
  case False
  let ?c = "change_of d k"
  let ?c' = "?c\<lparr>m_removedItems := m_removedItems ?c @ [(a, t)]\<rparr>"
  have "change_ok (heap_next d) ?c"
    using ok by (rule iddiff_ok_change)
  then have c': "change_ok (heap_next d) ?c'"
    using False assms(2,3)
    by (auto simp: change_ok_def change_items_def removed_of_def added_of_def)
  have "p_remove (sections_of d) k (mt_view t) = Some (sections_of (put_change d k ?c'))"
    using False by (simp add: p_remove_def sections_of_put sections_of_def removed_of_def
        added_of_def review_of_def)
  with False show ?thesis
    using iddiff_ok_put[OF ok c'] by (simp add: refines_def insertRemoved_eq[OF ok])
qed

lemma insertAdded_refines:
  assumes ok: "iddiff_ok d" and "a < heap_next d" "a \<notin> fst ` set (change_items (change_of d k))"
  shows "refines (insertAdded d k (a, t)) (p_add (sections_of d) k (mt_view t))"
proof (cases "mt_view t \<in> removed_of d k")
  case True
  then show ?thesis
    using insertAdded_conflict[OF ok, of "(a, t)" k]
    by (auto simp: refines_def p_add_def sections_of_def)
next
  case fresh: False
  from ok show ?thesis
  proof (cases rule: added_of_cases[of d k])
    case (one x)
    with fresh ok show ?thesis
      by (simp add: insertAdded_eq refines_def conflict_error_def p_add_def sections_of_def)
  next
    case none
    let ?c = "change_of d k"
    let ?c' = "?c\<lparr>m_addedItems := [(a, t)]\<rparr>"
    have "change_ok (heap_next d) ?c"
      using ok by (rule iddiff_ok_change)
    then have c': "change_ok (heap_next d) ?c'"
      using none fresh assms(2,3)
      by (auto simp: change_ok_def change_items_def removed_of_def)
    have "p_add (sections_of d) k (mt_view t) = Some (sections_of (put_change d k ?c'))"
      using none fresh by (simp add: p_add_def sections_of_put sections_of_def removed_of_def
          review_of_def)
    with none fresh show ?thesis
      using iddiff_ok_put[OF ok c'] by (simp add: refines_def insertAdded_eq[OF ok])
  qed
qed

lemma insertReview_refines:
  assumes ok: "iddiff_ok d" and "a < heap_next d" "a \<notin> fst ` set (change_items (change_of d k))"
    and tr: "im_isTranslated t"
  shows "refines (insertReview d k (a, t)) (p_review (sections_of d) k (mt_view t))"
proof (cases "m_reviewComment (change_of d k)")
  case (Some x)
  then show ?thesis
    by (simp add: insertReview_def emptyReview_def refines_def conflict_error_def p_review_def sections_of_sel)
next
  case None
  let ?c = "change_of d k"
  let ?c' = "?c\<lparr>m_reviewComment := Some (a, t)\<rparr>"
  have "change_ok (heap_next d) ?c"
    using ok by (rule iddiff_ok_change)
  then have "change_ok (heap_next d) ?c'"
    using None assms(2,3) tr by (auto simp: change_ok_def change_items_def)
  with None ok tr show ?thesis
    by (simp add: insertReview_def emptyReview_def refines_def p_review_def sections_of_sel
        iddiff_ok_put sections_of_put sections_of_def removed_of_def added_of_def review_of_def)
qed

text \<open>A clone lives at a fresh address.\<close>

lemma fresh_address:
  "iddiff_ok d \<Longrightarrow> heap_next d \<notin> fst ` set (change_items (change_of (alloc d) k))"
  using iddiff_ok_change[of d k] by (auto simp: change_ok_def)

lemma insertRemovedClone_refines:
  "iddiff_ok d \<Longrightarrow>
    refines (insertRemovedClone d p) (p_remove (sections_of d) (fst p) (item_view (snd p)))"
  using insertRemoved_refines[OF iddiff_ok_alloc, of d "heap_next d" "fst p" "snd (snd p)"]
  by (simp add: insertRemovedClone_def item_view_def fresh_address[simplified])

lemma insertAddedClone_refines:
  "iddiff_ok d \<Longrightarrow>
    refines (insertAddedClone d p) (p_add (sections_of d) (fst p) (item_view (snd p)))"
  using insertAdded_refines[OF iddiff_ok_alloc, of d "heap_next d" "fst p" "snd (snd p)"]
  by (simp add: insertAddedClone_def item_view_def fresh_address[simplified])

lemma insertReviewClone_refines:
  "iddiff_ok d \<Longrightarrow> im_isTranslated (snd (snd p)) \<Longrightarrow>
    refines (insertReviewClone d p) (p_review (sections_of d) (fst p) (item_view (snd p)))"
  using insertReview_refines[OF iddiff_ok_alloc, of d "heap_next d" "fst p" "snd (snd p)"]
  by (simp add: insertReviewClone_def item_view_def fresh_address[simplified])

end
