(* ===== verification/IddiffMerge.thy ===== *)
theory IddiffMerge
  imports IddiffSpec
begin

text \<open>
  Erasing, accepting and rejecting a translation, the section vectors, and the merge of two
  iddiffs, each against the abstract patch of \<open>IddiffSpec\<close>.
\<close>

section \<open>Headers stay as they are\<close>

definition same_header :: "iddiff \<Rightarrow> iddiff \<Rightarrow> bool" where
  "same_header d d' \<longleftrightarrow> m_subject d' = m_subject d \<and> m_authors d' = m_authors d
     \<and> m_diffDate d' = m_diffDate d \<and> m_minimizedIds d' = m_minimizedIds d"

lemma same_header_refl [simp]: "same_header d d"
  by (simp add: same_header_def)

lemma same_header_trans [trans]: "same_header a b \<Longrightarrow> same_header b c \<Longrightarrow> same_header a c"
  by (simp add: same_header_def)

lemma same_header_put [simp]: "same_header d (put_change d' k c) = same_header d d'"
  and same_header_alloc [simp]: "same_header d (alloc d') = same_header d d'"
  and same_header_items [simp]: "same_header d (d'\<lparr>m_items := its\<rparr>) = same_header d d'"
  by (simp_all add: same_header_def put_change_def alloc_def)

lemma same_header_put_left [simp]: "same_header (put_change d k c) d' = same_header d d'"
  and same_header_alloc_left [simp]: "same_header (alloc d) d' = same_header d d'"
  by (simp_all add: same_header_def put_change_def alloc_def)

lemma insert_same_header:
  "insertRemoved d k it = Inr d' \<Longrightarrow> same_header d d'"
  "insertAdded d k it = Inr d' \<Longrightarrow> same_header d d'"
  "insertReview d k it = Inr d' \<Longrightarrow> same_header d d'"
  by (auto simp: insertRemoved_def insertAdded_def insertReview_def report_conflict_def res_simps
      Let_def split: if_splits option.splits)

lemma clone_same_header:
  "insertRemovedClone d p = Inr d' \<Longrightarrow> same_header d d'"
  "insertAddedClone d p = Inr d' \<Longrightarrow> same_header d d'"
  "insertReviewClone d p = Inr d' \<Longrightarrow> same_header d d'"
  unfolding insertRemovedClone_def insertAddedClone_def insertReviewClone_def
  by (drule insert_same_header, simp add: same_header_def alloc_def)+

section \<open>Erasing\<close>

lemma change_empty_iff: "change_empty c \<longleftrightarrow> c = new_change"
  by (cases c) (auto simp: change_empty_def emptyReview_def emptyAdded_def emptyRemoved_def
      new_change_def)

lemma clearEmpty_ok:
  assumes "iddiff_ok d"
  shows "\<exists>d'. clearEmptyMessageData d k = Inr d' \<and> iddiff_ok d' \<and> change_of d' = change_of d
    \<and> heap_next d' = heap_next d \<and> same_header d d'
    \<and> map_of (m_items d') = (if map_of (m_items d) k = Some (Some new_change)
         then (map_of (m_items d))(k := None) else map_of (m_items d))"
proof (cases "map_of (m_items d) k = Some (Some new_change)")
  case True
  let ?d' = "d\<lparr>m_items := om_erase k (m_items d)\<rparr>"
  have "clearEmptyMessageData d k = Inr ?d'"
    using True by (simp add: clearEmptyMessageData_def find_change_def change_empty_iff)
  moreover have "change_of ?d' = change_of d"
    using True by (auto simp: change_of_def map_of_om_erase)
  moreover have "iddiff_ok ?d'"
    using assms by (auto simp: iddiff_ok_def om_inv_erase map_of_om_erase)
  ultimately show ?thesis
    using True by (simp add: map_of_om_erase)
next
  case False
  with assms have "clearEmptyMessageData d k = Inr d"
    by (auto simp: clearEmptyMessageData_def find_change_ok change_empty_iff split: option.splits)
  with False assms show ?thesis by simp
qed

lemma sections_of_cong: "change_of d' = change_of d \<Longrightarrow> sections_of d' = sections_of d"
  by (rule ext) (simp add: sections_of_def removed_of_def added_of_def review_of_def)

lemma find_change_present:
  assumes "iddiff_ok d" "change_of d k \<noteq> new_change"
  shows "find_change d k = Inr (Some (change_of d k))" "map_of (m_items d) k \<noteq> None"
  using assms by (auto simp: find_change_ok change_of_def split: option.splits)

lemma eraseRemoved_ok:
  assumes ok: "iddiff_ok d" and x: "x \<in> set (m_removedItems (change_of d k))"
  shows "\<exists>d'. eraseRemoved d k (fst x) = Inr d' \<and> iddiff_ok d' \<and> heap_next d' = heap_next d
    \<and> same_header d d' \<and> m_addedItems (change_of d' k) = m_addedItems (change_of d k)
    \<and> sections_of d' = (sections_of d)(k := (sections_of d k)
        \<lparr>s_removed := s_removed (sections_of d k) - {item_view x}\<rparr>)"
proof -
  let ?c = "change_of d k"
  have cok: "change_ok (heap_next d) ?c" using ok by (rule iddiff_ok_change)
  then have "distinct (map fst (m_removedItems ?c))" "distinct (map item_view (m_removedItems ?c))"
    by (auto simp: change_ok_def change_items_def)
  with x obtain ys where ys: "eraseItem (m_removedItems ?c) (fst x) = Inr ys"
      "set ys = set (m_removedItems ?c) - {x}"
      "item_view ` set ys = item_view ` set (m_removedItems ?c) - {item_view x}"
      "distinct (map fst ys)" "distinct (map item_view ys)"
    using eraseItem_views by blast
  let ?c' = "?c\<lparr>m_removedItems := ys\<rparr>"
  have "change_ok (heap_next d) ?c'"
    using cok ys by (auto simp: change_ok_def change_items_def split: option.splits)
  then have ok1: "iddiff_ok (put_change d k ?c')" using ok iddiff_ok_put by blast
  obtain d' where d': "clearEmptyMessageData (put_change d k ?c') k = Inr d'" "iddiff_ok d'"
      "change_of d' = change_of (put_change d k ?c')"
      "heap_next d' = heap_next (put_change d k ?c')" "same_header (put_change d k ?c') d'"
    using clearEmpty_ok[OF ok1] by blast
  have "?c \<noteq> new_change" using x by (auto simp: new_change_def)
  then have "eraseRemoved d k (fst x) = Inr d'"
    using find_change_present[OF ok, of k] ys(1) d'(1)
    by (simp add: eraseRemoved_def change_eraseRemoved_def del: not_None_eq)
  moreover have "sections_of d' = (sections_of d)(k := (sections_of d k)
        \<lparr>s_removed := s_removed (sections_of d k) - {item_view x}\<rparr>)"
    using ys(3) sections_of_cong[OF d'(3)]
    by (simp add: sections_of_put sections_of_def removed_of_def added_of_def review_of_def)
  ultimately show ?thesis
    using d' by (simp add: same_header_put_left)
qed

lemma eraseAdded_ok:
  assumes ok: "iddiff_ok d" and x: "m_addedItems (change_of d k) = [x]"
  shows "\<exists>d'. eraseAdded d k (fst x) = Inr d' \<and> iddiff_ok d' \<and> heap_next d' = heap_next d
    \<and> same_header d d' \<and> m_addedItems (change_of d' k) = []
    \<and> sections_of d' = (sections_of d)(k := (sections_of d k)\<lparr>s_added := {}\<rparr>)"
proof -
  let ?c = "change_of d k"
  let ?c' = "?c\<lparr>m_addedItems := []\<rparr>"
  have "change_ok (heap_next d) ?c" using ok by (rule iddiff_ok_change)
  then have "change_ok (heap_next d) ?c'"
    using x by (auto simp: change_ok_def change_items_def split: option.splits)
  then have ok1: "iddiff_ok (put_change d k ?c')" using ok iddiff_ok_put by blast
  obtain d' where d': "clearEmptyMessageData (put_change d k ?c') k = Inr d'" "iddiff_ok d'"
      "change_of d' = change_of (put_change d k ?c')"
      "heap_next d' = heap_next (put_change d k ?c')" "same_header (put_change d k ?c') d'"
    using clearEmpty_ok[OF ok1] by blast
  have "?c \<noteq> new_change" using x by (auto simp: new_change_def)
  then have "eraseAdded d k (fst x) = Inr d'"
    using find_change_present[OF ok, of k] d'(1) x
    by (simp add: eraseAdded_def change_eraseAdded_def del: not_None_eq)
  moreover have "sections_of d' = (sections_of d)(k := (sections_of d k)\<lparr>s_added := {}\<rparr>)"
    using sections_of_cong[OF d'(3)]
    by (simp add: sections_of_put sections_of_def removed_of_def added_of_def review_of_def)
  ultimately show ?thesis
    using d' by (simp add: same_header_put_left)
qed

section \<open>Accepting and rejecting\<close>

definition p_reject :: "patch \<Rightarrow> int \<Rightarrow> string option list \<Rightarrow> patch" where
  "p_reject p k v = p(k := (p k)\<lparr>s_removed := insert v (s_removed (p k)),
     s_added := s_added (p k) - {v}\<rparr>)"

definition p_accept :: "patch \<Rightarrow> int \<Rightarrow> string option list \<Rightarrow> patch option" where
  "p_accept p k v =
     (if s_added (p k) \<subseteq> {v}
      then Some (p(k := (p k)\<lparr>s_removed := s_removed (p k) - {v}, s_added := {v}\<rparr>))
      else None)"

text \<open>Small iddiffs for the examples: one with an accepted and one with a rejected translation.\<close>

definition one_form :: "string \<Rightarrow> translation" where
  "one_form s = \<lparr>m_plural = False, m_fuzzy = False, m_msgstr = [os_of_string s]\<rparr>"

definition no_sections :: patch where
  "no_sections k = \<lparr>s_removed = {}, s_added = {}, s_review = None\<rparr>"

lemma one_form_view [simp]: "mt_view (one_form s) = [Some s]"
  by (simp add: one_form_def mt_view_def)

lemma sections_of_new: "sections_of (new_iddiff t) = no_sections"
  by (rule ext) (simp add: sections_of_def removed_of_def added_of_def review_of_def change_of_def
      new_iddiff_def new_change_def no_sections_def)

lemma sample_added:
  "\<exists>d. insertAddedClone (new_iddiff t) (k, (a, one_form s)) = Inr d \<and> iddiff_ok d
    \<and> sections_of d = no_sections(k := \<lparr>s_removed = {}, s_added = {[Some s]}, s_review = None\<rparr>)"
proof -
  have "p_add no_sections k [Some s] = Some (no_sections(k := \<lparr>s_removed = {}, s_added = {[Some s]}, s_review = None\<rparr>))"
    by (simp add: p_add_def no_sections_def)
  then show ?thesis
    using insertAddedClone_refines[OF iddiff_ok_new, of t "(k, (a, one_form s))"]
    unfolding sections_of_new by (auto simp: refines_Some)
qed

lemma sample_removed:
  "\<exists>d. insertRemovedClone (new_iddiff t) (k, (a, one_form s)) = Inr d \<and> iddiff_ok d
    \<and> sections_of d = no_sections(k := \<lparr>s_removed = {[Some s]}, s_added = {}, s_review = None\<rparr>)"
proof -
  have "p_remove no_sections k [Some s] = Some (no_sections(k := \<lparr>s_removed = {[Some s]}, s_added = {}, s_review = None\<rparr>))"
    by (simp add: p_remove_def no_sections_def)
  then show ?thesis
    using insertRemovedClone_refines[OF iddiff_ok_new, of t "(k, (a, one_form s))"]
    unfolding sections_of_new by (auto simp: refines_Some)
qed

lemma reject_ok:
  assumes ok: "iddiff_ok d" and k: "k \<noteq> 0"
  shows "refines (rejectTranslation d k (Some it)) (Some (p_reject (sections_of d) k (item_view it)))"
proof -
  let ?v = "item_view it"
  define after where "after = (\<lambda>d1. rbind (findRemoved d1 k (snd it)) (\<lambda>removed.
     if removed = None then insertRemovedClone d1 (k, it) else Inr d1))"
  have after: "refines (after d1) (p_remove (sections_of d1) k ?v)" if "iddiff_ok d1" for d1
  proof (cases "?v \<in> removed_of d1 k")
    case True
    with that show ?thesis
      by (simp add: after_def findRemoved_ok findList_None removed_of_def item_view_def[of it]
          refines_def p_remove_def sections_of_def del: not_None_eq)
  next
    case False
    then have "after d1 = insertRemovedClone d1 (k, it)"
      using that by (simp add: after_def findRemoved_ok findList_None removed_of_def
          item_view_def[of it] del: not_None_eq)
    with insertRemovedClone_refines[OF that, of "(k, it)"] show ?thesis by simp
  qed
  from ok show ?thesis
  proof (cases rule: added_of_cases[of d k])
    case none
    then have "rejectTranslation d k (Some it) = after d"
      using k ok by (simp add: rejectTranslation_def findAddedSingle_ok after_def)
    moreover have "p_remove (sections_of d) k ?v = Some (p_reject (sections_of d) k ?v)"
      using none by (simp add: p_remove_def p_reject_def sections_of_def insert_absorb fun_upd_idem)
    ultimately show ?thesis using after[OF ok] by simp
  next
    case (one x)
    have disj: "item_view x \<notin> removed_of d k"
      using iddiff_ok_change[OF ok, of k] one by (auto simp: change_ok_def removed_of_def)
    show ?thesis
    proof (cases "item_view x = ?v")
      case True
      obtain d1 where d1: "eraseAdded d k (fst x) = Inr d1" "iddiff_ok d1"
          "sections_of d1 = (sections_of d)(k := (sections_of d k)\<lparr>s_added := {}\<rparr>)"
        using eraseAdded_ok[OF ok one(1)] by blast
      have "rejectTranslation d k (Some it) = after d1"
        using k ok one d1 True by (simp add: rejectTranslation_def findAddedSingle_ok after_def
            item_view_def)
      moreover have "p_remove (sections_of d1) k ?v = Some (p_reject (sections_of d) k ?v)"
        using one True disj by (simp add: p_remove_def p_reject_def d1(3) sections_of_def)
      ultimately show ?thesis using after[OF d1(2)] by simp
    next
      case False
      then have "rejectTranslation d k (Some it) = after d"
        using k ok one by (simp add: rejectTranslation_def findAddedSingle_ok after_def
            item_view_def)
      moreover have "p_remove (sections_of d) k ?v = Some (p_reject (sections_of d) k ?v)"
        using one False
        by (simp add: p_remove_def p_reject_def sections_of_def insert_absorb fun_upd_idem)
      ultimately show ?thesis using after[OF ok] by simp
    qed
  qed
qed

text \<open>Rejecting a translation always succeeds: it joins the rejected translations of its ID and
  is no longer an accepted one; nothing else changes.\<close>

lemma reject_refines:
  assumes "iddiff_ok d" "k \<noteq> 0"
  shows "refines (rejectTranslation d k (Some it)) (Some (p_reject (sections_of d) k (item_view it)))"
  using assms by (rule reject_ok)

lemma reject_refines_witness:
  "\<exists>d d'. insertAddedClone (new_iddiff (fdt_of_time 0)) (5, (0, one_form ''a'')) = Inr d
    \<and> rejectTranslation d 5 (Some (7, one_form ''a'')) = Inr d'
    \<and> sections_of d' 5 = \<lparr>s_removed = {[Some ''a'']}, s_added = {}, s_review = None\<rparr>"
proof -
  obtain d where d: "insertAddedClone (new_iddiff (fdt_of_time 0)) (5, (0, one_form ''a'')) = Inr d"
      "iddiff_ok d" "sections_of d = no_sections(5 := \<lparr>s_removed = {}, s_added = {[Some ''a'']}, s_review = None\<rparr>)"
    using sample_added by blast
  show ?thesis
    using reject_refines[OF d(2), of 5 "(7, one_form ''a'')"] d(1,3)
    by (auto simp: refines_Some p_reject_def)
qed

text \<open>The two steps of \<open>acceptTranslation\<close>: it takes the translation out of the rejected ones, then looks at
  the accepted ones.\<close>

abbreviation unreject_step :: "iddiff \<Rightarrow> int \<Rightarrow> im_ptr \<Rightarrow> iddiff res" where
  "unreject_step d k it \<equiv> rbind (findRemoved d k (snd it)) (\<lambda>removed.
     case removed of Some r \<Rightarrow> eraseRemoved d k (fst r) | None \<Rightarrow> Inr d)"

definition accept_step :: "int \<Rightarrow> im_ptr \<Rightarrow> iddiff \<Rightarrow> iddiff res" where
  "accept_step k it d1 = rbind (findAddedSingle d1 k) (\<lambda>added. case added of
       None \<Rightarrow> insertAddedClone d1 (k, it)
     | Some a \<Rightarrow> if \<not> equalMsgstr (snd a) (snd it) then
           rbind (insertAddedClone d1 (k, it)) (\<lambda>d2. rejectTranslation d2 k (Some a))
         else Inr d1)"

definition p_unreject :: "patch \<Rightarrow> int \<Rightarrow> string option list \<Rightarrow> patch" where
  "p_unreject p k v = p(k := (p k)\<lparr>s_removed := s_removed (p k) - {v}\<rparr>)"

lemma acceptTranslation_steps:
  "k \<noteq> 0 \<Longrightarrow> acceptTranslation d k (Some it) = rbind (unreject_step d k it) (accept_step k it)"
  by (simp add: acceptTranslation_def accept_step_def[abs_def] rbind_assoc del: equalMsgstr_iff)

lemma unreject_ok:
  assumes ok: "iddiff_ok d"
  obtains d1 where "unreject_step d k it = Inr d1" "iddiff_ok d1"
    "sections_of d1 = p_unreject (sections_of d) k (item_view it)"
    "m_addedItems (change_of d1 k) = m_addedItems (change_of d k)"
proof (cases "findIddiffMessageList (m_removedItems (change_of d k)) (snd it)")
  case None
  then have "item_view it \<notin> removed_of d k"
    by (simp add: findList_None removed_of_def item_view_def[of it])
  with None ok that[of d] show ?thesis
    by (simp add: findRemoved_ok sections_of_def p_unreject_def fun_upd_idem)
next
  case (Some r)
  then have "r \<in> set (m_removedItems (change_of d k))" "item_view r = item_view it"
    using findList_Some by (auto simp: item_view_def)
  with Some ok that eraseRemoved_ok[OF ok] show ?thesis
    by (fastforce simp: findRemoved_ok p_unreject_def)
qed

lemma accept_step_refines:
  assumes ok: "iddiff_ok d" and d1: "iddiff_ok d1" "sections_of d1 = p_unreject (sections_of d) k (item_view it)"
      "m_addedItems (change_of d1 k) = m_addedItems (change_of d k)"
  shows "refines (accept_step k it d1) (p_accept (sections_of d) k (item_view it))"
proof -
  let ?v = "item_view it" and ?p1 = "p_unreject (sections_of d) k (item_view it)"
  have ins: "refines (insertAddedClone d1 (k, it)) (p_add ?p1 k ?v)"
    using insertAddedClone_refines[OF d1(1), of "(k, it)"] d1(2) by simp
  consider (none) "m_addedItems (change_of d k) = []" "added_of d k = {}"
    | (same) x where "m_addedItems (change_of d k) = [x]" "added_of d k = {item_view x}" "item_view x = ?v"
    | (other) x where "m_addedItems (change_of d k) = [x]" "added_of d k = {item_view x}" "item_view x \<noteq> ?v"
    using added_of_cases[OF ok, of k] by metis
  then show ?thesis
  proof cases
    case none
    then have "accept_step k it d1 = insertAddedClone d1 (k, it)"
      using d1 by (simp add: accept_step_def findAddedSingle_ok)
    moreover have "p_add ?p1 k ?v = p_accept (sections_of d) k ?v"
      using none by (simp add: p_add_def p_accept_def p_unreject_def sections_of_def)
    ultimately show ?thesis using ins by simp
  next
    case same
    then have "accept_step k it d1 = Inr d1"
      using d1 by (simp add: accept_step_def findAddedSingle_ok item_view_def)
    moreover have "Some ?p1 = p_accept (sections_of d) k ?v"
      using same by (simp add: p_accept_def p_unreject_def sections_of_def)
    ultimately show ?thesis using d1 by (simp add: refines_def)
  next
    case other
    then have pn: "p_add ?p1 k ?v = None" "p_accept (sections_of d) k ?v = None"
      by (auto simp: p_add_def p_accept_def p_unreject_def sections_of_def)
    with ins obtain e where e: "insertAddedClone d1 (k, it) = Inl e" "conflict_error e"
      by (auto elim: refines_cases)
    then have "accept_step k it d1 = Inl e"
      using d1 other by (simp add: accept_step_def findAddedSingle_ok item_view_def)
    with e pn show ?thesis by (simp add: refines_def)
  qed
qed

text \<open>C7. Accepting a translation takes it out of the rejected ones and makes it the accepted one of its
  ID. It succeeds exactly when no other translation is accepted for the ID; otherwise the code
  stops at the insertion, before it gets to rejecting the other one.\<close>

lemma accept_refines:
  assumes ok: "iddiff_ok d" and k: "k \<noteq> 0"
  shows "refines (acceptTranslation d k (Some it)) (p_accept (sections_of d) k (item_view it))"
proof -
  obtain d1 where "unreject_step d k it = Inr d1" "iddiff_ok d1"
      "sections_of d1 = p_unreject (sections_of d) k (item_view it)"
      "m_addedItems (change_of d1 k) = m_addedItems (change_of d k)"
    using unreject_ok[OF ok] by blast
  with accept_step_refines[OF ok, of d1 k it] show ?thesis by (simp add: acceptTranslation_steps[OF k])
qed

lemma accept_refines_witness:
  "\<exists>d d' e. insertRemovedClone (new_iddiff (fdt_of_time 0)) (5, (0, one_form ''a'')) = Inr d
    \<and> acceptTranslation d 5 (Some (7, one_form ''a'')) = Inr d'
    \<and> sections_of d' 5 = \<lparr>s_removed = {}, s_added = {[Some ''a'']}, s_review = None\<rparr>
    \<and> acceptTranslation d' 5 (Some (8, one_form ''b'')) = Inl e"
proof -
  obtain d where d: "insertRemovedClone (new_iddiff (fdt_of_time 0)) (5, (0, one_form ''a'')) = Inr d"
      "iddiff_ok d" "sections_of d = no_sections(5 := \<lparr>s_removed = {[Some ''a'']}, s_added = {}, s_review = None\<rparr>)"
    using sample_removed by blast
  obtain d' where d': "acceptTranslation d 5 (Some (7, one_form ''a'')) = Inr d'" "iddiff_ok d'"
      "sections_of d' 5 = \<lparr>s_removed = {}, s_added = {[Some ''a'']}, s_review = None\<rparr>"
    using accept_refines[OF d(2), of 5 "(7, one_form ''a'')"] d(3)
    by (auto simp: refines_Some refines_None p_accept_def)
  show ?thesis
    using accept_refines[OF d'(2), of 5 "(8, one_form ''b'')"] d d'
    by (auto simp: refines_Some refines_None p_accept_def)
qed

end
