(* ===== verification/IddiffUnion.thy ===== *)
theory IddiffUnion
  imports IddiffMerge
begin

text \<open>
  \<open>Iddiff::merge\<close> against the union of two patches: it succeeds exactly when the patches are
  compatible, and then gives their union.
\<close>

section \<open>The section vectors\<close>

lemma section_vector_ok:
  "\<forall>p\<in>set its. snd p \<noteq> None \<Longrightarrow>
    section_vector sec its = Inr (concat (map (\<lambda>(k, oc). map (Pair k) (sec (the oc))) its))"
  by (induction sec its rule: section_vector.induct) (auto split: option.splits)

lemma items_not_null: "iddiff_ok e \<Longrightarrow> \<forall>p\<in>set (m_items e). snd p \<noteq> None"
proof
  fix p assume ok: "iddiff_ok e" and "p \<in> set (m_items e)"
  then have "map_of (m_items e) (fst p) = Some (snd p)"
    by (simp add: iddiff_ok_def om_inv_map_of del: map_of_eq_Some_iff)
  with ok show "snd p \<noteq> None" unfolding iddiff_ok_def by blast
qed

lemma section_vector_set:
  assumes "iddiff_ok e" "sec new_change = []"
  shows "\<exists>v. section_vector sec (m_items e) = Inr v \<and> set v = {(k, x). x \<in> set (sec (change_of e k))}"
proof -
  have inv: "om_inv (m_items e)" using assms by (simp add: iddiff_ok_def)
  have 1: "(k, oc) \<in> set (m_items e) \<Longrightarrow> the oc = change_of e k" for k oc
  proof -
    assume p: "(k, oc) \<in> set (m_items e)"
    then have "oc \<noteq> None" using items_not_null[OF assms(1)] by fastforce
    moreover have "map_of (m_items e) k = Some oc"
      using p om_inv_map_of[OF inv] by blast
    ultimately show ?thesis by (auto simp: change_of_def)
  qed
  have 2: "x \<in> set (sec (change_of e k)) \<Longrightarrow> \<exists>oc. (k, oc) \<in> set (m_items e)" for x k
    using assms(2) by (auto simp: change_of_def split: option.splits dest: map_of_SomeD)
  have "set (concat (map (\<lambda>(k, oc). map (Pair k) (sec (the oc))) (m_items e)))
    = {(k, x). x \<in> set (sec (change_of e k))}" (is "?l = ?r")
  proof (intro subset_antisym subrelI)
    fix k x assume "(k, x) \<in> ?l"
    then obtain oc where "(k, oc) \<in> set (m_items e)" "x \<in> set (sec (the oc))"
      by (auto simp del: split_paired_Ex)
    with 1 show "(k, x) \<in> ?r" by simp
  next
    fix k x assume "(k, x) \<in> ?r"
    then have x: "x \<in> set (sec (change_of e k))" by simp
    then obtain oc where oc: "(k, oc) \<in> set (m_items e)" using 2 by blast
    then have "(k, x) \<in> set (map (Pair k) (sec (the oc)))" using 1 x by simp
    then show "(k, x) \<in> ?l" using oc by (simp del: split_paired_Ex set_map) force
  qed
  then show ?thesis
    using section_vector_ok[OF items_not_null[OF assms(1)]] by blast
qed

lemma section_vector_keys:
  "section_vector sec its = Inr w \<Longrightarrow> fst ` set w \<subseteq> fst ` set its"
proof (induction sec its arbitrary: w rule: section_vector.induct)
  case (2 sec k oc its)
  from 2(2) obtain c where oc: "oc = Some c" by (cases oc) auto
  with 2(2) obtain v where "section_vector sec its = Inr v" "w = map (\<lambda>x. (k, x)) (sec c) @ v"
    by (auto simp: res_simps)
  moreover from this 2(1)[OF oc] have "fst ` set v \<subseteq> fst ` set its" by blast
  ultimately show ?case by auto
qed simp

lemma section_vector_distinct:
  assumes "section_vector sec its = Inr v" "distinct (map fst its)"
    and "\<forall>p\<in>set its. length (sec (the (snd p))) \<le> 1"
  shows "distinct (map fst v)"
  using assms
proof (induction its arbitrary: v)
  case Nil
  then show ?case by simp
next
  case (Cons p its)
  then obtain k c where p: "p = (k, Some c)" by (cases p) (auto split: option.splits)
  with Cons.prems obtain w where w: "section_vector sec its = Inr w"
      "v = map (\<lambda>x. (k, x)) (sec c) @ w" by (auto simp: res_simps)
  have sub: "fst ` set w \<subseteq> fst ` set its" using w(1) by (rule section_vector_keys)
  have "k \<notin> fst ` set its" using Cons.prems(2) p by simp
  then have k: "k \<notin> fst ` set w" using sub by blast
  have dw: "distinct (map fst w)" using Cons w by simp
  have "length (sec c) \<le> 1" using Cons.prems(3) p by simp
  then have "sec c = [] \<or> (\<exists>x. sec c = [x])" by (cases "sec c") auto
  then show ?case using dw k w(2) by auto
qed

section \<open>Folding abstract operations\<close>

fun pfold :: "(patch \<Rightarrow> 'a \<Rightarrow> patch option) \<Rightarrow> patch \<Rightarrow> 'a list \<Rightarrow> patch option" where
  "pfold f p [] = Some p"
| "pfold f p (x # xs) = Option.bind (f p x) (\<lambda>p'. pfold f p' xs)"

lemma refines_fold:
  assumes "\<And>d x. iddiff_ok d \<Longrightarrow> x \<in> set xs \<Longrightarrow> refines (f d x) (g (sections_of d) x)"
    and "iddiff_ok d"
  shows "refines (rfold f d xs) (pfold g (sections_of d) xs)"
  using assms
proof (induction xs arbitrary: d)
  case Nil
  then show ?case by (simp add: refines_def)
next
  case (Cons x xs)
  have step: "refines (f d x) (g (sections_of d) x)" using Cons.prems by simp
  show ?case
  proof (cases "f d x")
    case (Inl e)
    with step show ?thesis by (simp add: refines_def)
  next
    case (Inr d')
    with step have "iddiff_ok d'" "g (sections_of d) x = Some (sections_of d')"
      by (simp_all add: refines_def)
    with Inr Cons show ?thesis by simp
  qed
qed

text \<open>The translations a vector has for an ID.\<close>

definition views_at :: "(int \<times> im_ptr) list \<Rightarrow> int \<Rightarrow> string option list set" where
  "views_at xs k = {item_view x | x. (k, x) \<in> set xs}"

lemma views_at_simps [simp]:
  "views_at [] k = {}"
  "views_at (p # xs) k = (if fst p = k then insert (item_view (snd p)) (views_at xs k) else views_at xs k)"
proof -
  show "views_at [] k = {}" by (simp add: views_at_def)
  have "(k, x) \<in> set (p # xs) \<longleftrightarrow> (fst p = k \<and> x = snd p) \<or> (k, x) \<in> set xs" for x
    by (cases p) auto
  then show "views_at (p # xs) k
      = (if fst p = k then insert (item_view (snd p)) (views_at xs k) else views_at xs k)"
    unfolding views_at_def by (simp split: if_splits del: split_paired_Ex list.set) blast
qed

lemma views_at_sections:
  "set v = {(k, x). x \<in> set (sec k)} \<Longrightarrow> views_at v k = item_view ` set (sec k)"
  unfolding views_at_def by (simp del: split_paired_Ex) blast

lemma views_at_notin: "k \<notin> fst ` set xs \<Longrightarrow> views_at xs k = {}"
  by (force simp: views_at_def)

lemma pfold_remove:
  assumes "\<forall>k. s_removed (p k) \<inter> s_added (p k) = {}"
  shows "pfold (\<lambda>p x. p_remove p (fst x) (item_view (snd x))) p xs =
    (if \<forall>k. views_at xs k \<inter> s_added (p k) = {}
     then Some (\<lambda>k. (p k)\<lparr>s_removed := s_removed (p k) \<union> views_at xs k\<rparr>) else None)"
  (is "?fold p xs = (if ?Q p xs then Some (?R p xs) else None)")
  using assms
proof (induction xs arbitrary: p)
  case Nil
  then show ?case by simp
next
  case (Cons x xs)
  let ?k = "fst x" and ?v = "item_view (snd x)"
  let ?p' = "p(?k := (p ?k)\<lparr>s_removed := insert ?v (s_removed (p ?k))\<rparr>)"
  show ?case
  proof (cases "?v \<in> s_added (p ?k)")
    case True
    with Cons.prems have "?v \<notin> s_removed (p ?k)" by blast
    with True have "?fold p (x # xs) = None" by (simp add: p_remove_def)
    moreover from True have "\<not> ?Q p (x # xs)" by auto
    ultimately show ?thesis by (simp only: if_False)
  next
    case False
    then have "p_remove p ?k ?v = Some ?p'"
      by (simp add: p_remove_def insert_absorb)
    then have "?fold p (x # xs) = ?fold ?p' xs" by (simp only: pfold.simps Option.bind.bind_lunit)
    also have "\<dots> = (if ?Q ?p' xs then Some (?R ?p' xs) else None)"
      using Cons.prems False by (intro Cons.IH) simp
    also have "?Q ?p' xs = ?Q p (x # xs)"
      by (rule all_cong1) (use False in auto)
    also have "?R ?p' xs = ?R p (x # xs)"
      by (rule ext) simp
    finally show ?thesis .
  qed
qed

lemma pfold_add:
  assumes "distinct (map fst xs)"
  shows "pfold (\<lambda>p x. p_add p (fst x) (item_view (snd x))) p xs =
    (if \<forall>k. views_at xs k \<inter> s_removed (p k) = {}
          \<and> (views_at xs k = {} \<or> s_added (p k) = {} \<or> s_added (p k) = views_at xs k)
     then Some (\<lambda>k. (p k)\<lparr>s_added := s_added (p k) \<union> views_at xs k\<rparr>) else None)"
  (is "?fold p xs = (if \<forall>k. ?Q p xs k then Some (?R p xs) else None)")
  using assms
proof (induction xs arbitrary: p)
  case Nil
  then show ?case by simp
next
  case (Cons x xs)
  let ?k = "fst x" and ?v = "item_view (snd x)"
  have k: "views_at xs ?k = {}" using Cons.prems by (intro views_at_notin) simp
  show ?case
  proof (cases "?v \<in> s_removed (p ?k) \<or> (s_added (p ?k) \<noteq> {} \<and> s_added (p ?k) \<noteq> {?v})")
    case True
    then have "?fold p (x # xs) = None" by (auto simp: p_add_def)
    moreover have "\<not> ?Q p (x # xs) ?k" using True k by auto
    then have "\<not> (\<forall>k. ?Q p (x # xs) k)" by (rule contrapos_nn) (erule allE)
    ultimately show ?thesis by (simp only: if_False)
  next
    case False
    let ?p' = "p(?k := (p ?k)\<lparr>s_added := {?v}\<rparr>)"
    have "p_add p ?k ?v = Some ?p'"
    proof (cases "s_added (p ?k) = {}")
      case True
      with False show ?thesis by (simp add: p_add_def)
    next
      case ne: False
      with False have "(p ?k)\<lparr>s_added := {?v}\<rparr> = p ?k" by (cases "p ?k") auto
      then have "?p' = p" by (simp only: fun_upd_triv)
      with False ne show ?thesis by (simp add: p_add_def)
    qed
    then have "?fold p (x # xs) = ?fold ?p' xs" by (simp only: pfold.simps Option.bind.bind_lunit)
    also have "\<dots> = (if \<forall>k. ?Q ?p' xs k then Some (?R ?p' xs) else None)"
      using Cons.prems by (intro Cons.IH) simp
    also have "(\<forall>k. ?Q ?p' xs k) = (\<forall>k. ?Q p (x # xs) k)"
      by (rule all_cong1) (use False k in auto)
    also have "?R ?p' xs = ?R p (x # xs)"
      using False k by (intro ext) auto
    finally show ?thesis .
  qed
qed

text \<open>The review comments of a vector with one item per ID.\<close>

definition review_at :: "(int \<times> im_ptr) list \<Rightarrow> int \<Rightarrow> string option list option" where
  "review_at xs k = map_option item_view (map_of xs k)"

lemma pfold_review:
  assumes "distinct (map fst xs)"
  shows "pfold (\<lambda>p x. p_review p (fst x) (item_view (snd x))) p xs =
    (if \<forall>k. review_at xs k = None \<or> s_review (p k) = None
     then Some (\<lambda>k. (p k)\<lparr>s_review := (case review_at xs k of None \<Rightarrow> s_review (p k) | Some v \<Rightarrow> Some v)\<rparr>)
     else None)"
  (is "?fold p xs = (if \<forall>k. ?Q p xs k then Some (?R p xs) else None)")
  using assms
proof (induction xs arbitrary: p)
  case Nil
  then show ?case by (simp add: review_at_def)
next
  case (Cons x xs)
  let ?k = "fst x" and ?v = "item_view (snd x)"
  have k: "review_at xs ?k = None"
    using Cons.prems by (simp add: review_at_def map_of_eq_None_iff)
  have other: "review_at (x # xs) j = (if j = ?k then Some ?v else review_at xs j)" for j
    by (cases x) (simp add: review_at_def)
  show ?case
  proof (cases "s_review (p ?k)")
    case (Some w)
    then have "?fold p (x # xs) = None" by (simp add: p_review_def)
    moreover have "\<not> ?Q p (x # xs) ?k" using Some other by simp
    then have "\<not> (\<forall>k. ?Q p (x # xs) k)" by (rule contrapos_nn) (erule allE)
    ultimately show ?thesis by (simp only: if_False)
  next
    case None
    let ?p' = "p(?k := (p ?k)\<lparr>s_review := Some ?v\<rparr>)"
    have "p_review p ?k ?v = Some ?p'" using None by (simp add: p_review_def)
    then have "?fold p (x # xs) = ?fold ?p' xs" by (simp only: pfold.simps Option.bind.bind_lunit)
    also have "\<dots> = (if \<forall>k. ?Q ?p' xs k then Some (?R ?p' xs) else None)"
      using Cons.prems by (intro Cons.IH) simp
    also have "(\<forall>k. ?Q ?p' xs k) = (\<forall>k. ?Q p (x # xs) k)"
      by (rule all_cong1) (use None k other in auto)
    also have "?R ?p' xs = ?R p (x # xs)"
      by (rule ext) (simp add: other k split: option.split)
    finally show ?thesis .
  qed
qed

section \<open>Merging\<close>

definition p_compatible :: "patch \<Rightarrow> patch \<Rightarrow> bool" where
  "p_compatible p q \<longleftrightarrow> (\<forall>k.
     (s_removed (p k) \<union> s_removed (q k)) \<inter> (s_added (p k) \<union> s_added (q k)) = {}
     \<and> (s_added (p k) = {} \<or> s_added (q k) = {} \<or> s_added (p k) = s_added (q k))
     \<and> (s_review (p k) = None \<or> s_review (q k) = None))"

definition p_union :: "patch \<Rightarrow> patch \<Rightarrow> patch" where
  "p_union p q k = \<lparr>s_removed = s_removed (p k) \<union> s_removed (q k),
     s_added = s_added (p k) \<union> s_added (q k),
     s_review = (case s_review (q k) of None \<Rightarrow> s_review (p k) | Some v \<Rightarrow> Some v)\<rparr>"

lemma sections_disjoint:
  "iddiff_ok d \<Longrightarrow> s_removed (sections_of d k) \<inter> s_added (sections_of d k) = {}"
  using iddiff_ok_change[of d k] by (auto simp: change_ok_def sections_of_sel)

lemma vector_removed:
  assumes "iddiff_ok e"
  shows "\<exists>v. getRemovedVector e = Inr v \<and> views_at v = removed_of e"
proof -
  obtain v where v: "getRemovedVector e = Inr v"
      "set v = {(k, x). x \<in> set (m_removedItems (change_of e k))}"
    using section_vector_set[OF assms, of m_removedItems]
    by (auto simp: getRemovedVector_def new_change_def)
  from v(2) have "views_at v = removed_of e"
    by (intro ext) (simp only: views_at_sections[of v "\<lambda>k. m_removedItems (change_of e k)"] removed_of_def)
  with v(1) show ?thesis by blast
qed

lemma items_sections_le1:
  assumes "iddiff_ok e"
  shows "\<forall>p\<in>set (m_items e). length (m_addedItems (the (snd p))) \<le> 1"
proof
  fix p assume p: "p \<in> set (m_items e)"
  have "map_of (m_items e) (fst p) = Some (snd p)"
    using assms p by (simp add: iddiff_ok_def om_inv_map_of)
  with assms show "length (m_addedItems (the (snd p))) \<le> 1"
    by (fastforce simp: iddiff_ok_def change_ok_def)
qed

lemma vector_added:
  assumes "iddiff_ok e"
  shows "\<exists>v. getAddedVector e = Inr v \<and> views_at v = added_of e \<and> distinct (map fst v)"
proof -
  obtain v where v: "getAddedVector e = Inr v"
      "set v = {(k, x). x \<in> set (m_addedItems (change_of e k))}"
    using section_vector_set[OF assms, of m_addedItems]
    by (auto simp: getAddedVector_def new_change_def)
  have "distinct (map fst v)"
    using v(1) assms items_sections_le1[OF assms] unfolding getAddedVector_def
    by (rule_tac section_vector_distinct) (auto simp: iddiff_ok_def om_inv_distinct)
  moreover have "views_at v = added_of e"
    using v(2) by (intro ext) (simp only: views_at_sections[of v "\<lambda>k. m_addedItems (change_of e k)"] added_of_def)
  ultimately show ?thesis using v(1) by blast
qed

lemma vector_review:
  assumes "iddiff_ok e"
  shows "\<exists>v. getReviewVector e = Inr v \<and> review_at v = review_of e \<and> distinct (map fst v)
    \<and> (\<forall>p\<in>set v. im_isTranslated (snd (snd p)))"
proof -
  let ?sec = "\<lambda>c. case m_reviewComment c of Some x \<Rightarrow> [x] | None \<Rightarrow> []"
  obtain v where v: "getReviewVector e = Inr v"
      "set v = {(k, x). x \<in> set (?sec (change_of e k))}"
    using section_vector_set[OF assms, of ?sec]
    by (auto simp: getReviewVector_def new_change_def)
  have d: "distinct (map fst v)"
    using v(1) assms unfolding getReviewVector_def
    by (rule_tac section_vector_distinct)
      (auto simp: iddiff_ok_def om_inv_distinct split: option.splits)
  have mem: "(k, x) \<in> set v \<longleftrightarrow> m_reviewComment (change_of e k) = Some x" for k x
    by (cases "m_reviewComment (change_of e k)"; cases x) (auto simp: v(2))
  then have "map_of v k = Some x \<longleftrightarrow> m_reviewComment (change_of e k) = Some x" for k x
    using d by (simp only: map_of_eq_Some_iff)
  then have "map_of v k = m_reviewComment (change_of e k)" for k
    by (metis option.exhaust)
  then have "review_at v = review_of e" by (simp add: review_at_def review_of_def fun_eq_iff)
  moreover have "\<forall>p\<in>set v. im_isTranslated (snd (snd p))"
  proof
    fix p assume "p \<in> set v"
    then have "m_reviewComment (change_of e (fst p)) = Some (snd p)"
      using mem[of "fst p" "snd p"] by simp
    then show "im_isTranslated (snd (snd p))"
      using iddiff_ok_change[OF assms, of "fst p"] unfolding change_ok_def by blast
  qed
  ultimately show ?thesis using v(1) d by blast
qed

lemma refines_bind:
  assumes "refines r p" "\<And>d. iddiff_ok d \<Longrightarrow> refines (f d) (g (sections_of d))"
  shows "refines (rbind r f) (Option.bind p g)"
  using assms(1)
proof (rule refines_cases)
  fix d assume "r = Inr d" "iddiff_ok d" "p = Some (sections_of d)"
  then show ?thesis using assms(2)[of d] by simp
next
  fix e assume "r = Inl e" "conflict_error e" "p = None"
  then show ?thesis by (simp add: refines_def)
qed

lemma refines_headers: "refines r p \<Longrightarrow> refines (rbind r (\<lambda>d. Inr (mergeHeaders d diff))) p"
proof -
  have "iddiff_ok (mergeHeaders d diff) = iddiff_ok d \<and> sections_of (mergeHeaders d diff) = sections_of d" for d
    by (auto simp: mergeHeaders_def iddiff_ok_def sections_of_def removed_of_def added_of_def
        review_of_def change_of_def Let_def fun_eq_iff)
  then show "refines r p \<Longrightarrow> ?thesis"
    by (auto simp: refines_def split: sum.splits)
qed

lemma merge_ok:
  assumes d: "iddiff_ok d" and e: "iddiff_ok e"
  shows "refines (merge d e) (if p_compatible (sections_of d) (sections_of e)
    then Some (p_union (sections_of d) (sections_of e)) else None)"
proof -
  let ?R = "\<lambda>p x. p_remove p (fst x) (item_view (snd x))"
  let ?A = "\<lambda>p x. p_add p (fst x) (item_view (snd x))"
  let ?V = "\<lambda>p x. p_review p (fst x) (item_view (snd x))"
  obtain rs as vs where rs: "getRemovedVector e = Inr rs" "views_at rs = removed_of e"
    and as: "getAddedVector e = Inr as" "views_at as = added_of e" "distinct (map fst as)"
    and vs: "getReviewVector e = Inr vs" "review_at vs = review_of e" "distinct (map fst vs)"
      "\<forall>p\<in>set vs. im_isTranslated (snd (snd p))"
    using vector_removed[OF e] vector_added[OF e] vector_review[OF e] by blast
  have "merge d e = rbind (rbind (rbind (rfold insertRemovedClone d rs) (\<lambda>d. rfold insertAddedClone d as))
      (\<lambda>d. rfold insertReviewClone d vs)) (\<lambda>d. Inr (mergeHeaders d e))"
    by (simp add: merge_def rs(1) as(1) vs(1) rbind_assoc)
  moreover have "refines (rbind (rbind (rfold insertRemovedClone d rs) (\<lambda>d. rfold insertAddedClone d as))
      (\<lambda>d. rfold insertReviewClone d vs))
    (Option.bind (Option.bind (pfold ?R (sections_of d) rs) (\<lambda>p. pfold ?A p as)) (\<lambda>p. pfold ?V p vs))"
    by (intro refines_bind refines_fold insertRemovedClone_refines insertAddedClone_refines
        insertReviewClone_refines d) (use vs(4) in auto)
  moreover have "Option.bind (Option.bind (pfold ?R (sections_of d) rs) (\<lambda>p. pfold ?A p as)) (\<lambda>p. pfold ?V p vs)
    = (if p_compatible (sections_of d) (sections_of e)
       then Some (p_union (sections_of d) (sections_of e)) else None)"
  proof -
    let ?p = "sections_of d"
    let ?p1 = "\<lambda>k. (?p k)\<lparr>s_removed := s_removed (?p k) \<union> removed_of e k\<rparr>"
    let ?p2 = "\<lambda>k. (?p1 k)\<lparr>s_added := s_added (?p1 k) \<union> added_of e k\<rparr>"
    have r: "pfold ?R ?p rs = (if \<forall>k. removed_of e k \<inter> s_added (?p k) = {} then Some ?p1 else None)"
      using pfold_remove[of ?p rs] sections_disjoint[OF d] rs(2) by simp
    have a: "pfold ?A ?p1 as = (if \<forall>k. added_of e k \<inter> (s_removed (?p k) \<union> removed_of e k) = {}
        \<and> (added_of e k = {} \<or> s_added (?p k) = {} \<or> s_added (?p k) = added_of e k)
        then Some ?p2 else None)"
      using pfold_add[of as ?p1] as by simp
    have u: "(\<lambda>k. (?p2 k)\<lparr>s_review := (case review_of e k of None \<Rightarrow> s_review (?p2 k) | Some v \<Rightarrow> Some v)\<rparr>)
      = p_union ?p (sections_of e)"
      by (rule ext) (simp add: p_union_def sections_of_def split: option.split)
    have v: "pfold ?V ?p2 vs = (if \<forall>k. review_of e k = None \<or> s_review (?p k) = None
        then Some (p_union ?p (sections_of e)) else None)"
      using pfold_review[OF vs(3), of ?p2] unfolding vs(2) u by simp
    have compat: "p_compatible ?p (sections_of e) \<longleftrightarrow>
      (\<forall>k. removed_of e k \<inter> s_added (?p k) = {}) \<and>
      (\<forall>k. added_of e k \<inter> (s_removed (?p k) \<union> removed_of e k) = {}
        \<and> (added_of e k = {} \<or> s_added (?p k) = {} \<or> s_added (?p k) = added_of e k)) \<and>
      (\<forall>k. review_of e k = None \<or> s_review (?p k) = None)"
      unfolding p_compatible_def all_conj_distrib[symmetric]
      by (rule all_cong1) (use sections_disjoint[OF d] in \<open>auto simp: sections_of_def\<close>)
    show ?thesis
      unfolding compat using r a v by auto
  qed
  ultimately show ?thesis
    using refines_headers by simp
qed

text \<open>C1. Merging one iddiff into another gives the union of what the two reject, accept and review, ID
  by ID. It stops exactly when they contradict each other: one rejects what the other accepts,
  they accept different translations, or both have a review comment for one ID.\<close>

lemma merge_refines:
  assumes "iddiff_ok d" "iddiff_ok e"
  shows "refines (merge d e) (if p_compatible (sections_of d) (sections_of e)
    then Some (p_union (sections_of d) (sections_of e)) else None)"
  using assms by (rule merge_ok)

lemma merge_refines_witness:
  "\<exists>d e m f err. insertAddedClone (new_iddiff (fdt_of_time 0)) (5, (0, one_form ''a'')) = Inr d
    \<and> insertRemovedClone (new_iddiff (fdt_of_time 0)) (5, (0, one_form ''b'')) = Inr e
    \<and> merge d e = Inr m
    \<and> sections_of m 5 = \<lparr>s_removed = {[Some ''b'']}, s_added = {[Some ''a'']}, s_review = None\<rparr>
    \<and> insertRemovedClone (new_iddiff (fdt_of_time 0)) (5, (0, one_form ''a'')) = Inr f
    \<and> merge d f = Inl err"
proof -
  let ?t = "fdt_of_time 0"
  obtain d where d: "insertAddedClone (new_iddiff ?t) (5, (0, one_form ''a'')) = Inr d"
      "iddiff_ok d" "sections_of d = no_sections(5 := \<lparr>s_removed = {}, s_added = {[Some ''a'']}, s_review = None\<rparr>)"
    using sample_added by blast
  obtain e where e: "insertRemovedClone (new_iddiff ?t) (5, (0, one_form ''b'')) = Inr e"
      "iddiff_ok e" "sections_of e = no_sections(5 := \<lparr>s_removed = {[Some ''b'']}, s_added = {}, s_review = None\<rparr>)"
    using sample_removed by blast
  obtain f where f: "insertRemovedClone (new_iddiff ?t) (5, (0, one_form ''a'')) = Inr f"
      "iddiff_ok f" "sections_of f = no_sections(5 := \<lparr>s_removed = {[Some ''a'']}, s_added = {}, s_review = None\<rparr>)"
    using sample_removed by blast
  have "p_compatible (sections_of d) (sections_of e)" "\<not> p_compatible (sections_of d) (sections_of f)"
    by (auto simp: p_compatible_def d(3) e(3) f(3) no_sections_def)
  then show ?thesis
    using merge_refines[OF d(2) e(2)] merge_refines[OF d(2) f(2)] d e f
    by (auto simp: refines_Some refines_None p_union_def)
qed

end
