(* ===== verification/MinIds.thy ===== *)
theory MinIds
  imports StupPrelude
begin

text \<open>
  The interface between the ID database and the code that minimizes the IDs of an iddiff: every ID
  has a minimum ID, which stands for itself. The database of collapsed IDs provides it, whatever
  its file holds; the minimization of an iddiff relies on it.
\<close>

locale min_id_map =
  fixes f :: "int \<Rightarrow> int"
  assumes min_idem: "f (f k) = f k"
    and min_le: "f k \<le> k"
begin

text \<open>An ID that is also the minimum of another one stands for itself.\<close>

lemma min_image_fixed: "k \<in> f ` A \<Longrightarrow> f k = k"
  using min_idem by auto

text \<open>Where no two IDs of a set have one minimum, the minimum of one of them is not another.\<close>

lemma min_no_collision:
  assumes "inj_on f A" "a \<in> A" "b \<in> A" "f a = b"
  shows "a = b"
  using assms min_idem[of a] by (metis inj_onD)

lemma min_not_image:
  assumes "inj_on f (insert a S)" "a \<notin> S"
  shows "\<not> (\<exists>k\<in>S. f k = a)"
proof
  assume "\<exists>k\<in>S. f k = a"
  then obtain k where "k \<in> S" "f k = a" by blast
  with min_no_collision[OF assms(1), of k a] assms(2) show False by simp
qed

lemma min_collision:
  assumes "a \<in> A" "b \<in> A" "f a = f b" "a \<noteq> b"
  shows "\<not> inj_on f A"
  using assms by (metis inj_onD)

end

end
