(* ===== verification/Bytes.thy ===== *)
theory Bytes
  imports StupPrelude "HOL-Library.Word"
begin

text \<open>
  32-bit integers as bytes in memory (little-endian) and on the network (big-endian, \<open>htonl\<close> and
  \<open>ntohl\<close>), C's \<open>int\<close> as a number, and 20-byte object IDs.
\<close>

unbundle bit_operations_syntax

type_synonym byte = "8 word"
type_synonym u32 = "32 word"

definition le32 :: "u32 \<Rightarrow> byte list" where
  "le32 w = [ucast w, ucast (drop_bit 8 w), ucast (drop_bit 16 w), ucast (drop_bit 24 w)]"

definition be32 :: "u32 \<Rightarrow> byte list" where
  "be32 w = [ucast (drop_bit 24 w), ucast (drop_bit 16 w), ucast (drop_bit 8 w), ucast w]"

definition of_bytes :: "byte \<Rightarrow> byte \<Rightarrow> byte \<Rightarrow> byte \<Rightarrow> u32" where
  "of_bytes b3 b2 b1 b0 =
     push_bit 24 (ucast b3) OR push_bit 16 (ucast b2) OR push_bit 8 (ucast b1) OR ucast b0"

fun un_be32 :: "byte list \<Rightarrow> u32" where
  "un_be32 [b3, b2, b1, b0] = of_bytes b3 b2 b1 b0"
| "un_be32 _ = 0"

lemma of_bytes_parts:
  "of_bytes (ucast (drop_bit 24 w)) (ucast (drop_bit 16 w)) (ucast (drop_bit 8 w)) (ucast w) = w"
proof (rule bit_word_eqI)
  fix n assume "n < LENGTH(32)"
  then consider "n < 8" | "8 \<le> n" "n < 16" | "16 \<le> n" "n < 24" | "24 \<le> n" "n < 32"
    by fastforce
  then show "bit (of_bytes (ucast (drop_bit 24 w)) (ucast (drop_bit 16 w)) (ucast (drop_bit 8 w))
      (ucast w)) n = bit w n"
    by cases (auto simp: of_bytes_def bit_simps)
qed

lemma un_be32_be32 [simp]: "un_be32 (be32 w) = w"
  by (simp add: be32_def of_bytes_parts)

lemma be32_of_bytes: "be32 (of_bytes b3 b2 b1 b0) = [b3, b2, b1, b0]"
proof -
  have high: "8 \<le> n \<Longrightarrow> \<not> bit (b :: byte) n" for b n
    using bit_imp_le_length[of b n] by auto
  show ?thesis
    unfolding be32_def by (auto simp: of_bytes_def bit_simps high intro!: bit_word_eqI)
qed

lemma be32_un_be32: "length bs = 4 \<Longrightarrow> be32 (un_be32 bs) = bs"
  by (auto simp: numeral_eq_Suc length_Suc_conv be32_of_bytes)

lemma length_be32 [simp]: "length (be32 w) = 4"
  by (simp add: be32_def)

text \<open>\<open>(int)w\<close> and \<open>(uint32_t)i\<close>.\<close>

definition int_of_u32 :: "u32 \<Rightarrow> int" where
  "int_of_u32 w = sint w"

definition u32_of_int :: "int \<Rightarrow> u32" where
  "u32_of_int i = word_of_int i"

definition is_int32 :: "int \<Rightarrow> bool" where
  "is_int32 i \<longleftrightarrow> - (2 ^ 31) \<le> i \<and> i < 2 ^ 31"

lemma int_of_u32_of_int [simp]: "is_int32 i \<Longrightarrow> int_of_u32 (u32_of_int i) = i"
  by (simp add: is_int32_def int_of_u32_def u32_of_int_def signed_of_int signed_take_bit_int_eq_self)

lemma is_int32_of_u32 [simp]: "is_int32 (int_of_u32 w)"
  using sint_range_size[of w] by (simp add: is_int32_def int_of_u32_def word_size)

lemma u32_of_int_of_u32 [simp]: "u32_of_int (int_of_u32 w) = w"
  by (simp add: int_of_u32_def u32_of_int_def)

text \<open>The bytes of a vector of integers, and the vector read back.\<close>

definition be32s :: "int list \<Rightarrow> byte list" where
  "be32s xs = concat (map (be32 \<circ> u32_of_int) xs)"

fun un_be32s :: "byte list \<Rightarrow> int list" where
  "un_be32s (b3 # b2 # b1 # b0 # bs) = int_of_u32 (of_bytes b3 b2 b1 b0) # un_be32s bs"
| "un_be32s _ = []"

lemma un_be32s_be32s: "\<forall>x\<in>set xs. is_int32 x \<Longrightarrow> un_be32s (be32s xs) = xs"
  by (induction xs) (auto simp: be32s_def be32_def of_bytes_parts)

lemma length_be32s [simp]: "length (be32s xs) = 4 * length xs"
  by (induction xs) (auto simp: be32s_def)

lemma be32s_simps [simp]: "be32s [] = []" "be32s (x # xs) = be32 (u32_of_int x) @ be32s xs"
  by (simp_all add: be32s_def)

text \<open>A vector of pairs of integers.\<close>

definition be32_pairs :: "(int \<times> int) list \<Rightarrow> byte list" where
  "be32_pairs ps = concat (map (\<lambda>p. be32 (u32_of_int (fst p)) @ be32 (u32_of_int (snd p))) ps)"

lemma be32_pairs_simps [simp]: "be32_pairs [] = []"
  "be32_pairs (p # ps) = be32 (u32_of_int (fst p)) @ be32 (u32_of_int (snd p)) @ be32_pairs ps"
  by (simp_all add: be32_pairs_def)

end
