(* ===== verification/IdMap.thy ===== *)
theory IdMap
  imports Bytes MinIds
begin

text \<open>
  \<open>gtpo/mappedfile.cpp\<close>: a file mapped into memory, and in it the map of collapsed message IDs. Row
  \<open>i\<close> is the 32-bit integer at byte offset 4 \<open>i\<close>: zero, or a smaller ID that stands for \<open>i\<close>.
  The mapping is the file's length and its bytes; \<open>ptr\<close> extends the file with zeros to a megabyte
  boundary.
\<close>

record mapped_file =
  m_fileLength :: nat
  mf_data :: "nat \<Rightarrow> byte"

definition empty_file :: mapped_file where
  "empty_file = \<lparr>m_fileLength = 0, mf_data = (\<lambda>_. 0)\<rparr>"

definition mf_expand :: "mapped_file \<Rightarrow> nat \<Rightarrow> mapped_file" where
  "mf_expand f newSize = \<lparr>m_fileLength = newSize,
     mf_data = (\<lambda>i. if m_fileLength f \<le> i \<and> i < newSize then 0 else mf_data f i)\<rparr>"

text \<open>\<open>ptr(offset, len)\<close>: the mapping once the range is accessible.\<close>

definition mf_ptr :: "mapped_file \<Rightarrow> nat \<Rightarrow> nat \<Rightarrow> mapped_file res" where
  "mf_ptr f offset len = rassert (len \<ge> 1)
     (rbind
        (if offset + len > m_fileLength f
         then let newSize = (offset + len + 0xFFFFF) div 0x100000 * 0x100000
              in rassert (newSize - m_fileLength f > 0) (Inr (mf_expand f newSize))
         else Inr f)
        (\<lambda>f'. rassert (offset + len - 1 < m_fileLength f') (Inr f')))"

definition mf_ptrConst :: "mapped_file \<Rightarrow> nat \<Rightarrow> nat \<Rightarrow> nat res" where
  "mf_ptrConst f offset len = rassert (len \<ge> 1)
     (rassert (offset + len - 1 < m_fileLength f) (Inr offset))"

definition read_int :: "mapped_file \<Rightarrow> nat \<Rightarrow> int" where
  "read_int f p = int_of_u32 (of_bytes (mf_data f (p + 3)) (mf_data f (p + 2))
     (mf_data f (p + 1)) (mf_data f p))"

definition write_int :: "mapped_file \<Rightarrow> nat \<Rightarrow> int \<Rightarrow> mapped_file" where
  "write_int f p v = (let bs = le32 (u32_of_int v)
     in f\<lparr>mf_data := (mf_data f)(p := bs ! 0, p + 1 := bs ! 1, p + 2 := bs ! 2, p + 3 := bs ! 3)\<rparr>)"

section \<open>The operations\<close>

text \<open>\<open>sizeof(IdMapDb_row) * msg_id\<close> is computed in \<open>size_t\<close>.\<close>

definition row_offset :: "int \<Rightarrow> nat" where
  "row_offset msg_id = nat ((4 * msg_id) mod 2 ^ 64)"

definition getRow :: "mapped_file \<Rightarrow> int \<Rightarrow> mapped_file res" where
  "getRow f msg_id = mf_ptr f (row_offset msg_id) 4"

definition getRowConst :: "mapped_file \<Rightarrow> int \<Rightarrow> int res" where
  "getRowConst f msg_id =
     (if row_offset msg_id \<ge> m_fileLength f then Inr 0
      else rbind (mf_ptrConst f (row_offset msg_id) 4) (\<lambda>p. Inr (read_int f p)))"

lemma getRowConst_int32: "getRowConst f i = Inr m \<Longrightarrow> is_int32 m"
  by (auto simp: getRowConst_def mf_ptrConst_def read_int_def res_simps is_int32_def[of 0]
      split: if_splits)

function getRecursiveMinId :: "mapped_file \<Rightarrow> int \<Rightarrow> int res" where
  "getRecursiveMinId f prev_id =
     (case getRowConst f prev_id of
        Inl e \<Rightarrow> Inl e
      | Inr msg_id \<Rightarrow>
          if msg_id \<noteq> 0
          then (if msg_id < prev_id then getRecursiveMinId f msg_id else Inl AssertFail)
          else Inr prev_id)"
  by pat_completeness auto
termination
  by (relation "measure (\<lambda>(f, i). nat (i + 2 ^ 31))")
    (auto dest!: getRowConst_int32 simp: is_int32_def)

declare getRecursiveMinId.simps [simp del]

definition getPlainMinId :: "mapped_file \<Rightarrow> int \<Rightarrow> int res" where
  "getPlainMinId f msg_id = rbind (getRowConst f msg_id) (\<lambda>min_id.
     Inr (if min_id \<noteq> 0 then min_id else msg_id))"

definition writeRow :: "mapped_file \<Rightarrow> int \<Rightarrow> int \<Rightarrow> mapped_file res" where
  "writeRow f msg_id min_id = rassert (100 \<le> msg_id \<and> msg_id < 100 * 1000 * 1000)
     (rbind (getRow f msg_id) (\<lambda>f'. Inr (write_int f' (row_offset msg_id) min_id)))"

definition addRow :: "mapped_file \<Rightarrow> int \<Rightarrow> int \<Rightarrow> mapped_file res" where
  "addRow f msg_id min_id = rassert (msg_id \<noteq> min_id)
     (rbind (getRecursiveMinId f msg_id) (\<lambda>a. rbind (getRecursiveMinId f min_id) (\<lambda>b.
        let global_min = min a b in
        rbind (if msg_id \<noteq> global_min then writeRow f msg_id global_min else Inr f) (\<lambda>f1.
          if min_id \<noteq> global_min then writeRow f1 min_id global_min else Inr f1))))"

text \<open>One turn of the loop of \<open>normalizeDatabase\<close>.\<close>

definition normalize_row :: "mapped_file \<Rightarrow> int \<Rightarrow> mapped_file res" where
  "normalize_row f msg_id =
     rbind (getRow f msg_id) (\<lambda>f'.
     rbind (getRecursiveMinId f' msg_id) (\<lambda>recurs_min_id.
       let p = row_offset msg_id
       in Inr (if read_int f' p \<noteq> 0 \<and> read_int f' p \<noteq> recurs_min_id
               then write_int f' p recurs_min_id else f')))"

definition normalizeDatabase :: "mapped_file \<Rightarrow> mapped_file res" where
  "normalizeDatabase f =
     (let row_count = int_of_u32 (of_nat (m_fileLength f div 4))
      in rfold normalize_row f [100..row_count - 1])"

definition getMinIdArray :: "mapped_file \<Rightarrow> int \<Rightarrow> int \<Rightarrow> int list res" where
  "getMinIdArray f first_msg_id num = rassert (num > 0) (rassert (first_msg_id \<ge> 100)
     (rmap (\<lambda>i. getRecursiveMinId f (first_msg_id + i)) [0..num - 1]))"

section \<open>The rows\<close>

definition row :: "mapped_file \<Rightarrow> int \<Rightarrow> int" where
  "row f i = (case getRowConst f i of Inr m \<Rightarrow> m | Inl e \<Rightarrow> 0)"

definition file_ok :: "mapped_file \<Rightarrow> bool" where
  "file_ok f \<longleftrightarrow> m_fileLength f mod 4 = 0 \<and> m_fileLength f \<le> 2 ^ 31"

text \<open>A row is zero or positive and smaller than its ID; only IDs from 100 on have one.\<close>

definition idmap_ok :: "mapped_file \<Rightarrow> bool" where
  "idmap_ok f \<longleftrightarrow> file_ok f
     \<and> (\<forall>i. is_int32 i \<longrightarrow> row f i = 0 \<or> (0 < row f i \<and> row f i < i \<and> 100 \<le> i))"

lemma row_offset_nonneg: "0 \<le> i \<Longrightarrow> is_int32 i \<Longrightarrow> row_offset i = 4 * nat i"
  by (simp add: row_offset_def is_int32_def nat_mult_distrib)

lemma row_offset_neg: "i < 0 \<Longrightarrow> is_int32 i \<Longrightarrow> 4611686018427387904 < row_offset i"
proof -
  assume i: "i < 0" "is_int32 i"
  then have "(4 * i + 2 ^ 64) mod 2 ^ 64 = 4 * i + 2 ^ 64"
    by (intro mod_pos_pos_trivial) (simp_all add: is_int32_def)
  then have "(4 * i) mod 2 ^ 64 = 4 * i + 2 ^ 64" by simp
  with i show ?thesis by (simp add: row_offset_def is_int32_def)
qed

lemma getRowConst_ok:
  assumes "file_ok f" "is_int32 i"
  shows "getRowConst f i = Inr (row f i)"
proof (cases "row_offset i \<ge> m_fileLength f")
  case True
  then show ?thesis by (simp add: row_def getRowConst_def)
next
  case False
  have "0 \<le> i"
  proof (rule ccontr)
    assume "\<not> 0 \<le> i"
    then have "4611686018427387904 < row_offset i" using assms(2) by (simp add: row_offset_neg)
    then show False using False assms(1) by (simp add: file_ok_def)
  qed
  then have "row_offset i = 4 * nat i" using assms(2) by (rule row_offset_nonneg)
  moreover obtain q where "m_fileLength f = 4 * q" using assms(1) by (auto simp: file_ok_def)
  ultimately have "row_offset i + 3 < m_fileLength f" using False by simp
  then show ?thesis using False by (simp add: row_def getRowConst_def mf_ptrConst_def)
qed

lemma row_eq:
  assumes "file_ok f" "is_int32 i"
  shows "row f i = (if 0 \<le> i \<and> 4 * nat i < m_fileLength f then read_int f (4 * nat i) else 0)"
proof (cases "0 \<le> i")
  case True
  then show ?thesis
    using getRowConst_ok[OF assms] assms(2)
    by (auto simp: getRowConst_def row_offset_nonneg mf_ptrConst_def res_simps split: if_splits)
next
  case False
  then have "4611686018427387904 < row_offset i" using assms(2) by (simp add: row_offset_neg)
  then have "m_fileLength f \<le> row_offset i" using assms(1) by (simp add: file_ok_def)
  with False show ?thesis by (simp add: row_def getRowConst_def)
qed

lemma row_int32 [simp]: "is_int32 (row f i)"
  by (auto simp: row_def getRowConst_int32 is_int32_def[of 0] split: sum.splits)

lemma read_write_same: "is_int32 v \<Longrightarrow> read_int (write_int f p v) p = v"
  by (simp add: read_int_def write_int_def Let_def le32_def of_bytes_parts)

lemma read_write_other: "p + 4 \<le> q \<or> q + 4 \<le> p \<Longrightarrow> read_int (write_int f p v) q = read_int f q"
  by (auto simp: read_int_def write_int_def Let_def)

lemma fileLength_write [simp]: "m_fileLength (write_int f p v) = m_fileLength f"
  by (simp add: write_int_def Let_def)

lemma file_ok_write [simp]: "file_ok (write_int f p v) = file_ok f"
  by (simp add: file_ok_def)

lemma row_write:
  assumes "file_ok f" "0 \<le> i" "4 * nat i < m_fileLength f" "is_int32 i" "is_int32 v" "is_int32 j"
  shows "row (write_int f (row_offset i) v) j = (if j = i then v else row f j)"
proof (cases "j = i")
  case True
  then show ?thesis
    using assms by (simp add: row_eq row_offset_nonneg read_write_same)
next
  case False
  have "0 \<le> j \<Longrightarrow> 4 * nat i + 4 \<le> 4 * nat j \<or> 4 * nat j + 4 \<le> 4 * nat i"
    using False assms(2) by arith
  then show ?thesis
    using False assms by (auto simp: row_eq row_offset_nonneg read_write_other)
qed

lemma writeRow_ok:
  assumes "file_ok f" "100 \<le> i" "i < 100 * 1000 * 1000" "is_int32 v"
  shows "\<exists>f'. writeRow f i v = Inr f' \<and> file_ok f'
    \<and> (\<forall>j. is_int32 j \<longrightarrow> row f' j = (if j = i then v else row f j))"
proof -
  have i: "0 \<le> i" "is_int32 i" using assms by (auto simp: is_int32_def)
  define p where "p = row_offset i"
  have p: "p = 4 * nat i" using i by (simp add: p_def row_offset_nonneg)
  have small: "p + 4 + 0xFFFFF < 2 ^ 31" using p assms(3) by simp
  obtain f1 where f1: "getRow f i = Inr f1" "file_ok f1" "p < m_fileLength f1"
      "\<And>j. is_int32 j \<Longrightarrow> row f1 j = row f j"
  proof (cases "p + 4 > m_fileLength f")
    case False
    then have "getRow f i = Inr f" by (simp add: getRow_def mf_ptr_def flip: p_def)
    with False that assms(1) show ?thesis by simp
  next
    case True
    define n where "n = (p + 4 + 0xFFFFF) div 0x100000 * 0x100000"
    have n: "p + 4 \<le> n" "n mod 4 = 0" "n \<le> 2 ^ 31"
    proof -
      define m where "m = p + 4 + 0xFFFFF"
      have "m = n + m mod 0x100000"
        unfolding n_def m_def by (rule div_mult_mod_eq[symmetric])
      moreover have "m mod 0x100000 < 0x100000" by (rule mod_less_divisor) simp
      ultimately show "p + 4 \<le> n" "n \<le> 2 ^ 31" using small unfolding m_def by linarith+
      have "n = 4 * ((p + 4 + 0xFFFFF) div 0x100000 * 0x40000)" by (simp add: n_def)
      then show "n mod 4 = 0" by (metis mod_mult_self1_is_0)
    qed
    have get: "getRow f i = Inr (mf_expand f n)"
      unfolding getRow_def mf_ptr_def Let_def p_def[symmetric] n_def[symmetric]
      using True n(1) by (simp add: mf_expand_def)
    have ok: "file_ok (mf_expand f n)" using n by (simp add: file_ok_def mf_expand_def)
    have len: "m_fileLength (mf_expand f n) = n" by (simp add: mf_expand_def)
    have "row (mf_expand f n) j = row f j" if "is_int32 j" for j
    proof -
      obtain q where q: "m_fileLength f = 4 * q" using assms(1) by (auto simp: file_ok_def)
      have "4 * nat j < m_fileLength f \<Longrightarrow> read_int (mf_expand f n) (4 * nat j) = read_int f (4 * nat j)"
        using q by (simp add: read_int_def mf_expand_def)
      moreover have "m_fileLength f \<le> 4 * nat j \<Longrightarrow> 4 * nat j < n \<Longrightarrow>
          read_int (mf_expand f n) (4 * nat j) = 0"
      proof -
        assume a: "m_fileLength f \<le> 4 * nat j" "4 * nat j < n"
        obtain r where "n = 4 * r" using n(2) by auto
        with a show ?thesis by (simp add: read_int_def mf_expand_def of_bytes_def int_of_u32_def)
      qed
      ultimately show ?thesis
        using True n(1) row_eq[OF ok that] row_eq[OF assms(1) that] len by auto
    qed
    with get ok n(1) that show ?thesis by (simp add: mf_expand_def)
  qed
  have "row (write_int f1 p v) j = (if j = i then v else row f j)" if "is_int32 j" for j
    using row_write[OF f1(2) i(1) _ i(2) assms(4) that] f1(3,4) that p by (simp flip: p_def)
  then show ?thesis
    using f1(1,2) assms(2,3) by (simp add: writeRow_def flip: p_def)
qed

section \<open>Roots\<close>

text \<open>The ID that \<open>getRecursiveMinId\<close> ends at.\<close>

definition root :: "mapped_file \<Rightarrow> int \<Rightarrow> int" where
  "root f i = (case getRecursiveMinId f i of Inr r \<Rightarrow> r | Inl e \<Rightarrow> i)"

lemma idmap_ok_row:
  "idmap_ok f \<Longrightarrow> is_int32 i \<Longrightarrow> row f i = 0 \<or> (0 < row f i \<and> row f i < i \<and> 100 \<le> i)"
  by (simp add: idmap_ok_def)

lemma idmap_ok_file: "idmap_ok f \<Longrightarrow> file_ok f"
  by (simp add: idmap_ok_def)

lemma recursive_step:
  assumes "idmap_ok f" "is_int32 i"
  shows "getRecursiveMinId f i = (if row f i = 0 then Inr i else getRecursiveMinId f (row f i))"
  using getRowConst_ok[OF idmap_ok_file[OF assms(1)] assms(2)] idmap_ok_row[OF assms]
  by (subst getRecursiveMinId.simps) auto

lemma recursive_total:
  assumes "idmap_ok f" "is_int32 i"
  shows "getRecursiveMinId f i = Inr (root f i)"
  using assms(2)
proof (induction "nat i" arbitrary: i rule: less_induct)
  case less
  note step = recursive_step[OF assms(1) less.prems]
  show ?case
  proof (cases "row f i = 0")
    case True
    with step show ?thesis by (simp add: root_def)
  next
    case False
    then have "getRecursiveMinId f (row f i) = Inr (root f (row f i))"
      using idmap_ok_row[OF assms(1) less.prems] by (intro less.hyps) auto
    with False step have "getRecursiveMinId f i = Inr (root f (row f i))" by simp
    then show ?thesis unfolding root_def[of f i] by simp
  qed
qed

lemma root_step:
  assumes "idmap_ok f" "is_int32 i"
  shows "root f i = (if row f i = 0 then i else root f (row f i))"
proof (cases "row f i = 0")
  case False
  then have "getRecursiveMinId f i = Inr (root f (row f i))"
    using recursive_step[OF assms] recursive_total[OF assms(1) row_int32] by simp
  then have "root f i = root f (row f i)" unfolding root_def[of f i] by simp
  with False show ?thesis by simp
qed (simp add: root_def recursive_step[OF assms])

lemma root_facts:
  assumes "idmap_ok f" "is_int32 i"
  shows "row f (root f i) = 0" "is_int32 (root f i)" "root f i \<le> i" "0 < i \<Longrightarrow> 0 < root f i"
    "root f i = i \<longleftrightarrow> row f i = 0"
proof -
  have "row f (root f i) = 0 \<and> is_int32 (root f i) \<and> root f i \<le> i \<and> (0 < i \<longrightarrow> 0 < root f i)
    \<and> (root f i = i \<longleftrightarrow> row f i = 0)"
    using assms(2)
  proof (induction "nat i" arbitrary: i rule: less_induct)
    case less
    note row = idmap_ok_row[OF assms(1) less.prems] and step = root_step[OF assms(1) less.prems]
    show ?case
    proof (cases "row f i = 0")
      case True
      with step less.prems show ?thesis by simp
    next
      case False
      with row less.hyps[of "row f i"] step show ?thesis by auto
    qed
  qed
  then show "row f (root f i) = 0" "is_int32 (root f i)" "root f i \<le> i" "0 < i \<Longrightarrow> 0 < root f i"
    "root f i = i \<longleftrightarrow> row f i = 0" by auto
qed

text \<open>A row may be redirected to a root that is smaller.\<close>

lemma writeRow_root:
  assumes ok: "idmap_ok f" and i: "100 \<le> i" "i < 100 * 1000 * 1000"
    and v: "0 < v" "v < i" "row f v = 0" "is_int32 v"
  shows "\<exists>f'. writeRow f i v = Inr f' \<and> idmap_ok f' \<and> root f' i = v \<and> root f' v = v
    \<and> (\<forall>j. is_int32 j \<longrightarrow> row f' j = (if j = i then v else row f j))"
proof -
  obtain f' where f': "writeRow f i v = Inr f'" "file_ok f'"
      "\<And>j. is_int32 j \<Longrightarrow> row f' j = (if j = i then v else row f j)"
    using writeRow_ok[OF idmap_ok_file[OF ok] i v(4)] by blast
  have ok': "idmap_ok f'"
    using f'(2,3) idmap_ok_row[OF ok] i v by (simp add: idmap_ok_def)
  have "is_int32 i" using i by (simp add: is_int32_def)
  then have "root f' v = v" "root f' i = v"
    using f'(3) v i root_step[OF ok', of v] root_step[OF ok', of i] by auto
  with f' ok' show ?thesis by blast
qed

text \<open>Collapsing two IDs writes the smaller of their roots into the rows of both, but not into its own.\<close>

lemma addRow_rows:
  fixes f a b
  defines "g \<equiv> min (root f a) (root f b)"
  assumes ok: "idmap_ok f" and a: "100 \<le> a" "a < 100 * 1000 * 1000"
    and b: "100 \<le> b" "b < 100 * 1000 * 1000" and ne: "a \<noteq> b"
  shows "\<exists>f'. addRow f a b = Inr f' \<and> idmap_ok f'
    \<and> (\<forall>j. is_int32 j \<longrightarrow> row f' j = (if j = g then 0 else if j = a \<or> j = b then g else row f j))"
proof -
  have ab: "is_int32 a" "is_int32 b" using a b by (simp_all add: is_int32_def)
  have g: "is_int32 g" "row f g = 0" "g \<le> a" "g \<le> b" "0 < g"
    using root_facts[OF ok ab(1)] root_facts[OF ok ab(2)] a b by (auto simp: g_def min_def)
  have add: "addRow f a b = rbind (if a \<noteq> g then writeRow f a g else Inr f)
      (\<lambda>f1. if b \<noteq> g then writeRow f1 b g else Inr f1)"
    unfolding addRow_def recursive_total[OF ok ab(1)] recursive_total[OF ok ab(2)]
    using ne by (simp only: Let_def rbind.simps g_def rassert_True not_False_eq_True simp_thms)
  obtain f1 where f1: "(if a \<noteq> g then writeRow f a g else Inr f) = Inr f1" "idmap_ok f1"
      "\<And>j. is_int32 j \<Longrightarrow> row f1 j = (if j = a \<and> a \<noteq> g then g else row f j)"
    using writeRow_root[OF ok a g(5) _ g(2) g(1)] g(3) ok that by (cases "a = g") force+
  have f1g: "row f1 g = 0" using f1(3)[OF g(1)] g(2) by auto
  obtain f2 where f2: "(if b \<noteq> g then writeRow f1 b g else Inr f1) = Inr f2" "idmap_ok f2"
      "\<And>j. is_int32 j \<Longrightarrow> row f2 j = (if j = b \<and> b \<noteq> g then g else row f1 j)"
    using writeRow_root[OF f1(2) b g(5) _ f1g g(1)] g(4) f1(2) that by (cases "b = g") force+
  have "row f2 j = (if j = g then 0 else if j = a \<or> j = b then g else row f j)" if "is_int32 j" for j
    using f1(3)[OF that] f2(3)[OF that] f1g by auto
  then show ?thesis using add f1(1) f2(1,2) by auto
qed

text \<open>So both get the smaller of their roots.\<close>

lemma addRow_joins:
  assumes ok: "idmap_ok f" and a: "100 \<le> a" "a < 100 * 1000 * 1000"
    and b: "100 \<le> b" "b < 100 * 1000 * 1000" and ne: "a \<noteq> b"
  shows "\<exists>f'. addRow f a b = Inr f' \<and> idmap_ok f'
    \<and> root f' a = min (root f a) (root f b) \<and> root f' b = min (root f a) (root f b)
    \<and> (\<forall>j. is_int32 j \<longrightarrow> j \<noteq> a \<longrightarrow> j \<noteq> b \<longrightarrow> row f' j = row f j)"
proof -
  let ?g = "min (root f a) (root f b)"
  have ab: "is_int32 a" "is_int32 b" using a b by (simp_all add: is_int32_def)
  have g: "is_int32 ?g" "row f ?g = 0" "0 < ?g"
    using root_facts[OF ok ab(1)] root_facts[OF ok ab(2)] a b by (auto simp: min_def)
  obtain f' where f': "addRow f a b = Inr f'" "idmap_ok f'"
      "\<And>j. is_int32 j \<Longrightarrow> row f' j = (if j = ?g then 0 else if j = a \<or> j = b then ?g else row f j)"
    using addRow_rows[OF assms] by blast
  have "root f' ?g = ?g" using root_step[OF f'(2) g(1)] f'(3)[OF g(1)] by simp
  then have "root f' a = ?g" "root f' b = ?g"
    using root_step[OF f'(2) ab(1)] root_step[OF f'(2) ab(2)] f'(3)[OF ab(1)] f'(3)[OF ab(2)] g(3) by auto
  moreover have "row f' j = row f j" if "is_int32 j" "j \<noteq> a" "j \<noteq> b" for j
    using f'(3)[OF that(1)] that(2,3) g(2) by auto
  ultimately show ?thesis using f'(1,2) by blast
qed

section \<open>Normalizing\<close>

lemma root_redirect:
  assumes ok: "idmap_ok f" and ok': "idmap_ok f'" and i: "is_int32 i" "row f i \<noteq> 0"
    and rows: "\<And>j. is_int32 j \<Longrightarrow> row f' j = (if j = i then root f i else row f j)"
    and j: "is_int32 j"
  shows "root f' j = root f j"
  using j
proof (induction "nat j" arbitrary: j rule: less_induct)
  case less
  note step = root_step[OF ok less.prems] and step' = root_step[OF ok' less.prems]
  show ?case
  proof (cases "j = i")
    case True
    have r: "is_int32 (root f i)" "row f (root f i) = 0" "root f i \<noteq> i"
      using root_facts[OF ok i(1)] i(2) by auto
    then have "root f' (root f i) = root f i"
      using root_step[OF ok' r(1)] rows[OF r(1)] by simp
    moreover have "row f' j = root f i" "row f' j \<noteq> 0"
      using rows[OF less.prems] True root_facts(4)[OF ok i(1)] idmap_ok_row[OF ok i(1)] i(2) by auto
    ultimately show ?thesis using step' True by simp
  next
    case False
    then have "row f' j = row f j" using rows[OF less.prems] by simp
    moreover have "row f j \<noteq> 0 \<Longrightarrow> root f' (row f j) = root f (row f j)"
      using idmap_ok_row[OF ok less.prems] by (intro less.hyps) auto
    ultimately show ?thesis using step step' by auto
  qed
qed

lemma normalize_row_ok:
  assumes ok: "idmap_ok f" and i: "100 \<le> i" "4 * nat i < m_fileLength f" "is_int32 i"
  shows "\<exists>f'. normalize_row f i = Inr f' \<and> idmap_ok f' \<and> m_fileLength f' = m_fileLength f
    \<and> (\<forall>j. is_int32 j \<longrightarrow> row f' j = (if j = i \<and> row f i \<noteq> 0 then root f i else row f j))"
proof -
  have i0: "0 \<le> i" using i by simp
  obtain q where q: "m_fileLength f = 4 * q" using ok by (auto simp: idmap_ok_def file_ok_def)
  have get: "getRow f i = Inr f"
    using i i0 q by (simp add: getRow_def mf_ptr_def row_offset_nonneg)
  have rd: "read_int f (row_offset i) = row f i"
    using i i0 ok by (simp add: row_eq idmap_ok_file row_offset_nonneg)
  let ?r = "root f i"
  have norm: "normalize_row f i = Inr (if row f i \<noteq> 0 \<and> row f i \<noteq> ?r
      then write_int f (row_offset i) ?r else f)"
    using get rd recursive_total[OF ok i(3)] by (simp add: normalize_row_def Let_def)
  show ?thesis
  proof (cases "row f i \<noteq> 0 \<and> row f i \<noteq> ?r")
    case False
    with norm ok show ?thesis by auto
  next
    case True
    have rows: "row (write_int f (row_offset i) ?r) j = (if j = i then ?r else row f j)"
      if "is_int32 j" for j
      using row_write[OF idmap_ok_file[OF ok] i0 i(2,3) root_facts(2)[OF ok i(3)] that] .
    moreover have "idmap_ok (write_int f (row_offset i) ?r)"
      using rows idmap_ok_row[OF ok] root_facts(3,4,5)[OF ok i(3)] i(1) True ok
      by (auto simp: idmap_ok_def)
    ultimately show ?thesis using True norm by auto
  qed
qed

text \<open>After \<open>normalizeDatabase\<close> every row is its ID's root, and the roots are what they were.\<close>

lemma normalize_loop:
  assumes "idmap_ok f" "100 \<le> k" "k \<le> n" "4 * nat n \<le> m_fileLength f" "is_int32 n"
  shows "\<exists>f'. rfold normalize_row f [k..n - 1] = Inr f' \<and> idmap_ok f'
    \<and> (\<forall>j. is_int32 j \<longrightarrow> root f' j = root f j
         \<and> (k \<le> j \<longrightarrow> j < n \<longrightarrow> row f j \<noteq> 0 \<longrightarrow> row f' j = root f j)
         \<and> (j < k \<or> n \<le> j \<or> row f j = 0 \<longrightarrow> row f' j = row f j))"
  using assms
proof (induction "nat (n - k)" arbitrary: k f)
  case 0
  then show ?case by auto
next
  case (Suc m)
  then have kn: "k < n" by simp
  then have k: "is_int32 k" "4 * nat k < m_fileLength f" "[k..n - 1] = k # [k + 1..n - 1]"
    using Suc.prems by (auto simp: is_int32_def upto_rec1)
  obtain f1 where f1: "normalize_row f k = Inr f1" "idmap_ok f1" "m_fileLength f1 = m_fileLength f"
      and rows: "\<And>j. is_int32 j \<Longrightarrow> row f1 j = (if j = k \<and> row f k \<noteq> 0 then root f k else row f j)"
    using normalize_row_ok[OF Suc.prems(1,2) k(2,1)] by blast
  have roots: "root f1 j = root f j" if "is_int32 j" for j
  proof (cases "row f k = 0")
    case True
    then have same: "\<And>j. is_int32 j \<Longrightarrow> row f1 j = row f j" using rows by auto
    show ?thesis
      using that
    proof (induction "nat j" arbitrary: j rule: less_induct)
      case less
      then show ?case
        using root_step[OF Suc.prems(1) less.prems] root_step[OF f1(2) less.prems] same
          idmap_ok_row[OF Suc.prems(1) less.prems] less.hyps[of "row f j"] by auto
    qed
  next
    case False
    then show ?thesis
      using root_redirect[OF Suc.prems(1) f1(2) k(1) False _ that] rows by auto
  qed
  have "m = nat (n - (k + 1))" "100 \<le> k + 1" "k + 1 \<le> n" using Suc.hyps(2) Suc.prems kn by auto
  then obtain f2 where f2: "rfold normalize_row f1 [k + 1..n - 1] = Inr f2" "idmap_ok f2"
      and r2: "\<And>j. is_int32 j \<Longrightarrow> root f2 j = root f1 j
         \<and> (k + 1 \<le> j \<longrightarrow> j < n \<longrightarrow> row f1 j \<noteq> 0 \<longrightarrow> row f2 j = root f1 j)
         \<and> (j < k + 1 \<or> n \<le> j \<or> row f1 j = 0 \<longrightarrow> row f2 j = row f1 j)"
    using Suc.hyps(1)[of "k + 1" f1] f1 Suc.prems by auto
  have "rfold normalize_row f [k..n - 1] = Inr f2"
    using k(3) f1(1) f2(1) by simp
  moreover have "root f2 j = root f j
         \<and> (k \<le> j \<longrightarrow> j < n \<longrightarrow> row f j \<noteq> 0 \<longrightarrow> row f2 j = root f j)
         \<and> (j < k \<or> n \<le> j \<or> row f j = 0 \<longrightarrow> row f2 j = row f j)" if "is_int32 j" for j
  proof (cases "j = k")
    case True
    have "row f k \<noteq> 0 \<Longrightarrow> root f k \<noteq> 0"
      using root_facts(4)[OF Suc.prems(1) k(1)] idmap_ok_row[OF Suc.prems(1) k(1)] by auto
    then show ?thesis using True r2[OF that] roots[OF that] rows[OF that] kn by auto
  next
    case False
    then have "k \<le> j \<Longrightarrow> k + 1 \<le> j" "j < k \<Longrightarrow> j < k + 1" by auto
    then show ?thesis using False r2[OF that] roots[OF that] rows[OF that] by auto
  qed
  ultimately show ?case using f2(2) by blast
qed

lemma normalizeDatabase_roots:
  assumes ok: "idmap_ok f"
  shows "\<exists>f'. normalizeDatabase f = Inr f' \<and> idmap_ok f'
    \<and> (\<forall>j. is_int32 j \<longrightarrow> root f' j = root f j \<and> getPlainMinId f' j = Inr (root f j))"
proof -
  let ?L = "m_fileLength f"
  have len: "?L mod 4 = 0" "?L \<le> 2 ^ 31" using ok by (auto simp: idmap_ok_def file_ok_def)
  then have "int_of_u32 (u32_of_int (int (?L div 4))) = int (?L div 4)"
    by (intro int_of_u32_of_int) (simp add: is_int32_def)
  then have n: "int_of_u32 (of_nat (?L div 4)) = int (?L div 4)" (is "_ = ?n")
    by (simp add: u32_of_int_def)
  have i32: "is_int32 ?n" using len by (simp add: is_int32_def)
  obtain f' where f': "rfold normalize_row f [100..?n - 1] = Inr f'" "idmap_ok f'"
      and r: "\<And>j. is_int32 j \<Longrightarrow> root f' j = root f j
         \<and> (100 \<le> j \<longrightarrow> j < ?n \<longrightarrow> row f j \<noteq> 0 \<longrightarrow> row f' j = root f j)
         \<and> (j < 100 \<or> ?n \<le> j \<or> row f j = 0 \<longrightarrow> row f' j = row f j)"
  proof (cases "100 \<le> ?n")
    case True
    then show ?thesis using normalize_loop[OF ok _ True _ i32] len that by auto
  next
    case False
    then show ?thesis using that ok idmap_ok_row[OF ok] by (fastforce simp: row_eq idmap_ok_file)
  qed
  have "getPlainMinId f' j = Inr (root f j)" if j: "is_int32 j" for j
  proof -
    obtain q where "?L = 4 * q" using len(1) by auto
    then have "4 * nat j < ?L \<Longrightarrow> j < ?n" by simp
    then have "row f j \<noteq> 0 \<Longrightarrow> 100 \<le> j \<and> j < ?n"
      using idmap_ok_row[OF ok j] row_eq[OF idmap_ok_file[OF ok] j] by (auto split: if_splits)
    then have "row f' j = (if row f j = 0 then 0 else root f j)" using r[OF j] by auto
    moreover have "row f j \<noteq> 0 \<Longrightarrow> root f j \<noteq> 0"
      using root_facts(4)[OF ok j] idmap_ok_row[OF ok j] by auto
    ultimately show ?thesis
      using getRowConst_ok[OF idmap_ok_file[OF f'(2)] j] root_step[OF ok j]
      by (auto simp: getPlainMinId_def)
  qed
  with f' r n show ?thesis by (auto simp: normalizeDatabase_def)
qed

section \<open>The interface\<close>

lemma recursive_result:
  "getRecursiveMinId f i = Inr r \<Longrightarrow> getRecursiveMinId f r = Inr r \<and> r \<le> i"
proof (induction f i rule: getRecursiveMinId.induct)
  case (1 f i)
  from "1.prems" obtain m where m: "getRowConst f i = Inr m"
    by (subst (asm) getRecursiveMinId.simps) (auto split: sum.splits)
  show ?case
  proof (cases "m = 0")
    case True
    with m "1.prems" have "r = i" by (subst (asm) getRecursiveMinId.simps) simp
    with "1.prems" show ?thesis by simp
  next
    case False
    with m "1.prems" have "m < i" "getRecursiveMinId f m = Inr r"
      by (subst (asm) getRecursiveMinId.simps, simp split: if_splits)+
    with "1.IH"[OF m False] show ?thesis by simp
  qed
qed

interpretation db_ids: min_id_map "root f" for f
proof unfold_locales
  fix i
  show "root f (root f i) = root f i" "root f i \<le> i"
    using recursive_result[of f i] by (auto simp: root_def split: sum.splits)
qed

section \<open>Properties\<close>

text \<open>\<open>addRow\<close> collapses two IDs of the range the database accepts: from then on both have the
  same minimum ID, the smaller of the two they had before.\<close>

theorem addRow_collapses:
  assumes "idmap_ok f" "100 \<le> a" "a < 100 * 1000 * 1000" "100 \<le> b" "b < 100 * 1000 * 1000" "a \<noteq> b"
    and "getRecursiveMinId f a = Inr ra" "getRecursiveMinId f b = Inr rb"
  shows "\<exists>f'. addRow f a b = Inr f' \<and> idmap_ok f'
    \<and> getRecursiveMinId f' a = Inr (min ra rb) \<and> getRecursiveMinId f' b = Inr (min ra rb)"
proof -
  have ab: "is_int32 a" "is_int32 b" using assms by (simp_all add: is_int32_def)
  have "root f a = ra" "root f b = rb" using assms(7,8) by (simp_all add: root_def)
  then show ?thesis
    using addRow_joins[OF assms(1-6)] recursive_total ab by metis
qed

lemma idmap_ok_empty: "idmap_ok empty_file"
  by (simp add: idmap_ok_def file_ok_def row_def getRowConst_def empty_file_def)

lemma recursive_empty: "getRecursiveMinId empty_file i = Inr i"
  by (subst getRecursiveMinId.simps) (simp add: getRowConst_def empty_file_def)

theorem addRow_collapses_witness:
  "idmap_ok empty_file \<and> (\<exists>f'. addRow empty_file 250 130 = Inr f' \<and> idmap_ok f'
    \<and> getRecursiveMinId f' 250 = Inr (min 250 130) \<and> getRecursiveMinId f' 130 = Inr (min 250 130))"
  using addRow_collapses[OF idmap_ok_empty, of 250 130 250 130] idmap_ok_empty
  by (simp add: recursive_empty)

text \<open>But a collapse made earlier can be lost: after 200 was collapsed with 150, collapsing 200
  with 300 redirects 200 alone when 300 has a smaller minimum.\<close>

theorem addRow_loses_collapse:
  "\<exists>f1 f2 f3. addRow empty_file 200 150 = Inr f1 \<and> addRow f1 300 120 = Inr f2
     \<and> addRow f2 200 300 = Inr f3
     \<and> getRecursiveMinId f1 200 = getRecursiveMinId f1 150
     \<and> getRecursiveMinId f3 200 \<noteq> getRecursiveMinId f3 150"
proof -
  have small: "is_int32 150" "is_int32 200" "is_int32 300" "is_int32 120" by (simp_all add: is_int32_def)
  have r0: "root empty_file i = i" for i by (simp add: root_def recursive_empty)
  obtain f1 where f1: "addRow empty_file 200 150 = Inr f1" "idmap_ok f1" "root f1 200 = 150"
      "root f1 150 = 150" "\<forall>j. is_int32 j \<longrightarrow> j \<noteq> 200 \<longrightarrow> j \<noteq> 150 \<longrightarrow> row f1 j = row empty_file j"
    using addRow_joins[OF idmap_ok_empty, of 200 150] by (auto simp: r0)
  have i: "row f1 150 = 0" using root_facts(5)[OF f1(2) small(1)] f1(4) by simp
  obtain f2 where f2: "addRow f1 300 120 = Inr f2" "idmap_ok f2" "root f2 300 \<le> 120"
      "row f2 150 = row f1 150"
    using addRow_joins[OF f1(2), of 300 120] small root_facts(3)[OF f1(2) small(4)] by fastforce
  obtain f3 where f3: "addRow f2 200 300 = Inr f3" "idmap_ok f3" "root f3 200 \<le> 120"
      "row f3 150 = row f2 150"
    using addRow_joins[OF f2(2), of 200 300] small f2(3) by fastforce
  have "root f3 150 = 150" using root_facts(5)[OF f3(2) small(1)] f3(4) f2(4) i by simp
  then have "getRecursiveMinId f3 200 \<noteq> getRecursiveMinId f3 150"
    using recursive_total[OF f3(2)] small f3(3) by simp
  moreover have "getRecursiveMinId f1 200 = getRecursiveMinId f1 150"
    using recursive_total[OF f1(2)] small f1(3,4) by simp
  ultimately show ?thesis using f1(1) f2(1) f3(1) by blast
qed

text \<open>C16. \<open>normalizeDatabase\<close> changes no minimum ID, and afterwards the ID's row alone, which is
  what the server reads, gives its minimum.\<close>

theorem normalizeDatabase_plain:
  assumes "idmap_ok f" "is_int32 j"
  shows "\<exists>f'. normalizeDatabase f = Inr f' \<and> getPlainMinId f' j = getRecursiveMinId f j
    \<and> getRecursiveMinId f' j = getRecursiveMinId f j"
  using normalizeDatabase_roots[OF assms(1)] recursive_total assms by metis

theorem normalizeDatabase_plain_witness:
  "\<exists>f f'. addRow empty_file 250 130 = Inr f \<and> normalizeDatabase f = Inr f'
    \<and> getPlainMinId f' 250 = getRecursiveMinId f 250 \<and> getRecursiveMinId f 250 = Inr 130"
proof -
  obtain f where f: "addRow empty_file 250 130 = Inr f" "idmap_ok f" "root f 250 = 130"
    using addRow_joins[OF idmap_ok_empty, of 250 130] by (auto simp: root_def recursive_empty)
  have i: "is_int32 250" by (simp add: is_int32_def)
  show ?thesis
    using normalizeDatabase_plain[OF f(2) i] f recursive_total[OF f(2) i] by auto
qed

end
