(* ===== verification/IddiffMinimize.thy ===== *)
theory IddiffMinimize
  imports IddiffMerge IdMap
begin

text \<open>
  \<open>Iddiff::substituteMsgId\<close> and \<open>minimizeIds\<close>: the changes of every ID move to its minimum ID.
\<close>

definition no_empty_change :: "iddiff \<Rightarrow> bool" where
  "no_empty_change d \<longleftrightarrow> (\<forall>p\<in>set (m_items d). snd p \<noteq> Some new_change)"

lemma no_empty_change_iff:
  "iddiff_ok d \<Longrightarrow> no_empty_change d \<longleftrightarrow> (\<forall>k. map_of (m_items d) k \<noteq> Some (Some new_change))"
  by (auto simp: no_empty_change_def iddiff_ok_def om_inv_map_of)

lemma substituteMsgId_same [simp]: "substituteMsgId d k k = Inr d"
  by (simp add: substituteMsgId_def)

lemma clearEmpty_same:
  assumes "iddiff_ok d" "no_empty_change d"
  shows "clearEmptyMessageData d k = Inr d"
  using assms
  by (auto simp: no_empty_change_iff clearEmptyMessageData_def find_change_ok change_empty_iff
      split: option.splits)

lemma substituteMsgId_collision:
  assumes "iddiff_ok d" "no_empty_change d" "a \<noteq> b" "map_of (m_items d) b \<noteq> None"
  shows "substituteMsgId d a b = Inl AssertFail"
  using assms by (simp add: substituteMsgId_def clearEmpty_same del: not_None_eq)

lemma inj_insert_neq: "inj_on f (insert a S) \<Longrightarrow> a \<notin> S \<Longrightarrow> k \<in> S \<Longrightarrow> f k \<noteq> f a"
  by (metis inj_onD insertCI)

lemma substituteMsgId_moves:
  assumes ok: "iddiff_ok d" "no_empty_change d" and ab: "a \<noteq> b" "map_of (m_items d) b = None"
    and a: "map_of (m_items d) a = Some c"
  shows "\<exists>d'. substituteMsgId d a b = Inr d' \<and> iddiff_ok d' \<and> no_empty_change d' \<and> same_header d d'
    \<and> map_of (m_items d') = (map_of (m_items d))(b := Some c, a := None)"
proof -
  let ?d' = "d\<lparr>m_items := om_erase a (om_set b c (m_items d))\<rparr>"
  have sub: "substituteMsgId d a b = Inr ?d'"
    using ab a by (simp add: substituteMsgId_def clearEmpty_same[OF ok])
  have m: "map_of (m_items ?d') = (map_of (m_items d))(b := Some c, a := None)"
    by (simp add: map_of_om_set map_of_om_erase)
  have c: "\<exists>c'. c = Some c' \<and> change_ok (heap_next d) c'"
    using ok(1) a by (auto simp: iddiff_ok_def)
  have ok': "iddiff_ok ?d'"
    using ok(1) m c by (auto simp: iddiff_ok_def om_inv_erase om_inv_set)
  moreover have "no_empty_change ?d'"
    using ok m a by (auto simp: no_empty_change_iff[OF ok'] no_empty_change_iff[OF ok(1)] simp del: not_None_eq)
  ultimately show ?thesis using sub m by auto
qed

context min_id_map
begin

text \<open>The loop over the IDs: those of \<open>S\<close> were moved already.\<close>

definition moved :: "(int \<Rightarrow> 'a option) \<Rightarrow> int set \<Rightarrow> int \<Rightarrow> 'a option" where
  "moved M S j = (if \<exists>k\<in>S. f k = j then M (SOME k. k \<in> S \<and> f k = j) else if j \<in> S then None else M j)"

lemma moved_image:
  assumes "inj_on f S" "k \<in> S"
  shows "moved M S (f k) = M k"
proof -
  have "(SOME x. x \<in> S \<and> f x = f k) = k"
    using assms by (intro some_equality) (auto dest: inj_onD)
  with assms show ?thesis by (auto simp: moved_def)
qed

lemma moved_other: "\<not> (\<exists>k\<in>S. f k = j) \<Longrightarrow> moved M S j = (if j \<in> S then None else M j)"
  unfolding moved_def by (rule if_not_P)

lemma moved_empty [simp]: "moved M {} = M"
  by (rule ext) (simp add: moved_def)

lemma moved_insert:
  assumes inj: "inj_on f (insert a S)" and a: "a \<notin> S" and dom: "insert a S \<subseteq> dom M"
  shows "moved M (insert a S) = (if f a = a then moved M S
     else (moved M S)(f a := M a, a := None))"
proof
  fix j
  have inj': "inj_on f S" using inj by (rule inj_on_subset) auto
  have no: "k \<in> S \<Longrightarrow> f k \<noteq> a" for k
    using min_no_collision[OF inj, of k a] a by auto
  have no': "f a \<in> S \<Longrightarrow> False"
    using min_no_collision[OF inj, of a "f a"] a by auto
  show "moved M (insert a S) j = (if f a = a then moved M S
     else (moved M S)(f a := M a, a := None)) j"
  proof (cases "\<exists>k\<in>S. f k = j")
    case True
    then obtain k where k: "k \<in> S" "f k = j" by blast
    then have "j \<noteq> f a" "j \<noteq> a" using inj_insert_neq[OF inj a] no by auto
    then show ?thesis
      using moved_image[OF inj, of k M] moved_image[OF inj', of k M] k by auto
  next
    case False
    then have S: "moved M S j = (if j \<in> S then None else M j)" by (auto simp: moved_def)
    show ?thesis
    proof (cases "j = f a")
      case True
      then have "moved M (insert a S) j = M a" using moved_image[OF inj, of a M] by simp
      then show ?thesis using True S no' a by (cases "f a = a") auto
    next
      case nfa: False
      then have "moved M (insert a S) j = (if j \<in> insert a S then None else M j)"
        using False by (auto simp: moved_def)
      then show ?thesis using S nfa by auto
    qed
  qed
qed

lemma minimize_loop:
  assumes "distinct (xs @ ys)" "inj_on f (set (xs @ ys))" "set (xs @ ys) = dom M"
    and "iddiff_ok d" "no_empty_change d" "map_of (m_items d) = moved M (set xs)"
  shows "\<exists>d'. rfold (\<lambda>d p. substituteMsgId d (fst p) (snd p)) d (zip ys (map f ys)) = Inr d'
    \<and> iddiff_ok d' \<and> no_empty_change d' \<and> same_header d d' \<and> map_of (m_items d') = moved M (dom M)"
  using assms
proof (induction ys arbitrary: xs d)
  case Nil
  then show ?case by simp
next
  case (Cons a ys)
  let ?S = "set xs"
  have inj: "inj_on f (insert a ?S)" using Cons.prems(2) by (rule inj_on_subset) auto
  have a: "a \<notin> ?S" "insert a ?S \<subseteq> dom M" using Cons.prems(1,3) by auto
  note ins = moved_insert[OF inj a]
  obtain d1 where d1: "substituteMsgId d a (f a) = Inr d1" "iddiff_ok d1" "no_empty_change d1"
      "same_header d d1" "map_of (m_items d1) = moved M (insert a ?S)"
  proof (cases "f a = a")
    case True
    with ins Cons.prems that[of d] show ?thesis by auto
  next
    case False
    have free: "map_of (m_items d) (f a) = None"
    proof -
      have "\<not> (\<exists>k\<in>?S. f k = f a)" using inj_insert_neq[OF inj a(1)] by blast
      moreover have "f a \<notin> dom M"
        using min_no_collision[OF Cons.prems(2), of a "f a"] Cons.prems(3) False by auto
      ultimately show ?thesis unfolding Cons.prems(6) by (simp add: moved_other[of ?S "f a" M] domIff)
    qed
    have "\<not> (\<exists>k\<in>?S. f k = a)" using inj a(1) by (rule min_not_image)
    then have "map_of (m_items d) a = M a" unfolding Cons.prems(6) using a(1) moved_other[of ?S a M] by simp
    then obtain c where c: "map_of (m_items d) a = Some c" "M a = Some c" using a(2) by auto
    have "a \<noteq> f a" using False by simp
    from substituteMsgId_moves[OF Cons.prems(4,5) this free c(1)]
    obtain d1 where d1: "substituteMsgId d a (f a) = Inr d1" "iddiff_ok d1" "no_empty_change d1"
        "same_header d d1" "map_of (m_items d1) = (map_of (m_items d))(f a := Some c, a := None)"
      by blast
    have "map_of (m_items d1) = moved M (insert a ?S)"
      unfolding ins d1(5) Cons.prems(6) using False c(2) by simp
    with d1 that show ?thesis by blast
  qed
  obtain d2 where "rfold (\<lambda>d p. substituteMsgId d (fst p) (snd p)) d1 (zip ys (map f ys)) = Inr d2"
      "iddiff_ok d2" "no_empty_change d2" "same_header d1 d2" "map_of (m_items d2) = moved M (dom M)"
    using Cons.IH[of "xs @ [a]" d1] Cons.prems(1-3) d1 by auto
  with d1 show ?case using same_header_trans by auto
qed

text \<open>The loop stops at an ID whose minimum is taken.\<close>

lemma minimize_loop_abort:
  assumes "distinct (xs @ ys)" "inj_on f (set xs)" "\<not> inj_on f (set (xs @ ys))"
    and "set (xs @ ys) = dom M" "sorted_wrt (<) (xs @ ys)"
    and "iddiff_ok d" "no_empty_change d" "map_of (m_items d) = moved M (set xs)"
  shows "rfold (\<lambda>d p. substituteMsgId d (fst p) (snd p)) d (zip ys (map f ys)) = Inl AssertFail"
  using assms
proof (induction ys arbitrary: xs d)
  case Nil
  then show ?case by simp
next
  case (Cons a ys)
  let ?S = "set xs"
  show ?case
  proof (cases "inj_on f (insert a ?S)")
    case True
    have a: "a \<notin> ?S" "insert a ?S \<subseteq> dom M" using Cons.prems(1,4) by auto
    note ins = moved_insert[OF True a]
    show ?thesis
    proof (cases "f a \<noteq> a \<and> map_of (m_items d) (f a) \<noteq> None")
      case True
      then have "substituteMsgId d a (f a) = Inl AssertFail"
        using substituteMsgId_collision[OF Cons.prems(6,7)] by metis
      then show ?thesis by simp
    next
      case ok: False
      obtain d1 where d1: "substituteMsgId d a (f a) = Inr d1" "iddiff_ok d1" "no_empty_change d1"
          "map_of (m_items d1) = moved M (insert a ?S)"
      proof (cases "f a = a")
        case True
        with ins Cons.prems that[of d] show ?thesis by auto
      next
        case False
        have free: "map_of (m_items d) (f a) = None" using ok False by blast
        have "\<not> (\<exists>k\<in>?S. f k = a)" using True a(1) by (rule min_not_image)
        then have "map_of (m_items d) a = M a" unfolding Cons.prems(8) using a(1) moved_other[of ?S a M] by simp
        then obtain c where c: "map_of (m_items d) a = Some c" "M a = Some c" using a(2) by auto
        have "a \<noteq> f a" using False by simp
        from substituteMsgId_moves[OF Cons.prems(6,7) this free c(1)]
        obtain d1 where d1: "substituteMsgId d a (f a) = Inr d1" "iddiff_ok d1" "no_empty_change d1"
            "same_header d d1" "map_of (m_items d1) = (map_of (m_items d))(f a := Some c, a := None)"
          by blast
        have "map_of (m_items d1) = moved M (insert a ?S)"
          unfolding ins d1(5) Cons.prems(8) using False c(2) by simp
        with d1 that show ?thesis by blast
      qed
      have "rfold (\<lambda>d p. substituteMsgId d (fst p) (snd p)) d1 (zip ys (map f ys)) = Inl AssertFail"
        using Cons.IH[of "xs @ [a]" d1] Cons.prems(1-5) d1 True by auto
      with d1(1) show ?thesis by simp
    qed
  next
    case False
    then obtain k where k: "k \<in> ?S" "f k = f a" "k \<noteq> a"
      using Cons.prems(1,2) by (auto simp: inj_on_insert) metis
    have "k < a" using Cons.prems(5) k(1) by (auto simp: sorted_wrt_append)
    then have "f a \<noteq> a" using k(2) min_le[of k] by auto
    moreover have "map_of (m_items d) (f a) = M k"
      using moved_image[OF Cons.prems(2) k(1), of M] k(2) Cons.prems(8) by simp
    moreover have "M k \<noteq> None" using k(1) Cons.prems(4) by auto
    ultimately have "substituteMsgId d a (f a) = Inl AssertFail"
      using substituteMsgId_collision[OF Cons.prems(6,7), of a "f a"] by metis
    then show ?thesis by simp
  qed
qed

lemma involvedIds_facts:
  assumes "iddiff_ok d"
  shows "involvedIds d = om_keys (m_items d)" "distinct (involvedIds d)"
    "sorted_wrt (<) (involvedIds d)" "set (involvedIds d) = dom (map_of (m_items d))"
proof -
  have "sset (om_keys (m_items d))"
    using assms by (simp add: iddiff_ok_def om_inv_def om_keys_def sset_def)
  then show eq: "involvedIds d = om_keys (m_items d)"
    by (simp add: involvedIds_def sort_uniq_def sorted_sort_id[OF sset_imp_sorted] uniq_sset)
  show "sorted_wrt (<) (involvedIds d)" "distinct (involvedIds d)"
    using assms unfolding eq by (auto simp: iddiff_ok_def om_inv_def om_keys_def strict_sorted_iff)
  show "set (involvedIds d) = dom (map_of (m_items d))"
    unfolding eq by (simp add: om_keys_def dom_map_of_conv_image_fst)
qed

lemma minimizeIds_loop:
  "minimizeIds (\<lambda>ids. Inr (map f ids)) d =
     rbind (rfold (\<lambda>d p. substituteMsgId d (fst p) (snd p)) d (zip (involvedIds d) (map f (involvedIds d))))
       (\<lambda>d'. Inr (d'\<lparr>m_minimizedIds := True\<rparr>))"
proof -
  let ?ids = "involvedIds d"
  have "rfold (\<lambda>d i. rbind (nth_res ?ids i) (\<lambda>a. rbind (nth_res (map f ?ids) i)
           (\<lambda>b. substituteMsgId d a b))) d [0..<length ?ids]
    = rfold (\<lambda>d i. substituteMsgId d (?ids ! i) (map f ?ids ! i)) d [0..<length ?ids]"
    by (rule rfold_cong) simp
  also have "\<dots> = rfold (\<lambda>d p. substituteMsgId d (fst p) (snd p)) d (zip ?ids (map f ?ids))"
    by (rule rfold_zip) simp
  finally show ?thesis by (simp add: minimizeIds_def Let_def)
qed

lemma minimize_ok:
  assumes "iddiff_ok d" "no_empty_change d" "inj_on f (set (involvedIds d))"
  shows "\<exists>d'. minimizeIds (\<lambda>ids. Inr (map f ids)) d = Inr d' \<and> iddiff_ok d' \<and> m_minimizedIds d'
    \<and> (\<forall>k\<in>set (involvedIds d). sections_of d' (f k) = sections_of d k)
    \<and> set (involvedIds d') = f ` set (involvedIds d)"
proof -
  let ?ids = "involvedIds d" and ?M = "map_of (m_items d)"
  note ids = involvedIds_facts[OF assms(1)]
  obtain d1 where d1: "rfold (\<lambda>d p. substituteMsgId d (fst p) (snd p)) d (zip ?ids (map f ?ids)) = Inr d1"
      "iddiff_ok d1" "map_of (m_items d1) = moved ?M (dom ?M)"
    using minimize_loop[of "[]" ?ids ?M d] ids assms by auto
  let ?d' = "d1\<lparr>m_minimizedIds := True\<rparr>"
  have ok': "iddiff_ok ?d'" using d1(2) by (simp add: iddiff_ok_def)
  have "change_of ?d' (f k) = change_of d k" if "k \<in> set ?ids" for k
    using moved_image[of "dom ?M" k ?M] assms(3) ids(4) that d1(3) by (simp add: change_of_def)
  then have "\<forall>k\<in>set ?ids. sections_of ?d' (f k) = sections_of d k"
    by (simp add: sections_of_def removed_of_def added_of_def review_of_def)
  moreover have "set (involvedIds ?d') = f ` set ?ids"
  proof -
    have "dom (moved ?M (dom ?M)) = f ` dom ?M"
    proof (intro equalityI subsetI)
      fix j assume "j \<in> f ` dom ?M"
      then obtain k where "k \<in> dom ?M" "j = f k" by blast
      then show "j \<in> dom (moved ?M (dom ?M))"
        using moved_image[of "dom ?M" k ?M] assms(3) ids(4) by auto
    next
      fix j assume j: "j \<in> dom (moved ?M (dom ?M))"
      show "j \<in> f ` dom ?M"
      proof (rule ccontr)
        assume "j \<notin> f ` dom ?M"
        then have "moved ?M (dom ?M) j = None" by (auto simp: moved_def)
        with j show False by (metis domIff)
      qed
    qed
    then show ?thesis using involvedIds_facts(4)[OF ok'] d1(3) ids(4) by simp
  qed
  ultimately show ?thesis using d1(1) ok' minimizeIds_loop by simp
qed

lemma minimize_abort:
  assumes "iddiff_ok d" "no_empty_change d" "\<not> inj_on f (set (involvedIds d))"
  shows "minimizeIds (\<lambda>ids. Inr (map f ids)) d = Inl AssertFail"
proof -
  note ids = involvedIds_facts[OF assms(1)]
  have "rfold (\<lambda>d p. substituteMsgId d (fst p) (snd p)) d (zip (involvedIds d) (map f (involvedIds d)))
      = Inl AssertFail"
    using minimize_loop_abort[of "[]" "involvedIds d" "map_of (m_items d)" d] ids assms by auto
  then show ?thesis using minimizeIds_loop by simp
qed

end

end
