(* ===== verification/StateExn.thy ===== *)
theory StateExn
  imports StupPrelude
begin

text \<open>
  Computations that change a state and may fail: unlike in a plain result, the changes made before
  an exception are kept, as C++ keeps those made before a throw.
\<close>

type_synonym ('s, 'a) sm = "'s \<Rightarrow> 'a res \<times> 's"

definition sm_return :: "'a \<Rightarrow> ('s, 'a) sm" where
  "sm_return x s = (Inr x, s)"

definition sm_fail :: "error \<Rightarrow> ('s, 'a) sm" where
  "sm_fail e s = (Inl e, s)"

definition sm_bind :: "('s, 'a) sm \<Rightarrow> ('a \<Rightarrow> ('s, 'b) sm) \<Rightarrow> ('s, 'b) sm" where
  "sm_bind m f s = (case m s of (Inl e, s') \<Rightarrow> (Inl e, s') | (Inr x, s') \<Rightarrow> f x s')"

definition sm_assert :: "bool \<Rightarrow> ('s, unit) sm" where
  "sm_assert b = (if b then sm_return () else sm_fail AssertFail)"

definition sm_lift :: "'a res \<Rightarrow> ('s, 'a) sm" where
  "sm_lift r s = (r, s)"

definition sm_get :: "('s \<Rightarrow> 'a) \<Rightarrow> ('s, 'a) sm" where
  "sm_get f s = (Inr (f s), s)"

definition sm_update :: "('s \<Rightarrow> 's) \<Rightarrow> ('s, unit) sm" where
  "sm_update f s = (Inr (), f s)"

text \<open>\<open>try { m } catch (std::exception \&e) { h }\<close>: an abort is not caught.\<close>

definition sm_catch :: "('s, 'a) sm \<Rightarrow> (exn \<Rightarrow> ('s, 'a) sm) \<Rightarrow> ('s, 'a) sm" where
  "sm_catch m h s = (case m s of
      (Inl (Throw e), s') \<Rightarrow> h e s'
    | (r, s') \<Rightarrow> (r, s'))"

fun sm_repeat :: "nat \<Rightarrow> ('s, 'a) sm \<Rightarrow> ('s, 'a list) sm" where
  "sm_repeat 0 m = sm_return []"
| "sm_repeat (Suc n) m = sm_bind m (\<lambda>x. sm_bind (sm_repeat n m) (\<lambda>xs. sm_return (x # xs)))"

fun sm_for :: "'a list \<Rightarrow> ('a \<Rightarrow> ('s, unit) sm) \<Rightarrow> ('s, unit) sm" where
  "sm_for [] f = sm_return ()"
| "sm_for (x # xs) f = sm_bind (f x) (\<lambda>_. sm_for xs f)"

named_theorems sm_simps \<open>evaluation of stateful computations\<close>

lemma sm_return_apply [sm_simps]: "sm_return x s = (Inr x, s)"
  and sm_fail_apply [sm_simps]: "sm_fail e s = (Inl e, s)"
  and sm_lift_apply [sm_simps]: "sm_lift r s = (r, s)"
  and sm_get_apply [sm_simps]: "sm_get f s = (Inr (f s), s)"
  and sm_update_apply [sm_simps]: "sm_update g s = (Inr (), g s)"
  by (simp_all add: sm_return_def sm_fail_def sm_lift_def sm_get_def sm_update_def)

lemma sm_assert_apply [sm_simps]: "sm_assert b s = (if b then (Inr (), s) else (Inl AssertFail, s))"
  by (simp add: sm_assert_def sm_simps)

lemma sm_bind_Inr: "m s = (Inr x, s') \<Longrightarrow> sm_bind m f s = f x s'"
  and sm_bind_Inl: "m s = (Inl e, s') \<Longrightarrow> sm_bind m f s = (Inl e, s')"
  by (simp_all add: sm_bind_def)

lemma sm_bind_cases:
  assumes "sm_bind m f s = (Inr y, t)"
  obtains x s' where "m s = (Inr x, s')" "f x s' = (Inr y, t)"
  using assms by (auto simp: sm_bind_def split: prod.splits sum.splits)

text \<open>A relation between the state before and after that every step respects.\<close>

definition sm_keeps :: "('s \<Rightarrow> 's \<Rightarrow> bool) \<Rightarrow> ('s, 'a) sm \<Rightarrow> bool" where
  "sm_keeps R m \<longleftrightarrow> (\<forall>s. R s (snd (m s)))"

lemma sm_keeps_bind:
  assumes "sm_keeps R m" "\<And>x. sm_keeps R (f x)" "transp R"
  shows "sm_keeps R (sm_bind m f)"
  unfolding sm_keeps_def
proof
  fix s
  show "R s (snd (sm_bind m f s))"
  proof (cases "m s")
    case (Pair r s')
    have "R s s'" using assms(1) Pair by (metis sm_keeps_def snd_conv)
    moreover have "R s' (snd (f x s'))" for x using assms(2) by (simp add: sm_keeps_def)
    ultimately show ?thesis
      using assms(3) Pair by (auto simp: sm_bind_def transp_def split: sum.split)
  qed
qed

lemma sm_keeps_return: "reflp R \<Longrightarrow> sm_keeps R (sm_return x)"
  and sm_keeps_fail: "reflp R \<Longrightarrow> sm_keeps R (sm_fail e)"
  and sm_keeps_lift: "reflp R \<Longrightarrow> sm_keeps R (sm_lift r)"
  and sm_keeps_get: "reflp R \<Longrightarrow> sm_keeps R (sm_get f)"
  and sm_keeps_assert: "reflp R \<Longrightarrow> sm_keeps R (sm_assert b)"
  by (auto simp: sm_keeps_def sm_simps reflp_def)

lemma sm_keeps_repeat: "reflp R \<Longrightarrow> transp R \<Longrightarrow> sm_keeps R m \<Longrightarrow> sm_keeps R (sm_repeat n m)"
  by (induction n) (auto intro!: sm_keeps_bind sm_keeps_return)

lemma sm_keeps_for:
  "reflp R \<Longrightarrow> transp R \<Longrightarrow> (\<And>x. sm_keeps R (f x)) \<Longrightarrow> sm_keeps R (sm_for xs f)"
  by (induction xs) (auto intro!: sm_keeps_bind sm_keeps_return)

lemma sm_keeps_catch:
  assumes "sm_keeps R m" "\<And>e. sm_keeps R (h e)" "transp R"
  shows "sm_keeps R (sm_catch m h)"
  unfolding sm_keeps_def
proof
  fix s
  show "R s (snd (sm_catch m h s))"
  proof (cases "m s")
    case (Pair r s')
    have "R s s'" using assms(1) Pair by (metis sm_keeps_def snd_conv)
    moreover have "R s' (snd (h e s'))" for e using assms(2) by (simp add: sm_keeps_def)
    ultimately show ?thesis
      using assms(3) Pair by (auto simp: sm_catch_def transp_def split: sum.split error.split)
  qed
qed

lemmas sm_keeps_intros = sm_keeps_bind sm_keeps_return sm_keeps_fail sm_keeps_lift sm_keeps_get
  sm_keeps_assert sm_keeps_repeat sm_keeps_for sm_keeps_catch

end
