(* ===== verification/GitOid.thy ===== *)
theory GitOid
  imports Bytes
begin

text \<open>
  \<open>gtpo/gitoid.cpp\<close>: object IDs, 20 bytes compared as \<open>git_oid_cmp\<close> compares them (\<open>memcmp\<close>).
  Reading and printing the hexadecimal form is libgit2's \<open>git_oid_fromstr\<close> and \<open>git_oid_fmt\<close>,
  parameters of the operations that use them.
\<close>

type_synonym git_oid = "byte list"

definition oid_size :: nat where
  "oid_size = 20"

definition oid_ok :: "git_oid \<Rightarrow> bool" where
  "oid_ok o1 \<longleftrightarrow> length o1 = oid_size"

definition oid_zero :: git_oid where
  "oid_zero = replicate oid_size 0"

definition oid_of_str :: "(string \<Rightarrow> git_oid option) \<Rightarrow> string \<Rightarrow> git_oid res" where
  "oid_of_str git_oid_fromstr s = (case git_oid_fromstr s of
      Some o1 \<Rightarrow> Inr o1
    | None \<Rightarrow> Inl (Throw (RuntimeError (''git_oid_fromstr() failed for string: '' @ s))))"

definition oid_of_raw :: "byte list \<Rightarrow> git_oid" where
  "oid_of_raw raw = take oid_size raw"

fun memcmp :: "byte list \<Rightarrow> byte list \<Rightarrow> int" where
  "memcmp (x # xs) (y # ys) = (if x = y then memcmp xs ys else if x < y then -1 else 1)"
| "memcmp _ _ = 0"

definition oid_less :: "git_oid \<Rightarrow> git_oid \<Rightarrow> bool" where
  "oid_less a b \<longleftrightarrow> memcmp a b < 0"

definition oid_eq :: "git_oid \<Rightarrow> git_oid \<Rightarrow> bool" where
  "oid_eq a b \<longleftrightarrow> memcmp a b = 0"

definition oid_neq :: "git_oid \<Rightarrow> git_oid \<Rightarrow> bool" where
  "oid_neq a b \<longleftrightarrow> memcmp a b \<noteq> 0"

definition oid_isNull :: "git_oid \<Rightarrow> bool" where
  "oid_isNull a \<longleftrightarrow> oid_eq a oid_zero"

definition oid_toString :: "(git_oid \<Rightarrow> string) \<Rightarrow> git_oid \<Rightarrow> string" where
  "oid_toString git_oid_fmt a = git_oid_fmt a"

text \<open>On IDs of the right length the operators are equality and the lexicographic order.\<close>

lemma memcmp_eq: "length a = length b \<Longrightarrow> memcmp a b = 0 \<longleftrightarrow> a = b"
  by (induction a b rule: list_induct2) auto

lemma memcmp_less: "length a = length b \<Longrightarrow> memcmp a b < 0 \<longleftrightarrow> a < b"
  by (induction a b rule: list_induct2) auto

lemma oid_eq_iff [simp]: "oid_ok a \<Longrightarrow> oid_ok b \<Longrightarrow> oid_eq a b \<longleftrightarrow> a = b"
  by (simp add: oid_eq_def oid_ok_def memcmp_eq)

lemma oid_neq_iff [simp]: "oid_ok a \<Longrightarrow> oid_ok b \<Longrightarrow> oid_neq a b \<longleftrightarrow> a \<noteq> b"
  by (simp add: oid_neq_def oid_ok_def memcmp_eq)

lemma oid_less_iff [simp]: "oid_ok a \<Longrightarrow> oid_ok b \<Longrightarrow> oid_less a b \<longleftrightarrow> a < b"
  by (simp add: oid_less_def oid_ok_def memcmp_less)

lemma oid_ok_zero [simp]: "oid_ok oid_zero"
  by (simp add: oid_ok_def oid_zero_def)

lemma oid_isNull_iff: "oid_ok a \<Longrightarrow> oid_isNull a \<longleftrightarrow> a = oid_zero"
  by (simp add: oid_isNull_def)

end
