(* ===== verification/TcpServer.thy ===== *)
theory TcpServer
  imports StateExn Bytes
begin

text \<open>
  \<open>stupids-server/tcpcommandserver.cpp\<close>: one connection of the server. The socket's input is the
  list of what \<open>recvfrom\<close> will find, one chunk of bytes or one error after the other; its end, or
  an empty chunk, is the client having disconnected. \<open>srv_out\<close> is what was sent on the socket.
  Accepting connections and forking are in \<open>ServerStart\<close>.
\<close>

datatype sock_event = Chunk "byte list" | RecvError

record server_conn =
  m_closeConnection :: bool
  m_outputBuffer :: "byte list"
  srv_in :: "sock_event list"
  srv_out :: "byte list"

type_synonym 'a srv = "(server_conn, 'a) sm"

definition new_conn :: "sock_event list \<Rightarrow> server_conn" where
  "new_conn evs = \<lparr>m_closeConnection = False, m_outputBuffer = [], srv_in = evs, srv_out = []\<rparr>"

definition srv_disconnect :: "unit srv" where
  "srv_disconnect = sm_update (\<lambda>c. c\<lparr>m_closeConnection := True\<rparr>)"

definition sendToClient :: "byte list \<Rightarrow> unit srv" where
  "sendToClient bs = sm_update (\<lambda>c. c\<lparr>m_outputBuffer := m_outputBuffer c @ bs\<rparr>)"

text \<open>\<open>sendto\<close> sends everything, or the assertion on its result fails; that is not modelled.\<close>

definition writeToClient :: "byte list \<Rightarrow> unit srv" where
  "writeToClient bs = sm_bind (sm_get m_closeConnection) (\<lambda>closed.
     sm_bind (sm_assert (\<not> closed)) (\<lambda>_. sm_update (\<lambda>c. c\<lparr>srv_out := srv_out c @ bs\<rparr>)))"

definition flushToClient :: "unit srv" where
  "flushToClient = sm_bind (writeToClient (be32 0)) (\<lambda>_.
     sm_bind (sm_get m_outputBuffer) (\<lambda>buf.
     sm_bind (writeToClient buf) (\<lambda>_. sm_update (\<lambda>c. c\<lparr>m_outputBuffer := []\<rparr>))))"

definition flushErrorToClient :: "u32 \<Rightarrow> unit srv" where
  "flushErrorToClient code = sm_bind (writeToClient (be32 code)) (\<lambda>_.
     sm_update (\<lambda>c. c\<lparr>m_outputBuffer := []\<rparr>))"

text \<open>One \<open>recvfrom\<close> for at most \<open>n\<close> bytes.\<close>

fun sock_recv :: "sock_event list \<Rightarrow> nat \<Rightarrow> byte list res \<times> sock_event list" where
  "sock_recv [] n = (Inl (Throw Disconnected), [])"
| "sock_recv (RecvError # evs) n = (Inl (Throw RecvFailed), evs)"
| "sock_recv (Chunk bs # evs) n =
     (if bs = [] then (Inl (Throw Disconnected), Chunk bs # evs)
      else if length bs \<le> n then (Inr bs, evs)
      else (Inr (take n bs), Chunk (List.drop n bs) # evs))"

text \<open>The loop of \<open>recvFromClient\<close>, with \<open>n\<close> bytes still to read.\<close>

function recv_loop :: "nat \<Rightarrow> byte list srv" where
  "recv_loop n c =
     (if n = 0 then (Inr [], c)
      else case sock_recv (srv_in c) n of
          (Inl e, evs) \<Rightarrow> (Inl e, c\<lparr>srv_in := evs, m_closeConnection := True\<rparr>)
        | (Inr bs, evs) \<Rightarrow>
            if bs = [] then (Inl Hang, c)
            else (case recv_loop (n - length bs) (c\<lparr>srv_in := evs\<rparr>) of
                (Inr rest, c') \<Rightarrow> (Inr (bs @ rest), c')
              | (Inl e, c') \<Rightarrow> (Inl e, c')))"
  by pat_completeness auto
termination
  by (relation "measure fst") auto

declare recv_loop.simps [simp del]

definition recvFromClient :: "nat \<Rightarrow> byte list srv" where
  "recvFromClient len = sm_bind (sm_get m_closeConnection) (\<lambda>closed.
     if closed then sm_fail (Throw NoConnection) else recv_loop len)"

section \<open>What is read does not depend on how the bytes arrive\<close>

text \<open>The bytes still to come, when no error does.\<close>

fun stream_bytes :: "sock_event list \<Rightarrow> byte list" where
  "stream_bytes [] = []"
| "stream_bytes (RecvError # evs) = []"
| "stream_bytes (Chunk bs # evs) = (if bs = [] then [] else bs @ stream_bytes evs)"

lemma sock_recv_stream:
  assumes "stream_bytes evs \<noteq> []" "0 < n"
  shows "\<exists>bs evs'. sock_recv evs n = (Inr bs, evs') \<and> bs \<noteq> [] \<and> length bs \<le> n
    \<and> stream_bytes evs = bs @ stream_bytes evs'"
  using assms by (cases evs rule: stream_bytes.cases) (auto split: if_splits)

lemma recv_loop_enough:
  assumes "n \<le> length (stream_bytes (srv_in c))"
  shows "\<exists>evs. recv_loop n c = (Inr (take n (stream_bytes (srv_in c))), c\<lparr>srv_in := evs\<rparr>)
    \<and> stream_bytes evs = List.drop n (stream_bytes (srv_in c))"
  using assms
proof (induction n arbitrary: c rule: less_induct)
  case (less n)
  show ?case
  proof (cases "n = 0")
    case True
    then show ?thesis by (subst recv_loop.simps) (auto intro: exI[of _ "srv_in c"])
  next
    case False
    then have "stream_bytes (srv_in c) \<noteq> []" using less.prems by auto
    then obtain bs evs where r: "sock_recv (srv_in c) n = (Inr bs, evs)" "bs \<noteq> []" "length bs \<le> n"
        "stream_bytes (srv_in c) = bs @ stream_bytes evs"
      using sock_recv_stream False by blast
    let ?c = "c\<lparr>srv_in := evs\<rparr>"
    have "n - length bs < n" "n - length bs \<le> length (stream_bytes (srv_in ?c))"
      using False r(2,4) less.prems by (cases bs; simp)+
    from less.IH[OF this] obtain evs' where "recv_loop (n - length bs) ?c
        = (Inr (take (n - length bs) (stream_bytes evs)), ?c\<lparr>srv_in := evs'\<rparr>)"
        "stream_bytes evs' = List.drop (n - length bs) (stream_bytes evs)"
      by auto
    then show ?thesis
      using False r by (subst recv_loop.simps) auto
  qed
qed

text \<open>When the client goes away first, the connection is closed and the read throws.\<close>

lemma recv_loop_short:
  assumes "length (stream_bytes (srv_in c)) < n"
  shows "\<exists>e evs. recv_loop n c = (Inl (Throw e), c\<lparr>srv_in := evs, m_closeConnection := True\<rparr>)
    \<and> (e = Disconnected \<or> e = RecvFailed)"
  using assms
proof (induction n arbitrary: c rule: less_induct)
  case (less n)
  show ?case
  proof (cases "stream_bytes (srv_in c) = []")
    case True
    then obtain e evs where "sock_recv (srv_in c) n = (Inl (Throw e), evs)"
        "e = Disconnected \<or> e = RecvFailed"
      by (cases "srv_in c" rule: stream_bytes.cases) (auto split: if_splits)
    then show ?thesis using less.prems by (subst recv_loop.simps) auto
  next
    case False
    then obtain bs evs where r: "sock_recv (srv_in c) n = (Inr bs, evs)" "bs \<noteq> []" "length bs \<le> n"
        "stream_bytes (srv_in c) = bs @ stream_bytes evs"
      using sock_recv_stream[of "srv_in c" n] less.prems by force
    have "length (stream_bytes evs) < n - length bs" "n - length bs < n"
      using r less.prems by (auto simp: length_greater_0_conv[symmetric] simp del: length_greater_0_conv)
    then obtain e evs' where "recv_loop (n - length bs) (c\<lparr>srv_in := evs\<rparr>)
        = (Inl (Throw e), c\<lparr>srv_in := evs', m_closeConnection := True\<rparr>)" "e = Disconnected \<or> e = RecvFailed"
      using less.IH[of "n - length bs" "c\<lparr>srv_in := evs\<rparr>"] by auto
    then show ?thesis using r less.prems by (subst recv_loop.simps) auto
  qed
qed

lemma recvFromClient_enough:
  assumes "\<not> m_closeConnection c" "stream_bytes (srv_in c) = bs @ rest" "length bs = n"
  shows "\<exists>evs. recvFromClient n c = (Inr bs, c\<lparr>srv_in := evs\<rparr>) \<and> stream_bytes evs = rest"
  using recv_loop_enough[of n c] assms by (simp add: recvFromClient_def sm_bind_def sm_simps)

lemma recvFromClient_short:
  assumes "\<not> m_closeConnection c" "length (stream_bytes (srv_in c)) < n"
  shows "\<exists>e evs. recvFromClient n c = (Inl (Throw e), c\<lparr>srv_in := evs, m_closeConnection := True\<rparr>)"
  using recv_loop_short[of c n] assms by (auto simp: recvFromClient_def sm_bind_def sm_simps)

end
