(* ===== verification/Server.thy ===== *)
theory Server
  imports TcpServer GitOid IdMap
begin

text \<open>
  \<open>stupids-server/server.cpp\<close>: the commands a client can send. The database of IDs by \<open>tp_hash\<close>
  is a web service behind \<open>StupidsDatabase::getFirstId\<close>, a parameter; the map of collapsed IDs is
  the mapped file of \<open>IdMap\<close>.
\<close>

definition CMD_EXIT :: u32 where "CMD_EXIT = 1"
definition CMD_GET_MIN_ID_ARRAY :: u32 where "CMD_GET_MIN_ID_ARRAY = 2"
definition CMD_GET_FIRST_ID :: u32 where "CMD_GET_FIRST_ID = 3"
definition CMD_GET_FIRST_ID_MULTI :: u32 where "CMD_GET_FIRST_ID_MULTI = 4"
definition CMD_GET_MIN_IDS :: u32 where "CMD_GET_MIN_IDS = 5"
definition CMD_INVOLVED_BY_MIN_IDS :: u32 where "CMD_INVOLVED_BY_MIN_IDS = 6"

lemmas commands = CMD_EXIT_def CMD_GET_MIN_ID_ARRAY_def CMD_GET_FIRST_ID_def
  CMD_GET_FIRST_ID_MULTI_def CMD_GET_MIN_IDS_def CMD_INVOLVED_BY_MIN_IDS_def

section \<open>Reading and writing values\<close>

definition srv_recvLong :: "u32 srv" where
  "srv_recvLong = sm_bind (recvFromClient 4) (\<lambda>bs. sm_return (un_be32 bs))"

definition srv_recvOid :: "git_oid srv" where
  "srv_recvOid = sm_bind (recvFromClient oid_size) (\<lambda>bs. sm_return (oid_of_raw bs))"

text \<open>\<open>count * 4\<close> is computed in \<open>uint32_t\<close>; when it wraps, elements of the array are never set.\<close>

definition srv_recvLongVector :: "int list srv" where
  "srv_recvLongVector = sm_bind srv_recvLong (\<lambda>count.
     sm_bind (recvFromClient (unat (count * 4))) (\<lambda>bs.
       if length (un_be32s bs) = unat count then sm_return (un_be32s bs)
       else sm_fail Uninitialized))"

definition srv_sendLong :: "u32 \<Rightarrow> unit srv" where
  "srv_sendLong x = sendToClient (be32 x)"

definition srv_sendLongArray :: "int list \<Rightarrow> unit srv" where
  "srv_sendLongArray xs = sendToClient (be32s xs)"

definition srv_sendLongVector :: "int list \<Rightarrow> unit srv" where
  "srv_sendLongVector xs = sm_bind (srv_sendLong (of_nat (length xs))) (\<lambda>_. srv_sendLongArray xs)"

section \<open>The requests\<close>

type_synonym first_ids = "git_oid \<Rightarrow> (int \<times> int) res"

text \<open>\<open>std::vector<int> res(id_count)\<close> throws \<open>std::length_error\<close> for a negative count.\<close>

definition getTphashMinIds :: "mapped_file \<Rightarrow> first_ids \<Rightarrow> git_oid \<Rightarrow> int list res" where
  "getTphashMinIds db getFirstId tp_hash =
     rbind (getFirstId tp_hash) (\<lambda>(first_id, id_count).
       if first_id = 0 then Inl (Throw TpHashNotFound)
       else if id_count < 0 then Inl (Throw (RuntimeError ''length_error''))
       else rmap (\<lambda>i. getPlainMinId db (first_id + i)) [0..id_count - 1])"

definition srv_getMinIds :: "mapped_file \<Rightarrow> int list \<Rightarrow> int list res" where
  "srv_getMinIds db ids = rmap (getPlainMinId db) ids"

definition handleGetMinIdArray :: "mapped_file \<Rightarrow> first_ids \<Rightarrow> unit srv" where
  "handleGetMinIdArray db getFirstId = sm_bind srv_recvOid (\<lambda>tp_hash.
     sm_bind (sm_lift (getTphashMinIds db getFirstId tp_hash)) srv_sendLongVector)"

definition handleGetMinIds :: "mapped_file \<Rightarrow> unit srv" where
  "handleGetMinIds db = sm_bind srv_recvLongVector (\<lambda>ids.
     sm_bind (sm_lift (srv_getMinIds db ids)) srv_sendLongArray)"

definition handleGetFirstId :: "first_ids \<Rightarrow> unit srv" where
  "handleGetFirstId getFirstId = sm_bind srv_recvOid (\<lambda>tp_hash.
     sm_bind (sm_lift (getFirstId tp_hash)) (\<lambda>(first_id, id_count).
     sm_bind (srv_sendLong (u32_of_int first_id)) (\<lambda>_. srv_sendLong (u32_of_int id_count))))"

definition handleGetFirstIdMulti :: "first_ids \<Rightarrow> unit srv" where
  "handleGetFirstIdMulti getFirstId = sm_bind srv_recvLong (\<lambda>count.
     sm_bind (sm_repeat (unat count) (handleGetFirstId getFirstId)) (\<lambda>_. sm_return ()))"

text \<open>\<open>std::set_intersection\<close> of two sorted vectors.\<close>

fun set_intersection :: "int list \<Rightarrow> int list \<Rightarrow> int list" where
  "set_intersection (x # xs) (y # ys) =
     (if x < y then set_intersection xs (y # ys)
      else if y < x then set_intersection (x # xs) ys
      else x # set_intersection xs ys)"
| "set_intersection _ _ = []"

text \<open>The indices of the files that have one of the minimum IDs.\<close>

fun involved_from :: "mapped_file \<Rightarrow> first_ids \<Rightarrow> int list \<Rightarrow> int \<Rightarrow> git_oid list \<Rightarrow> int list res" where
  "involved_from db getFirstId min_ids i [] = Inr []"
| "involved_from db getFirstId min_ids i (h # hs) =
     rbind (getTphashMinIds db getFirstId h) (\<lambda>c_ids.
     rbind (involved_from db getFirstId min_ids (i + 1) hs) (\<lambda>res.
       Inr (if set_intersection min_ids (sort c_ids) \<noteq> [] then i # res else res)))"

definition handleInvolvedByMinIds :: "mapped_file \<Rightarrow> first_ids \<Rightarrow> unit srv" where
  "handleInvolvedByMinIds db getFirstId = sm_bind srv_recvLong (\<lambda>tp_hash_count.
     sm_bind (sm_repeat (unat tp_hash_count) srv_recvOid) (\<lambda>tp_hashes.
     sm_bind srv_recvLongVector (\<lambda>ids.
     sm_bind (sm_lift (srv_getMinIds db ids)) (\<lambda>min_ids.
     sm_bind (sm_lift (involved_from db getFirstId (sort min_ids) 0 tp_hashes))
       srv_sendLongVector))))"

definition handle_command :: "mapped_file \<Rightarrow> first_ids \<Rightarrow> u32 \<Rightarrow> unit srv" where
  "handle_command db getFirstId command =
     (if command = CMD_GET_MIN_ID_ARRAY then handleGetMinIdArray db getFirstId
      else if command = CMD_GET_FIRST_ID then handleGetFirstId getFirstId
      else if command = CMD_GET_FIRST_ID_MULTI then handleGetFirstIdMulti getFirstId
      else if command = CMD_GET_MIN_IDS then handleGetMinIds db
      else handleInvolvedByMinIds db getFirstId)"

definition known_command :: "u32 \<Rightarrow> bool" where
  "known_command c \<longleftrightarrow> c \<in> {CMD_GET_MIN_ID_ARRAY, CMD_GET_FIRST_ID, CMD_GET_FIRST_ID_MULTI,
     CMD_GET_MIN_IDS, CMD_INVOLVED_BY_MIN_IDS}"

text \<open>
  \<open>commandHandler\<close>. The second \<open>try\<close> returns True when the handler has returned from inside it.
\<close>

definition fail_request :: "u32 \<Rightarrow> bool srv" where
  "fail_request code = sm_bind (flushErrorToClient code) (\<lambda>_.
     sm_bind srv_disconnect (\<lambda>_. sm_return True))"

definition read_command :: "u32 option srv" where
  "read_command = sm_catch (sm_bind srv_recvLong (\<lambda>c. sm_return (Some c)))
     (\<lambda>e. sm_bind srv_disconnect (\<lambda>_. sm_return None))"

definition run_command :: "mapped_file \<Rightarrow> first_ids \<Rightarrow> u32 \<Rightarrow> unit srv" where
  "run_command db getFirstId c =
     sm_bind (sm_catch
       (if c = CMD_EXIT then
          sm_bind flushToClient (\<lambda>_. sm_bind srv_disconnect (\<lambda>_. sm_return True))
        else if known_command c then
          sm_bind (handle_command db getFirstId c) (\<lambda>_. sm_return False)
        else fail_request 1)
       (\<lambda>e. fail_request 2)) (\<lambda>returned.
     if returned then sm_return () else flushToClient)"

definition commandHandler :: "mapped_file \<Rightarrow> first_ids \<Rightarrow> unit srv" where
  "commandHandler db getFirstId = sm_bind read_command (\<lambda>command. case command of
      None \<Rightarrow> sm_return ()
    | Some c \<Rightarrow> run_command db getFirstId c)"

end
