(* ===== verification/Client.thy ===== *)
theory Client
  imports StateExn GitOid Server
begin

text \<open>
  \<open>gtpo/stupids-client.cpp\<close>: the client of the server. \<open>cl_in\<close> is what \<open>read\<close> will find, one chunk
  after the other (its end, or an empty chunk, is an error or the end of the stream, for which
  \<open>read\<close> returns at most 0); \<open>cl_writes\<close> are the results of the next calls of \<open>write\<close>, which
  writes everything once the list is used up; \<open>cl_out\<close> is what was written.
\<close>

record client =
  m_sockfd :: int
  cl_can_connect :: bool
  cl_in :: "byte list list"
  cl_writes :: "int list"
  cl_out :: "byte list"

type_synonym 'a cl = "(client, 'a) sm"

definition cl_connect :: "unit cl" where
  "cl_connect c =
     (if m_sockfd c \<ge> 0 then (Inr (), c)
      else if cl_can_connect c then (Inr (), c\<lparr>m_sockfd := 3\<rparr>)
      else (Inl (Throw ConnectionFailed), c\<lparr>m_sockfd := -1\<rparr>))"

section \<open>Receiving\<close>

function cl_read_loop :: "nat \<Rightarrow> byte list cl" where
  "cl_read_loop n c =
     (if n = 0 then (Inr [], c)
      else case cl_in c of
          [] \<Rightarrow> (Inl AssertFail, c)
        | ch # chs \<Rightarrow>
            if ch = [] then (Inl AssertFail, c\<lparr>cl_in := chs\<rparr>)
            else let bs = take n ch;
                     c' = c\<lparr>cl_in := (if length ch \<le> n then chs else List.drop n ch # chs)\<rparr>
                 in (case cl_read_loop (n - length bs) c' of
                     (Inr rest, c'') \<Rightarrow> (Inr (bs @ rest), c'')
                   | (Inl e, c'') \<Rightarrow> (Inl e, c'')))"
  by pat_completeness auto
termination
  by (relation "measure fst") auto

declare cl_read_loop.simps [simp del]

definition recvFromServer :: "nat \<Rightarrow> byte list cl" where
  "recvFromServer len = sm_bind (sm_get m_sockfd) (\<lambda>fd.
     if fd < 0 then sm_fail (Throw NoConnection) else cl_read_loop len)"

definition cl_recvLong :: "u32 cl" where
  "cl_recvLong = sm_bind (recvFromServer 4) (\<lambda>bs. sm_return (un_be32 bs))"

definition cl_recvLongArray :: "nat \<Rightarrow> int list cl" where
  "cl_recvLongArray count = sm_bind (recvFromServer (4 * count)) (\<lambda>bs. sm_return (un_be32s bs))"

definition cl_recvLongVector :: "int list cl" where
  "cl_recvLongVector = sm_bind cl_recvLong (\<lambda>count.
     sm_bind (sm_assert (int_of_u32 count \<ge> 0)) (\<lambda>_. cl_recvLongArray (nat (int_of_u32 count))))"

definition checkRecvErrorCode :: "unit cl" where
  "checkRecvErrorCode = sm_bind cl_recvLong (\<lambda>code.
     if code \<noteq> 0 then sm_fail (Throw RequestFailed) else sm_return ())"

section \<open>Sending\<close>

text \<open>
  The loop of \<open>sendToServer\<close>. Every call of \<open>write\<close> gets the whole buffer again, whatever the
  calls before it have written.
\<close>

function cl_send_loop :: "byte list \<Rightarrow> nat \<Rightarrow> unit cl" where
  "cl_send_loop data written c =
     (if written < length data then
        let res = (case cl_writes c of [] \<Rightarrow> int (length data) | w # ws \<Rightarrow> min w (int (length data)));
            c' = c\<lparr>cl_writes := tl (cl_writes c), cl_out := cl_out c @ take (nat res) data\<rparr>
        in if res \<le> 0 then (Inl AssertFail, c') else cl_send_loop data (written + nat res) c'
      else if written = length data then (Inr (), c)
      else (Inl AssertFail, c))"
  by pat_completeness auto
termination
  by (relation "measure (\<lambda>(data, written, c). length data - written)") auto

declare cl_send_loop.simps [simp del]

definition sendToServer :: "byte list \<Rightarrow> unit cl" where
  "sendToServer data = sm_bind (sm_get m_sockfd) (\<lambda>fd.
     if fd < 0 then sm_fail (Throw NoConnection) else cl_send_loop data 0)"

definition cl_sendLong :: "u32 \<Rightarrow> unit cl" where
  "cl_sendLong x = sendToServer (be32 x)"

definition cl_sendOid :: "git_oid \<Rightarrow> unit cl" where
  "cl_sendOid o1 = sm_bind (sm_assert (\<not> oid_isNull o1)) (\<lambda>_. sendToServer o1)"

definition cl_sendLongVector :: "int list \<Rightarrow> unit cl" where
  "cl_sendLongVector vec = sm_bind (cl_sendLong (of_nat (length vec))) (\<lambda>_.
     sendToServer (be32s vec))"

definition cl_disconnect :: "unit cl" where
  "cl_disconnect = sm_bind (cl_sendLong CMD_EXIT) (\<lambda>_. sm_update (\<lambda>c. c\<lparr>m_sockfd := -1\<rparr>))"

section \<open>Requests\<close>

definition cl_getMinIds_hash :: "git_oid \<Rightarrow> int list cl" where
  "cl_getMinIds_hash tp_hash = sm_bind (sm_assert (\<not> oid_isNull tp_hash)) (\<lambda>_.
     sm_bind cl_connect (\<lambda>_.
     sm_bind (cl_sendLong CMD_GET_MIN_ID_ARRAY) (\<lambda>_.
     sm_bind (cl_sendOid tp_hash) (\<lambda>_.
     sm_bind checkRecvErrorCode (\<lambda>_. cl_recvLongVector)))))"

definition cl_getMinIds :: "int list \<Rightarrow> int list cl" where
  "cl_getMinIds msg_ids = sm_bind cl_connect (\<lambda>_.
     sm_bind (cl_sendLong CMD_GET_MIN_IDS) (\<lambda>_.
     sm_bind (cl_sendLongVector msg_ids) (\<lambda>_.
     sm_bind checkRecvErrorCode (\<lambda>_. cl_recvLongArray (length msg_ids)))))"

definition cl_recv_pair :: "(int \<times> int) cl" where
  "cl_recv_pair = sm_bind cl_recvLong (\<lambda>first_id. sm_bind cl_recvLong (\<lambda>id_count.
     sm_return (int_of_u32 first_id, int_of_u32 id_count)))"

text \<open>Catching \<open>ExceptionConnectionFailed\<close> around \<open>connect\<close> only.\<close>

definition if_connected :: "'a \<Rightarrow> 'a cl \<Rightarrow> 'a cl" where
  "if_connected dflt m c = (case cl_connect c of
      (Inr _, c') \<Rightarrow> m c'
    | (Inl e, c') \<Rightarrow> (Inr dflt, c'))"

definition getFirstIdPair :: "git_oid \<Rightarrow> (int \<times> int) cl" where
  "getFirstIdPair tp_hash = sm_bind (sm_assert (\<not> oid_isNull tp_hash)) (\<lambda>_.
     if_connected (-1, -1)
       (sm_bind (cl_sendLong CMD_GET_FIRST_ID) (\<lambda>_.
        sm_bind (cl_sendOid tp_hash) (\<lambda>_.
        sm_bind checkRecvErrorCode (\<lambda>_. cl_recv_pair)))))"

definition cl_getFirstId :: "git_oid \<Rightarrow> int cl" where
  "cl_getFirstId tp_hash = sm_bind (getFirstIdPair tp_hash) (\<lambda>p. sm_return (fst p))"

definition getFirstIdPairs :: "git_oid list \<Rightarrow> (int \<times> int) list cl" where
  "getFirstIdPairs tp_hashes = if_connected []
     (sm_bind (cl_sendLong CMD_GET_FIRST_ID_MULTI) (\<lambda>_.
      sm_bind (cl_sendLong (of_nat (length tp_hashes))) (\<lambda>_.
      sm_bind (sm_for tp_hashes cl_sendOid) (\<lambda>_.
      sm_bind checkRecvErrorCode (\<lambda>_. sm_repeat (length tp_hashes) cl_recv_pair)))))"

definition involvedByMinIds :: "git_oid list \<Rightarrow> int list \<Rightarrow> int list cl" where
  "involvedByMinIds tp_hashes ids = sm_bind cl_connect (\<lambda>_.
     sm_bind (cl_sendLong CMD_INVOLVED_BY_MIN_IDS) (\<lambda>_.
     sm_bind (cl_sendLong (of_nat (length tp_hashes))) (\<lambda>_.
     sm_bind (sm_for tp_hashes cl_sendOid) (\<lambda>_.
     sm_bind (cl_sendLongVector ids) (\<lambda>_.
     sm_bind checkRecvErrorCode (\<lambda>_. cl_recvLongVector))))))"

section \<open>Facts\<close>

text \<open>The bytes still to come.\<close>

fun cl_stream :: "byte list list \<Rightarrow> byte list" where
  "cl_stream [] = []"
| "cl_stream (ch # chs) = (if ch = [] then [] else ch @ cl_stream chs)"

lemma cl_read_loop_enough:
  assumes "n \<le> length (cl_stream (cl_in c))"
  shows "\<exists>chs. cl_read_loop n c = (Inr (take n (cl_stream (cl_in c))), c\<lparr>cl_in := chs\<rparr>)
    \<and> cl_stream chs = List.drop n (cl_stream (cl_in c))"
  using assms
proof (induction n arbitrary: c rule: less_induct)
  case (less n)
  show ?case
  proof (cases "n = 0")
    case True
    then show ?thesis by (subst cl_read_loop.simps) (auto intro: exI[of _ "cl_in c"])
  next
    case False
    then obtain ch chs where ch: "cl_in c = ch # chs" "ch \<noteq> []"
      using less.prems by (cases "cl_in c") (auto split: if_splits)
    let ?rest = "if length ch \<le> n then chs else List.drop n ch # chs"
    let ?c = "c\<lparr>cl_in := ?rest\<rparr>"
    let ?m = "n - length (take n ch)"
    have st: "cl_stream (cl_in c) = take n ch @ cl_stream ?rest"
      using ch by simp
    have "?m < n" using False ch(2) by (cases ch) auto
    moreover have "?m \<le> length (cl_stream (cl_in ?c))" using less.prems unfolding st by simp
    ultimately obtain chs' where "cl_read_loop ?m ?c = (Inr (take ?m (cl_stream ?rest)), ?c\<lparr>cl_in := chs'\<rparr>)"
        "cl_stream chs' = List.drop ?m (cl_stream ?rest)"
      using less.IH[of ?m ?c] by auto
    then show ?thesis
      using False ch unfolding st by (subst cl_read_loop.simps) (auto simp: Let_def)
  qed
qed

definition connected :: "client \<Rightarrow> bool" where
  "connected c \<longleftrightarrow> m_sockfd c \<ge> 0"

text \<open>An open connection on which every write is complete and \<open>bs\<close> is still to be read.\<close>

definition cl_ready :: "client \<Rightarrow> byte list \<Rightarrow> bool" where
  "cl_ready c bs \<longleftrightarrow> m_sockfd c \<ge> 0 \<and> cl_writes c = [] \<and> cl_stream (cl_in c) = bs"

lemma recvFromServer_ready:
  assumes "cl_ready c (bs @ rest)" "length bs = n"
  shows "\<exists>c'. recvFromServer n c = (Inr bs, c') \<and> cl_ready c' rest \<and> cl_out c' = cl_out c"
  using cl_read_loop_enough[of n c] assms
  by (auto simp: cl_ready_def recvFromServer_def sm_bind_def sm_simps)

lemma sendToServer_ready:
  assumes "cl_ready c bs"
  shows "sendToServer data c = (Inr (), c\<lparr>cl_out := cl_out c @ data\<rparr>)"
  using assms
  by (cases "data = []")
    (auto simp: cl_ready_def sendToServer_def sm_bind_def sm_simps cl_send_loop.simps Let_def)

lemma cl_ready_out [simp]: "cl_ready (c\<lparr>cl_out := bs'\<rparr>) bs = cl_ready c bs"
  by (simp add: cl_ready_def)

lemma cl_connect_ready: "cl_ready c bs \<Longrightarrow> cl_connect c = (Inr (), c)"
  by (simp add: cl_ready_def cl_connect_def)

lemma cl_recvLong_ready:
  assumes "cl_ready c (be32 w @ rest)"
  shows "\<exists>c'. cl_recvLong c = (Inr w, c') \<and> cl_ready c' rest \<and> cl_out c' = cl_out c"
  using recvFromServer_ready[OF assms, of 4] by (auto simp: cl_recvLong_def sm_bind_def sm_simps)

lemma checkRecvErrorCode_ready:
  assumes "cl_ready c (be32 0 @ rest)"
  shows "\<exists>c'. checkRecvErrorCode c = (Inr (), c') \<and> cl_ready c' rest \<and> cl_out c' = cl_out c"
  using cl_recvLong_ready[OF assms] by (auto simp: checkRecvErrorCode_def sm_bind_def sm_simps)

lemma cl_recvLongArray_ready:
  assumes "cl_ready c (be32s xs @ rest)" "\<forall>x\<in>set xs. is_int32 x"
  shows "\<exists>c'. cl_recvLongArray (length xs) c = (Inr xs, c') \<and> cl_ready c' rest \<and> cl_out c' = cl_out c"
  using recvFromServer_ready[OF assms(1), of "4 * length xs"] assms(2)
  by (auto simp: cl_recvLongArray_def sm_bind_def sm_simps un_be32s_be32s)

lemma int_of_u32_of_nat: "n < 2 ^ 31 \<Longrightarrow> int_of_u32 (of_nat n) = int n"
  using int_of_u32_of_int[of "int n"] by (simp add: is_int32_def u32_of_int_def)

lemma cl_recvLongVector_ready:
  assumes "cl_ready c (be32 (of_nat (length xs)) @ be32s xs @ rest)" "\<forall>x\<in>set xs. is_int32 x"
    "length xs < 2 ^ 31"
  shows "\<exists>c'. cl_recvLongVector c = (Inr xs, c') \<and> cl_ready c' rest \<and> cl_out c' = cl_out c"
proof -
  obtain c1 where c1: "cl_recvLong c = (Inr (of_nat (length xs)), c1)"
      "cl_ready c1 (be32s xs @ rest)" "cl_out c1 = cl_out c"
    using cl_recvLong_ready[OF assms(1)] by blast
  with cl_recvLongArray_ready[OF c1(2) assms(2)] assms(3) show ?thesis
    by (auto simp: cl_recvLongVector_def sm_bind_def sm_simps int_of_u32_of_nat)
qed

lemma cl_recv_pair_ready:
  assumes "cl_ready c (be32 (u32_of_int a) @ be32 (u32_of_int b) @ rest)" "is_int32 a" "is_int32 b"
  shows "\<exists>c'. cl_recv_pair c = (Inr (a, b), c') \<and> cl_ready c' rest \<and> cl_out c' = cl_out c"
proof -
  obtain c1 where c1: "cl_recvLong c = (Inr (u32_of_int a), c1)"
      "cl_ready c1 (be32 (u32_of_int b) @ rest)" "cl_out c1 = cl_out c"
    using cl_recvLong_ready[OF assms(1)] by blast
  with cl_recvLong_ready[OF c1(2)] assms(2,3) show ?thesis
    by (auto simp: cl_recv_pair_def sm_bind_def sm_simps)
qed

lemma send_oids_ready:
  assumes "cl_ready c bs" "\<forall>h\<in>set hs. \<not> oid_isNull h"
  shows "sm_for hs cl_sendOid c = (Inr (), c\<lparr>cl_out := cl_out c @ concat hs\<rparr>)"
  using assms
proof (induction hs arbitrary: c)
  case Nil
  then show ?case by (simp add: sm_simps)
next
  case (Cons h hs)
  then have "cl_sendOid h c = (Inr (), c\<lparr>cl_out := cl_out c @ h\<rparr>)"
    by (simp add: cl_sendOid_def sm_bind_def sm_simps sendToServer_ready)
  with Cons show ?case by (simp add: sm_bind_def)
qed

lemma recv_pairs_ready:
  assumes "cl_ready c (be32_pairs ps @ rest)"
    and "\<forall>p\<in>set ps. is_int32 (fst p) \<and> is_int32 (snd p)"
  shows "\<exists>c'. sm_repeat (length ps) cl_recv_pair c = (Inr ps, c') \<and> cl_ready c' rest \<and> cl_out c' = cl_out c"
  using assms
proof (induction ps arbitrary: c)
  case Nil
  then show ?case by (simp add: sm_simps)
next
  case (Cons p ps)
  from Cons.prems obtain c1 where c1: "cl_recv_pair c = (Inr (fst p, snd p), c1)"
      "cl_ready c1 (be32_pairs ps @ rest)"
      "cl_out c1 = cl_out c"
    using cl_recv_pair_ready[of c "fst p" "snd p"] by auto
  obtain c2 where "sm_repeat (length ps) cl_recv_pair c1 = (Inr ps, c2)" "cl_ready c2 rest"
      "cl_out c2 = cl_out c1"
    using Cons.IH[OF c1(2)] Cons.prems(2) by auto
  with c1 show ?case by (simp add: sm_bind_def sm_simps)
qed

end
