(* ===== verification/ClientServer.thy ===== *)
theory ClientServer
  imports Client
begin

text \<open>
  The protocol end to end: what the server answers to a client's request, read by the client.
  Sessions: the loop of commands on one connection ends, whatever the client sends.
\<close>

section \<open>The server's side of a request\<close>

definition srv_ready :: "server_conn \<Rightarrow> byte list \<Rightarrow> byte list \<Rightarrow> bool" where
  "srv_ready s bs buf \<longleftrightarrow> \<not> m_closeConnection s \<and> stream_bytes (srv_in s) = bs \<and> m_outputBuffer s = buf"

lemma recvFromClient_ready:
  assumes "srv_ready s (bs @ rest) buf" "length bs = n"
  shows "\<exists>s'. recvFromClient n s = (Inr bs, s') \<and> srv_ready s' rest buf \<and> srv_out s' = srv_out s"
  using recvFromClient_enough[of s bs rest n] assms by (auto simp: srv_ready_def)

lemma srv_recvLong_ready:
  assumes "srv_ready s (be32 w @ rest) buf"
  shows "\<exists>s'. srv_recvLong s = (Inr w, s') \<and> srv_ready s' rest buf \<and> srv_out s' = srv_out s"
  using recvFromClient_ready[OF assms, of 4] by (auto simp: srv_recvLong_def sm_bind_def sm_simps)

lemma srv_recvOid_ready:
  assumes "srv_ready s (h @ rest) buf" "oid_ok h"
  shows "\<exists>s'. srv_recvOid s = (Inr h, s') \<and> srv_ready s' rest buf \<and> srv_out s' = srv_out s"
  using recvFromClient_ready[OF assms(1), of oid_size] assms(2)
  by (auto simp: srv_recvOid_def sm_bind_def sm_simps oid_ok_def oid_of_raw_def)

lemma srv_recvLongVector_ready:
  assumes "srv_ready s (be32 (of_nat (length xs)) @ be32s xs @ rest) buf"
    "\<forall>x\<in>set xs. is_int32 x" "length xs < 2 ^ 30"
  shows "\<exists>s'. srv_recvLongVector s = (Inr xs, s') \<and> srv_ready s' rest buf \<and> srv_out s' = srv_out s"
proof -
  obtain s1 where s1: "srv_recvLong s = (Inr (of_nat (length xs)), s1)"
      "srv_ready s1 (be32s xs @ rest) buf" "srv_out s1 = srv_out s"
    using srv_recvLong_ready[OF assms(1)] by blast
  have "(of_nat (length xs) :: u32) * 4 = of_nat (4 * length xs)" by simp
  then have "unat ((of_nat (length xs) :: u32) * 4) = 4 * length xs"
    using assms(3) by (simp only: unat_of_nat) (simp add: take_bit_nat_eq_self flip: take_bit_eq_mod)
  moreover have "unat (of_nat (length xs) :: u32) = length xs"
    using assms(3) by (simp add: unat_of_nat take_bit_nat_eq_self flip: take_bit_eq_mod)
  ultimately show ?thesis
    using s1 recvFromClient_ready[OF s1(2), of "4 * length xs"] assms(2)
    by (auto simp: srv_recvLongVector_def sm_bind_def sm_simps un_be32s_be32s)
qed

lemma sendToClient_ready:
  "srv_ready s bs buf \<Longrightarrow> \<exists>s'. sendToClient out s = (Inr (), s') \<and> srv_ready s' bs (buf @ out) \<and> srv_out s' = srv_out s"
  by (simp add: sendToClient_def sm_simps srv_ready_def)

lemma srv_send_ready:
  assumes "srv_ready s bs buf"
  shows "\<exists>s'. srv_sendLong x s = (Inr (), s') \<and> srv_ready s' bs (buf @ be32 x) \<and> srv_out s' = srv_out s"
    and "\<exists>s'. srv_sendLongArray xs s = (Inr (), s') \<and> srv_ready s' bs (buf @ be32s xs) \<and> srv_out s' = srv_out s"
    and "\<exists>s'. srv_sendLongVector xs s = (Inr (), s')
      \<and> srv_ready s' bs (buf @ be32 (of_nat (length xs)) @ be32s xs) \<and> srv_out s' = srv_out s"
  using assms
  by (simp_all add: srv_sendLong_def srv_sendLongArray_def srv_sendLongVector_def sendToClient_def
      sm_bind_def sm_simps srv_ready_def)

text \<open>A handler that reads its request and buffers its answer, run by \<open>commandHandler\<close>.\<close>

lemma commandHandler_ready:
  assumes "srv_ready s (be32 cmd @ req @ rest) []" "known_command cmd" "cmd \<noteq> CMD_EXIT"
    and "\<And>s1. srv_ready s1 (req @ rest) [] \<Longrightarrow>
      \<exists>s2. handle_command db fid cmd s1 = (Inr (), s2) \<and> srv_ready s2 rest ans \<and> srv_out s2 = srv_out s1"
  shows "\<exists>s'. commandHandler db fid s = (Inr (), s') \<and> srv_ready s' rest []
    \<and> srv_out s' = srv_out s @ be32 0 @ ans"
proof -
  obtain s1 where s1: "srv_recvLong s = (Inr cmd, s1)" "srv_ready s1 (req @ rest) []"
      "srv_out s1 = srv_out s"
    using srv_recvLong_ready[OF assms(1)] by blast
  obtain s2 where s2: "handle_command db fid cmd s1 = (Inr (), s2)" "srv_ready s2 rest ans"
      "srv_out s2 = srv_out s1"
    using assms(4)[OF s1(2)] by blast
  show ?thesis
    using s1 s2 assms(2,3)
    by (simp add: commandHandler_def read_command_def run_command_def sm_catch_def sm_bind_def sm_simps flushToClient_def
        writeToClient_def srv_ready_def)
qed

text \<open>The bytes a request consists of.\<close>

definition req_min_ids :: "int list \<Rightarrow> byte list" where
  "req_min_ids ids = be32 CMD_GET_MIN_IDS @ be32 (of_nat (length ids)) @ be32s ids"

definition req_first_ids :: "git_oid list \<Rightarrow> byte list" where
  "req_first_ids hs = be32 CMD_GET_FIRST_ID_MULTI @ be32 (of_nat (length hs)) @ concat hs"

definition req_involved :: "git_oid list \<Rightarrow> int list \<Rightarrow> byte list" where
  "req_involved hs ids = be32 CMD_INVOLVED_BY_MIN_IDS @ be32 (of_nat (length hs)) @ concat hs
     @ be32 (of_nat (length ids)) @ be32s ids"

lemma answer_min_ids:
  assumes s: "srv_ready s (req_min_ids ids @ rest) []"
    and ids: "\<forall>x\<in>set ids. is_int32 x" "length ids < 2 ^ 30"
    and mins: "srv_getMinIds db ids = Inr mins"
  shows "\<exists>s'. commandHandler db fid s = (Inr (), s') \<and> srv_ready s' rest []
    \<and> srv_out s' = srv_out s @ be32 0 @ be32s mins"
proof (rule commandHandler_ready[where req = "be32 (of_nat (length ids)) @ be32s ids" and cmd = CMD_GET_MIN_IDS])
  show "srv_ready s (be32 CMD_GET_MIN_IDS @ (be32 (of_nat (length ids)) @ be32s ids) @ rest) []"
    using s by (simp add: req_min_ids_def)
  show "known_command CMD_GET_MIN_IDS" "CMD_GET_MIN_IDS \<noteq> CMD_EXIT"
    by (simp_all add: known_command_def commands)
  fix s1 assume "srv_ready s1 ((be32 (of_nat (length ids)) @ be32s ids) @ rest) []"
  then obtain s2 where s2: "srv_recvLongVector s1 = (Inr ids, s2)" "srv_ready s2 rest []"
      "srv_out s2 = srv_out s1"
    using srv_recvLongVector_ready[OF _ ids, of s1 rest "[]"] by auto
  then show "\<exists>s2. handle_command db fid CMD_GET_MIN_IDS s1 = (Inr (), s2) \<and> srv_ready s2 rest (be32s mins)
      \<and> srv_out s2 = srv_out s1"
    using srv_send_ready(2)[OF s2(2), of mins] mins
    by (auto simp: handle_command_def commands handleGetMinIds_def sm_bind_def sm_simps)
qed

lemma srv_recvOids_ready:
  assumes "srv_ready s (concat hs @ rest) buf" "\<forall>h\<in>set hs. oid_ok h"
  shows "\<exists>s'. sm_repeat (length hs) srv_recvOid s = (Inr hs, s') \<and> srv_ready s' rest buf
    \<and> srv_out s' = srv_out s"
  using assms
proof (induction hs arbitrary: s)
  case Nil
  then show ?case by (simp add: sm_simps)
next
  case (Cons h hs)
  obtain s1 where s1: "srv_recvOid s = (Inr h, s1)" "srv_ready s1 (concat hs @ rest) buf"
      "srv_out s1 = srv_out s"
    using srv_recvOid_ready[of s h "concat hs @ rest" buf] Cons.prems by auto
  with Cons show ?case by (fastforce simp: sm_bind_def sm_simps)
qed

lemma unat_u32_of_nat: "n < 2 ^ 32 \<Longrightarrow> unat (of_nat n :: u32) = n"
  by (simp add: unat_of_nat take_bit_nat_eq_self flip: take_bit_eq_mod)

lemma answer_involved:
  assumes s: "srv_ready s (req_involved hs ids @ rest) []"
    and hs: "\<forall>h\<in>set hs. oid_ok h" "length hs < 2 ^ 32"
    and ids: "\<forall>x\<in>set ids. is_int32 x" "length ids < 2 ^ 30"
    and mins: "srv_getMinIds db ids = Inr mins"
    and res: "involved_from db fid (sort mins) 0 hs = Inr res"
  shows "\<exists>s'. commandHandler db fid s = (Inr (), s') \<and> srv_ready s' rest []
    \<and> srv_out s' = srv_out s @ be32 0 @ be32 (of_nat (length res)) @ be32s res"
proof (rule commandHandler_ready[where cmd = CMD_INVOLVED_BY_MIN_IDS and
      req = "be32 (of_nat (length hs)) @ concat hs @ be32 (of_nat (length ids)) @ be32s ids"])
  let ?req = "be32 (of_nat (length hs)) @ concat hs @ be32 (of_nat (length ids)) @ be32s ids"
  show "srv_ready s (be32 CMD_INVOLVED_BY_MIN_IDS @ ?req @ rest) []"
    using s by (simp add: req_involved_def)
  show "known_command CMD_INVOLVED_BY_MIN_IDS" "CMD_INVOLVED_BY_MIN_IDS \<noteq> CMD_EXIT"
    by (simp_all add: known_command_def commands)
  fix s1 assume "srv_ready s1 (?req @ rest) []"
  then obtain s2 where s2: "srv_recvLong s1 = (Inr (of_nat (length hs)), s2)"
      "srv_ready s2 (concat hs @ be32 (of_nat (length ids)) @ be32s ids @ rest) []"
      "srv_out s2 = srv_out s1"
    using srv_recvLong_ready[of s1 "of_nat (length hs)"] by force
  obtain s3 where s3: "sm_repeat (length hs) srv_recvOid s2 = (Inr hs, s3)"
      "srv_ready s3 (be32 (of_nat (length ids)) @ be32s ids @ rest) []" "srv_out s3 = srv_out s2"
    using srv_recvOids_ready[OF s2(2) hs(1)] by blast
  obtain s4 where s4: "srv_recvLongVector s3 = (Inr ids, s4)" "srv_ready s4 rest []"
      "srv_out s4 = srv_out s3"
    using srv_recvLongVector_ready[OF s3(2) ids] by blast
  show "\<exists>s2. handle_command db fid CMD_INVOLVED_BY_MIN_IDS s1 = (Inr (), s2)
      \<and> srv_ready s2 rest (be32 (of_nat (length res)) @ be32s res) \<and> srv_out s2 = srv_out s1"
    using srv_send_ready(3)[OF s4(2), of res] s2 s3 s4 mins res hs(2)
    by (auto simp: handle_command_def commands handleInvolvedByMinIds_def sm_bind_def sm_simps
        unat_u32_of_nat)
qed

lemma first_ids_loop:
  assumes "srv_ready s (concat hs @ rest) buf" "\<forall>h\<in>set hs. oid_ok h"
    and "\<forall>h\<in>set hs. \<exists>p. fid h = Inr p"
  shows "\<exists>s' us. sm_repeat (length hs) (handleGetFirstId fid) s = (Inr us, s')
    \<and> srv_ready s' rest (buf @ be32_pairs (map (\<lambda>h. projr (fid h)) hs))
    \<and> srv_out s' = srv_out s"
  using assms
proof (induction hs arbitrary: s buf)
  case Nil
  then show ?case by (simp add: sm_simps)
next
  case (Cons h hs)
  obtain s1 where s1: "srv_recvOid s = (Inr h, s1)" "srv_ready s1 (concat hs @ rest) buf"
      "srv_out s1 = srv_out s"
    using srv_recvOid_ready[of s h "concat hs @ rest" buf] Cons.prems by auto
  obtain a b where p: "fid h = Inr (a, b)" using Cons.prems(3) by force
  let ?out = "be32 (u32_of_int a) @ be32 (u32_of_int b)"
  obtain s2 where s2: "handleGetFirstId fid s = (Inr (), s2)"
      "srv_ready s2 (concat hs @ rest) (buf @ ?out)" "srv_out s2 = srv_out s"
    using s1 p by (auto simp: handleGetFirstId_def sm_bind_def sm_simps srv_sendLong_def
        sendToClient_def srv_ready_def)
  obtain s3 us where "sm_repeat (length hs) (handleGetFirstId fid) s2 = (Inr us, s3)"
      "srv_ready s3 rest ((buf @ ?out) @ be32_pairs (map (\<lambda>h. projr (fid h)) hs))" "srv_out s3 = srv_out s2"
    using Cons.IH[OF s2(2)] Cons.prems by auto
  then show ?case using s2 p by (auto simp: sm_bind_def sm_simps)
qed

lemma answer_first_ids:
  assumes s: "srv_ready s (req_first_ids hs @ rest) []"
    and hs: "\<forall>h\<in>set hs. oid_ok h" "length hs < 2 ^ 32" and fid: "\<forall>h\<in>set hs. \<exists>p. fid h = Inr p"
  shows "\<exists>s'. commandHandler db fid s = (Inr (), s') \<and> srv_ready s' rest []
    \<and> srv_out s' = srv_out s @ be32 0 @ be32_pairs (map (\<lambda>h. projr (fid h)) hs)"
proof (rule commandHandler_ready[where cmd = CMD_GET_FIRST_ID_MULTI and
      req = "be32 (of_nat (length hs)) @ concat hs"])
  show "srv_ready s (be32 CMD_GET_FIRST_ID_MULTI @ (be32 (of_nat (length hs)) @ concat hs) @ rest) []"
    using s by (simp add: req_first_ids_def)
  show "known_command CMD_GET_FIRST_ID_MULTI" "CMD_GET_FIRST_ID_MULTI \<noteq> CMD_EXIT"
    by (simp_all add: known_command_def commands)
  fix s1 assume "srv_ready s1 ((be32 (of_nat (length hs)) @ concat hs) @ rest) []"
  then obtain s2 where s2: "srv_recvLong s1 = (Inr (of_nat (length hs)), s2)"
      "srv_ready s2 (concat hs @ rest) []" "srv_out s2 = srv_out s1"
    using srv_recvLong_ready[of s1 "of_nat (length hs)"] by force
  obtain s3 us where s3: "sm_repeat (length hs) (handleGetFirstId fid) s2 = (Inr us, s3)"
    "srv_ready s3 rest ([] @ be32_pairs (map (\<lambda>h. projr (fid h)) hs))" "srv_out s3 = srv_out s2"
    using first_ids_loop[OF s2(2) hs(1) fid] by blast
  then show "\<exists>s2. handle_command db fid CMD_GET_FIRST_ID_MULTI s1 = (Inr (), s2)
      \<and> srv_ready s2 rest (be32_pairs (map (\<lambda>h. projr (fid h)) hs)) \<and> srv_out s2 = srv_out s1"
    using s2 hs(2)
    by (auto simp: handle_command_def commands handleGetFirstIdMulti_def sm_bind_def sm_simps
        unat_u32_of_nat)
qed

section \<open>The requests end to end\<close>

lemma cl_sendLong_ready: "cl_ready c bs \<Longrightarrow> cl_sendLong x c = (Inr (), c\<lparr>cl_out := cl_out c @ be32 x\<rparr>)"
  by (simp add: cl_sendLong_def sendToServer_ready)

lemma cl_sendLongVector_ready:
  "cl_ready c bs \<Longrightarrow> cl_sendLongVector xs c
    = (Inr (), c\<lparr>cl_out := cl_out c @ be32 (of_nat (length xs)) @ be32s xs\<rparr>)"
  by (simp add: cl_sendLongVector_def sm_bind_def cl_sendLong_ready sendToServer_ready)

lemma client_min_ids:
  assumes c: "cl_ready c (be32 0 @ be32s mins)" and "length mins = length ids" "\<forall>x\<in>set mins. is_int32 x"
  shows "\<exists>c'. cl_getMinIds ids c = (Inr mins, c') \<and> cl_out c' = cl_out c @ req_min_ids ids"
proof -
  let ?c = "c\<lparr>cl_out := cl_out c @ req_min_ids ids\<rparr>"
  obtain c1 where c1: "checkRecvErrorCode ?c = (Inr (), c1)" "cl_ready c1 (be32s mins @ [])"
      "cl_out c1 = cl_out ?c"
    using checkRecvErrorCode_ready[of ?c "be32s mins"] c by auto
  obtain c2 where "cl_recvLongArray (length ids) c1 = (Inr mins, c2)" "cl_out c2 = cl_out c1"
    using cl_recvLongArray_ready[OF c1(2) assms(3)] assms(2) by auto
  then show ?thesis
    using c c1 by (simp add: cl_getMinIds_def sm_bind_def cl_connect_ready[OF c] cl_sendLong_ready[OF c]
        cl_sendLongVector_ready req_min_ids_def)
qed

lemma client_first_ids:
  assumes c: "cl_ready c (be32 0 @ be32_pairs ps)" and "length ps = length hs"
    and "\<forall>p\<in>set ps. is_int32 (fst p) \<and> is_int32 (snd p)" "\<forall>h\<in>set hs. \<not> oid_isNull h"
  shows "\<exists>c'. getFirstIdPairs hs c = (Inr ps, c') \<and> cl_out c' = cl_out c @ req_first_ids hs"
proof -
  let ?c = "c\<lparr>cl_out := cl_out c @ req_first_ids hs\<rparr>"
  obtain c1 where c1: "checkRecvErrorCode ?c = (Inr (), c1)" "cl_ready c1 (be32_pairs ps @ [])"
      "cl_out c1 = cl_out ?c"
    using checkRecvErrorCode_ready[of ?c "be32_pairs ps"] c by auto
  obtain c2 where "sm_repeat (length hs) cl_recv_pair c1 = (Inr ps, c2)" "cl_out c2 = cl_out c1"
    using recv_pairs_ready[OF c1(2) assms(3)] assms(2) by auto
  then show ?thesis
    using c c1 assms(4) by (simp add: getFirstIdPairs_def if_connected_def sm_bind_def
        cl_connect_ready[OF c] cl_sendLong_ready send_oids_ready req_first_ids_def)
qed

lemma client_involved:
  assumes c: "cl_ready c (be32 0 @ be32 (of_nat (length res)) @ be32s res)"
    and "length res < 2 ^ 31" "\<forall>x\<in>set res. is_int32 x" "\<forall>h\<in>set hs. \<not> oid_isNull h"
  shows "\<exists>c'. involvedByMinIds hs ids c = (Inr res, c') \<and> cl_out c' = cl_out c @ req_involved hs ids"
proof -
  let ?c = "c\<lparr>cl_out := cl_out c @ req_involved hs ids\<rparr>"
  obtain c1 where c1: "checkRecvErrorCode ?c = (Inr (), c1)"
      "cl_ready c1 (be32 (of_nat (length res)) @ be32s res @ [])" "cl_out c1 = cl_out ?c"
    using checkRecvErrorCode_ready[of ?c "be32 (of_nat (length res)) @ be32s res"] c by auto
  obtain c2 where "cl_recvLongVector c1 = (Inr res, c2)" "cl_out c2 = cl_out c1"
    using cl_recvLongVector_ready[OF c1(2) assms(3,2)] by auto
  then show ?thesis
    using c c1 assms(4) by (simp add: involvedByMinIds_def sm_bind_def cl_connect_ready[OF c]
        cl_sendLong_ready send_oids_ready cl_sendLongVector_ready req_involved_def)
qed

text \<open>What the server finds for the IDs and the files.\<close>

lemma srv_getMinIds_eq:
  assumes "\<And>i. i \<in> set ids \<Longrightarrow> getPlainMinId db i = Inr (f i)"
  shows "srv_getMinIds db ids = Inr (map f ids)"
  unfolding srv_getMinIds_def by (rule rmap_Inr_map) (rule assms)

lemma set_intersection_empty:
  assumes "sorted xs" "sorted ys"
  shows "set_intersection xs ys = [] \<longleftrightarrow> set xs \<inter> set ys = {}"
  using assms by (induction xs ys rule: set_intersection.induct) auto

text \<open>The minimum IDs of the messages of a file.\<close>

definition file_min_ids :: "(int \<Rightarrow> int) \<Rightarrow> int \<times> int \<Rightarrow> int set" where
  "file_min_ids f p = f ` {fst p ..< fst p + snd p}"

definition file_known :: "first_ids \<Rightarrow> git_oid \<Rightarrow> bool" where
  "file_known fid h \<longleftrightarrow> (\<exists>p. fid h = Inr p \<and> fst p \<noteq> 0 \<and> 0 \<le> snd p)"

lemma getTphashMinIds_set:
  assumes "fid h = Inr (a, n)" "a \<noteq> 0" "0 \<le> n"
    and "\<And>i. a \<le> i \<Longrightarrow> i < a + n \<Longrightarrow> getPlainMinId db i = Inr (f i)"
  shows "\<exists>xs. getTphashMinIds db fid h = Inr xs \<and> set xs = file_min_ids f (a, n)"
proof -
  have "rmap (\<lambda>i. getPlainMinId db (a + i)) [0..n - 1] = Inr (map (\<lambda>i. f (a + i)) [0..n - 1])"
    by (rule rmap_Inr_map) (use assms(4) in auto)
  moreover have "set (map (\<lambda>i. f (a + i)) [0..n - 1]) = file_min_ids f (a, n)"
  proof -
    have "(\<lambda>i. a + i) ` {0..n - 1} = {a..<a + n}"
    proof (intro equalityI subsetI)
      fix j assume "j \<in> {a..<a + n}"
      then have "j = a + (j - a)" "j - a \<in> {0..n - 1}" by auto
      then show "j \<in> (\<lambda>i. a + i) ` {0..n - 1}" by (rule image_eqI)
    qed auto
    moreover have "set (map (\<lambda>i. f (a + i)) [0..n - 1]) = f ` ((\<lambda>i. a + i) ` {0..n - 1})"
      by (simp only: set_map set_upto image_image)
    ultimately show ?thesis by (simp only: file_min_ids_def fst_conv snd_conv)
  qed
  ultimately show ?thesis using assms(1-3) by (simp add: getTphashMinIds_def)
qed

lemma involved_from_eq:
  assumes "\<forall>h\<in>set hs. file_known fid h"
    and "\<And>h p i. h \<in> set hs \<Longrightarrow> fid h = Inr p \<Longrightarrow> fst p \<le> i \<Longrightarrow> i < fst p + snd p \<Longrightarrow>
      getPlainMinId db i = Inr (f i)"
    and "sorted ms"
  shows "involved_from db fid ms k hs = Inr (map (\<lambda>i. k + int i)
    (filter (\<lambda>i. set ms \<inter> file_min_ids f (projr (fid (hs ! i))) \<noteq> {}) [0..<length hs]))"
  using assms(1,2)
proof (induction hs arbitrary: k)
  case Nil
  then show ?case by simp
next
  case (Cons h hs)
  obtain a n where p: "fid h = Inr (a, n)" "a \<noteq> 0" "0 \<le> n"
    using Cons.prems(1) by (auto simp: file_known_def)
  obtain xs where xs: "getTphashMinIds db fid h = Inr xs" "set xs = file_min_ids f (a, n)"
    using getTphashMinIds_set[of fid h a n db f] p Cons.prems(2)[of h "(a, n)"] p(1) by auto
  have "set_intersection ms (sort xs) \<noteq> [] \<longleftrightarrow> set ms \<inter> file_min_ids f (a, n) \<noteq> {}"
    using set_intersection_empty[of ms "sort xs"] assms(3) xs(2) by simp
  moreover have "[0..<length (h # hs)] = 0 # map Suc [0..<length hs]"
    by (simp add: upt_conv_Cons map_Suc_upt del: upt_Suc)
  moreover have "involved_from db fid ms (k + 1) hs = Inr (map (\<lambda>i. k + 1 + int i)
    (filter (\<lambda>i. set ms \<inter> file_min_ids f (projr (fid (hs ! i))) \<noteq> {}) [0..<length hs]))"
  proof (rule Cons.IH)
    show "\<forall>h\<in>set hs. file_known fid h" using Cons.prems(1) by simp
    fix h' p i assume "h' \<in> set hs" "fid h' = Inr p" "fst p \<le> i" "i < fst p + snd p"
    then show "getPlainMinId db i = Inr (f i)" by (intro Cons.prems(2)[of h' p i]) auto
  qed
  ultimately show ?case
    using xs(1) p(1) by (simp add: filter_map comp_def algebra_simps del: upt_Suc)
qed

section \<open>Sessions\<close>

fun event_size :: "sock_event \<Rightarrow> nat" where
  "event_size (Chunk bs) = length bs"
| "event_size RecvError = 0"

definition pending :: "server_conn \<Rightarrow> nat" where
  "pending s = sum_list (map event_size (srv_in s))"

text \<open>
  No operation reopens the connection, takes back output or invents input.
\<close>

definition srv_grows :: "server_conn \<Rightarrow> server_conn \<Rightarrow> bool" where
  "srv_grows s t \<longleftrightarrow> pending t \<le> pending s \<and> (m_closeConnection s \<longrightarrow> m_closeConnection t)
     \<and> (\<exists>out. srv_out t = srv_out s @ out)"

lemma srv_grows_refl: "reflp srv_grows"
  by (simp add: reflp_def srv_grows_def)

lemma srv_grows_trans: "transp srv_grows"
  by (auto simp: transp_def srv_grows_def)

lemma sock_recv_size:
  "sock_recv evs n = (Inr bs, evs') \<Longrightarrow>
    sum_list (map event_size evs) = length bs + sum_list (map event_size evs') \<and> length bs \<le> n"
  by (cases evs rule: stream_bytes.cases) (auto split: if_splits)

lemma sock_recv_size_error:
  "sock_recv evs n = (Inl e, evs') \<Longrightarrow> sum_list (map event_size evs') \<le> sum_list (map event_size evs)"
  by (cases evs rule: stream_bytes.cases) (auto split: if_splits)

lemma recv_loop_size:
  "recv_loop n s = (r, t) \<Longrightarrow> srv_grows s t \<and> (r = Inr bs \<longrightarrow> pending s = pending t + n)"
proof (induction n arbitrary: s r t bs rule: less_induct)
  case (less n)
  show ?case
  proof (cases "n = 0")
    case True
    with less.prems show ?thesis by (subst (asm) recv_loop.simps) (auto simp: srv_grows_def)
  next
    case False
    obtain x evs where x: "sock_recv (srv_in s) n = (x, evs)" by (cases "sock_recv (srv_in s) n")
    show ?thesis
    proof (cases x)
      case (Inl e)
      with x False less.prems have "r = Inl e" "t = s\<lparr>srv_in := evs, m_closeConnection := True\<rparr>"
        by (subst (asm) recv_loop.simps, simp)+
      with x Inl show ?thesis using sock_recv_size_error[of "srv_in s" n e evs]
        by (simp add: srv_grows_def pending_def)
    next
      case (Inr ch)
      note sz = sock_recv_size[of "srv_in s" n ch evs]
      show ?thesis
      proof (cases "ch = []")
        case True
        with x Inr False less.prems have "r = Inl Hang" "t = s"
          by (subst (asm) recv_loop.simps, simp)+
        then show ?thesis by (simp add: srv_grows_def)
      next
        case ne: False
        let ?s = "s\<lparr>srv_in := evs\<rparr>" and ?m = "n - length ch"
        obtain y t' where y: "recv_loop ?m ?s = (y, t')" by (cases "recv_loop ?m ?s")
        have "?m < n" using False ne by (cases ch) auto
        from less.IH[OF this y] have ih: "srv_grows ?s t'" "\<And>bs. y = Inr bs \<Longrightarrow> pending ?s = pending t' + ?m"
          by auto
        have st: "r = (case y of Inr rest \<Rightarrow> Inr (ch @ rest) | Inl e \<Rightarrow> Inl e)" "t = t'"
          using x Inr False ne less.prems y
          by (subst (asm) recv_loop.simps, auto split: sum.splits)+
        have "pending s = length ch + pending ?s" "length ch \<le> n"
          using sz x Inr by (simp_all add: pending_def)
        moreover have "srv_grows s t" using ih(1) \<open>pending s = _\<close> st(2) by (simp add: srv_grows_def)
        ultimately show ?thesis using ih(2) st by (auto split: sum.splits)
      qed
    qed
  qed
qed

lemma keeps_recv: "sm_keeps srv_grows (recvFromClient n)"
proof -
  have "sm_keeps srv_grows (recv_loop n)"
    unfolding sm_keeps_def using recv_loop_size by (metis prod.collapse)
  then show ?thesis unfolding recvFromClient_def
    by (auto intro!: sm_keeps_intros srv_grows_refl srv_grows_trans)
qed

lemma keeps_basic:
  "sm_keeps srv_grows srv_disconnect" "sm_keeps srv_grows (sendToClient bs)"
  "sm_keeps srv_grows (writeToClient bs)"
proof -
  have upd: "sm_keeps srv_grows (sm_update (\<lambda>c. c\<lparr>srv_out := srv_out c @ bs\<rparr>))"
    by (simp add: sm_keeps_def sm_simps srv_grows_def pending_def)
  show "sm_keeps srv_grows srv_disconnect" "sm_keeps srv_grows (sendToClient bs)"
    by (simp_all add: sm_keeps_def srv_disconnect_def sendToClient_def sm_simps srv_grows_def pending_def)
  show "sm_keeps srv_grows (writeToClient bs)"
    unfolding writeToClient_def by (intro sm_keeps_intros srv_grows_refl srv_grows_trans upd)
qed

lemma keeps_clear: "sm_keeps srv_grows (sm_update (\<lambda>c. c\<lparr>m_outputBuffer := []\<rparr>))"
  by (simp add: sm_keeps_def sm_simps srv_grows_def pending_def)

lemmas keeps_srv = sm_keeps_intros srv_grows_refl srv_grows_trans keeps_recv keeps_basic keeps_clear

lemma keeps_values:
  "sm_keeps srv_grows srv_recvLong" "sm_keeps srv_grows srv_recvOid"
  "sm_keeps srv_grows srv_recvLongVector" "sm_keeps srv_grows (srv_sendLong x)"
  "sm_keeps srv_grows (srv_sendLongArray xs)" "sm_keeps srv_grows (srv_sendLongVector xs)"
  "sm_keeps srv_grows flushToClient" "sm_keeps srv_grows (flushErrorToClient x)"
  unfolding srv_recvLong_def srv_recvOid_def srv_recvLongVector_def srv_sendLong_def
    srv_sendLongArray_def srv_sendLongVector_def flushToClient_def flushErrorToClient_def
  by (auto intro!: keeps_srv)

lemma keeps_handlers: "sm_keeps srv_grows (handle_command db fid c)"
proof -
  have one: "sm_keeps srv_grows (handleGetFirstId fid)"
    unfolding handleGetFirstId_def by (auto intro!: keeps_srv keeps_values)
  show ?thesis
    unfolding handle_command_def handleGetMinIdArray_def handleGetMinIds_def
      handleGetFirstIdMulti_def handleInvolvedByMinIds_def
    by (auto intro!: keeps_srv keeps_values one)
qed

lemma keeps_fail_request: "sm_keeps srv_grows (fail_request x)"
  unfolding fail_request_def by (auto intro!: keeps_srv keeps_values)

lemma recvLong_size:
  "srv_recvLong s = (Inr w, t) \<Longrightarrow> pending s = pending t + 4"
  unfolding srv_recvLong_def
  by (erule sm_bind_cases) (auto simp: recvFromClient_def sm_bind_def sm_simps
      dest: recv_loop_size[THEN conjunct2, rule_format] split: if_splits)

lemma keeps_run_command: "sm_keeps srv_grows (run_command db fid c)"
  unfolding run_command_def
  by (auto intro!: keeps_srv keeps_values keeps_handlers keeps_fail_request)

lemma keeps_read_command: "sm_keeps srv_grows read_command"
  unfolding read_command_def by (intro keeps_srv keeps_values)

lemma commandHandler_grows: "sm_keeps srv_grows (commandHandler db fid)"
  unfolding commandHandler_def
  by (intro keeps_srv keeps_read_command) (auto intro!: keeps_srv keeps_run_command split: option.split)

text \<open>Every command closes the connection or consumes at least its four bytes.\<close>

lemma commandHandler_progress:
  assumes "commandHandler db fid s = (Inr (), t)" "\<not> m_closeConnection t"
  shows "pending t < pending s"
proof -
  obtain x s1 where x: "srv_recvLong s = (x, s1)" by (cases "srv_recvLong s")
  show ?thesis
  proof (cases x)
    case (Inr c)
    then have "read_command s = (Inr (Some c), s1)" using x
      by (simp add: read_command_def sm_catch_def sm_bind_def sm_simps)
    then have "run_command db fid c s1 = (Inr (), t)"
      using assms(1) by (simp add: commandHandler_def sm_bind_def)
    then have "srv_grows s1 t" using keeps_run_command by (metis sm_keeps_def snd_conv)
    moreover have "pending s = pending s1 + 4" using recvLong_size x Inr by blast
    ultimately show ?thesis by (simp add: srv_grows_def)
  next
    case (Inl e)
    have "(\<exists>y. read_command s = (Inl y, s1)) \<or> (\<exists>u. read_command s = (Inr None, u) \<and> m_closeConnection u)"
      using x Inl by (cases e) (simp_all add: read_command_def sm_catch_def sm_bind_def sm_simps srv_disconnect_def)
    then have False using assms by (auto simp: commandHandler_def sm_bind_def sm_simps)
    then show ?thesis ..
  qed
qed

text \<open>\<open>sessionOpened\<close>: the loop ends, whatever arrives.\<close>

function sessionOpened :: "mapped_file \<Rightarrow> first_ids \<Rightarrow> unit srv" where
  "sessionOpened db fid s =
     (if m_closeConnection s then (Inr (), s)
      else case commandHandler db fid s of
          (Inl e, t) \<Rightarrow> (Inl e, t)
        | (Inr _, t) \<Rightarrow> sessionOpened db fid t)"
  by pat_completeness auto
termination
  by (relation "measure (\<lambda>(db, fid, s). if m_closeConnection s then 0 else Suc (pending s))")
    (auto dest!: sym[of "(_, _)"] dest: commandHandler_progress)

declare sessionOpened.simps [simp del]

text \<open>One command as a step, and the connections a session goes through.\<close>

inductive session_step :: "mapped_file \<Rightarrow> first_ids \<Rightarrow> server_conn \<Rightarrow> server_conn \<Rightarrow> bool"
  for db fid where
  command: "\<not> m_closeConnection s \<Longrightarrow> commandHandler db fid s = (Inr (), t) \<Longrightarrow> session_step db fid s t"

inductive_cases session_stepE: "session_step db fid s t"

inductive_simps session_step_closed: "session_step db fid s t"

lemma session_steps_grow:
  "(session_step db fid)\<^sup>*\<^sup>* s t \<Longrightarrow> srv_grows s t"
proof (induction rule: rtranclp_induct)
  case base
  then show ?case using srv_grows_refl by (simp add: reflp_def)
next
  case (step t u)
  then have "srv_grows t u"
    using commandHandler_grows[of db fid] by (auto elim!: session_stepE simp: sm_keeps_def) (metis snd_conv)
  with step.IH show ?case using srv_grows_trans by (metis transpE)
qed

lemma sessionOpened_steps:
  "sessionOpened db fid s = (Inr u, t) \<Longrightarrow> (session_step db fid)\<^sup>*\<^sup>* s t \<and> m_closeConnection t"
proof (induction db fid s arbitrary: rule: sessionOpened.induct)
  case (1 db fid s)
  show ?case
  proof (cases "m_closeConnection s")
    case True
    with "1.prems" show ?thesis by (subst (asm) sessionOpened.simps) auto
  next
    case False
    obtain r s1 where h: "commandHandler db fid s = (r, s1)" by (cases "commandHandler db fid s")
    then obtain v where r: "r = Inr v"
      using "1.prems" False by (cases r) (subst (asm) sessionOpened.simps, auto)+
    have "sessionOpened db fid s1 = (Inr u, t)"
      using "1.prems" False h r by (subst (asm) sessionOpened.simps) auto
    then have "(session_step db fid)\<^sup>*\<^sup>* s1 t \<and> m_closeConnection t"
      using "1.IH"[OF False h[symmetric] r] by simp
    moreover have "session_step db fid s s1" using h r False by (auto intro: session_step.command)
    ultimately show ?thesis by (auto intro: converse_rtranclp_into_rtranclp)
  qed
qed

end
