(* ===== verification/Protocol.thy ===== *)
theory Protocol
  imports ClientServer IddiffMinimize
begin

text \<open>
  The properties of the client and the server together, and of the minimization of an iddiff's IDs
  on the server's database.
\<close>

lemma getPlainMinId_int32: "is_int32 i \<Longrightarrow> getPlainMinId db i = Inr m \<Longrightarrow> is_int32 m"
  by (auto simp: getPlainMinId_def res_simps getRowConst_int32 split: if_splits)

lemma min_ids_served:
  assumes "srv_ready s (req_min_ids ids @ rest) []"
    and "\<forall>x\<in>set ids. is_int32 x \<and> getPlainMinId db x = Inr (f x)" "length ids < 2 ^ 30"
  shows "\<exists>s' ans. commandHandler db fid s = (Inr (), s') \<and> srv_ready s' rest []
    \<and> srv_out s' = srv_out s @ ans
    \<and> (\<forall>c. cl_ready c ans \<longrightarrow>
        (\<exists>c'. cl_getMinIds ids c = (Inr (map f ids), c') \<and> cl_out c' = cl_out c @ req_min_ids ids))"
proof -
  have "srv_getMinIds db ids = Inr (map f ids)" by (rule srv_getMinIds_eq) (use assms(2) in auto)
  then obtain s' where "commandHandler db fid s = (Inr (), s')" "srv_ready s' rest []"
      "srv_out s' = srv_out s @ be32 0 @ be32s (map f ids)"
    using answer_min_ids[OF assms(1)] assms(2,3) by blast
  moreover have "\<forall>x\<in>set (map f ids). is_int32 x"
    using assms(2) getPlainMinId_int32 by auto
  ultimately show ?thesis
    using client_min_ids[of _ "map f ids" ids] by fastforce
qed

text \<open>C4. \<open>StupidsClient::getMinIds\<close> of a list of IDs returns, in the same order, the minimum IDs the
  server's database has for them, however the bytes are cut into chunks on the way.\<close>

theorem getMinIds_end_to_end:
  assumes "srv_ready s (req_min_ids ids @ rest) []"
    and "\<forall>x\<in>set ids. is_int32 x \<and> getPlainMinId db x = Inr (f x)" "length ids < 2 ^ 30"
  shows "\<exists>s' ans. commandHandler db fid s = (Inr (), s') \<and> srv_ready s' rest []
    \<and> srv_out s' = srv_out s @ ans
    \<and> (\<forall>c. cl_ready c ans \<longrightarrow>
        (\<exists>c'. cl_getMinIds ids c = (Inr (map f ids), c') \<and> cl_out c' = cl_out c @ req_min_ids ids))"
  using assms by (rule min_ids_served)

text \<open>A server whose input arrives byte by byte, and a client that reads what it answered.\<close>

definition in_bytes :: "byte list \<Rightarrow> server_conn" where
  "in_bytes bs = new_conn (map (\<lambda>b. Chunk [b]) bs)"

lemma srv_ready_in_bytes: "srv_ready (in_bytes bs) bs []"
proof -
  have "stream_bytes (map (\<lambda>b. Chunk [b]) bs) = bs" by (induction bs) auto
  then show ?thesis by (simp add: srv_ready_def in_bytes_def new_conn_def)
qed

lemma srv_out_in_bytes [simp]: "srv_out (in_bytes bs) = []"
  by (simp add: in_bytes_def new_conn_def)

definition reading :: "byte list \<Rightarrow> client" where
  "reading bs = \<lparr>m_sockfd = 3, cl_can_connect = True, cl_in = [bs], cl_writes = [], cl_out = []\<rparr>"

lemma cl_ready_reading: "cl_ready (reading bs) bs"
  by (simp add: cl_ready_def reading_def)

lemma plain_empty: "getPlainMinId empty_file i = Inr i"
  by (simp add: getPlainMinId_def getRowConst_def empty_file_def)

theorem getMinIds_end_to_end_witness:
  "\<exists>s' ans c'. commandHandler empty_file (\<lambda>_. Inr (0, 0)) (in_bytes (req_min_ids [130, 250])) = (Inr (), s')
    \<and> srv_out s' = ans \<and> cl_getMinIds [130, 250] (reading ans) = (Inr [130, 250], c')"
proof -
  let ?s = "in_bytes (req_min_ids [130, 250])"
  have r: "srv_ready ?s (req_min_ids [130, 250] @ []) []"
    using srv_ready_in_bytes by simp
  have h: "oid_ok (replicate 20 1)" "replicate 20 1 \<noteq> oid_zero"
    by (simp_all add: oid_ok_def oid_zero_def oid_size_def)
  obtain s' ans where s': "commandHandler empty_file (\<lambda>_. Inr (0, 0)) ?s = (Inr (), s')"
      "srv_out s' = srv_out ?s @ ans" and c: "\<forall>c. cl_ready c ans \<longrightarrow> (\<exists>c'. cl_getMinIds [130, 250] c = (Inr [130, 250], c'))"
    using getMinIds_end_to_end[OF r, of empty_file "\<lambda>i. i" "\<lambda>_. Inr (0, 0)"] h
    by (simp add: is_int32_def plain_empty) blast
  with cl_ready_reading[of ans] show ?thesis by auto
qed

text \<open>\<open>getFirstIdPairs\<close> returns the first ID and the number of IDs of every file asked for, as
  the server's database gives them.\<close>

theorem getFirstIdPairs_end_to_end:
  assumes "srv_ready s (req_first_ids hs @ rest) []" "length hs < 2 ^ 32"
    and "\<forall>h\<in>set hs. oid_ok h \<and> h \<noteq> oid_zero \<and> fid h = Inr (g h) \<and> is_int32 (fst (g h)) \<and> is_int32 (snd (g h))"
  shows "\<exists>s' ans. commandHandler db fid s = (Inr (), s') \<and> srv_ready s' rest []
    \<and> srv_out s' = srv_out s @ ans
    \<and> (\<forall>c. cl_ready c ans \<longrightarrow>
        (\<exists>c'. getFirstIdPairs hs c = (Inr (map g hs), c') \<and> cl_out c' = cl_out c @ req_first_ids hs))"
proof -
  have g: "map (\<lambda>h. projr (fid h)) hs = map g hs" using assms(3) by auto
  obtain s' where "commandHandler db fid s = (Inr (), s')" "srv_ready s' rest []"
      "srv_out s' = srv_out s @ be32 0 @ be32_pairs (map g hs)"
    using answer_first_ids[OF assms(1) _ assms(2), of fid db] assms(3) unfolding g by blast
  moreover have "\<forall>p\<in>set (map g hs). is_int32 (fst p) \<and> is_int32 (snd p)" "\<forall>h\<in>set hs. \<not> oid_isNull h"
    using assms(3) by (auto simp: oid_isNull_iff)
  ultimately show ?thesis
    using client_first_ids[of _ "map g hs" hs] by fastforce
qed

theorem getFirstIdPairs_end_to_end_witness:
  "\<exists>s' ans c'. commandHandler empty_file (\<lambda>_. Inr (100, 7)) (in_bytes (req_first_ids [replicate 20 1])) = (Inr (), s')
    \<and> srv_out s' = ans \<and> getFirstIdPairs [replicate 20 1] (reading ans) = (Inr [(100, 7)], c')"
proof -
  let ?s = "in_bytes (req_first_ids [replicate 20 1])"
  have r: "srv_ready ?s (req_first_ids [replicate 20 1] @ []) []"
    using srv_ready_in_bytes by simp
  have h: "oid_ok (replicate 20 1)" "replicate 20 1 \<noteq> oid_zero"
    by (simp_all add: oid_ok_def oid_zero_def oid_size_def)
  obtain s' ans where s': "commandHandler empty_file (\<lambda>_. Inr (100, 7)) ?s = (Inr (), s')"
      "srv_out s' = srv_out ?s @ ans" and c: "\<forall>c. cl_ready c ans \<longrightarrow> (\<exists>c'. getFirstIdPairs [replicate 20 1] c = (Inr [(100, 7)], c'))"
    using getFirstIdPairs_end_to_end[OF r, of "\<lambda>_. Inr (100, 7)" "\<lambda>_. (100, 7)" empty_file] h
    by (simp add: is_int32_def) blast
  with cl_ready_reading[of ans] show ?thesis by auto
qed




text \<open>A command code that is not known is answered with error code 1 and nothing else, and the
  connection is closed.\<close>

theorem unknown_command_answered:
  assumes "srv_ready s (be32 c @ rest) buf" "\<not> known_command c" "c \<noteq> CMD_EXIT"
  shows "\<exists>t. commandHandler db fid s = (Inr (), t) \<and> m_closeConnection t
    \<and> srv_out t = srv_out s @ be32 1 \<and> m_outputBuffer t = []"
proof -
  obtain s1 where "srv_recvLong s = (Inr c, s1)" "srv_ready s1 rest buf" "srv_out s1 = srv_out s"
    using srv_recvLong_ready[OF assms(1)] by blast
  with assms(2,3) show ?thesis
    by (simp add: commandHandler_def read_command_def run_command_def fail_request_def sm_catch_def
        sm_bind_def sm_simps flushErrorToClient_def writeToClient_def srv_disconnect_def srv_ready_def)
qed

theorem unknown_command_answered_witness:
  "\<exists>t. commandHandler empty_file (\<lambda>_. Inr (0, 0)) (in_bytes (be32 9)) = (Inr (), t)
    \<and> m_closeConnection t \<and> srv_out t = [0, 0, 0, 1]"
proof -
  have "srv_ready (in_bytes (be32 9)) (be32 9 @ []) []" using srv_ready_in_bytes by simp
  from unknown_command_answered[OF this, of empty_file "\<lambda>_. Inr (0, 0)"]
  show ?thesis by (auto simp: known_command_def commands in_bytes_def new_conn_def be32_def)
qed



text \<open>\<open>sendToServer\<close> is wrong when \<open>write\<close> is partial: it writes from the start of the buffer
  again, so the server is sent something else although the call returns normally.\<close>

theorem sendToServer_partial:
  assumes "m_sockfd c \<ge> 0" "cl_writes c = [int k, int (length bs - k)]" "0 < k" "k < length bs"
  shows "\<exists>c'. sendToServer bs c = (Inr (), c')
    \<and> cl_out c' = cl_out c @ take k bs @ take (length bs - k) bs"
proof -
  have "nat (int (length bs) - int k) = length bs - k" by arith
  with assms show ?thesis
    by (simp add: sendToServer_def sm_bind_def sm_simps cl_send_loop.simps Let_def)
qed

theorem sendToServer_partial_witness:
  "\<exists>c'. sendToServer [1, 2, 3, 4] ((reading [])\<lparr>cl_writes := [2, 2]\<rparr>) = (Inr (), c')
    \<and> cl_out c' = [1, 2, 1, 2]"
  using sendToServer_partial[of "(reading [])\<lparr>cl_writes := [2, 2]\<rparr>" 2 "[1, 2, 3, 4]"]
  by (simp add: reading_def)

section \<open>Minimizing the IDs of an iddiff\<close>

text \<open>C38. With the minimum IDs of the database, \<open>minimizeIds\<close> moves the changes of every ID to its
  minimum ID, when no two of the iddiff's IDs have the same minimum.\<close>

theorem minimizeIds_moves:
  assumes "iddiff_ok d" "no_empty_change d" "inj_on (root db) (set (involvedIds d))"
  shows "\<exists>d'. minimizeIds (\<lambda>ids. Inr (map (root db) ids)) d = Inr d' \<and> iddiff_ok d' \<and> m_minimizedIds d'
    \<and> (\<forall>k\<in>set (involvedIds d). sections_of d' (root db k) = sections_of d k)
    \<and> set (involvedIds d') = root db ` set (involvedIds d)"
  using assms by (rule db_ids.minimize_ok)

text \<open>When two IDs of the iddiff have the same minimum, \<open>minimizeIds\<close> aborts, even if their
  changes would not contradict each other.\<close>

theorem minimizeIds_collision:
  assumes "iddiff_ok d" "no_empty_change d" "\<not> inj_on (root db) (set (involvedIds d))"
  shows "minimizeIds (\<lambda>ids. Inr (map (root db) ids)) d = Inl AssertFail"
  using assms by (rule db_ids.minimize_abort)

text \<open>An iddiff with changes for two IDs, before and after the IDs were collapsed.\<close>

lemma involvedIds_new: "involvedIds (new_iddiff t) = []"
  by (simp add: involvedIds_def om_keys_def new_iddiff_def sort_uniq_def)

lemma sample_two_ids:
  "\<exists>d. rfold insertAddedClone (new_iddiff t) [(250, (0, one_form ''a'')), (130, (0, one_form ''b''))] = Inr d
    \<and> iddiff_ok d \<and> no_empty_change d \<and> involvedIds d = [130, 250]
    \<and> sections_of d 250 = \<lparr>s_removed = {}, s_added = {[Some ''a'']}, s_review = None\<rparr>"
proof -
  let ?d = "\<lparr>m_subject = [], m_authors = [], m_diffDate = t,
    m_items = [(130, Some \<lparr>m_removedItems = [], m_addedItems = [(1, one_form ''b'')], m_reviewComment = None\<rparr>),
               (250, Some \<lparr>m_removedItems = [], m_addedItems = [(0, one_form ''a'')], m_reviewComment = None\<rparr>)],
    m_minimizedIds = False, heap_next = 2\<rparr>"
  have "rfold insertAddedClone (new_iddiff t) [(250, (0, one_form ''a'')), (130, (0, one_form ''b''))] = Inr ?d"
    by (simp add: insertAddedClone_def alloc_def insertAdded_def findRemoved_def findRemovedAll_def
        findAddedAll_def find_change_def findIddiffMessageList_def change_of_def put_change_def
        new_iddiff_def new_change_def)
  moreover have "iddiff_ok ?d"
    by (auto simp: iddiff_ok_def om_inv_def change_ok_def change_items_def)
  moreover have "no_empty_change ?d" by (simp add: no_empty_change_def new_change_def)
  moreover have "involvedIds ?d = [130, 250]"
    by (simp add: involvedIds_def om_keys_def sort_uniq_def)
  moreover have "sections_of ?d 250 = \<lparr>s_removed = {}, s_added = {[Some ''a'']}, s_review = None\<rparr>"
    by (simp add: sections_of_def removed_of_def added_of_def review_of_def change_of_def)
  ultimately show ?thesis by blast
qed

lemma root_empty: "root empty_file = (\<lambda>i. i)"
  by (rule ext) (simp add: root_def recursive_empty)

theorem minimizeIds_moves_witness:
  "\<exists>d db d'. rfold insertAddedClone (new_iddiff (fdt_of_time 0))
      [(250, (0, one_form ''a'')), (130, (0, one_form ''b''))] = Inr d
    \<and> addRow empty_file 250 120 = Inr db
    \<and> minimizeIds (\<lambda>ids. Inr (map (root db) ids)) d = Inr d'
    \<and> sections_of d' 120 = \<lparr>s_removed = {}, s_added = {[Some ''a'']}, s_review = None\<rparr>"
proof -
  obtain d where d: "rfold insertAddedClone (new_iddiff (fdt_of_time 0))
      [(250, (0, one_form ''a'')), (130, (0, one_form ''b''))] = Inr d"
      "iddiff_ok d" "no_empty_change d" "involvedIds d = [130, 250]"
      "sections_of d 250 = \<lparr>s_removed = {}, s_added = {[Some ''a'']}, s_review = None\<rparr>"
    using sample_two_ids by blast
  obtain db where db: "addRow empty_file 250 120 = Inr db" "idmap_ok db" "root db 250 = 120"
      "row db 130 = row empty_file 130"
    using addRow_joins[OF idmap_ok_empty, of 250 120] by (auto simp: root_empty is_int32_def)
  have "row db 130 = 0" using db(4) by (simp add: row_def getRowConst_def empty_file_def)
  then have "root db 130 = 130" using root_step[OF db(2), of 130] by (simp add: is_int32_def)
  then show ?thesis
    using minimizeIds_moves[OF d(2,3), of db] d db by auto
qed

theorem minimizeIds_collision_witness:
  "\<exists>d db. rfold insertAddedClone (new_iddiff (fdt_of_time 0))
      [(250, (0, one_form ''a'')), (130, (0, one_form ''b''))] = Inr d
    \<and> addRow empty_file 250 130 = Inr db
    \<and> minimizeIds (\<lambda>ids. Inr (map (root db) ids)) d = Inl AssertFail"
proof -
  obtain d where d: "rfold insertAddedClone (new_iddiff (fdt_of_time 0))
      [(250, (0, one_form ''a'')), (130, (0, one_form ''b''))] = Inr d"
      "iddiff_ok d" "no_empty_change d" "involvedIds d = [130, 250]"
    using sample_two_ids by blast
  obtain db where db: "addRow empty_file 250 130 = Inr db" "root db 250 = 130" "root db 130 = 130"
    using addRow_joins[OF idmap_ok_empty, of 250 130] by (auto simp: root_empty)
  then have "\<not> inj_on (root db) (set (involvedIds d))" using d(4) by simp
  from minimizeIds_collision[OF d(2,3) this] d(1) db(1) show ?thesis by blast
qed

end
