(* ===== verification/Content.thy ===== *)
theory Content
  imports PoMessages FileDateTime GitOid IdMap
begin

text \<open>
  \<open>gtpo/translationcontent.cpp\<close> and the functions of \<open>gettextpo-helper.cpp\<close> on whole files: the
  JSON dump the template hash is computed from, reading the messages, the IDs, writing a file
  back, and pairing the IDs of equal messages of two files.

  libgettext-po parses and writes the files: a catalog is what it gives for one file, the header
  fields that \<open>po_header_field\<close> finds and the messages in the order of the iterator, the header
  entry first. \<open>c_read\<close> is what \<open>poFileRead\<close> does for the content's file, blob or buffer: an
  exception, a null pointer or the catalog. The requests to the server are parameters.
\<close>

record catalog =
  po_header_field :: "string \<Rightarrow> string option"
  po_entries :: "po_message list"

record content =
  c_read :: "catalog option res"
  c_fs_name :: "string option"  \<comment> \<open>the file's name when the content is a \<open>FileContentFs\<close>\<close>
  m_displayFilename :: string
  m_minIds :: "int list"
  m_minIdsInit :: bool
  m_firstId :: int
  m_idCount :: int

definition new_content :: "catalog option res \<Rightarrow> string option \<Rightarrow> content" where
  "new_content rd fs = \<lparr>c_read = rd, c_fs_name = fs,
     m_displayFilename = (case fs of Some n \<Rightarrow> n | None \<Rightarrow> []), m_minIds = [],
     m_minIdsInit = False, m_firstId = 0, m_idCount = -1\<rparr>"

definition setDisplayFilename :: "content \<Rightarrow> string \<Rightarrow> content" where
  "setDisplayFilename c fn = c\<lparr>m_displayFilename := fn\<rparr>"

section \<open>The JSON dump\<close>

fun is_prefix :: "string \<Rightarrow> string \<Rightarrow> bool" where
  "is_prefix [] s = True"
| "is_prefix (p # ps) [] = False"
| "is_prefix (p # ps) (c # cs) = (p = c \<and> is_prefix ps cs)"

text \<open>\<open>s.find(pat)\<close>, and \<open>s.find(pat, pos)\<close>.\<close>

fun str_find :: "string \<Rightarrow> string \<Rightarrow> nat option" where
  "str_find pat [] = (if pat = [] then Some 0 else None)"
| "str_find pat (c # cs) =
     (if is_prefix pat (c # cs) then Some 0 else map_option Suc (str_find pat cs))"

definition str_find_from :: "string \<Rightarrow> string \<Rightarrow> nat \<Rightarrow> nat option" where
  "str_find_from pat s pos =
     (if pos \<le> length s then map_option (\<lambda>i. pos + i) (str_find pat (List.drop pos s)) else None)"

definition is_alpha :: "char \<Rightarrow> bool" where
  "is_alpha c \<longleftrightarrow> (CHR ''A'' \<le> c \<and> c \<le> CHR ''Z'') \<or> (CHR ''a'' \<le> c \<and> c \<le> CHR ''z'')"

definition pot_creation_pattern :: string where
  "pot_creation_pattern = CHR 0x0A # ''POT-Creation-Date: ''"

definition templateHeaderAsJson :: "string \<Rightarrow> (string \<times> json) list res" where
  "templateHeaderAsJson headerString =
     (if headerString = [] \<or> \<not> is_alpha (hd headerString) then Inl (Throw NotPo)
      else let header = CHR 0x0A # headerString in
        (case str_find pot_creation_pattern header of
           None \<Rightarrow> Inl (Throw PoHeaderIncomplete)
         | Some p \<Rightarrow>
             let pos = p + length pot_creation_pattern in
             (case str_find_from [CHR 0x0A] header pos of
                None \<Rightarrow> Inl AssertFail
              | Some e \<Rightarrow> Inr [(''pot_creation_date'', JStr (take (e - pos) (List.drop pos header)))])))"

definition fileposEntriesAsJson :: "po_message \<Rightarrow> json" where
  "fileposEntriesAsJson pm = JArr (map (\<lambda>(file, line).
     JObj ([(''file'', JStr file)] @ (if line \<noteq> -1 then [(''line'', JInt line)] else [])))
     (po_filepos pm))"

text \<open>\<open>po_formats\<close> are the entries of \<open>po_format_list()\<close> the message has, in that list's order.\<close>

definition messageformatsAsJson :: "po_message \<Rightarrow> json" where
  "messageformatsAsJson pm = JArr (map JStr (po_formats pm))"

definition json_opt :: "string \<Rightarrow> string option \<Rightarrow> (string \<times> json) list" where
  "json_opt k s = (case s of Some v \<Rightarrow> [(k, JStr v)] | None \<Rightarrow> [])"

text \<open>None is the null value returned for an obsolete message.\<close>

definition templateMessageAsString :: "po_message \<Rightarrow> bool \<Rightarrow> json option res" where
  "templateMessageAsString pm includeTranslations =
     (if po_msgid pm = [] \<and> po_msgctxt pm = None then Inl (Throw (RuntimeError ''header''))
      else if po_obsolete pm then Inr None
      else Inr (Some (JObj (
        json_opt ''msgctxt'' (po_msgctxt pm)
        @ json_opt ''msgid'' (Some (po_msgid pm))
        @ json_opt ''msgid_plural'' (po_msgid_plural pm)
        @ json_opt ''comments'' (po_extracted_comments pm)
        @ [(''filepos'', fileposEntriesAsJson pm), (''formats'', messageformatsAsJson pm)]
        @ (case po_range pm of
             Some (minp, maxp) \<Rightarrow> [(''numeric_range'', JObj [(''min'', JInt minp), (''max'', JInt maxp)])]
           | None \<Rightarrow> [])
        @ (if includeTranslations then
             [(''msgstr'', JArr (map JStr
                 (if po_message_n_plurals pm > 0 then po_plural_forms pm else [po_msgstr pm]))),
              (''fuzzy'', JBool (po_fuzzy pm)), (''obsolete'', JBool (po_obsolete pm)),
              (''untranslated'', JBool (po_message_is_untranslated pm)),
              (''comments'', JStr (po_comments pm))]
           else [])))))"

fun messages_json :: "po_message list \<Rightarrow> bool \<Rightarrow> json list res" where
  "messages_json [] incl = Inr []"
| "messages_json (pm # pms) incl =
     rbind (templateMessageAsString pm incl) (\<lambda>v. rbind (messages_json pms incl) (\<lambda>vs.
       Inr ((case v of Some j \<Rightarrow> [j] | None \<Rightarrow> []) @ vs)))"

text \<open>The document that \<open>asJson\<close> prints.\<close>

definition catalog_json :: "catalog \<Rightarrow> bool \<Rightarrow> json res" where
  "catalog_json cat incl = (case po_entries cat of
      [] \<Rightarrow> Inl (Throw NotPo)
    | hdr # pms \<Rightarrow>
        rbind (templateHeaderAsJson (po_msgstr hdr)) (\<lambda>h.
          let header = h @ (if incl then json_opt ''po_revision_date'' (po_header_field cat ''PO-Revision-Date'')
                 @ json_opt ''last_translator'' (po_header_field cat ''Last-Translator'') else [])
          in rbind (messages_json pms incl) (\<lambda>ms.
               Inr (JObj [(''header'', JObj header), (''messages'', JArr ms)]))))"

definition content_asJson :: "content \<Rightarrow> bool \<Rightarrow> json res" where
  "content_asJson c incl = rbind (c_read c) (\<lambda>f. case f of
      None \<Rightarrow> Inl (Throw (RuntimeError ''Failed to open file''))
    | Some cat \<Rightarrow> catalog_json cat incl)"

text \<open>
  \<open>calculateTpHash\<close>: \<open>json_text\<close> is rapidjson's \<open>Writer\<close>, \<open>sha1\<close> the hash of a byte string.
\<close>

definition calculateTpHash :: "(json \<Rightarrow> string) \<Rightarrow> (string \<Rightarrow> git_oid) \<Rightarrow> content \<Rightarrow> git_oid res" where
  "calculateTpHash json_text sha1 c = (case content_asJson c False of
      Inr j \<Rightarrow> Inr (sha1 (json_text j))
    | Inl e \<Rightarrow> if e = Throw NotPo \<or> e = Throw PoHeaderIncomplete then Inr oid_zero else Inl e)"

section \<open>Reading the messages\<close>

record po_messages =
  pm_date :: file_date_time
  pm_potDate :: file_date_time
  pm_author :: string
  pm_messages :: "message_group list"

fun read_groups :: "po_message list \<Rightarrow> int \<Rightarrow> string \<Rightarrow> message_group list res" where
  "read_groups [] index fn = Inr []"
| "read_groups (pm # pms) index fn =
     (if po_obsolete pm then read_groups pms index fn
      else rbind (group_of_po pm index fn) (\<lambda>g.
           rbind (read_groups pms (index + 1) fn) (\<lambda>gs. Inr (g # gs))))"

definition date_field :: "string option \<Rightarrow> file_date_time res" where
  "date_field s = (case s of
      Some str \<Rightarrow> fromString (fdt_default 0 0) str
    | None \<Rightarrow> Inr (fdt_default 0 0))"

definition readMessagesInternal :: "content \<Rightarrow> po_messages res" where
  "readMessagesInternal c = rassert (m_displayFilename c \<noteq> [])
     (rbind (c_read c) (\<lambda>f. case f of
        None \<Rightarrow> Inl NullDeref
      | Some cat \<Rightarrow>
          rbind (date_field (po_header_field cat ''PO-Revision-Date'')) (\<lambda>date.
          rbind (date_field (po_header_field cat ''POT-Creation-Date'')) (\<lambda>potDate.
          let author = (case po_header_field cat ''Last-Translator'' of Some a \<Rightarrow> a | None \<Rightarrow> [])
          in rbind (read_groups (tl (po_entries cat)) 0 (m_displayFilename c)) (\<lambda>gs.
               Inr \<lparr>pm_date = date, pm_potDate = potDate, pm_author = author, pm_messages = gs\<rparr>)))))"

definition readMessages :: "content \<Rightarrow> message_group list res" where
  "readMessages c = rbind (readMessagesInternal c) (\<lambda>r. Inr (pm_messages r))"

definition content_date :: "content \<Rightarrow> file_date_time res" where
  "content_date c = rbind (readMessagesInternal c) (\<lambda>r. Inr (pm_date r))"

definition content_potDate :: "content \<Rightarrow> file_date_time res" where
  "content_potDate c = rbind (readMessagesInternal c) (\<lambda>r. Inr (pm_potDate r))"

definition content_author :: "content \<Rightarrow> string res" where
  "content_author c = rbind (readMessagesInternal c) (\<lambda>r. Inr (pm_author r))"

definition translatedCount :: "content \<Rightarrow> nat res" where
  "translatedCount c = rbind (readMessages c) (\<lambda>gs.
     rbind (rmap (\<lambda>g. group_message g 0) gs) (\<lambda>ms. Inr (length (filter msg_isTranslated ms))))"

definition findMessageGroupByOrig :: "content \<Rightarrow> message_group \<Rightarrow> message_group option res" where
  "findMessageGroupByOrig c msg = rbind (readMessages c) (\<lambda>gs.
     Inr (List.find (\<lambda>g. equalOrigText g msg) gs))"

text \<open>Clears the messages of a fresh reading of the file; the content itself does not change.\<close>

definition clearTranslations :: "content \<Rightarrow> unit res" where
  "clearTranslations c = rbind (readMessages c) (\<lambda>gs.
     rbind (rmap group_clearTranslation gs) (\<lambda>_. Inr ()))"

section \<open>IDs\<close>

definition content_getMinIds :: "(git_oid \<Rightarrow> int list res) \<Rightarrow> (content \<Rightarrow> git_oid) \<Rightarrow> content \<Rightarrow>
    (int list \<times> content) res" where
  "content_getMinIds request getTpHash c =
     (if m_minIdsInit c then Inr (m_minIds c, c)
      else rbind (request (getTpHash c)) (\<lambda>ids.
           let c' = c\<lparr>m_minIds := ids, m_minIdsInit := True\<rparr> in
           rbind (readMessages c') (\<lambda>gs.
             if length ids \<noteq> length gs
             then Inl (Throw (RuntimeError ''lengths of messages and m_minIds do not match''))
             else Inr (ids, c'))))"

definition initFirstIdPair :: "(git_oid \<Rightarrow> (int \<times> int) res) \<Rightarrow> (content \<Rightarrow> git_oid) \<Rightarrow> content \<Rightarrow>
    content res" where
  "initFirstIdPair request getTpHash c =
     (if m_firstId c \<noteq> 0 then Inr c
      else if \<not> oid_isNull (getTpHash c)
        then rbind (request (getTpHash c)) (\<lambda>(a, n). Inr (c\<lparr>m_firstId := a, m_idCount := n\<rparr>))
      else Inr c)"

definition content_getFirstId :: "(git_oid \<Rightarrow> (int \<times> int) res) \<Rightarrow> (content \<Rightarrow> git_oid) \<Rightarrow> content \<Rightarrow>
    (int \<times> content) res" where
  "content_getFirstId request getTpHash c =
     rbind (initFirstIdPair request getTpHash c) (\<lambda>c'. Inr (m_firstId c', c'))"

definition content_getIdCount :: "(git_oid \<Rightarrow> (int \<times> int) res) \<Rightarrow> (content \<Rightarrow> git_oid) \<Rightarrow> content \<Rightarrow>
    (int \<times> content) res" where
  "content_getIdCount request getTpHash c =
     rbind (initFirstIdPair request getTpHash c) (\<lambda>c'. Inr (m_idCount c', c'))"

section \<open>Writing\<close>

text \<open>The changes \<open>writeToFile\<close> makes to one entry for a message that was edited.\<close>

definition write_message :: "po_message \<Rightarrow> message \<Rightarrow> po_message res" where
  "write_message pm m =
     (let pm1 = pm\<lparr>po_fuzzy := isFuzzy m\<rparr> in
      rbind
        (if po_msgid_plural pm \<noteq> None then
           rbind (rfold (\<lambda>p i. rassert (po_message_msgstr_plural p i \<noteq> None)
                    (rbind (msgstr m i) (\<lambda>s. rbind (os_c_str s) (\<lambda>str.
                       Inr (p\<lparr>po_plural_forms := (po_plural_forms p)[i := str]\<rparr>)))))
                   pm1 [0..<numPlurals m])
             (\<lambda>p. rassert (po_message_msgstr_plural p (numPlurals m) = None) (Inr p))
         else rassert (numPlurals m = 1)
           (rbind (msgstr m 0) (\<lambda>s. rbind (if os_isNull s then Inr [] else os_c_str s) (\<lambda>str.
              Inr (pm1\<lparr>po_msgstr := str\<rparr>)))))
        (\<lambda>p. rbind (if os_isNull (m_msgcomments m) then Inr [] else os_c_str (m_msgcomments m))
           (\<lambda>cm. Inr (p\<lparr>po_comments := cm\<rparr>))))"

text \<open>
  The loop over the entries; \<open>reread\<close> is \<open>readMessages()\<close>, called again for every one of them.
  The result is the entries and whether there were changes.
\<close>

fun write_entries :: "message_group list res \<Rightarrow> nat \<Rightarrow> po_message list \<Rightarrow> (po_message list \<times> bool) res" where
  "write_entries reread index [] = Inr ([], False)"
| "write_entries reread index (pm # pms) =
     (if po_obsolete pm
      then rbind (write_entries reread index pms) (\<lambda>(ps, ch). Inr (pm # ps, ch))
      else rbind reread (\<lambda>gs.
        rassert (index < length gs)
          (rassert (group_size (gs ! index) = 1)
            (rbind (group_message (gs ! index) 0) (\<lambda>m.
             rbind (if isEdited m then write_message pm m else Inr pm) (\<lambda>pm'.
             rbind (write_entries reread (index + 1) pms) (\<lambda>(ps, ch).
               Inr (pm' # ps, isEdited m \<or> ch))))))))"

text \<open>The catalog written to the file, None when nothing is.\<close>

definition content_writeToFile :: "content \<Rightarrow> bool \<Rightarrow> catalog option res" where
  "content_writeToFile c force_write = rbind (c_read c) (\<lambda>f. case f of
      None \<Rightarrow> Inl NullDeref
    | Some cat \<Rightarrow> (case po_entries cat of
        [] \<Rightarrow> Inr (if force_write then Some cat else None)
      | hdr # pms \<Rightarrow> rbind (write_entries (readMessages c) 0 pms) (\<lambda>(ps, changed).
          Inr (if force_write \<or> changed then Some (cat\<lparr>po_entries := hdr # ps\<rparr>) else None))))"

section \<open>IDs of equal messages\<close>

text \<open>\<open>msg_ids[group].push_back(id)\<close> on a map ordered by \<open>compareByMsgid\<close>.\<close>

fun ids_push :: "message_group \<Rightarrow> int \<Rightarrow> (message_group \<times> int list) list \<Rightarrow>
    (message_group \<times> int list) list" where
  "ids_push g i [] = [(g, [i])]"
| "ids_push g i ((h, ids) # m) =
     (if compareByMsgid g h then (g, [i]) # (h, ids) # m
      else if compareByMsgid h g then (h, ids) # ids_push g i m
      else (h, ids @ [i]) # m)"

fun ids_of_messages :: "message_group list \<Rightarrow> int \<Rightarrow> (message_group \<times> int list) list \<Rightarrow>
    (message_group \<times> int list) list" where
  "ids_of_messages [] i m = m"
| "ids_of_messages (g # gs) i m = ids_of_messages gs (i + 1) (ids_push g i m)"

fun equal_ids :: "(message_group \<times> int list) list \<Rightarrow> int list list res" where
  "equal_ids [] = Inr []"
| "equal_ids ((g, ids) # m) =
     (if length ids = 0 then Inl AssertFail
      else if length ids \<ge> 2 then rassert (length ids = 2)
        (rbind (equal_ids m) (\<lambda>l. Inr (ids # l)))
      else equal_ids m)"

definition list_equal_messages_ids :: "(content \<times> int) list \<Rightarrow> int list list res" where
  "list_equal_messages_ids files =
     rbind (rfold (\<lambda>m f. rbind (readMessages (fst f)) (\<lambda>gs. Inr (ids_of_messages gs (snd f) m))) [] files)
       equal_ids"

definition list_equal_messages_ids_2 :: "content \<Rightarrow> int \<Rightarrow> content \<Rightarrow> int \<Rightarrow> (int \<times> int) list res" where
  "list_equal_messages_ids_2 a ia b ib =
     rbind (list_equal_messages_ids [(a, ia), (b, ib)]) (rmap (\<lambda>ids. rassert (length ids = 2)
       (rbind (nth_res ids 0) (\<lambda>x. rbind (nth_res ids 1) (\<lambda>y. Inr (x, y))))))"

definition dump_equal_messages_to_mmapdb ::
    "content \<Rightarrow> int \<Rightarrow> content \<Rightarrow> int \<Rightarrow> mapped_file \<Rightarrow> (int \<times> mapped_file) res" where
  "dump_equal_messages_to_mmapdb a ia b ib db =
     rbind (list_equal_messages_ids_2 a ia b ib) (\<lambda>l.
     rbind (rfold (\<lambda>db p. addRow db (fst p) (snd p)) db l) (\<lambda>db'. Inr (int (length l), db')))"

section \<open>Small helpers of \<open>gettextpo-helper.cpp\<close>\<close>

definition get_pot_length :: "catalog \<Rightarrow> nat res" where
  "get_pot_length cat = (case po_entries cat of
      [] \<Rightarrow> Inl NullDeref
    | hdr # pms \<Rightarrow> rassert (po_msgid hdr = []) (Inr (length (filter (\<lambda>pm. \<not> po_obsolete pm) pms))))"

definition hex_digit :: "nat \<Rightarrow> char" where
  "hex_digit n = (if n < 10 then char_of (48 + n) else char_of (87 + n))"

definition wrap_string_hex :: "string option \<Rightarrow> string" where
  "wrap_string_hex s = (case s of
      None \<Rightarrow> ''n''
    | Some str \<Rightarrow> concat (map (\<lambda>ch. let n = of_char ch in [hex_digit (n div 16), hex_digit (n mod 16)]) str))"

definition path_to_basename :: "string \<Rightarrow> string" where
  "path_to_basename path = rev (takeWhile (\<lambda>c. c \<noteq> CHR ''/'') (rev path))"

end
