(* ===== verification/ContentFacts.thy ===== *)
theory ContentFacts
  imports Content
begin

text \<open>
  What reading, dumping and writing a content give, and which IDs the pairing of two files finds.
\<close>

section \<open>Reading\<close>

definition group_read :: "po_message \<Rightarrow> int \<Rightarrow> string \<Rightarrow> message_group" where
  "group_read pm i fn = projr (group_of_po pm i fn)"

lemma group_of_po_eq: "group_of_po pm i fn = Inr (group_read pm i fn)"
  by (simp add: group_read_def group_of_po_def message_of_po_eq)

lemma group_read_simps:
  "group_size (group_read pm i fn) = 1"
  "\<exists>m. m_messages (group_read pm i fn) = [m] \<and> \<not> m_edited m \<and> m_index m = i \<and> m_filename m = fn
     \<and> m_fuzzy m = po_fuzzy pm \<and> msg_isUntranslated m = po_message_is_untranslated pm
     \<and> mt_view m = map Some (if po_plural_forms pm = [] then [po_msgstr pm] else po_plural_forms pm)"
  "orig_key (group_read pm i fn) = (po_msgctxt pm, Some (po_msgid pm), po_msgid_plural pm)"
  by (simp_all add: group_read_def group_of_po_def message_of_po_eq orig_text.extend_def
      group_size_def orig_of_po_def orig_key_def msg_isUntranslated_def mt_view_def comp_def)

lemma group_read_message: "\<exists>m. group_message (group_read pm i fn) 0 = Inr m \<and> \<not> m_edited m"
proof -
  obtain m where "m_messages (group_read pm i fn) = [m]" "\<not> m_edited m"
    using group_read_simps(2)[of pm i fn] by blast
  then show ?thesis by (simp add: group_message_def group_size_def)
qed

definition live :: "po_message list \<Rightarrow> po_message list" where
  "live pms = filter (\<lambda>pm. \<not> po_obsolete pm) pms"

lemma read_groups_eq:
  "read_groups pms i fn = Inr (map (\<lambda>(pm, k). group_read pm (i + int k) fn)
     (zip (live pms) [0..<length (live pms)]))"
proof (induction pms arbitrary: i)
  case Nil
  then show ?case by (simp add: live_def)
next
  case (Cons pm pms)
  show ?case
  proof (cases "po_obsolete pm")
    case True
    with Cons show ?thesis by (simp add: live_def)
  next
    case False
    have "zip (live pms) [Suc 0..<Suc (length (live pms))]
      = map (\<lambda>(p, k). (p, Suc k)) (zip (live pms) [0..<length (live pms)])"
      by (simp add: zip_map2 map_Suc_upt[symmetric] del: upt_Suc)
    with False Cons[of "i + 1"] show ?thesis
      by (simp add: live_def group_of_po_eq upt_conv_Cons comp_def case_prod_beta' algebra_simps
          del: upt_Suc)
  qed
qed

lemma readMessages_groups:
  assumes "readMessages c = Inr gs" "c_read c = Inr (Some cat)"
  shows "length gs = length (live (tl (po_entries cat)))"
    "\<And>i. i < length gs \<Longrightarrow> gs ! i = group_read (live (tl (po_entries cat)) ! i) (int i) (m_displayFilename c)"
  using assms by (auto simp: readMessages_def readMessagesInternal_def read_groups_eq res_simps)

section \<open>Writing\<close>

text \<open>No message of a fresh reading is marked as edited, so every entry is left as it is.\<close>

lemma write_entries_same:
  assumes "reread = Inr gs"
    and "\<And>i. i < length gs \<Longrightarrow> \<exists>m. m_messages (gs ! i) = [m] \<and> \<not> m_edited m"
    and "write_entries reread index pms = Inr (ps, ch)"
  shows "ps = pms \<and> \<not> ch"
  using assms(3)
proof (induction pms arbitrary: index ps ch)
  case Nil
  then show ?case by simp
next
  case (Cons pm pms)
  show ?case
  proof (cases "po_obsolete pm")
    case True
    with Cons show ?thesis by (fastforce simp: res_simps)
  next
    case False
    with Cons.prems assms(1) have i: "index < length gs" by (auto simp: res_simps)
    then obtain m where m: "m_messages (gs ! index) = [m]" "\<not> m_edited m" using assms(2) by blast
    then have "group_message (gs ! index) 0 = Inr m" "group_size (gs ! index) = 1"
      by (simp_all add: group_message_def group_size_def)
    with Cons.prems False assms(1) i m(2)
    obtain qs ch' where "write_entries reread (index + 1) pms = Inr (qs, ch')"
        "ps = pm # qs" "ch = ch'"
      by (auto simp: res_simps isEdited_def)
    with Cons.IH show ?thesis by blast
  qed
qed

section \<open>Template dump\<close>

definition template_of :: "po_message \<Rightarrow> string option \<times> string \<times> string option \<times> string option \<times>
    (string \<times> int) list \<times> string list \<times> (int \<times> int) option" where
  "template_of pm = (po_msgctxt pm, po_msgid pm, po_msgid_plural pm, po_extracted_comments pm,
     po_filepos pm, po_formats pm, po_range pm)"

lemma filepos_inj:
  "map (\<lambda>(file, line). JObj ([(''file'', JStr file)] @ (if line \<noteq> -1 then [(''line'', JInt line)] else []))) xs
   = map (\<lambda>(file, line). JObj ([(''file'', JStr file)] @ (if line \<noteq> -1 then [(''line'', JInt line)] else []))) ys
   \<longleftrightarrow> xs = ys"
proof -
  have "inj (\<lambda>(file, line :: int). JObj ([(''file'', JStr file)] @ (if line \<noteq> -1 then [(''line'', JInt line)] else [])))"
    by (auto simp: inj_def split: if_splits)
  then show ?thesis by (simp add: inj_map_eq_map)
qed

lemma json_opt_keys: "k \<noteq> k' \<Longrightarrow> k \<notin> fst ` set (json_opt k' s)"
  by (auto simp: json_opt_def split: option.splits)

lemma json_opt_append:
  assumes "k \<notin> fst ` set xs" "k \<notin> fst ` set ys"
  shows "json_opt k s @ xs = json_opt k t @ ys \<longleftrightarrow> s = t \<and> xs = ys"
  using assms by (cases xs; cases ys) (auto simp: json_opt_def split: option.splits)

definition range_json :: "(int \<times> int) option \<Rightarrow> (string \<times> json) list" where
  "range_json r = (case r of
      Some (minp, maxp) \<Rightarrow> [(''numeric_range'', JObj [(''min'', JInt minp), (''max'', JInt maxp)])]
    | None \<Rightarrow> [])"

lemma range_json_inj: "range_json r = range_json t \<longleftrightarrow> r = t"
  by (auto simp: range_json_def split: option.splits)

definition rest_json :: "po_message \<Rightarrow> (string \<times> json) list" where
  "rest_json pm = (''filepos'', fileposEntriesAsJson pm) # (''formats'', messageformatsAsJson pm)
     # range_json (po_range pm)"

lemma rest_json_inj:
  "rest_json pm = rest_json pm' \<longleftrightarrow>
    po_filepos pm = po_filepos pm' \<and> po_formats pm = po_formats pm' \<and> po_range pm = po_range pm'"
proof -
  have "map JStr xs = map JStr ys \<longleftrightarrow> xs = ys" for xs ys
    by (simp add: inj_map_eq_map inj_def)
  then show ?thesis
    using filepos_inj[of "po_filepos pm" "po_filepos pm'"]
    by (simp add: rest_json_def range_json_inj fileposEntriesAsJson_def messageformatsAsJson_def)
qed

lemma rest_json_keys: "fst ` set (rest_json pm) \<subseteq> {''filepos'', ''formats'', ''numeric_range''}"
  by (auto simp: rest_json_def range_json_def split: option.splits)

lemma template_fields_inj:
  "json_opt ''msgctxt'' a @ json_opt ''msgid'' b @ json_opt ''msgid_plural'' c @ json_opt ''comments'' d @ rest_json pm
   = json_opt ''msgctxt'' a' @ json_opt ''msgid'' b' @ json_opt ''msgid_plural'' c' @ json_opt ''comments'' d' @ rest_json pm'
   \<longleftrightarrow> a = a' \<and> b = b' \<and> c = c' \<and> d = d' \<and> rest_json pm = rest_json pm'"
proof -
  have r: "k \<notin> fst ` set (rest_json p)" if "k \<in> {''msgctxt'', ''msgid'', ''msgid_plural'', ''comments''}" for k p
    using rest_json_keys[of p] that by auto
  have 4: "json_opt ''comments'' d @ rest_json pm = json_opt ''comments'' d' @ rest_json pm'
      \<longleftrightarrow> d = d' \<and> rest_json pm = rest_json pm'"
    by (rule json_opt_append) (simp_all add: r)
  have 3: "json_opt ''msgid_plural'' c @ json_opt ''comments'' d @ rest_json pm
      = json_opt ''msgid_plural'' c' @ json_opt ''comments'' d' @ rest_json pm'
      \<longleftrightarrow> c = c' \<and> json_opt ''comments'' d @ rest_json pm = json_opt ''comments'' d' @ rest_json pm'"
    by (rule json_opt_append) (simp_all add: r image_Un json_opt_keys)
  have 2: "json_opt ''msgid'' b @ json_opt ''msgid_plural'' c @ json_opt ''comments'' d @ rest_json pm
      = json_opt ''msgid'' b' @ json_opt ''msgid_plural'' c' @ json_opt ''comments'' d' @ rest_json pm'
      \<longleftrightarrow> b = b' \<and> json_opt ''msgid_plural'' c @ json_opt ''comments'' d @ rest_json pm
        = json_opt ''msgid_plural'' c' @ json_opt ''comments'' d' @ rest_json pm'"
    by (rule json_opt_append) (simp_all add: r image_Un json_opt_keys)
  have 1: "json_opt ''msgctxt'' a @ (json_opt ''msgid'' b @ json_opt ''msgid_plural'' c @ json_opt ''comments'' d @ rest_json pm)
      = json_opt ''msgctxt'' a' @ (json_opt ''msgid'' b' @ json_opt ''msgid_plural'' c' @ json_opt ''comments'' d' @ rest_json pm')
      \<longleftrightarrow> a = a' \<and> json_opt ''msgid'' b @ json_opt ''msgid_plural'' c @ json_opt ''comments'' d @ rest_json pm
        = json_opt ''msgid'' b' @ json_opt ''msgid_plural'' c' @ json_opt ''comments'' d' @ rest_json pm'"
    by (rule json_opt_append) (simp_all add: r image_Un json_opt_keys)
  show ?thesis by (simp only: 1 2 3 4)
qed

lemma template_message_json:
  assumes "\<not> po_obsolete pm" "templateMessageAsString pm False = Inr v"
  shows "v = Some (JObj (json_opt ''msgctxt'' (po_msgctxt pm) @ json_opt ''msgid'' (Some (po_msgid pm))
    @ json_opt ''msgid_plural'' (po_msgid_plural pm) @ json_opt ''comments'' (po_extracted_comments pm)
    @ rest_json pm))"
  using assms by (simp add: templateMessageAsString_def rest_json_def range_json_def split: if_splits)

lemma template_message:
  assumes "\<not> po_obsolete pm" "templateMessageAsString pm False = Inr v"
    and "\<not> po_obsolete pm'" "templateMessageAsString pm' False = Inr v'"
  shows "\<exists>j j'. v = Some j \<and> v' = Some j' \<and> (j = j' \<longleftrightarrow> template_of pm = template_of pm')"
proof -
  let ?j = "\<lambda>pm. JObj (json_opt ''msgctxt'' (po_msgctxt pm) @ json_opt ''msgid'' (Some (po_msgid pm))
    @ json_opt ''msgid_plural'' (po_msgid_plural pm) @ json_opt ''comments'' (po_extracted_comments pm)
    @ rest_json pm)"
  have "?j pm = ?j pm' \<longleftrightarrow> template_of pm = template_of pm'"
    by (simp only: json.inject template_fields_inj rest_json_inj template_of_def prod.inject option.inject)
  then show ?thesis
    using template_message_json[OF assms(1,2)] template_message_json[OF assms(3,4)] by blast
qed

lemma messages_template:
  assumes "messages_json pms False = Inr js" "messages_json pms' False = Inr js'"
  shows "length js = length (live pms)"
    and "js = js' \<longleftrightarrow> map template_of (live pms) = map template_of (live pms')"
proof -
  have len: "messages_json pms False = Inr js \<Longrightarrow> length js = length (live pms)" for pms js
  proof (induction pms arbitrary: js)
    case (Cons pm pms)
    then show ?case
      by (auto simp: res_simps live_def templateMessageAsString_def split: if_splits)
  qed (simp add: live_def)
  from len[OF assms(1)] show "length js = length (live pms)" .
  have el: "list_all2 (\<lambda>pm j. \<not> po_obsolete pm \<and> templateMessageAsString pm False = Inr (Some j)) (live pms) js"
    if "messages_json pms False = Inr js" for pms js
    using that
  proof (induction pms arbitrary: js)
    case (Cons pm pms)
    then obtain v vs where v: "templateMessageAsString pm False = Inr v"
        "messages_json pms False = Inr vs" "js = (case v of Some j \<Rightarrow> [j] | None \<Rightarrow> []) @ vs"
      by (auto simp: res_simps)
    show ?case
    proof (cases "po_obsolete pm")
      case True
      with v have "v = None" by (auto simp: templateMessageAsString_def split: if_splits)
      with v True Cons.IH[OF v(2)] show ?thesis by (simp add: live_def)
    next
      case False
      then obtain j where "v = Some j"
        using v(1) by (auto simp: templateMessageAsString_def split: if_splits)
      with v False Cons.IH[OF v(2)] show ?thesis by (simp add: live_def)
    qed
  qed (simp add: live_def)
  have "js = js' \<longleftrightarrow> map template_of xs = map template_of ys"
    if "list_all2 (\<lambda>pm j. \<not> po_obsolete pm \<and> templateMessageAsString pm False = Inr (Some j)) xs js"
      "list_all2 (\<lambda>pm j. \<not> po_obsolete pm \<and> templateMessageAsString pm False = Inr (Some j)) ys js'"
    for xs ys
    using that
  proof (induction xs arbitrary: js js' ys)
    case Nil
    then show ?case by (cases ys) auto
  next
    case (Cons x xs)
    show ?case
    proof (cases ys)
      case Nil
      with Cons.prems show ?thesis by auto
    next
      case (Cons y ys')
      with Cons.prems obtain j ks j' ks' where
        j: "js = j # ks" "js' = j' # ks'" "\<not> po_obsolete x" "\<not> po_obsolete y"
          "templateMessageAsString x False = Inr (Some j)" "templateMessageAsString y False = Inr (Some j')"
        and rest: "list_all2 (\<lambda>pm j. \<not> po_obsolete pm \<and> templateMessageAsString pm False = Inr (Some j)) xs ks"
          "list_all2 (\<lambda>pm j. \<not> po_obsolete pm \<and> templateMessageAsString pm False = Inr (Some j)) ys' ks'"
        by (auto simp: list_all2_Cons1)
      have "j = j' \<longleftrightarrow> template_of x = template_of y"
        using template_message[OF j(3,5,4,6)] by auto
      then show ?thesis using Cons.IH[OF rest] Cons j(1,2) by simp
    qed
  qed
  from this[OF el[OF assms(1)] el[OF assms(2)]]
  show "js = js' \<longleftrightarrow> map template_of (live pms) = map template_of (live pms')" .
qed

section \<open>Pairing IDs\<close>

text \<open>The map of the code, by the key its order compares.\<close>

definition by_key :: "(message_group \<times> int list) list \<Rightarrow>
    (string option \<times> string option \<times> string option, int list) omap" where
  "by_key m = map (\<lambda>p. (orig_key (fst p), snd p)) m"

definition ids_at where
  "ids_at m k = (case map_of (by_key m) k of Some ids \<Rightarrow> ids | None \<Rightarrow> [])"

lemma by_key_push:
  "om_inv (by_key m) \<Longrightarrow> by_key (ids_push g i m) = om_set (orig_key g) (ids_at m (orig_key g) @ [i]) (by_key m)"
proof (induction g i m rule: ids_push.induct)
  case (1 g i)
  then show ?case by (simp add: by_key_def ids_at_def)
next
  case (2 g i h ids m)
  have inv: "om_inv (by_key m)" and gt: "\<And>k v. (k, v) \<in> set (by_key m) \<Longrightarrow> orig_key h < k"
    using "2.prems" by (auto simp: by_key_def om_inv_def)
  consider "orig_key g < orig_key h" | "orig_key h < orig_key g" | "orig_key g = orig_key h"
    by fastforce
  then show ?case
  proof cases
    case 1
    then have "\<And>v. (orig_key g, v) \<notin> set (by_key m)" using gt by (metis less_asym)
    then have "map_of (by_key m) (orig_key g) = None" by (meson map_of_SomeD not_None_eq)
    moreover have "orig_key g \<noteq> orig_key h" using 1 by auto
    ultimately show ?thesis using 1
      by (simp add: compareByMsgid_def orig_less_iff by_key_def ids_at_def)
  next
    case 2
    then have n: "\<not> compareByMsgid g h" "compareByMsgid h g" "orig_key g \<noteq> orig_key h" "\<not> orig_key g < orig_key h"
      by (auto simp: compareByMsgid_def orig_less_iff)
    from "2.IH"[OF n(1,2) inv] n show ?thesis by (simp add: by_key_def ids_at_def)
  next
    case 3
    then show ?thesis by (simp add: compareByMsgid_def orig_less_iff by_key_def ids_at_def)
  qed
qed

lemma ids_push_facts:
  assumes "om_inv (by_key m)"
  shows "om_inv (by_key (ids_push g i m))"
    "ids_at (ids_push g i m) k = (if k = orig_key g then ids_at m k @ [i] else ids_at m k)"
  using assms by (simp_all add: by_key_push om.inv_put ids_at_def om.find_put)

text \<open>The IDs of the messages of one file that have a key.\<close>

definition positions :: "message_group list \<Rightarrow> int \<Rightarrow> string option \<times> string option \<times> string option \<Rightarrow> int list" where
  "positions gs i k = map (\<lambda>j. i + int j) (filter (\<lambda>j. orig_key (gs ! j) = k) [0..<length gs])"

lemma positions_Cons:
  "positions (g # gs) i k = (if orig_key g = k then [i] else []) @ positions gs (i + 1) k"
proof -
  have "[0..<length (g # gs)] = 0 # map Suc [0..<length gs]"
    by (simp add: upt_conv_Cons map_Suc_upt del: upt_Suc)
  then show ?thesis by (simp add: positions_def filter_map comp_def algebra_simps del: upt_Suc)
qed

lemma ids_of_messages_facts:
  assumes "om_inv (by_key m)"
  shows "om_inv (by_key (ids_of_messages gs i m))"
    "ids_at (ids_of_messages gs i m) k = ids_at m k @ positions gs i k"
  using assms
proof (induction gs i m rule: ids_of_messages.induct)
  case (1 i m)
  { case 1 then show ?case by simp next case 2 then show ?case by (simp add: positions_def) }
next
  case (2 g gs i m)
  { case 1 with 2 show ?case by (simp add: ids_push_facts)
  next
    case 2
    show ?case
      using "2.IH"(2)[OF ids_push_facts(1)[OF "2.prems"]] ids_push_facts(2)[OF "2.prems"]
      by (simp add: positions_Cons) }
qed

lemma positions_Nil_iff: "positions gs i k = [] \<longleftrightarrow> k \<notin> orig_key ` set gs"
  by (induction gs arbitrary: i) (simp add: positions_def, auto simp: positions_Cons)

lemma positions_distinct:
  "distinct (map orig_key gs) \<Longrightarrow> length (positions gs i k) \<le> 1"
  "distinct (map orig_key gs) \<Longrightarrow>
     positions gs i k = [x] \<longleftrightarrow> (\<exists>j < length gs. orig_key (gs ! j) = k \<and> x = i + int j)"
proof -
  have "length (positions gs i k) \<le> 1" if "distinct (map orig_key gs)" for i
    using that
  proof (induction gs arbitrary: i)
    case (Cons g gs)
    then show ?case
      using positions_Nil_iff[of gs "i + 1" "orig_key g"] by (auto simp: positions_Cons)
  qed (simp add: positions_def)
  then show le: "distinct (map orig_key gs) \<Longrightarrow> length (positions gs i k) \<le> 1" .
  assume d: "distinct (map orig_key gs)"
  have set: "set (positions gs i k) = {i + int j | j. j < length gs \<and> orig_key (gs ! j) = k}"
    by (auto simp: positions_def)
  have "positions gs i k = [x] \<longleftrightarrow> x \<in> set (positions gs i k)"
    using le[OF d] by (cases "positions gs i k") auto
  then show "positions gs i k = [x] \<longleftrightarrow> (\<exists>j < length gs. orig_key (gs ! j) = k \<and> x = i + int j)"
    unfolding set by blast
qed

lemma ids_push_nonempty:
  "\<forall>p \<in> set m. snd p \<noteq> [] \<Longrightarrow> \<forall>p \<in> set (ids_push g i m). snd p \<noteq> []"
  by (induction g i m rule: ids_push.induct) auto

lemma ids_of_messages_nonempty:
  "\<forall>p \<in> set m. snd p \<noteq> [] \<Longrightarrow> \<forall>p \<in> set (ids_of_messages gs i m). snd p \<noteq> []"
  by (induction gs i m rule: ids_of_messages.induct) (simp_all add: ids_push_nonempty)

lemma equal_ids_eq:
  "\<forall>p \<in> set m. snd p \<noteq> [] \<and> length (snd p) \<le> 2 \<Longrightarrow>
     equal_ids m = Inr (filter (\<lambda>ids. length ids = 2) (map snd m))"
  by (induction m rule: equal_ids.induct) auto

lemma entry_ids_at:
  assumes "om_inv (by_key m)" "(g, ids) \<in> set m"
  shows "ids_at m (orig_key g) = ids"
proof -
  have "(orig_key g, ids) \<in> set (by_key m)" using assms(2) by (force simp: by_key_def)
  then have "map_of (by_key m) (orig_key g) = Some ids" by (simp add: om_inv_map_of[OF assms(1)])
  then show ?thesis by (simp add: ids_at_def)
qed

lemma ids_at_entry:
  assumes "ids_at m k = ids" "ids \<noteq> []"
  obtains g where "(g, ids) \<in> set m" "orig_key g = k"
proof -
  have "map_of (by_key m) k = Some ids" using assms by (auto simp: ids_at_def split: option.splits)
  then have "(k, ids) \<in> set (by_key m)" by (rule map_of_SomeD)
  then show thesis using that by (auto simp: by_key_def)
qed

lemma two_singletons:
  assumes "length xs \<le> 1" "length ys \<le> 1"
  shows "xs @ ys = zs \<and> length zs = 2 \<longleftrightarrow> (\<exists>x y. xs = [x] \<and> ys = [y] \<and> zs = [x, y])"
proof -
  have "ws = [] \<or> (\<exists>w. ws = [w])" if "length ws \<le> 1" for ws :: "'a list"
    using that by (cases ws) auto
  from this[OF assms(1)] this[OF assms(2)] show ?thesis by auto
qed

lemma pairs_of_two_files:
  fixes ga gb :: "message_group list" and ia ib :: int
  defines "m \<equiv> ids_of_messages gb ib (ids_of_messages ga ia [])"
  assumes d: "distinct (map orig_key ga)" "distinct (map orig_key gb)"
  shows "\<exists>l. equal_ids m = Inr l \<and> (\<forall>ids \<in> set l. length ids = 2)
    \<and> set l = {[ia + int i, ib + int j] | i j. i < length ga \<and> j < length gb
        \<and> orig_key (ga ! i) = orig_key (gb ! j)}"
proof -
  have inv0: "om_inv (by_key [])" "ids_at [] k = []" for k by (simp_all add: by_key_def ids_at_def om_inv_Nil)
  note f1 = ids_of_messages_facts[OF inv0(1), of ga ia]
  have inv: "om_inv (by_key m)" and at: "ids_at m k = positions ga ia k @ positions gb ib k" for k
    using ids_of_messages_facts[OF f1(1)] f1(2) inv0(2) by (simp_all add: m_def)
  have ne: "\<forall>p \<in> set m. snd p \<noteq> []"
    unfolding m_def by (intro ids_of_messages_nonempty) simp
  have le: "\<forall>p \<in> set m. snd p \<noteq> [] \<and> length (snd p) \<le> 2"
  proof (intro ballI conjI)
    fix p assume p: "p \<in> set m"
    then show "snd p \<noteq> []" using ne by blast
    have "snd p = positions ga ia (orig_key (fst p)) @ positions gb ib (orig_key (fst p))"
      using entry_ids_at[OF inv, of "fst p" "snd p"] p at by simp
    then show "length (snd p) \<le> 2"
      using positions_distinct(1)[OF d(1), of ia "orig_key (fst p)"]
        positions_distinct(1)[OF d(2), of ib "orig_key (fst p)"] by simp
  qed
  let ?l = "filter (\<lambda>ids. length ids = 2) (map snd m)"
  have two: "positions ga ia k @ positions gb ib k = ids \<and> length ids = 2 \<longleftrightarrow>
      (\<exists>x y. positions ga ia k = [x] \<and> positions gb ib k = [y] \<and> ids = [x, y])" for k ids
    by (rule two_singletons[OF positions_distinct(1)[OF d(1)] positions_distinct(1)[OF d(2)]])
  have "ids \<in> set ?l \<longleftrightarrow> (\<exists>k. ids_at m k = ids \<and> length ids = 2)" for ids
  proof
    assume "ids \<in> set ?l"
    then obtain g where "(g, ids) \<in> set m" "length ids = 2" by auto
    then show "\<exists>k. ids_at m k = ids \<and> length ids = 2" using entry_ids_at[OF inv] by blast
  next
    assume "\<exists>k. ids_at m k = ids \<and> length ids = 2"
    then obtain k where k: "ids_at m k = ids" "length ids = 2" by blast
    then have "ids \<noteq> []" by auto
    then obtain g where "(g, ids) \<in> set m" by (rule ids_at_entry[OF k(1)]) 
    then have "ids \<in> set (map snd m)" by (metis list.set_map imageI snd_conv)
    then show "ids \<in> set ?l" using k(2) by simp
  qed
  then have "set ?l = {[ia + int i, ib + int j] | i j. i < length ga \<and> j < length gb
        \<and> orig_key (ga ! i) = orig_key (gb ! j)}"
    unfolding at two positions_distinct(2)[OF d(1)] positions_distinct(2)[OF d(2)] set_eq_iff mem_Collect_eq
    by metis
  moreover have "\<forall>ids \<in> set ?l. length ids = 2" by simp
  ultimately show ?thesis using equal_ids_eq[OF le] by blast
qed

text \<open>
  Two files with no message twice: \<open>list_equal_messages_ids_2\<close> gives exactly the pairs of IDs
  of the messages that have the same original text, the first file's ID first.
\<close>

theorem equal_messages_pairs:
  assumes "readMessages a = Inr ga" "readMessages b = Inr gb"
    and "distinct (map orig_key ga)" "distinct (map orig_key gb)"
  shows "\<exists>l. list_equal_messages_ids_2 a ia b ib = Inr l
    \<and> set l = {(ia + int i, ib + int j) | i j. i < length ga \<and> j < length gb
        \<and> equalOrigText (ga ! i) (gb ! j)}"
proof -
  obtain l where l: "equal_ids (ids_of_messages gb ib (ids_of_messages ga ia [])) = Inr l"
      "\<forall>ids \<in> set l. length ids = 2"
      "set l = {[ia + int i, ib + int j] | i j. i < length ga \<and> j < length gb
        \<and> orig_key (ga ! i) = orig_key (gb ! j)}"
    using pairs_of_two_files[OF assms(3,4)] by blast
  have "rmap (\<lambda>ids. rassert (length ids = 2)
       (rbind (nth_res ids 0) (\<lambda>x. rbind (nth_res ids 1) (\<lambda>y. Inr (x, y))))) l
      = Inr (map (\<lambda>ids. (ids ! 0, ids ! 1)) l)"
    by (rule rmap_Inr_map) (use l(2) in auto)
  then have "list_equal_messages_ids_2 a ia b ib = Inr (map (\<lambda>ids. (ids ! 0, ids ! 1)) l)"
    using assms(1,2) l(1) by (simp add: list_equal_messages_ids_2_def list_equal_messages_ids_def)
  moreover have "set (map (\<lambda>ids. (ids ! 0, ids ! 1)) l)
      = {(ia + int i, ib + int j) | i j. i < length ga \<and> j < length gb \<and> equalOrigText (ga ! i) (gb ! j)}"
    by (force simp: l(3) equalOrigText_def orig_eq_iff)
  ultimately show ?thesis by blast
qed


text \<open>
  Reading a catalog gives one group per message that is not obsolete, numbered from 0 in file
  order, with the message's original text, fuzzy flag and translations, none of them edited.
\<close>

theorem readMessages_numbered:
  assumes "readMessages c = Inr gs" "c_read c = Inr (Some cat)"
  shows "length gs = length (live (tl (po_entries cat))) \<and>
    (\<forall>i < length gs. \<exists>m. m_messages (gs ! i) = [m] \<and> m_index m = int i \<and> \<not> isEdited m
       \<and> m_filename m = m_displayFilename c
       \<and> (let pm = live (tl (po_entries cat)) ! i in
          orig_key (gs ! i) = (po_msgctxt pm, Some (po_msgid pm), po_msgid_plural pm)
          \<and> m_fuzzy m = po_fuzzy pm
          \<and> mt_view m = map Some (if po_plural_forms pm = [] then [po_msgstr pm] else po_plural_forms pm)))"
proof (intro conjI allI impI)
  show "length gs = length (live (tl (po_entries cat)))" by (rule readMessages_groups(1)[OF assms])
  fix i assume "i < length gs"
  then have g: "gs ! i = group_read (live (tl (po_entries cat)) ! i) (int i) (m_displayFilename c)"
    by (rule readMessages_groups(2)[OF assms])
  show "\<exists>m. m_messages (gs ! i) = [m] \<and> m_index m = int i \<and> \<not> isEdited m
       \<and> m_filename m = m_displayFilename c
       \<and> (let pm = live (tl (po_entries cat)) ! i in
          orig_key (gs ! i) = (po_msgctxt pm, Some (po_msgid pm), po_msgid_plural pm)
          \<and> m_fuzzy m = po_fuzzy pm
          \<and> mt_view m = map Some (if po_plural_forms pm = [] then [po_msgstr pm] else po_plural_forms pm))"
    using group_read_simps(2)[of "live (tl (po_entries cat)) ! i" "int i" "m_displayFilename c"]
    by (auto simp: g group_read_simps(3) isEdited_def Let_def)
qed

text \<open>
  \<open>writeToFile\<close> never writes an edit: it reads the messages again, so when it does not fail
  it writes the catalog as it was read, and only if forced.
\<close>

theorem writeToFile_never_changes:
  assumes "c_read c = Inr (Some cat)" "content_writeToFile c force_write = Inr out"
  shows "out = (if force_write then Some cat else None)"
proof (cases "po_entries cat")
  case Nil
  with assms show ?thesis by (simp add: content_writeToFile_def)
next
  case (Cons h pms)
  then obtain ps ch where w: "write_entries (readMessages c) 0 pms = Inr (ps, ch)"
      "out = (if force_write \<or> ch then Some (cat\<lparr>po_entries := h # ps\<rparr>) else None)"
    using assms by (auto simp: content_writeToFile_def res_simps)
  have "ps = pms \<and> \<not> ch"
  proof (cases "readMessages c")
    case (Inr gs)
    have "\<exists>m. m_messages (gs ! i) = [m] \<and> \<not> m_edited m" if "i < length gs" for i
      using readMessages_groups(2)[OF Inr assms(1) that] group_read_simps(2) by metis
    with Inr show ?thesis using write_entries_same[OF Inr _ w(1)] by blast
  next
    case (Inl e)
    have "write_entries (Inl e) k pms = Inr (ps, ch) \<Longrightarrow> ps = pms \<and> \<not> ch" for k
      by (induction pms arbitrary: ps ch k) (auto simp: res_simps split: if_splits)
    from this[of 0] w(1) Inl show ?thesis by simp
  qed
  with w(2) Cons show ?thesis by simp
qed

section \<open>Witnesses\<close>

text \<open>A template with two messages, and the same template translated.\<close>

definition ex_entry :: "string \<Rightarrow> string \<Rightarrow> po_message" where
  "ex_entry i t = \<lparr>po_msgctxt = None, po_msgid = i, po_msgid_plural = None, po_msgstr = t,
     po_plural_forms = [], po_fuzzy = False, po_obsolete = False, po_comments = [],
     po_extracted_comments = None, po_filepos = [(''a.cpp'', 7)], po_formats = [], po_range = None\<rparr>"

lemma ex_entry_obsolete [simp]: "\<not> po_obsolete (ex_entry i t)"
  by (simp add: ex_entry_def)

definition ex_catalog :: "string \<Rightarrow> string \<Rightarrow> catalog" where
  "ex_catalog t1 t2 = \<lparr>po_header_field = \<lambda>_. None, po_entries =
     [ex_entry [] (''P'' @ pot_creation_pattern @ ''2012'' @ [CHR 0x0A]), ex_entry ''Open'' t1, ex_entry ''Quit'' t2]\<rparr>"

definition ex_content :: "string \<Rightarrow> string \<Rightarrow> content" where
  "ex_content t1 t2 = new_content (Inr (Some (ex_catalog t1 t2))) (Some ''a.po'')"

lemma ex_content_read: "c_read (ex_content t1 t2) = Inr (Some (ex_catalog t1 t2))"
  by (simp add: ex_content_def new_content_def)

lemma ex_content_groups:
  "readMessages (ex_content t1 t2) =
     Inr [group_read (ex_entry ''Open'' t1) 0 ''a.po'', group_read (ex_entry ''Quit'' t2) 1 ''a.po'']"
  by (simp add: readMessages_def readMessagesInternal_def ex_content_def new_content_def date_field_def
      ex_catalog_def group_of_po_eq)

lemma ex_content_keys:
  "distinct (map orig_key [group_read (ex_entry ''Open'' t1) 0 ''a.po'', group_read (ex_entry ''Quit'' t2) 1 ''a.po''])"
  by (simp add: group_read_simps(3)) (simp add: ex_entry_def)

theorem equal_messages_pairs_witness:
  "\<exists>l. list_equal_messages_ids_2 (ex_content [] []) 10 (ex_content ''Abrir'' ''Sair'') 20 = Inr l
     \<and> (11, 21) \<in> set l \<and> (10, 21) \<notin> set l"
proof -
  let ?a = "ex_content [] []" and ?b = "ex_content ''Abrir'' ''Sair''"
  obtain l where l: "list_equal_messages_ids_2 ?a 10 ?b 20 = Inr l"
    "set l = {(10 + int i, 20 + int j) | i j. i < 2 \<and> j < 2 \<and>
      equalOrigText ([group_read (ex_entry ''Open'' []) 0 ''a.po'', group_read (ex_entry ''Quit'' []) 1 ''a.po''] ! i)
       ([group_read (ex_entry ''Open'' ''Abrir'') 0 ''a.po'', group_read (ex_entry ''Quit'' ''Sair'') 1 ''a.po''] ! j)}"
    using equal_messages_pairs[OF ex_content_groups ex_content_groups ex_content_keys ex_content_keys]
    by (simp del: nth_Cons_Suc nth_Cons_0 add: numeral_2_eq_2) blast
  have "(11, 21) \<in> set l"
    unfolding l(2) by (rule CollectI, rule exI[of _ 1], rule exI[of _ 1])
      (simp add: equalOrigText_def orig_eq_iff group_read_simps(3), simp add: ex_entry_def)
  moreover have "(10, 21) \<notin> set l"
    unfolding l(2) by (auto simp: equalOrigText_def orig_eq_iff group_read_simps(3)) (simp add: ex_entry_def)
  ultimately show ?thesis using l(1) by blast
qed

lemma ex_catalog_json: "\<exists>j. catalog_json (ex_catalog t1 t2) False = Inr j"
proof -
  have "\<exists>h. templateHeaderAsJson (''P'' @ pot_creation_pattern @ ''2012'' @ [CHR 0x0A]) = Inr h"
    by (rule exI[of _ "[(''pot_creation_date'', JStr ''2012'')]"]) code_simp
  then show ?thesis
    by (auto simp: catalog_json_def ex_catalog_def templateMessageAsString_def ex_entry_def)
qed


theorem readMessages_numbered_witness:
  "\<exists>gs m. readMessages (ex_content ''Abrir'' ''Sair'') = Inr gs \<and> m_messages (gs ! 1) = [m] \<and> m_index m = 1
     \<and> mt_view m = [Some ''Sair'']"
  using readMessages_numbered[OF ex_content_groups[of "''Abrir''" "''Sair''"] ex_content_read]
  by (auto simp: ex_content_groups ex_catalog_def live_def ex_entry_def dest!: spec[of _ 1])

theorem writeToFile_never_changes_witness:
  "content_writeToFile (ex_content ''Abrir'' ''Sair'') False = Inr None"
proof -
  obtain m1 m2 where m: "group_message (group_read (ex_entry ''Open'' ''Abrir'') 0 ''a.po'') 0 = Inr m1" "\<not> m_edited m1"
      "group_message (group_read (ex_entry ''Quit'' ''Sair'') 1 ''a.po'') 0 = Inr m2" "\<not> m_edited m2"
    using group_read_message by meson
  obtain out where out: "content_writeToFile (ex_content ''Abrir'' ''Sair'') False = Inr out"
    by (simp add: content_writeToFile_def ex_content_read ex_content_groups ex_catalog_def m isEdited_def
        group_read_simps(1))
  from writeToFile_never_changes[OF ex_content_read out] out show ?thesis by simp
qed

end
