(* ===== verification/IddiffDiff.thy ===== *)
theory IddiffDiff
  imports IddiffMerge Content
begin

text \<open>
  \<open>iddiff.cpp\<close>, lines 66-430: an iddiff from one file or from the difference of two files of the
  same template, of translations and of translator comments. \<open>getTpHash\<close> is the content's
  template hash and \<open>getFirstId\<close> the request \<open>stupidsClient.getFirstId\<close>.
\<close>

section \<open>Strings\<close>

text \<open>\<open>std::getline\<close> until it fails: a last line that is empty is no line.\<close>

fun getlines :: "string \<Rightarrow> string \<Rightarrow> string list" where
  "getlines [] cur = (if cur = [] then [] else [rev cur])"
| "getlines (c # cs) cur = (if c = CHR 0x0A then rev cur # getlines cs [] else getlines cs (c # cur))"

definition set_of_lines :: "string \<Rightarrow> string list" where
  "set_of_lines input = fold ss_insert (getlines input []) []"

fun join_strings :: "string list \<Rightarrow> string \<Rightarrow> string" where
  "join_strings [] sep = []"
| "join_strings [s] sep = s"
| "join_strings (s # t # ss) sep = s @ sep @ join_strings (t # ss) sep"

lemma is_prefix_length: "is_prefix p s \<Longrightarrow> length p \<le> length s"
  by (induction p s rule: is_prefix.induct) auto

lemma str_find_bound: "str_find p s = Some i \<Longrightarrow> i + length p \<le> length s"
  by (induction p s arbitrary: i rule: str_find.induct)
    (auto split: if_splits dest: is_prefix_length)

lemma str_find_from_bound: "str_find_from p s j = Some i \<Longrightarrow> j \<le> i \<and> i + length p \<le> length s"
  by (auto simp: str_find_from_def split: if_splits dest!: str_find_bound)

text \<open>The loop of \<open>split_string\<close>, whose caller has checked that \<open>sep\<close> is not empty.\<close>

function split_loop :: "string \<Rightarrow> string \<Rightarrow> nat \<Rightarrow> string list" where
  "split_loop str sep j = (case if sep = [] then None else str_find_from sep str j of
      Some i \<Rightarrow> (if j < i then [take (i - j) (List.drop j str)] else []) @ split_loop str sep (i + length sep)
    | None \<Rightarrow> (if j < length str then [List.drop j str] else []))"
  by pat_completeness auto
termination
proof (relation "measure (\<lambda>(str, sep, j). length str - j)")
  fix str sep :: string and j i
  assume "(if sep = [] then None else str_find_from sep str j) = Some i"
  then show "((str, sep, i + length sep), str, sep, j) \<in> measure (\<lambda>(str, sep, j). length str - j)"
    by (cases sep) (auto dest: str_find_from_bound)
qed simp

declare split_loop.simps [simp del]

definition split_string :: "string \<Rightarrow> string \<Rightarrow> string list res" where
  "split_string str sep = rassert (sep \<noteq> []) (Inr (split_loop str sep 0))"

text \<open>\<open>std::set_difference\<close> of two sorted ranges.\<close>

fun std_set_difference :: "'a::linorder list \<Rightarrow> 'a list \<Rightarrow> 'a list" where
  "std_set_difference [] bs = []"
| "std_set_difference (a # as) [] = a # as"
| "std_set_difference (a # as) (b # bs) =
     (if a < b then a # std_set_difference as (b # bs)
      else if b < a then std_set_difference (a # as) bs
      else std_set_difference as bs)"

text \<open>The template of the code: the second range it passes is from \<open>b.begin()\<close> to \<open>b.begin()\<close>.\<close>

definition lines_difference :: "'a::linorder list \<Rightarrow> 'a list \<Rightarrow> 'a list" where
  "lines_difference a b = std_set_difference a (take 0 b)"

section \<open>Translations\<close>

definition diff_header :: "iddiff \<Rightarrow> content \<Rightarrow> iddiff res" where
  "diff_header d c = rbind (content_date c) (\<lambda>date. rbind (content_author c) (\<lambda>author.
     Inr (d\<lparr>m_diffDate := date, m_authors := [author]\<rparr>)))"

text \<open>\<open>new IddiffMessage(m)\<close>, then the insertion.\<close>

definition insertAddedNew :: "iddiff \<Rightarrow> int \<Rightarrow> translation \<Rightarrow> iddiff res" where
  "insertAddedNew d k t = insertAdded (alloc d) k (heap_next d, t)"

definition insertRemovedNew :: "iddiff \<Rightarrow> int \<Rightarrow> translation \<Rightarrow> iddiff res" where
  "insertRemovedNew d k t = insertRemoved (alloc d) k (heap_next d, t)"

fun diff_empty_messages :: "iddiff \<Rightarrow> int \<Rightarrow> message_group list \<Rightarrow> iddiff res" where
  "diff_empty_messages d k [] = Inr d"
| "diff_empty_messages d k (g # gs) = rassert (group_size g = 1)
     (rbind (group_message g 0) (\<lambda>m.
      rbind (if \<not> msg_isUntranslated m \<and> \<not> isFuzzy m then insertAddedNew d k (im_of_message m) else Inr d)
        (\<lambda>d'. diff_empty_messages d' (k + 1) gs)))"

definition diffAgainstEmpty ::
    "(git_oid \<Rightarrow> int res) \<Rightarrow> (content \<Rightarrow> git_oid) \<Rightarrow> iddiff \<Rightarrow> content \<Rightarrow> iddiff res" where
  "diffAgainstEmpty getFirstId getTpHash d content_b =
     rbind (getFirstId (getTpHash content_b)) (\<lambda>first_id. rassert (first_id > 0)
       (rbind (diff_header (clearIddiff d) content_b) (\<lambda>d1.
        rbind (readMessages content_b) (\<lambda>gs. diff_empty_messages d1 first_id gs))))"

text \<open>The table of the 14 possible changes; -1 marks the combinations that cannot happen.\<close>

definition iddiff_bitarray :: "int list \<Rightarrow> int list" where
  "iddiff_bitarray p = [
     p ! 0, p ! 1, p ! 2, p ! 3, p ! 4, -1, -1, p ! 5,
     p ! 6, -1, p ! 7, -1, p ! 8, -1, -1, -1,
     p ! 9, p ! 10, -1, -1, p ! 11, -1, -1, -1,
     p ! 12, -1, -1, -1, p ! 13, -1, -1, -1]"

definition needAdded :: "int list" where
  "needAdded = iddiff_bitarray [1, 1, 0, 0, 0, 0, 1, 0, 1, 0, 0, 0, 0, 0]"

definition needRemoved :: "int list" where
  "needRemoved = iddiff_bitarray [1, 0, 1, 0, 0, 0, 1, 1, 0, 1, 0, 1, 0, 0]"

text \<open>The five bits are distinct, so that or-ing them is adding them.\<close>

definition index_code :: "message \<Rightarrow> message \<Rightarrow> nat" where
  "index_code a b = (if msg_isUntranslated a then 1 else 0) + (if msg_isUntranslated b then 2 else 0)
     + (if equalMsgstr a b then 4 else 0) + (if isFuzzy a then 8 else 0) + (if isFuzzy b then 16 else 0)"

definition diff_messages :: "iddiff \<Rightarrow> int \<Rightarrow> message \<Rightarrow> message \<Rightarrow> iddiff res" where
  "diff_messages d k a b =
     (let code = index_code a b in
      rassert (code < 32) (rassert (needRemoved ! code \<noteq> -1) (rassert (needAdded ! code \<noteq> -1)
        (rbind (if needRemoved ! code \<noteq> 0 then insertRemovedNew d k (im_of_message a) else Inr d)
          (\<lambda>d'. if needAdded ! code \<noteq> 0 then insertAddedNew d' k (im_of_message b) else Inr d')))))"

definition diffFiles ::
    "(git_oid \<Rightarrow> int res) \<Rightarrow> (content \<Rightarrow> git_oid) \<Rightarrow> iddiff \<Rightarrow> content \<Rightarrow> content \<Rightarrow> iddiff res" where
  "diffFiles getFirstId getTpHash d content_a content_b =
     rassert (oid_eq (getTpHash content_a) (getTpHash content_b))
       (rbind (getFirstId (getTpHash content_a)) (\<lambda>first_id. rassert (first_id > 0)
         (rbind (diff_header (clearIddiff d) content_b) (\<lambda>d1.
          rbind (readMessages content_a) (\<lambda>ga. rbind (readMessages content_b) (\<lambda>gb.
            rfold (\<lambda>d i. rbind (nth_res ga i) (\<lambda>x. rbind (group_message x 0) (\<lambda>ma.
                rbind (nth_res gb i) (\<lambda>y. rbind (group_message y 0) (\<lambda>mb.
                  diff_messages d (first_id + int i) ma mb)))))
              d1 [0..<length ga]))))))"

section \<open>Translator comments\<close>

definition comment_message :: "string list \<Rightarrow> translation" where
  "comment_message added = foldl (\<lambda>m c. addMsgstr m (os_of_string c)) mtb_empty added"

definition insert_comment_lines :: "iddiff \<Rightarrow> int \<Rightarrow> string list \<Rightarrow> iddiff res" where
  "insert_comment_lines d k added =
     (if length added > 0 then insertAddedNew d k (comment_message added) else Inr (alloc d))"

text \<open>The loop over the entries ends at the first obsolete message.\<close>

fun tr_comments_empty :: "iddiff \<Rightarrow> int \<Rightarrow> po_message list \<Rightarrow> iddiff res" where
  "tr_comments_empty d k [] = Inr d"
| "tr_comments_empty d k (b # bs) =
     (if po_obsolete b then Inr d
      else rbind (insert_comment_lines d k (lines_difference (set_of_lines (po_comments b)) []))
             (\<lambda>d'. tr_comments_empty d' (k + 1) bs))"

definition diffTrCommentsAgainstEmpty ::
    "(git_oid \<Rightarrow> int res) \<Rightarrow> (content \<Rightarrow> git_oid) \<Rightarrow> iddiff \<Rightarrow> content \<Rightarrow> iddiff res" where
  "diffTrCommentsAgainstEmpty getFirstId getTpHash d content_b =
     rbind (getFirstId (getTpHash content_b)) (\<lambda>first_id. rassert (first_id > 0)
       (rbind (diff_header (clearIddiff d) content_b) (\<lambda>d1.
        rbind (c_read content_b) (\<lambda>f. case f of
            None \<Rightarrow> Inl NullDeref
          | Some cat \<Rightarrow> tr_comments_empty d1 first_id (tl (po_entries cat))))))"

fun tr_comments_files :: "iddiff \<Rightarrow> int \<Rightarrow> po_message list \<Rightarrow> po_message list \<Rightarrow> iddiff res" where
  "tr_comments_files d k (a # as) (b # bs) =
     (if po_obsolete a \<or> po_obsolete b then Inr d
      else if po_comments a = po_comments b then tr_comments_files d (k + 1) as bs
      else rbind (insert_comment_lines d k
               (lines_difference (set_of_lines (po_comments b)) (set_of_lines (po_comments a))))
             (\<lambda>d'. tr_comments_files d' (k + 1) as bs))"
| "tr_comments_files d k _ _ = Inr d"

definition diffTrCommentsFiles ::
    "(git_oid \<Rightarrow> int res) \<Rightarrow> (content \<Rightarrow> git_oid) \<Rightarrow> iddiff \<Rightarrow> content \<Rightarrow> content \<Rightarrow> iddiff res" where
  "diffTrCommentsFiles getFirstId getTpHash d content_a content_b =
     rassert (oid_eq (getTpHash content_a) (getTpHash content_b))
       (rbind (getFirstId (getTpHash content_a)) (\<lambda>first_id. rassert (first_id > 0)
         (rbind (diff_header (clearIddiff d) content_b) (\<lambda>d1.
          rbind (c_read content_a) (\<lambda>fa. rbind (c_read content_b) (\<lambda>fb. case (fa, fb) of
              (Some ca, Some cb) \<Rightarrow> tr_comments_files d1 first_id (tl (po_entries ca)) (tl (po_entries cb))
            | _ \<Rightarrow> Inl NullDeref))))))"

end
