(* ===== verification/IddiffApply.thy ===== *)
theory IddiffApply
  imports IddiffDiff
begin

text \<open>
  \<open>iddiff.cpp\<close>, lines 744-880, and \<open>translation-collector.cpp\<close>: applying an iddiff to messages,
  and the collector that finds the messages of a set of files by their minimum IDs. The messages
  are objects that \<open>readMessages\<close> makes anew, so an applied message is returned as a value.
\<close>

section \<open>One message\<close>

definition canDropMessage :: "iddiff \<Rightarrow> message \<Rightarrow> int \<Rightarrow> bool res" where
  "canDropMessage d m min_id = rbind (findRemovedAll d min_id) (\<lambda>removed.
     Inr (if isFuzzy m \<or> msg_isUntranslated m then True
          else list_ex (\<lambda>x. equalMsgstr (snd x) m) removed))"

text \<open>The only message of a group, replaced by the edited one.\<close>

definition with_message :: "message_group \<Rightarrow> message \<Rightarrow> message_group" where
  "with_message g m = g\<lparr>m_messages := [m]\<rparr>"

definition applyToMessage :: "iddiff \<Rightarrow> message_group \<Rightarrow> int \<Rightarrow> message_group res" where
  "applyToMessage d g min_id = rassert (group_size g = 1)
     (rbind (group_message g 0) (\<lambda>m.
      rbind (findAddedSingle d min_id) (\<lambda>added.
      rbind (canDropMessage d m min_id) (\<lambda>can_drop.
        if can_drop then (case added of
            Some t \<Rightarrow> rbind (copyTranslationsToMessage (snd t) m) (\<lambda>m'.
                        Inr (with_message g (editFuzzy m' False)))
          | None \<Rightarrow> Inr (with_message g (editFuzzy m True)))
        else (case added of
            Some t \<Rightarrow> if \<not> equalTranslations (snd t) m then report_conflict (im_of_message m) (snd t)
                      else Inr g
          | None \<Rightarrow> Inr g)))))"

definition applyToMessageComments :: "iddiff \<Rightarrow> message_group \<Rightarrow> int \<Rightarrow> message_group res" where
  "applyToMessageComments d g min_id = rassert (group_size g = 1)
     (rbind (group_message g 0) (\<lambda>m.
      rbind (os_to_string (m_msgcomments m)) (\<lambda>old.
      rbind (findRemovedSingle d min_id) (\<lambda>removed.
      rbind (case removed of Some t \<Rightarrow> msgstr_strings (snd t) | None \<Rightarrow> Inr []) (\<lambda>rs.
      rbind (findAddedSingle d min_id) (\<lambda>added.
      rbind (case added of Some t \<Rightarrow> msgstr_strings (snd t) | None \<Rightarrow> Inr []) (\<lambda>as.
        let comments = fold ss_insert as (fold ss_erase rs (set_of_lines old));
            joined_comments = join_strings comments [CHR 0x0A]
        in Inr (with_message g (editMsgcomments m (os_of_string joined_comments))))))))))"

section \<open>One content\<close>

text \<open>
  \<open>std::binary_search\<close> in \<open>involvedIds()\<close>, which is sorted: whether the ID is there. \<open>min_ids[i]\<close>
  beyond the vector is undefined.
\<close>

fun apply_groups :: "iddiff \<Rightarrow> int list \<Rightarrow> message_group list \<Rightarrow> int list \<Rightarrow> message_group list res" where
  "apply_groups d involved_ids [] ids = Inr []"
| "apply_groups d involved_ids (g # gs) [] = Inl OutOfBounds"
| "apply_groups d involved_ids (g # gs) (k # ks) =
     rbind (if k \<in> set involved_ids then applyToMessage d g k else Inr g) (\<lambda>g'.
     rbind (apply_groups d involved_ids gs ks) (\<lambda>gs'. Inr (g' # gs')))"

text \<open>The groups edited are those of this reading, and the content is not written.\<close>

definition applyToContent :: "(git_oid \<Rightarrow> int list res) \<Rightarrow> (content \<Rightarrow> git_oid) \<Rightarrow> iddiff \<Rightarrow> content \<Rightarrow>
    (message_group list \<times> content) res" where
  "applyToContent request getTpHash d content =
     rbind (readMessages content) (\<lambda>gs.
     rbind (content_getMinIds request getTpHash content) (\<lambda>(ids, content').
     rbind (apply_groups d (involvedIds d) gs ids) (\<lambda>gs'. Inr (gs', content'))))"

section \<open>The collector\<close>

record collector =
  m_contents :: "content list"
  m_trans :: "(int, message_group) omap"
  m_transInit :: bool

definition new_collector :: collector where
  "new_collector = \<lparr>m_contents = [], m_trans = [], m_transInit = False\<rparr>"

definition insertPo :: "collector \<Rightarrow> content \<Rightarrow> collector" where
  "insertPo co c = co\<lparr>m_contents := m_contents co @ [c]\<rparr>"

text \<open>What the file system has: \<open>None\<close> when the file cannot be opened.\<close>

definition insertPoOrTemplate :: "(string \<Rightarrow> catalog option res option) \<Rightarrow> collector \<Rightarrow> string \<Rightarrow> string \<Rightarrow>
    collector res" where
  "insertPoOrTemplate fs co template_path translation_path =
     (case fs translation_path of
        Some rd \<Rightarrow> Inr (insertPo co (new_content rd (Some translation_path)))
      | None \<Rightarrow> (case fs template_path of
          Some rd \<Rightarrow> Inr (insertPo co (setDisplayFilename (new_content rd (Some template_path)) translation_path))
        | None \<Rightarrow> Inl AssertFail))"

text \<open>The loop over the messages of one content.\<close>

fun trans_add :: "(int, message_group) omap \<Rightarrow> message_group list \<Rightarrow> int list \<Rightarrow> (int, message_group) omap res" where
  "trans_add tr (g # gs) (k # ks) = (case map_of tr k of
      None \<Rightarrow> trans_add (om_set k g tr) gs ks
    | Some h \<Rightarrow> rbind (mergeMessageGroup h g) (\<lambda>h'. trans_add (om_set k h' tr) gs ks))"
| "trans_add tr _ _ = Inr tr"

text \<open>The loop over the contents; it returns them with the IDs they have got from the server.\<close>

fun trans_contents :: "(content \<Rightarrow> (int list \<times> content) res) \<Rightarrow> (int, message_group) omap \<Rightarrow> content list \<Rightarrow>
    ((int, message_group) omap \<times> content list) res" where
  "trans_contents getMinIds tr [] = Inr (tr, [])"
| "trans_contents getMinIds tr (c # cs) =
     rbind (getMinIds c) (\<lambda>(ids, c').
     rbind (readMessages c') (\<lambda>gs. rassert (length gs = length ids)
       (rbind (trans_add tr gs ids) (\<lambda>tr'.
        rbind (trans_contents getMinIds tr' cs) (\<lambda>(tr'', cs'). Inr (tr'', c' # cs'))))))"

definition initTransConfl :: "(content \<Rightarrow> (int list \<times> content) res) \<Rightarrow> collector \<Rightarrow> collector res" where
  "initTransConfl getMinIds co =
     (if m_transInit co then Inr co
      else rbind (trans_contents getMinIds (m_trans co) (m_contents co)) (\<lambda>(tr, cs).
             Inr (co\<lparr>m_transInit := True, m_trans := tr, m_contents := cs\<rparr>)))"

text \<open>Whether a translation differs from the first one; the comparison stops there.\<close>

fun some_differs :: "message \<Rightarrow> message list \<Rightarrow> bool res" where
  "some_differs m [] = Inr False"
| "some_differs m (m' # ms) =
     rbind (equalTranslationsComments m m') (\<lambda>eq. if \<not> eq then Inr True else some_differs m ms)"

text \<open>\<open>m_trans[min_id]\<close> is a null pointer when the ID is absent.\<close>

definition conflictingTrans :: "(content \<Rightarrow> (int list \<times> content) res) \<Rightarrow> collector \<Rightarrow> int \<Rightarrow>
    (bool \<times> collector) res" where
  "conflictingTrans getMinIds co min_id = rbind (initTransConfl getMinIds co) (\<lambda>co'.
     case map_of (m_trans co') min_id of
       None \<Rightarrow> Inl NullDeref
     | Some g \<Rightarrow> rassert (group_size g > 0) (rbind (group_message g 0) (\<lambda>m.
         rbind (some_differs m (tl (m_messages g))) (\<lambda>b. Inr (b, co')))))"

fun list_conflicting :: "(content \<Rightarrow> (int list \<times> content) res) \<Rightarrow> collector \<Rightarrow> int list \<Rightarrow> int list res" where
  "list_conflicting getMinIds co [] = Inr []"
| "list_conflicting getMinIds co (k # ks) =
     rbind (conflictingTrans getMinIds co k) (\<lambda>(b, co').
     rbind (list_conflicting getMinIds co' ks) (\<lambda>r. Inr (if b then k # r else r)))"

definition listConflicting :: "(content \<Rightarrow> (int list \<times> content) res) \<Rightarrow> collector \<Rightarrow> (int list \<times> collector) res" where
  "listConflicting getMinIds co = rbind (initTransConfl getMinIds co) (\<lambda>co'.
     rbind (list_conflicting getMinIds co' (om_keys (m_trans co'))) (\<lambda>r. Inr (r, co')))"

definition listVariants :: "(content \<Rightarrow> (int list \<times> content) res) \<Rightarrow> collector \<Rightarrow> int \<Rightarrow>
    (message_group \<times> collector) res" where
  "listVariants getMinIds co min_id = rbind (initTransConfl getMinIds co) (\<lambda>co'.
     case map_of (m_trans co') min_id of Some g \<Rightarrow> Inr (g, co') | None \<Rightarrow> Inl AssertFail)"

text \<open>\<open>request\<close> is \<open>stupidsClient.involvedByMinIds\<close>. The result is a list of positions in \<open>m_contents\<close>.\<close>

definition col_involvedByMinIds ::
    "(git_oid list \<Rightarrow> int list \<Rightarrow> int list res) \<Rightarrow> (content \<Rightarrow> git_oid) \<Rightarrow> collector \<Rightarrow> int list \<Rightarrow> nat list res" where
  "col_involvedByMinIds request getTpHash co ids =
     rbind (request (map getTpHash (m_contents co)) ids) (\<lambda>indices.
       rmap (\<lambda>i. rassert (0 \<le> i \<and> i < int (length (m_contents co))) (Inr (nat i))) indices)"

text \<open>\<open>messages[id].push_back(group)\<close>, in the order of the IDs.\<close>

definition push_group :: "int \<Rightarrow> message_group \<Rightarrow> (int, message_group list) omap \<Rightarrow>
    (int, message_group list) omap" where
  "push_group k g m = om_set k ((case map_of m k of Some gs \<Rightarrow> gs | None \<Rightarrow> []) @ [g]) m"

fun collect_messages :: "int list \<Rightarrow> message_group list \<Rightarrow> int list \<Rightarrow> (int, message_group list) omap \<Rightarrow>
    (int, message_group list) omap" where
  "collect_messages ids (g # gs) (k # ks) m =
     collect_messages ids gs ks (if k \<in> set ids then push_group k g m else m)"
| "collect_messages ids _ _ m = m"

definition getMessagesByIds ::
    "(git_oid list \<Rightarrow> int list \<Rightarrow> int list res) \<Rightarrow> (content \<Rightarrow> git_oid) \<Rightarrow> (content \<Rightarrow> (int list \<times> content) res) \<Rightarrow>
     collector \<Rightarrow> int list \<Rightarrow> ((int, message_group list) omap \<times> nat list \<times> collector) res" where
  "getMessagesByIds request getTpHash getMinIds co ids0 =
     (let ids = sort ids0 in
      rbind (col_involvedByMinIds request getTpHash co ids) (\<lambda>contents.
      rbind (rfold (\<lambda>(m, co) i.
          rbind (readMessages (m_contents co ! i)) (\<lambda>gs.
          rbind (getMinIds (m_contents co ! i)) (\<lambda>(ks, c'). rassert (length gs = length ks)
            (Inr (collect_messages ids gs ks m, co\<lparr>m_contents := (m_contents co)[i := c']\<rparr>)))))
        ([], co) contents) (\<lambda>(m, co').
        Inr (m, contents, co'))))"

section \<open>All files\<close>

fun apply_all :: "iddiff \<Rightarrow> bool \<Rightarrow> int \<Rightarrow> message_group list \<Rightarrow> message_group list res" where
  "apply_all d applyComments k [] = Inr []"
| "apply_all d applyComments k (g # gs) =
     rbind (if applyComments then applyToMessageComments d g k else applyToMessage d g k) (\<lambda>g'.
     rbind (apply_all d applyComments k gs) (\<lambda>gs'. Inr (g' # gs')))"

text \<open>
  The warning for an ID that no file has prints the added translation, if there is one to print.
\<close>

definition warn_not_found :: "iddiff \<Rightarrow> int \<Rightarrow> unit res" where
  "warn_not_found d k = rbind (findAddedSingle d k) (\<lambda>added. case added of
      None \<Rightarrow> Inl NullDeref
    | Some t \<Rightarrow> rbind (mtb_writeJson (snd t)) (\<lambda>_. Inr ()))"

definition apply_ids :: "iddiff \<Rightarrow> bool \<Rightarrow> (int, message_group list) omap \<Rightarrow> int list \<Rightarrow>
    (int \<times> message_group list) list res" where
  "apply_ids d applyComments messages ids =
     rmap (\<lambda>k. let gs = (case map_of messages k of Some gs \<Rightarrow> gs | None \<Rightarrow> []) in
       rbind (apply_all d applyComments k gs) (\<lambda>gs'.
       rbind (if length gs = 0 then warn_not_found d k else Inr ()) (\<lambda>_. Inr (k, gs')))) ids"

text \<open>The edited messages, and what is written for every content with its file name.\<close>

definition applyIddiff ::
    "(git_oid list \<Rightarrow> int list \<Rightarrow> int list res) \<Rightarrow> (content \<Rightarrow> git_oid) \<Rightarrow> (content \<Rightarrow> (int list \<times> content) res) \<Rightarrow>
     iddiff \<Rightarrow> collector \<Rightarrow> bool \<Rightarrow>
     ((int \<times> message_group list) list \<times> (string \<times> catalog option) list \<times> collector) res" where
  "applyIddiff request getTpHash getMinIds d co applyComments = rassert (m_minimizedIds d)
     (rbind (getMessagesByIds request getTpHash getMinIds co (involvedIds d)) (\<lambda>(messages, contents, co').
      rbind (apply_ids d applyComments messages (involvedIds d)) (\<lambda>edited.
      rbind (rmap (\<lambda>i. let c = m_contents co' ! i in
               rbind (content_writeToFile c True) (\<lambda>out. Inr (m_displayFilename c, out))) contents)
        (\<lambda>written. Inr (edited, written, co')))))"

end
