(* ===== verification/IddiffDiffFacts.thy ===== *)
theory IddiffDiffFacts
  imports IddiffApply ContentFacts
begin

text \<open>
  The iddiff of two files: what it holds for every ID, and that applying it to the first file
  gives the translations of the second.
\<close>

section \<open>No idle entries\<close>

text \<open>Every ID that is present has a change.\<close>

definition no_idle :: "iddiff \<Rightarrow> bool" where
  "no_idle d \<longleftrightarrow> (\<forall>k. map_of (m_items d) k \<noteq> None \<longrightarrow> \<not> change_empty (change_of d k))"

definition empty_sections :: sections where
  "empty_sections = \<lparr>s_removed = {}, s_added = {}, s_review = None\<rparr>"

lemma no_idle_put: "no_idle d \<Longrightarrow> \<not> change_empty c \<Longrightarrow> no_idle (put_change d k c)"
  by (auto simp: no_idle_def) (auto simp: put_change_def map_of_om_set split: if_splits)

lemma no_idle_alloc: "no_idle d \<Longrightarrow> no_idle (alloc d)"
  by (simp add: no_idle_def) (simp add: alloc_def)

lemma new_clone:
  "insertAddedNew d k t = insertAddedClone d (k, (0, t))"
  "insertRemovedNew d k t = insertRemovedClone d (k, (0, t))"
  by (simp_all add: insertAddedNew_def insertRemovedNew_def insertAddedClone_def insertRemovedClone_def)

lemma insertNew_no_idle:
  assumes "iddiff_ok d" "no_idle d"
  shows "insertRemovedNew d k t = Inr d' \<Longrightarrow> no_idle d'"
    "insertAddedNew d k t = Inr d' \<Longrightarrow> no_idle d'"
proof -
  have a: "iddiff_ok (alloc d)" "no_idle (alloc d)"
    using assms by (simp_all add: iddiff_ok_alloc no_idle_alloc)
  { assume "insertRemovedNew d k t = Inr d'"
    then show "no_idle d'"
      using a by (auto simp: insertRemovedNew_def insertRemoved_eq split: if_splits
          intro!: no_idle_put) (auto simp: change_empty_def emptyRemoved_def) }
  assume ins: "insertAddedNew d k t = Inr d'"
  then have "item_view (heap_next d, t) \<notin> removed_of (alloc d) k"
    using insertAdded_conflict[OF a(1), of "(heap_next d, t)" k] by (auto simp: insertAddedNew_def)
  from insertAdded_eq[OF a(1) this] ins a(2) show "no_idle d'"
    by (auto simp: insertAddedNew_def split: if_splits intro!: no_idle_put)
      (auto simp: change_empty_def emptyAdded_def)
qed

lemma involvedIds_iff:
  assumes "iddiff_ok d" "no_idle d"
  shows "k \<in> set (involvedIds d) \<longleftrightarrow> sections_of d k \<noteq> empty_sections"
proof -
  have "sections_of d k = empty_sections \<longleftrightarrow> change_empty (change_of d k)"
    by (auto simp: sections_of_def removed_of_def added_of_def review_of_def empty_sections_def
        change_empty_def emptyReview_def emptyAdded_def emptyRemoved_def)
  moreover have "change_empty (change_of d k) \<longleftrightarrow> map_of (m_items d) k = None"
    using assms(2) by (auto simp: no_idle_def change_of_def change_empty_def new_change_def
        emptyReview_def emptyAdded_def emptyRemoved_def)
  moreover have "k \<in> set (involvedIds d) \<longleftrightarrow> map_of (m_items d) k \<noteq> None"
    by (simp add: involvedIds_def sort_uniq_def om_keys_def map_of_eq_None_iff)
  ultimately show ?thesis by simp
qed

lemma cleared:
  "iddiff_ok (clearIddiff d)" "no_idle (clearIddiff d)" "sections_of (clearIddiff d) = (\<lambda>_. empty_sections)"
  by (auto simp: clearIddiff_def iddiff_ok_def om_inv_Nil no_idle_def sections_of_def removed_of_def
      added_of_def review_of_def change_of_def new_change_def empty_sections_def)

section \<open>One pair of messages\<close>

definition diff_sections :: "message \<Rightarrow> message \<Rightarrow> sections" where
  "diff_sections a b = \<lparr>
     s_removed = (if \<not> msg_isUntranslated a \<and> (if isFuzzy b then \<not> isFuzzy a else mt_view a \<noteq> mt_view b)
       then {mt_view a} else {}),
     s_added = (if \<not> msg_isUntranslated b \<and> \<not> isFuzzy b \<and> (mt_view a \<noteq> mt_view b \<or> isFuzzy a)
       then {mt_view b} else {}),
     s_review = None\<rparr>"

text \<open>An untranslated message is not fuzzy.\<close>

definition legal :: "message \<Rightarrow> bool" where
  "legal m \<longleftrightarrow> \<not> (msg_isUntranslated m \<and> isFuzzy m)"

lemma table_codes:
  assumes "legal a" "legal b" "mt_view a = mt_view b \<longrightarrow> msg_isUntranslated a = msg_isUntranslated b"
  shows "index_code a b < 32"
    "needRemoved ! index_code a b = (if s_removed (diff_sections a b) \<noteq> {} then 1 else 0)"
    "needAdded ! index_code a b = (if s_added (diff_sections a b) \<noteq> {} then 1 else 0)"
  using assms
  by (auto simp: index_code_def needRemoved_def needAdded_def iddiff_bitarray_def diff_sections_def legal_def)

lemma diff_messages_refines:
  assumes ok: "iddiff_ok d" "no_idle d" and fresh: "sections_of d k = empty_sections"
    and ab: "legal a" "legal b" "mt_view a = mt_view b \<longrightarrow> msg_isUntranslated a = msg_isUntranslated b"
  shows "\<exists>d'. diff_messages d k a b = Inr d' \<and> iddiff_ok d' \<and> no_idle d'
    \<and> sections_of d' = (sections_of d)(k := diff_sections a b)"
proof -
  let ?s = "diff_sections a b"
  have 1: "\<exists>d1. (if s_removed ?s \<noteq> {} then insertRemovedNew d k (im_of_message a) else Inr d) = Inr d1
    \<and> iddiff_ok d1 \<and> no_idle d1 \<and> sections_of d1 = (sections_of d)(k := empty_sections\<lparr>s_removed := s_removed ?s\<rparr>)"
  proof (cases "s_removed ?s = {}")
    case True
    then show ?thesis using ok fresh by (auto simp: empty_sections_def fun_eq_iff)
  next
    case False
    then have "s_removed ?s = {mt_view a}" by (auto simp: diff_sections_def split: if_splits)
    with False show ?thesis
      using insertRemovedClone_refines[OF ok(1), of "(k, (0, im_of_message a))"] fresh
        insertNew_no_idle(1)[OF ok]
      by (auto simp: new_clone p_remove_def empty_sections_def refines_Some)
  qed
  then obtain d1 where d1: "(if s_removed ?s \<noteq> {} then insertRemovedNew d k (im_of_message a) else Inr d) = Inr d1"
    "iddiff_ok d1" "no_idle d1" "sections_of d1 = (sections_of d)(k := empty_sections\<lparr>s_removed := s_removed ?s\<rparr>)"
    by blast
  have 2: "\<exists>d2. (if s_added ?s \<noteq> {} then insertAddedNew d1 k (im_of_message b) else Inr d1) = Inr d2
    \<and> iddiff_ok d2 \<and> no_idle d2 \<and> sections_of d2 = (sections_of d)(k := ?s)"
  proof (cases "s_added ?s = {}")
    case True
    then have "?s = empty_sections\<lparr>s_removed := s_removed ?s\<rparr>"
      by (simp add: diff_sections_def empty_sections_def)
    then show ?thesis using d1 True by simp
  next
    case False
    then have add: "s_added ?s = {mt_view b}" by (auto simp: diff_sections_def split: if_splits)
    have "mt_view b \<notin> s_removed ?s" and rv: "s_review ?s = None"
      using False by (auto simp: diff_sections_def split: if_splits)
    then have "p_add (sections_of d1) k (mt_view b) = Some ((sections_of d)(k := ?s))"
      using add by (cases ?s) (simp add: p_add_def d1(4) empty_sections_def)
    with False show ?thesis
      using insertAddedClone_refines[OF d1(2), of "(k, (0, im_of_message b))"] insertNew_no_idle(2)[OF d1(2,3)]
      by (auto simp: new_clone refines_Some)
  qed
  then show ?thesis
    using d1(1) table_codes[OF ab] by (auto simp: diff_messages_def Let_def split: if_splits)
qed

section \<open>Two files\<close>

definition msg_of :: "message_group \<Rightarrow> message" where
  "msg_of g = hd (m_messages g)"

text \<open>A message as it is right after reading.\<close>

definition as_read :: "message_group \<Rightarrow> bool" where
  "as_read g \<longleftrightarrow> (\<exists>m. m_messages g = [m] \<and> None \<notin> set (mt_view m)
     \<and> (msg_isUntranslated m \<longleftrightarrow> (\<forall>s \<in> set (mt_view m). s = Some [])))"

lemma readMessages_catalog: "readMessages c = Inr gs \<Longrightarrow> \<exists>cat. c_read c = Inr (Some cat)"
  by (auto simp: readMessages_def readMessagesInternal_def res_simps split: option.splits)

lemma as_read_readMessages:
  assumes "readMessages c = Inr gs" "i < length gs"
  shows "as_read (gs ! i)"
proof -
  obtain cat where "c_read c = Inr (Some cat)" using readMessages_catalog[OF assms(1)] by blast
  then obtain pm where g: "gs ! i = group_read pm (int i) (m_displayFilename c)"
    using readMessages_groups(2)[OF assms(1) _ assms(2)] by blast
  obtain m where "m_messages (gs ! i) = [m]" "msg_isUntranslated m = po_message_is_untranslated pm"
      "mt_view m = map Some (if po_plural_forms pm = [] then [po_msgstr pm] else po_plural_forms pm)"
    using group_read_simps(2)[of pm "int i" "m_displayFilename c"] unfolding g by blast
  then show ?thesis by (auto simp: as_read_def po_message_is_untranslated_iff)
qed

lemma diff_header_ok:
  "readMessages c = Inr gs \<Longrightarrow> \<exists>dt au. diff_header d c = Inr (d\<lparr>m_diffDate := dt, m_authors := au\<rparr>)"
  by (auto simp: readMessages_def diff_header_def content_date_def content_author_def res_simps) metis

lemma header_irrelevant:
  "iddiff_ok (d\<lparr>m_diffDate := dt, m_authors := au\<rparr>) = iddiff_ok d"
  "no_idle (d\<lparr>m_diffDate := dt, m_authors := au\<rparr>) = no_idle d"
  "sections_of (d\<lparr>m_diffDate := dt, m_authors := au\<rparr>) = sections_of d"
  by (auto simp: iddiff_ok_def no_idle_def change_of_def sections_of_def removed_of_def added_of_def
      review_of_def fun_eq_iff)

definition range_sections :: "int \<Rightarrow> message_group list \<Rightarrow> message_group list \<Rightarrow> nat \<Rightarrow> patch" where
  "range_sections fid ga gb n k = (if fid \<le> k \<and> k < fid + int n
     then diff_sections (msg_of (ga ! nat (k - fid))) (msg_of (gb ! nat (k - fid))) else empty_sections)"

lemma range_sections_Suc:
  "range_sections fid ga gb (Suc n)
     = (range_sections fid ga gb n)(fid + int n := diff_sections (msg_of (ga ! n)) (msg_of (gb ! n)))"
  by (auto simp: range_sections_def fun_eq_iff)

lemma diff_loop:
  assumes "\<forall>g \<in> set ga \<union> set gb. as_read g \<and> legal (msg_of g)" "length ga \<le> length gb" "n \<le> length ga"
    and "iddiff_ok d" "no_idle d" "sections_of d = (\<lambda>_. empty_sections)"
  shows "\<exists>d'. rfold (\<lambda>d i. rbind (nth_res ga i) (\<lambda>x. rbind (group_message x 0) (\<lambda>ma.
       rbind (nth_res gb i) (\<lambda>y. rbind (group_message y 0) (\<lambda>mb.
         diff_messages d (fid + int i) ma mb))))) d [0..<n] = Inr d'
    \<and> iddiff_ok d' \<and> no_idle d' \<and> sections_of d' = range_sections fid ga gb n"
  using assms(3)
proof (induction n)
  case 0
  have "range_sections fid ga gb 0 = (\<lambda>_. empty_sections)" by (auto simp: range_sections_def fun_eq_iff)
  with assms(4-6) show ?case by simp
next
  case (Suc n)
  then obtain d1 where d1: "rfold (\<lambda>d i. rbind (nth_res ga i) (\<lambda>x. rbind (group_message x 0) (\<lambda>ma.
       rbind (nth_res gb i) (\<lambda>y. rbind (group_message y 0) (\<lambda>mb.
         diff_messages d (fid + int i) ma mb))))) d [0..<n] = Inr d1"
    "iddiff_ok d1" "no_idle d1" "sections_of d1 = range_sections fid ga gb n" by auto
  have n: "n < length ga" "n < length gb" using Suc.prems assms(2) by simp_all
  obtain a b where ab: "m_messages (ga ! n) = [a]" "m_messages (gb ! n) = [b]"
      "msg_isUntranslated a \<longleftrightarrow> (\<forall>s \<in> set (mt_view a). s = Some [])"
      "msg_isUntranslated b \<longleftrightarrow> (\<forall>s \<in> set (mt_view b). s = Some [])" "legal a" "legal b"
    using assms(1) nth_mem[OF n(1)] nth_mem[OF n(2)] unfolding as_read_def msg_of_def
    by (metis Un_iff list.sel(1))
  have "sections_of d1 (fid + int n) = empty_sections" by (simp add: d1(4) range_sections_def)
  from diff_messages_refines[OF d1(2,3) this ab(5,6)] ab(3,4)
  obtain d' where d': "diff_messages d1 (fid + int n) a b = Inr d'" "iddiff_ok d'" "no_idle d'"
    "sections_of d' = (sections_of d1)(fid + int n := diff_sections a b)" by auto
  have "msg_of (ga ! n) = a" "msg_of (gb ! n) = b" using ab(1,2) by (simp_all add: msg_of_def)
  then have "sections_of d' = range_sections fid ga gb (Suc n)"
    by (simp add: d'(4) d1(4) range_sections_Suc)
  with d1(1) d' n ab(1,2) show ?case
    by (simp add: rfold_append group_message_def group_size_def fun_upd_def)
qed

lemma diffFiles_ok:
  assumes "readMessages a = Inr ga" "readMessages b = Inr gb" "length ga \<le> length gb"
    and "oid_eq (getTpHash a) (getTpHash b)" "getFirstId (getTpHash a) = Inr fid" "fid > 0"
    and "\<forall>g \<in> set ga \<union> set gb. legal (msg_of g)"
  shows "\<exists>d'. diffFiles getFirstId getTpHash d a b = Inr d' \<and> iddiff_ok d'
    \<and> sections_of d' = range_sections fid ga gb (length ga)
    \<and> (\<forall>k. k \<in> set (involvedIds d') \<longleftrightarrow> sections_of d' k \<noteq> empty_sections)"
proof -
  have read: "\<forall>g \<in> set ga \<union> set gb. as_read g \<and> legal (msg_of g)"
    using as_read_readMessages[OF assms(1)] as_read_readMessages[OF assms(2)] assms(7)
    by (auto simp: in_set_conv_nth)
  obtain dt au where h: "diff_header (clearIddiff d) b = Inr ((clearIddiff d)\<lparr>m_diffDate := dt, m_authors := au\<rparr>)"
    using diff_header_ok[OF assms(2)] by blast
  let ?d1 = "(clearIddiff d)\<lparr>m_diffDate := dt, m_authors := au\<rparr>"
  have d1: "iddiff_ok ?d1" "no_idle ?d1" "sections_of ?d1 = (\<lambda>_. empty_sections)"
    by (simp_all only: header_irrelevant cleared)
  from diff_loop[OF read assms(3) order.refl d1, of fid] assms h show ?thesis
    by (auto simp: diffFiles_def involvedIds_iff)
qed

lemma diff_result:
  assumes "readMessages a = Inr ga" "readMessages b = Inr gb" "length ga \<le> length gb"
    and "oid_eq (getTpHash a) (getTpHash b)" "getFirstId (getTpHash a) = Inr fid" "fid > 0"
    and "\<forall>g \<in> set ga \<union> set gb. legal (msg_of g)"
    and "diffFiles getFirstId getTpHash d a b = Inr d'"
  shows "iddiff_ok d'" "sections_of d' = range_sections fid ga gb (length ga)"
    "\<forall>k. k \<in> set (involvedIds d') \<longleftrightarrow> sections_of d' k \<noteq> empty_sections"
  using diffFiles_ok[of a ga b gb getTpHash getFirstId fid d] assms by auto

text \<open>
  C6. The difference of two files of one template: the iddiff rejects the first file's translation
  of a message when it is dropped or replaced, and accepts the second file's when it is new, by the
  table of the 14 possible changes; fuzzy translations are never accepted. No ID without a change
  is in it.
\<close>

theorem diffFiles_sections:
  assumes "readMessages a = Inr ga" "readMessages b = Inr gb" "length ga \<le> length gb"
    and "oid_eq (getTpHash a) (getTpHash b)" "getFirstId (getTpHash a) = Inr fid" "fid > 0"
    and "\<forall>g \<in> set ga \<union> set gb. legal (msg_of g)"
  shows "\<exists>d'. diffFiles getFirstId getTpHash d a b = Inr d' \<and> iddiff_ok d'
    \<and> sections_of d' = range_sections fid ga gb (length ga)
    \<and> (\<forall>k. k \<in> set (involvedIds d') \<longleftrightarrow> sections_of d' k \<noteq> empty_sections)"
  using assms by (rule diffFiles_ok)

section \<open>Applying\<close>

lemma canDrop_ok:
  "iddiff_ok d \<Longrightarrow> canDropMessage d m k =
     Inr (isFuzzy m \<or> msg_isUntranslated m \<or> mt_view m \<in> s_removed (sections_of d k))"
  by (force simp: canDropMessage_def findRemovedAll_ok list_ex_iff sections_of_def removed_of_def item_view_def
      image_iff)

text \<open>What a message is after the changes of its ID are applied to it.\<close>

definition applied :: "sections \<Rightarrow> message \<Rightarrow> message \<Rightarrow> bool" where
  "applied s m m' \<longleftrightarrow>
     (if isFuzzy m \<or> msg_isUntranslated m \<or> mt_view m \<in> s_removed s then
        (if s_added s = {} then mt_view m' = mt_view m \<and> isFuzzy m'
         else s_added s = {mt_view m'} \<and> \<not> isFuzzy m')
      else mt_view m' = mt_view m \<and> isFuzzy m' = isFuzzy m)"

lemma applyToMessage_ok:
  assumes ok: "iddiff_ok d" and g: "m_messages g = [m]" "None \<notin> set (mt_view m)"
    and n: "\<forall>v \<in> s_added (sections_of d k). length v = numPlurals m"
    and drop: "isFuzzy m \<or> msg_isUntranslated m \<or> mt_view m \<in> s_removed (sections_of d k)
      \<or> s_added (sections_of d k) = {}"
  shows "\<exists>m'. applyToMessage d g k = Inr (with_message g m') \<and> applied (sections_of d k) m m'"
  using ok
proof (cases rule: added_of_cases[of d k])
  case none
  then have "s_added (sections_of d k) = {}" by (simp add: sections_of_def)
  moreover have "with_message g m = g" using g(1) by (simp add: with_message_def)
  ultimately show ?thesis
    using none g(1) by (cases "isFuzzy m \<or> msg_isUntranslated m \<or> mt_view m \<in> s_removed (sections_of d k)")
      (auto simp: applyToMessage_def group_size_def group_message_def findAddedSingle_ok[OF ok] canDrop_ok[OF ok]
        applied_def isFuzzy_def intro: exI[of _ m] exI[of _ "editFuzzy m True"])
next
  case (one x)
  then have add: "s_added (sections_of d k) = {mt_view (snd x)}"
    by (simp add: sections_of_def item_view_def)
  with n have "numPlurals (snd x) = numPlurals m" by (simp add: numPlurals_view)
  from copyTranslations_ok[OF this g(2)] obtain m' where
    m': "copyTranslationsToMessage (snd x) m = Inr m'" "mt_view m' = mt_view (snd x)" by blast
  then show ?thesis
    using one g(1) add drop
    by (auto simp: applyToMessage_def group_size_def group_message_def findAddedSingle_ok[OF ok] canDrop_ok[OF ok]
        applied_def isFuzzy_def)
qed

text \<open>Applying the changes between \<open>a\<close> and \<open>b\<close> to \<open>a\<close>.\<close>

lemma applied_diff:
  assumes "legal a" "legal b"
    and "msg_isUntranslated a \<longleftrightarrow> (\<forall>s \<in> set (mt_view a). s = Some [])"
    and "msg_isUntranslated b \<longleftrightarrow> (\<forall>s \<in> set (mt_view b). s = Some [])"
  shows "applied (diff_sections a b) a m' \<Longrightarrow> diff_sections a b \<noteq> empty_sections \<Longrightarrow>
      if msg_isTranslated b then mt_view m' = mt_view b \<and> \<not> isFuzzy m' else mt_view m' = mt_view a \<and> isFuzzy m'"
    and "diff_sections a b = empty_sections \<Longrightarrow>
      if msg_isTranslated b then mt_view a = mt_view b \<and> \<not> isFuzzy a else \<not> msg_isTranslated a"
    and "isFuzzy a \<or> msg_isUntranslated a \<or> mt_view a \<in> s_removed (diff_sections a b) \<or> s_added (diff_sections a b) = {}"
  using assms
  by (auto simp: applied_def diff_sections_def empty_sections_def msg_isTranslated_def legal_def split: if_splits)

text \<open>What the edited file has where the second file is, translated or not.\<close>

definition brought_to :: "message \<Rightarrow> message \<Rightarrow> message \<Rightarrow> bool" where
  "brought_to a b m' \<longleftrightarrow>
     (if msg_isTranslated b then mt_view m' = mt_view b \<and> \<not> isFuzzy m'
      else mt_view m' = mt_view a \<and> (isFuzzy m' \<or> \<not> msg_isTranslated a))"

lemma apply_groups_diff:
  assumes d: "iddiff_ok d" "\<forall>k. k \<in> set ids \<longleftrightarrow> sections_of d k \<noteq> empty_sections"
    and "length ga = length gb"
    and "\<forall>g \<in> set ga \<union> set gb. as_read g \<and> legal (msg_of g)"
    and "\<forall>i < length ga. numPlurals (msg_of (ga ! i)) = numPlurals (msg_of (gb ! i))"
    and "\<forall>i < length ga. sections_of d (fid + int i) = diff_sections (msg_of (ga ! i)) (msg_of (gb ! i))"
  shows "\<exists>gs. apply_groups d ids ga (map (\<lambda>i. fid + int i) [0..<length ga]) = Inr gs \<and> length gs = length ga
    \<and> (\<forall>i < length ga. brought_to (msg_of (ga ! i)) (msg_of (gb ! i)) (msg_of (gs ! i)))"
  using assms(3-)
proof (induction ga gb arbitrary: fid rule: list_induct2')
  case (4 g ga h gb)
  then obtain a b where ab: "m_messages g = [a]" "m_messages h = [b]" "None \<notin> set (mt_view a)"
      "msg_isUntranslated a \<longleftrightarrow> (\<forall>s \<in> set (mt_view a). s = Some [])"
      "msg_isUntranslated b \<longleftrightarrow> (\<forall>s \<in> set (mt_view b). s = Some [])" "legal a" "legal b"
    by (fastforce simp: as_read_def msg_of_def)
  have m: "msg_of g = a" "msg_of h = b" using ab by (simp_all add: msg_of_def)
  have s: "sections_of d fid = diff_sections a b" and n: "numPlurals b = numPlurals a"
    using "4.prems"(3,4) m by auto
  have "\<exists>gs. apply_groups d ids ga (map (\<lambda>i. fid + 1 + int i) [0..<length ga]) = Inr gs \<and> length gs = length ga
    \<and> (\<forall>i < length ga. brought_to (msg_of (ga ! i)) (msg_of (gb ! i)) (msg_of (gs ! i)))"
  proof (rule "4.IH")
    show "\<forall>i < length ga. sections_of d (fid + 1 + int i) = diff_sections (msg_of (ga ! i)) (msg_of (gb ! i))"
      using "4.prems"(4) by (auto simp: algebra_simps dest: spec[of _ "Suc _"])
  qed (use "4.prems" in auto)
  then obtain gs where gs: "apply_groups d ids ga (map (\<lambda>i. fid + 1 + int i) [0..<length ga]) = Inr gs"
    "length gs = length ga" "\<forall>i < length ga. brought_to (msg_of (ga ! i)) (msg_of (gb ! i)) (msg_of (gs ! i))" by blast
  have ids: "map (\<lambda>i. fid + int i) [0..<length (g # ga)] = fid # map (\<lambda>i. fid + 1 + int i) [0..<length ga]"
    by (simp add: upt_conv_Cons map_Suc_upt[symmetric] comp_def algebra_simps del: upt_Suc)
  have len: "\<forall>v \<in> s_added (sections_of d fid). length v = numPlurals a"
    using n by (auto simp: s diff_sections_def numPlurals_view)
  obtain m' where m': "applyToMessage d g fid = Inr (with_message g m')" "applied (diff_sections a b) a m'"
    using applyToMessage_ok[OF d(1) ab(1,3) len] applied_diff(3)[OF ab(6,7,4,5)] unfolding s by blast
  have "\<exists>g'. (if fid \<in> set ids then applyToMessage d g fid else Inr g) = Inr g' \<and> brought_to a b (msg_of g')"
  proof (cases "fid \<in> set ids")
    case True
    with applied_diff(1)[OF ab(6,7,4,5) m'(2)] d(2) s m'(1) show ?thesis
      by (auto simp: brought_to_def msg_of_def with_message_def split: if_splits)
  next
    case False
    with applied_diff(2)[OF ab(6,7,4,5)] d(2) s m show ?thesis
      by (auto simp: brought_to_def split: if_splits)
  qed
  then obtain g' where g': "(if fid \<in> set ids then applyToMessage d g fid else Inr g) = Inr g'"
    "brought_to a b (msg_of g')" by blast
  show ?case
    unfolding ids using gs g' m by (auto simp: nth_Cons split: nat.splits)
qed auto

text \<open>
  C2. Applying the difference of two files to the first one, under the messages' own IDs, makes it
  say what the second one does: every translated message of the second file gets its translation
  and is not fuzzy; every other message keeps its text and does not count as translated.
\<close>

theorem diff_then_apply:
  assumes "readMessages a = Inr ga" "readMessages b = Inr gb" "length ga = length gb"
    and "oid_eq (getTpHash a) (getTpHash b)" "getFirstId (getTpHash a) = Inr fid" "fid > 0"
    and "\<forall>g \<in> set ga \<union> set gb. legal (msg_of g)"
    and "\<forall>i < length ga. numPlurals (msg_of (ga ! i)) = numPlurals (msg_of (gb ! i))"
    and "diffFiles getFirstId getTpHash d a b = Inr d'"
  shows "\<exists>gs. apply_groups d' (involvedIds d') ga (map (\<lambda>i. fid + int i) [0..<length ga]) = Inr gs
    \<and> length gs = length ga
    \<and> (\<forall>i < length ga. brought_to (msg_of (ga ! i)) (msg_of (gb ! i)) (msg_of (gs ! i)))"
proof (rule apply_groups_diff[OF _ _ assms(3) _ assms(8)])
  note d = diff_result[OF assms(1,2) _ assms(4-7,9)]
  show "iddiff_ok d'" "\<forall>k. k \<in> set (involvedIds d') \<longleftrightarrow> sections_of d' k \<noteq> empty_sections"
    "\<forall>i < length ga. sections_of d' (fid + int i) = diff_sections (msg_of (ga ! i)) (msg_of (gb ! i))"
    using d assms(3) by (simp_all add: range_sections_def)
  show "\<forall>g \<in> set ga \<union> set gb. as_read g \<and> legal (msg_of g)"
    using as_read_readMessages[OF assms(1)] as_read_readMessages[OF assms(2)] assms(7)
    by (auto simp: in_set_conv_nth)
qed

end
