(* ===== verification/IddiffComments.thy ===== *)
theory IddiffComments
  imports IddiffDiffFacts
begin

text \<open>
  Translator comments as sets of lines: what the comment diff holds, what applying it gives; and
  concrete instances of the properties of the iddiff of two files.
\<close>

section \<open>Lines\<close>

lemma getlines_line: "CHR 0x0A \<notin> set s \<Longrightarrow> getlines s cur = (if cur = [] \<and> s = [] then [] else [rev cur @ s])"
  by (induction s arbitrary: cur) auto

lemma getlines_append:
  "CHR 0x0A \<notin> set s \<Longrightarrow> getlines (s @ CHR 0x0A # t) cur = (rev cur @ s) # getlines t []"
  by (induction s arbitrary: cur) auto

lemma getlines_no_newline: "CHR 0x0A \<notin> set cur \<Longrightarrow> l \<in> set (getlines s cur) \<Longrightarrow> CHR 0x0A \<notin> set l"
  by (induction s cur rule: getlines.induct) (auto split: if_splits)

lemma getlines_join:
  "\<forall>l \<in> set ls. CHR 0x0A \<notin> set l \<Longrightarrow> ls \<noteq> [] \<Longrightarrow> last ls \<noteq> [] \<Longrightarrow> getlines (join_strings ls [CHR 0x0A]) [] = ls"
  by (induction ls "[CHR 0x0A]" rule: join_strings.induct) (auto simp: getlines_line getlines_append)

lemma sset_set_of_lines [simp]: "sset (set_of_lines s)"
  by (simp add: set_of_lines_def sset_fold_insert)

lemma set_set_of_lines: "set (set_of_lines s) = set (getlines s [])"
  by (simp add: set_of_lines_def set_fold_insert)

lemma set_of_lines_no_newline: "l \<in> set (set_of_lines s) \<Longrightarrow> CHR 0x0A \<notin> set l"
  using getlines_no_newline[of "[]" l s] by (simp add: set_set_of_lines)

text \<open>Only the set of the empty line alone is not read back: it is written as the empty string.\<close>

lemma set_of_lines_join:
  assumes "sset ls" "\<forall>l \<in> set ls. CHR 0x0A \<notin> set l" "ls \<noteq> [[]]"
  shows "set_of_lines (join_strings ls [CHR 0x0A]) = ls"
proof (cases "ls = []")
  case True
  then show ?thesis by (simp add: set_of_lines_def)
next
  case False
  have "last ls \<noteq> []"
  proof
    assume last: "last ls = []"
    with False have ls: "ls = butlast ls @ [[]]" by (metis append_butlast_last_id)
    have "butlast ls = []"
    proof (rule ccontr)
      assume "butlast ls \<noteq> []"
      then obtain x where "x \<in> set (butlast ls)" by fastforce
      moreover have "sorted_wrt (<) (butlast ls @ [[]])" using assms(1) ls by (simp add: sset_def)
      ultimately have "x < []" by (auto simp: sorted_wrt_append)
      then show False by simp
    qed
    with ls assms(3) show False by simp
  qed
  with False assms(2) have "set (getlines (join_strings ls [CHR 0x0A]) []) = set ls"
    by (simp add: getlines_join)
  then show ?thesis
    using sset_unique[OF sset_set_of_lines assms(1)] by (simp add: set_set_of_lines)
qed

lemma lines_difference_all [simp]: "lines_difference a b = a"
  by (cases a) (simp_all add: lines_difference_def)

section \<open>The comment diff\<close>

lemma comment_message_foldl:
  "mt_view (foldl (\<lambda>m c. addMsgstr m (os_of_string c)) t cs) = mt_view t @ map Some cs"
  by (induction cs arbitrary: t) (simp_all add: addMsgstr_def mt_view_def)

lemma comment_message_view [simp]: "mt_view (comment_message cs) = map Some cs"
  by (simp add: comment_message_def comment_message_foldl) (simp add: mtb_empty_def mt_view_def)

text \<open>
  The comment diff of two messages whose comments differ accepts all lines of the second
  comment, also those the first one already has.
\<close>

theorem comment_diff_whole:
  assumes "iddiff_ok d" "sections_of d k = empty_sections"
    and "\<not> po_obsolete a" "\<not> po_obsolete b" "po_comments a \<noteq> po_comments b" "set_of_lines (po_comments b) \<noteq> []"
  shows "\<exists>d'. tr_comments_files d k [a] [b] = Inr d' \<and> iddiff_ok d'
    \<and> added_of d' k = {map Some (set_of_lines (po_comments b))} \<and> removed_of d' k = {}"
proof -
  have "p_add (sections_of d) k (mt_view (comment_message (set_of_lines (po_comments b))))
    = Some ((sections_of d)(k := empty_sections\<lparr>s_added := {map Some (set_of_lines (po_comments b))}\<rparr>))"
    using assms(2) by (simp add: p_add_def empty_sections_def)
  with insertAddedClone_refines[OF assms(1), of "(k, (0, comment_message (set_of_lines (po_comments b))))"]
  obtain d' where d': "insertAddedNew d k (comment_message (set_of_lines (po_comments b))) = Inr d'" "iddiff_ok d'"
    "sections_of d' = (sections_of d)(k := empty_sections\<lparr>s_added := {map Some (set_of_lines (po_comments b))}\<rparr>)"
    by (auto simp: new_clone refines_Some)
  from d'(3) have "sections_of d' k = empty_sections\<lparr>s_added := {map Some (set_of_lines (po_comments b))}\<rparr>"
    by simp
  then have "added_of d' k = {map Some (set_of_lines (po_comments b))}" "removed_of d' k = {}"
    by (simp_all add: sections_of_def empty_sections_def)
  with d' assms(3-6) show ?thesis by (simp add: insert_comment_lines_def)
qed

section \<open>Applying comments\<close>

text \<open>The lines of the only item of a section.\<close>

definition section_lines :: "string option list set \<Rightarrow> string set" where
  "section_lines s = {l. \<exists>v \<in> s. Some l \<in> set v}"

lemma msgstr_strings_view:
  assumes "None \<notin> set (mt_view t)"
  shows "\<exists>ls. msgstr_strings t = Inr ls \<and> map Some ls = mt_view t"
proof -
  have s: "rbind (msgstr t i) os_to_string = Inr (the (mt_view t ! i))" if "i < numPlurals t" for i
  proof -
    from that have "mt_view t ! i \<in> set (mt_view t)" by (simp add: numPlurals_view)
    with assms obtain s where "mt_view t ! i = Some s" by (metis option.exhaust)
    moreover have "mt_view t ! i = os_view (m_msgstr t ! i)"
      using that by (simp add: mt_view_def numPlurals_def)
    ultimately show ?thesis
      using that by (simp add: msgstr_def numPlurals_def os_to_string_view)
  qed
  have "msgstr_strings t = Inr (map (\<lambda>i. the (mt_view t ! i)) [0..<numPlurals t])"
    unfolding msgstr_strings_def by (rule rmap_Inr_map) (simp add: s)
  moreover have "map Some (map (\<lambda>i. the (mt_view t ! i)) [0..<numPlurals t]) = mt_view t"
  proof (rule nth_equalityI)
    fix i assume "i < length (map Some (map (\<lambda>i. the (mt_view t ! i)) [0..<numPlurals t]))"
    then have "mt_view t ! i \<in> set (mt_view t)" and i: "i < numPlurals t" by (simp_all add: numPlurals_view)
    with assms have "mt_view t ! i \<noteq> None" by metis
    with i show "map Some (map (\<lambda>i. the (mt_view t ! i)) [0..<numPlurals t]) ! i = mt_view t ! i" by simp
  qed (simp add: numPlurals_view)
  ultimately show ?thesis by blast
qed

lemma section_strings:
  assumes "None \<notin> \<Union> (set ` item_view ` set xs)" "length xs \<le> 1"
  shows "\<exists>ls. (case (case xs of [] \<Rightarrow> None | x # _ \<Rightarrow> Some x) of Some t \<Rightarrow> msgstr_strings (snd t) | None \<Rightarrow> Inr []) = Inr ls
    \<and> set ls = section_lines (item_view ` set xs)"
proof (cases xs)
  case Nil
  then show ?thesis by (simp add: section_lines_def)
next
  case (Cons x ys)
  with assms have "xs = [x]" "None \<notin> set (mt_view (snd x))" by (auto simp: item_view_def)
  with msgstr_strings_view[of "snd x"] show ?thesis
    by (auto simp: section_lines_def item_view_def simp flip: set_map[of Some]) (metis image_eqI list.set_map option.inject imageE)+
qed

text \<open>
  Applying a comment diff to a message: the lines of its new comment are the old ones without
  the rejected and with the accepted ones (a comment of one empty line alone apart).
\<close>

theorem comments_applied:
  assumes ok: "iddiff_ok d" and g: "m_messages g = [m]" "os_view (m_msgcomments m) = Some old"
    and one: "length (m_removedItems (change_of d k)) \<le> 1"
    and strings: "None \<notin> \<Union> (set ` (removed_of d k \<union> added_of d k))"
    and lines: "\<forall>l \<in> section_lines (added_of d k). CHR 0x0A \<notin> set l"
    and new: "new = (set (set_of_lines old) - section_lines (removed_of d k)) \<union> section_lines (added_of d k)"
      "new \<noteq> {[]}"
  shows "\<exists>m' c. applyToMessageComments d g k = Inr (with_message g m')
    \<and> os_view (m_msgcomments m') = Some c \<and> set (set_of_lines c) = new \<and> mt_view m' = mt_view m"
proof -
  have rem: "findRemovedSingle d k = Inr (case m_removedItems (change_of d k) of [] \<Rightarrow> None | x # _ \<Rightarrow> Some x)"
    using one by (cases "m_removedItems (change_of d k)") (auto simp: findRemovedSingle_def findRemovedAll_ok[OF ok])
  have "length (m_addedItems (change_of d k)) \<le> 1"
    using iddiff_ok_change[OF ok] by (simp add: change_ok_def)
  then obtain rs as where
    rs: "(case (case m_removedItems (change_of d k) of [] \<Rightarrow> None | x # _ \<Rightarrow> Some x) of
        Some t \<Rightarrow> msgstr_strings (snd t) | None \<Rightarrow> Inr []) = Inr rs" "set rs = section_lines (removed_of d k)"
    and as: "(case (case m_addedItems (change_of d k) of [] \<Rightarrow> None | x # _ \<Rightarrow> Some x) of
        Some t \<Rightarrow> msgstr_strings (snd t) | None \<Rightarrow> Inr []) = Inr as" "set as = section_lines (added_of d k)"
    using section_strings[OF _ one] section_strings[of "m_addedItems (change_of d k)"] strings
    unfolding removed_of_def added_of_def by (auto simp: image_Un)
  let ?ls = "fold ss_insert as (fold ss_erase rs (set_of_lines old))"
  let ?c = "join_strings ?ls [CHR 0x0A]"
  have set: "set ?ls = new"
    by (auto simp: set_fold_insert set_fold_erase rs(2) as(2) new(1))
  have "sset ?ls" by (simp add: sset_fold_insert sset_fold_erase)
  moreover have "\<forall>l \<in> set ?ls. CHR 0x0A \<notin> set l"
    unfolding set new(1) using lines set_of_lines_no_newline by blast
  moreover have "?ls \<noteq> [[]]" using set new(2) by (metis list.set(1) list.set(2))
  ultimately have c: "set_of_lines ?c = ?ls" by (rule set_of_lines_join)
  have old: "os_to_string (m_msgcomments m) = Inr old"
    using g(2) by (simp add: os_to_string_view)
  have "applyToMessageComments d g k = Inr (with_message g (editMsgcomments m (os_of_string ?c)))"
    using g rem rs(1) as(1) old
    by (simp add: applyToMessageComments_def group_size_def group_message_def findAddedSingle_ok[OF ok] Let_def)
  moreover have "os_view (m_msgcomments (editMsgcomments m (os_of_string ?c))) = Some ?c"
    "mt_view (editMsgcomments m (os_of_string ?c)) = mt_view m"
    by (auto simp: editMsgcomments_def)
  ultimately show ?thesis using c set by metis
qed

section \<open>Witnesses\<close>

text \<open>The template of \<open>ex_content\<close> and its translation, with first ID 10.\<close>

lemma group_read_msg:
  "isFuzzy (msg_of (group_read pm i fn)) = po_fuzzy pm"
  "msg_isUntranslated (msg_of (group_read pm i fn)) = po_message_is_untranslated pm"
  "mt_view (msg_of (group_read pm i fn)) = map Some (if po_plural_forms pm = [] then [po_msgstr pm] else po_plural_forms pm)"
proof -
  obtain m where "m_messages (group_read pm i fn) = [m]" "m_fuzzy m = po_fuzzy pm"
    "msg_isUntranslated m = po_message_is_untranslated pm"
    "mt_view m = map Some (if po_plural_forms pm = [] then [po_msgstr pm] else po_plural_forms pm)"
    using group_read_simps(2)[of pm i fn] by blast
  then show "isFuzzy (msg_of (group_read pm i fn)) = po_fuzzy pm"
    "msg_isUntranslated (msg_of (group_read pm i fn)) = po_message_is_untranslated pm"
    "mt_view (msg_of (group_read pm i fn)) = map Some (if po_plural_forms pm = [] then [po_msgstr pm] else po_plural_forms pm)"
    by (simp_all add: msg_of_def isFuzzy_def)
qed

definition ex_hash :: "content \<Rightarrow> git_oid" where
  "ex_hash c = oid_zero"

definition ex_first :: "git_oid \<Rightarrow> int res" where
  "ex_first h = Inr 10"

definition ex_groups :: "string \<Rightarrow> string \<Rightarrow> message_group list" where
  "ex_groups t1 t2 = [group_read (ex_entry ''Open'' t1) 0 ''a.po'', group_read (ex_entry ''Quit'' t2) 1 ''a.po'']"

lemma ex_groups_read: "readMessages (ex_content t1 t2) = Inr (ex_groups t1 t2)"
  by (simp add: ex_content_groups ex_groups_def)

lemma ex_entry_msg:
  "isFuzzy (msg_of (group_read (ex_entry i t) k fn)) = False"
  "msg_isUntranslated (msg_of (group_read (ex_entry i t) k fn)) = (t = [])"
  "mt_view (msg_of (group_read (ex_entry i t) k fn)) = [Some t]"
  by (simp_all add: group_read_msg po_message_is_untranslated_iff) (simp_all add: ex_entry_def)

lemma ex_legal: "\<forall>g \<in> set (ex_groups t1 t2) \<union> set (ex_groups u1 u2). legal (msg_of g)"
  by (simp add: ex_groups_def legal_def ex_entry_msg)

lemma ex_hyps:
  "length (ex_groups t1 t2) = length (ex_groups u1 u2)"
  "oid_eq (ex_hash (ex_content t1 t2)) (ex_hash (ex_content u1 u2))"
  "ex_first (ex_hash (ex_content t1 t2)) = Inr 10" "(0 :: int) < 10"
  "\<forall>i < length (ex_groups t1 t2). numPlurals (msg_of (ex_groups t1 t2 ! i)) = numPlurals (msg_of (ex_groups u1 u2 ! i))"
  by (auto simp: ex_groups_def ex_hash_def ex_first_def numPlurals_view ex_entry_msg less_Suc_eq)

theorem diffFiles_sections_witness:
  "\<exists>d'. diffFiles ex_first ex_hash (new_iddiff (fdt_default 0 0)) (ex_content ''Abre'' []) (ex_content ''Abrir'' ''Sair'') = Inr d'
    \<and> added_of d' 10 = {[Some ''Abrir'']} \<and> removed_of d' 10 = {[Some ''Abre'']}
    \<and> added_of d' 11 = {[Some ''Sair'']} \<and> removed_of d' 11 = {}"
proof -
  obtain d' where d': "diffFiles ex_first ex_hash (new_iddiff (fdt_default 0 0)) (ex_content ''Abre'' []) (ex_content ''Abrir'' ''Sair'') = Inr d'"
    "sections_of d' = range_sections 10 (ex_groups ''Abre'' []) (ex_groups ''Abrir'' ''Sair'')
      (length (ex_groups ''Abre'' []))"
    using diffFiles_sections[where d = "new_iddiff (fdt_default 0 0)" and getTpHash = ex_hash and getFirstId = ex_first and fid = 10,
        OF ex_groups_read ex_groups_read eq_imp_le[OF ex_hyps(1)]
        ex_hyps(2,3,4) ex_legal, of "''Abre''" "[]" "''Abrir''" "''Sair''"]
    by blast
  have "sections_of d' 10 = \<lparr>s_removed = {[Some ''Abre'']}, s_added = {[Some ''Abrir'']}, s_review = None\<rparr>"
    "sections_of d' 11 = \<lparr>s_removed = {}, s_added = {[Some ''Sair'']}, s_review = None\<rparr>"
    by (simp_all add: d'(2) range_sections_def ex_groups_def diff_sections_def ex_entry_msg)
  then show ?thesis using d'(1) by (simp add: sections_of_def)
qed

theorem diff_then_apply_witness:
  "\<exists>d' gs. diffFiles ex_first ex_hash (new_iddiff (fdt_default 0 0)) (ex_content [] []) (ex_content ''Abrir'' ''Sair'') = Inr d'
    \<and> apply_groups d' (involvedIds d') (ex_groups [] []) [10, 11] = Inr gs
    \<and> map (mt_view \<circ> msg_of) gs = [[Some ''Abrir''], [Some ''Sair'']]"
proof -
  obtain d' where d': "diffFiles ex_first ex_hash (new_iddiff (fdt_default 0 0)) (ex_content [] []) (ex_content ''Abrir'' ''Sair'') = Inr d'"
    using diffFiles_ok[where d = "new_iddiff (fdt_default 0 0)" and getTpHash = ex_hash and getFirstId = ex_first and fid = 10,
        OF ex_groups_read ex_groups_read eq_imp_le[OF ex_hyps(1)]
        ex_hyps(2,3,4) ex_legal, of "[]" "[]" "''Abrir''" "''Sair''"] by blast
  obtain gs where gs: "apply_groups d' (involvedIds d') (ex_groups [] []) [10, 11] = Inr gs" "length gs = 2"
    "\<forall>i < 2. brought_to (msg_of (ex_groups [] [] ! i)) (msg_of (ex_groups ''Abrir'' ''Sair'' ! i)) (msg_of (gs ! i))"
    using diff_then_apply[where getTpHash = ex_hash and getFirstId = ex_first and fid = 10,
        OF ex_groups_read ex_groups_read ex_hyps(1,2,3,4) ex_legal ex_hyps(5) d']
    by (auto simp: ex_groups_def upt_conv_Cons)
  from gs(2) obtain g h where "gs = [g, h]" by (auto simp: length_Suc_conv numeral_2_eq_2)
  with gs(3) have "mt_view (msg_of g) = [Some ''Abrir''] \<and> mt_view (msg_of h) = [Some ''Sair'']"
    by (auto simp: ex_groups_def brought_to_def msg_isTranslated_def ex_entry_msg dest: spec[of _ 0] spec[of _ 1])
  with d' gs(1) \<open>gs = [g, h]\<close> show ?thesis by simp
qed

theorem comment_diff_whole_witness:
  "\<exists>d'. tr_comments_files (new_iddiff (fdt_default 0 0)) 5 [(ex_entry ''Open'' [])\<lparr>po_comments := ''x''\<rparr>]
      [(ex_entry ''Open'' [])\<lparr>po_comments := ''x'' @ [CHR 0x0A] @ ''y''\<rparr>] = Inr d'
    \<and> [Some ''x'', Some ''y''] \<in> added_of d' 5"
proof -
  have l: "set_of_lines (''x'' @ [CHR 0x0A] @ ''y'') = [''x'', ''y'']" by code_simp
  have s: "sections_of (new_iddiff (fdt_default 0 0)) 5 = empty_sections"
    by (simp add: new_iddiff_def sections_of_def removed_of_def added_of_def review_of_def change_of_def
        new_change_def empty_sections_def)
  show ?thesis
    using comment_diff_whole[OF iddiff_ok_new s, of "(ex_entry ''Open'' [])\<lparr>po_comments := ''x''\<rparr>"
        "(ex_entry ''Open'' [])\<lparr>po_comments := ''x'' @ [CHR 0x0A] @ ''y''\<rparr>"] l
    by (auto simp: ex_entry_def)
qed

text \<open>The accepted comment line \<open>y\<close> joins the line \<open>x\<close>.\<close>

theorem comments_applied_witness:
  "\<exists>d g m' c. applyToMessageComments d g 5 = Inr (with_message g m')
    \<and> os_view (m_msgcomments m') = Some c \<and> set (set_of_lines c) = {''x'', ''y''}"
proof -
  let ?m = "(message_of_base mtb_empty 0 ''a.po'' (os_of_string ''x''))"
  let ?g = "orig_text.extend orig_empty \<lparr>m_messages = [?m]\<rparr>"
  let ?d = "put_change ((new_iddiff (fdt_default 0 0))\<lparr>heap_next := 1\<rparr>) 5
    (new_change\<lparr>m_addedItems := [(0, comment_message [''y''])]\<rparr>)"
  have base: "iddiff_ok ((new_iddiff (fdt_default 0 0))\<lparr>heap_next := 1\<rparr>)"
    by (simp add: iddiff_ok_def new_iddiff_def om_inv_Nil)
  have ok: "iddiff_ok ?d"
    by (rule iddiff_ok_put[OF base]) (simp add: change_ok_def new_change_def change_items_def)
  have g: "m_messages ?g = [?m]" "os_view (m_msgcomments ?m) = Some ''x''"
    by (simp_all add: orig_text.extend_def message_of_base_def translation.extend_def)
  have r: "m_removedItems (change_of ?d 5) = []" "removed_of ?d 5 = {}" "added_of ?d 5 = {[Some ''y'']}"
    by (simp_all add: new_change_def removed_of_def added_of_def)
  have l: "section_lines {} = {}" "section_lines {[Some ''y'']} = {''y''}" "set (set_of_lines ''x'') = {''x''}"
    by (auto simp: section_lines_def)[2] code_simp
  have "{''x'', ''y''} = (set (set_of_lines ''x'') - section_lines (removed_of ?d 5)) \<union> section_lines (added_of ?d 5)"
    unfolding r l by blast
  note new = this
  have p: "length (m_removedItems (change_of ?d 5)) \<le> 1" "None \<notin> \<Union> (set ` (removed_of ?d 5 \<union> added_of ?d 5))"
    "\<forall>l \<in> section_lines (added_of ?d 5). CHR 0x0A \<notin> set l" "{''x'', ''y''} \<noteq> {[]}"
    unfolding r l by simp_all
  show ?thesis
    using comments_applied[OF ok g p(1-3) new p(4)] by (elim exE conjE) (intro exI conjI)
qed

end
