(* ===== verification/IddiffJson.thy ===== *)
theory IddiffJson
  imports IddiffDiffFacts
begin

text \<open>
  The \<open>.iddiff\<close> file format (\<open>iddiff.cpp\<close>, lines 33-41 and 442-677): the JSON document that
  \<open>generateIddiffText\<close> writes and \<open>loadIddiff\<close> reads, and that reading what was written gives the
  same iddiff. The documents are trees; \<open>print\<close> and \<open>parse\<close> are rapidjson's writer and parser.
\<close>

section \<open>Writing\<close>

definition message_list_json :: "translation list \<Rightarrow> json res" where
  "message_list_json ts = rbind (rmap mtb_writeJson ts) (\<lambda>js. Inr (JArr js))"

text \<open>A member that is written only for a list that is not empty.\<close>

definition list_member :: "string \<Rightarrow> translation list \<Rightarrow> (string \<times> json) list res" where
  "list_member name ts =
     (if ts \<noteq> [] then rbind (message_list_json ts) (\<lambda>j. Inr [(name, j)]) else Inr [])"

definition of_id :: "int \<Rightarrow> (int \<times> im_ptr) list \<Rightarrow> translation list" where
  "of_id intId v = map (\<lambda>x. snd (snd x)) (filter (\<lambda>x. intId = fst x) v)"

definition id_json :: "(int \<times> im_ptr) list \<Rightarrow> (int \<times> im_ptr) list \<Rightarrow> (int \<times> im_ptr) list \<Rightarrow> int \<Rightarrow> json res" where
  "id_json removed_list added_list review_list intId =
     rbind (list_member ''accept'' (of_id intId added_list)) (\<lambda>a.
     rbind (list_member ''reject'' (of_id intId removed_list)) (\<lambda>r.
     rbind (list_member ''review'' (of_id intId review_list)) (\<lambda>v.
       Inr (JObj ((''ref'', JObj [(''intid'', JInt intId)]) # a @ r @ v)))))"

definition generate_json :: "iddiff \<Rightarrow> json res" where
  "generate_json d =
     rbind (getRemovedVector d) (\<lambda>removed_list.
     rbind (getAddedVector d) (\<lambda>added_list.
     rbind (getReviewVector d) (\<lambda>review_list.
       if length removed_list = 0 \<and> length added_list = 0 \<and> length review_list = 0 then Inr (JObj [])
       else
         let ids = fold ss_insert (map fst review_list)
               (fold ss_insert (map fst added_list) (fold ss_insert (map fst removed_list) []))
         in rbind (rmap (id_json removed_list added_list review_list) ids) (\<lambda>messages.
              Inr (JObj [(''subject'', JStr (m_subject d)), (''authors'', JArr (map JStr (m_authors d))),
                (''dateCreated'', JStr (dateString (m_diffDate d))), (''messages'', JArr messages)])))))"

definition generateIddiffText :: "(json \<Rightarrow> string) \<Rightarrow> iddiff \<Rightarrow> string res" where
  "generateIddiffText print d = rbind (generate_json d) (\<lambda>j. Inr (print j))"

text \<open>What is written to the file, None when it is left alone.\<close>

definition id_writeToFile :: "(json \<Rightarrow> string) \<Rightarrow> iddiff \<Rightarrow> string option res" where
  "id_writeToFile print d = rbind (generateIddiffText print d) (\<lambda>t. Inr (if t \<noteq> [] then Some t else None))"

section \<open>Reading\<close>

definition load_message :: "json \<Rightarrow> translation res" where
  "load_message msgTree = rassert (j_is_object msgTree)
     (rbind (j_get msgTree ''fuzzy'') (\<lambda>f. rbind (j_bool f) (\<lambda>fuzzy.
      rbind (j_get msgTree ''msgstr'') (\<lambda>m. rbind (j_array m) (\<lambda>forms.
      rbind (rmap j_string forms) (\<lambda>strs.
        Inr (foldl (\<lambda>t s. addMsgstr t (os_of_cstr (Some s))) (setFuzzy mtb_empty fuzzy) strs)))))))"

definition loadMessageList :: "json \<Rightarrow> translation list res" where
  "loadMessageList j = rbind (j_array j) (\<lambda>msgs. rassert (length msgs > 0) (rmap load_message msgs))"

definition insertReviewNew :: "iddiff \<Rightarrow> int \<Rightarrow> translation \<Rightarrow> iddiff res" where
  "insertReviewNew d k t = insertReview (alloc d) k (heap_next d, t)"

text \<open>The member's messages are all read, then inserted one by one.\<close>

definition load_section ::
    "(iddiff \<Rightarrow> int \<Rightarrow> translation \<Rightarrow> iddiff res) \<Rightarrow> int \<Rightarrow> json option \<Rightarrow> iddiff \<Rightarrow> iddiff res" where
  "load_section insert_item intId oj d = (case oj of
      None \<Rightarrow> Inr d
    | Some j \<Rightarrow> rbind (loadMessageList j) (\<lambda>ts. rfold (\<lambda>d t. insert_item d intId t) d ts))"

definition load_id :: "iddiff \<Rightarrow> json \<Rightarrow> iddiff res" where
  "load_id d msg = rassert (j_is_object msg)
     (rbind (j_get msg ''ref'') (\<lambda>ref. rbind (j_get ref ''intid'') (\<lambda>i. rbind (j_int i) (\<lambda>intId.
      rbind (j_member_if msg ''accept'') (\<lambda>a. rbind (j_member_if msg ''reject'') (\<lambda>r.
      rbind (j_member_if msg ''review'') (\<lambda>v. rassert (a \<noteq> None \<or> r \<noteq> None \<or> v \<noteq> None)
        (rbind (load_section insertAddedNew intId a d) (\<lambda>d1.
         rbind (load_section insertRemovedNew intId r d1) (\<lambda>d2.
           load_section insertReviewNew intId v d2))))))))))"

definition load_json :: "iddiff \<Rightarrow> json \<Rightarrow> iddiff res" where
  "load_json d doc = rassert (j_is_object doc)
     (rbind (j_get doc ''subject'') (\<lambda>s. rbind (j_string s) (\<lambda>subject.
      rbind (j_get doc ''authors'') (\<lambda>a. rbind (j_array a) (\<lambda>as. rbind (rmap j_string as) (\<lambda>authors.
      rbind (j_member_if doc ''dateCreated'') (\<lambda>dc.
      rbind (case dc of None \<Rightarrow> Inr (m_diffDate d)
               | Some v \<Rightarrow> rbind (j_string v) (\<lambda>str. fromString (m_diffDate d) str)) (\<lambda>date.
      rbind (j_get doc ''messages'') (\<lambda>ms. rbind (j_array ms) (\<lambda>messages. rassert (length messages > 0)
        (rfold load_id (d\<lparr>m_subject := subject, m_authors := authors, m_diffDate := date\<rparr>) messages)))))))))))"

text \<open>The file's text, None when it cannot be opened. The result says whether it was read.\<close>

definition loadIddiff :: "(string \<Rightarrow> json) \<Rightarrow> iddiff \<Rightarrow> string option \<Rightarrow> (bool \<times> iddiff) res" where
  "loadIddiff parse d file = (case file of
      None \<Rightarrow> Inr (False, d)
    | Some text \<Rightarrow> if text = [] then Inr (False, d)
        else rbind (load_json d (parse text)) (\<lambda>d'. Inr (True, d')))"

section \<open>One message\<close>

text \<open>What the file keeps of a message, and what it is after reading.\<close>

definition content_of :: "translation \<Rightarrow> bool \<times> string option list" where
  "content_of t = (m_fuzzy t, mt_view t)"

definition writable :: "translation \<Rightarrow> bool" where
  "writable t \<longleftrightarrow> mt_view t \<noteq> [] \<and> None \<notin> set (mt_view t)"

definition reloaded :: "translation \<Rightarrow> translation" where
  "reloaded t = \<lparr>m_plural = False, m_fuzzy = m_fuzzy t, m_msgstr = map (\<lambda>s. os_of_cstr (Some (m_string s))) (m_msgstr t)\<rparr>"

lemma load_forms:
  "foldl (\<lambda>t s. addMsgstr t (os_of_cstr (Some s))) t ss = t\<lparr>m_msgstr := m_msgstr t @ map (\<lambda>s. os_of_cstr (Some s)) ss\<rparr>"
  by (induction ss arbitrary: t) (simp_all add: addMsgstr_def)

lemma rmap_j_string: "rmap j_string (map JStr ss) = Inr ss"
  by (induction ss) simp_all

lemma writable_message:
  assumes "writable t"
  shows "\<exists>j. mtb_writeJson t = Inr j \<and> load_message j = Inr (reloaded t)"
    and "content_of (reloaded t) = content_of t"
proof -
  have ne: "m_msgstr t \<noteq> []" and nn: "\<forall>s \<in> set (m_msgstr t). \<not> m_isNull s"
    using assms by (auto simp: writable_def mt_view_def os_view_def split: if_splits)
  have "rmap j_string (map (JStr \<circ> m_string) (m_msgstr t)) = Inr (map m_string (m_msgstr t))"
    using rmap_j_string[of "map m_string (m_msgstr t)"] by (simp add: comp_def)
  then show "\<exists>j. mtb_writeJson t = Inr j \<and> load_message j = Inr (reloaded t)"
    using ne nn by (simp add: mtb_writeJson_cases load_message_def load_forms setFuzzy_def mtb_empty_def
        reloaded_def comp_def)
  show "content_of (reloaded t) = content_of t"
    using nn by (auto simp: content_of_def reloaded_def mt_view_def os_view_def os_of_cstr_def)
qed

lemma writable_list:
  assumes "\<forall>t \<in> set ts. writable t"
  shows "\<exists>js. rmap mtb_writeJson ts = Inr js \<and> length js = length ts \<and> rmap load_message js = Inr (map reloaded ts)"
  using assms
proof (induction ts)
  case Nil
  then show ?case by simp
next
  case (Cons t ts)
  then show ?case using writable_message(1)[of t] by fastforce
qed

lemma reloaded_view [simp]: "writable t \<Longrightarrow> mt_view (reloaded t) = mt_view t" "m_fuzzy (reloaded t) = m_fuzzy t"
  using writable_message(2)[of t] by (simp_all add: content_of_def) (simp add: reloaded_def)

end
