(* ===== verification/IddiffRoundtrip.thy ===== *)
theory IddiffRoundtrip
  imports IddiffJson
begin

text \<open>Reading the document that was written for an iddiff gives the iddiff back.\<close>

section \<open>Listing by ID\<close>

lemma section_vector_of_id:
  assumes "section_vector sec its = Inr v" "distinct (map fst its)"
  shows "of_id k v = (case map_of its k of Some (Some c) \<Rightarrow> map snd (sec c) | _ \<Rightarrow> [])"
    and "fst ` set v \<subseteq> fst ` set its"
proof -
  have "of_id k v = (case map_of its k of Some (Some c) \<Rightarrow> map snd (sec c) | _ \<Rightarrow> [])
      \<and> fst ` set v \<subseteq> fst ` set its"
    using assms
  proof (induction its arbitrary: v)
    case Nil
    then show ?case by (simp add: of_id_def)
  next
    case (Cons p its)
    obtain i oc where p: "p = (i, oc)" by fastforce
    with Cons.prems obtain c w where w: "oc = Some c" "section_vector sec its = Inr w"
        "v = map (\<lambda>x. (i, x)) (sec c) @ w"
      by (auto simp: res_simps split: option.splits)
    from Cons.IH[OF w(2)] Cons.prems(2) p
    have IH: "of_id k w = (case map_of its k of Some (Some c) \<Rightarrow> map snd (sec c) | _ \<Rightarrow> [])"
        "fst ` set w \<subseteq> fst ` set its" by auto
    have own: "of_id k (map (\<lambda>x. (i, x)) (sec c)) = (if k = i then map snd (sec c) else [])"
      by (auto simp: of_id_def filter_map comp_def)
    have "of_id k v = of_id k (map (\<lambda>x. (i, x)) (sec c)) @ of_id k w" by (simp add: w(3) of_id_def)
    moreover have "k = i \<Longrightarrow> map_of its k = None"
      using Cons.prems(2) p by (simp add: map_of_eq_None_iff)
    moreover have "fst ` set v \<subseteq> fst ` set (p # its)" using IH(2) w(3) p by auto
    ultimately show ?case using IH(1) p w(1) own by auto
  qed
  then show "of_id k v = (case map_of its k of Some (Some c) \<Rightarrow> map snd (sec c) | _ \<Rightarrow> [])"
    "fst ` set v \<subseteq> fst ` set its" by blast+
qed

lemma section_vector_total:
  "\<forall>(k, oc) \<in> set its. oc \<noteq> None \<Longrightarrow> \<exists>v. section_vector sec its = Inr v"
  by (induction its) auto

lemma section_vector_written:
  assumes "iddiff_ok d" "sec new_change = []"
  obtains v where "section_vector sec (m_items d) = Inr v" "\<And>k. of_id k v = map snd (sec (change_of d k))"
proof -
  have inv: "om_inv (m_items d)" using assms(1) by (simp add: iddiff_ok_def)
  have "\<forall>(k, oc) \<in> set (m_items d). oc \<noteq> None"
    using assms(1) om_inv_map_of[OF inv] by (fastforce simp: iddiff_ok_def)
  then obtain v where v: "section_vector sec (m_items d) = Inr v" using section_vector_total by blast
  have "of_id k v = map snd (sec (change_of d k))" for k
    unfolding section_vector_of_id(1)[OF v om_inv_distinct[OF inv]]
    using assms(2) by (auto simp: change_of_def split: option.splits)
  with v that show thesis by blast
qed

lemma of_id_empty_iff: "of_id k v = [] \<longleftrightarrow> k \<notin> fst ` set v"
  by (auto simp: of_id_def filter_empty_conv)

lemma all_of_id_empty:
  assumes "\<And>k. of_id k v = []"
  shows "v = []"
proof (cases v)
  case (Cons x w)
  with assms[of "fst x"] show ?thesis by (simp add: of_id_def)
qed

section \<open>Inserting read messages\<close>

definition others_kept :: "iddiff \<Rightarrow> iddiff \<Rightarrow> int \<Rightarrow> bool" where
  "others_kept d d' k \<longleftrightarrow> iddiff_ok d' \<and> same_header d d' \<and> (\<forall>j. j \<noteq> k \<longrightarrow> change_of d' j = change_of d j)"

lemma others_kept_trans: "others_kept d d' k \<Longrightarrow> others_kept d' d'' k \<Longrightarrow> others_kept d d'' k"
  by (auto simp: others_kept_def same_header_def)

lemma insertAddedNew_fresh:
  assumes ok: "iddiff_ok d" and "m_addedItems (change_of d k) = []" "mt_view t \<notin> removed_of d k"
  shows "\<exists>d' x. insertAddedNew d k t = Inr d' \<and> others_kept d d' k \<and> snd x = t
    \<and> change_of d' k = (change_of d k)\<lparr>m_addedItems := [x]\<rparr>"
proof -
  let ?x = "(heap_next d, t)"
  let ?d' = "put_change (alloc d) k ((change_of d k)\<lparr>m_addedItems := [?x]\<rparr>)"
  have n: "item_view ?x \<notin> removed_of (alloc d) k" using assms(3) by (simp add: removed_of_def)
  have ins: "insertAddedNew d k t = Inr ?d'"
    using insertAdded_eq[OF iddiff_ok_alloc[OF ok] n] assms(2) by (simp add: insertAddedNew_def)
  moreover have "iddiff_ok ?d'"
    using insertAddedClone_refines[OF ok, of "(k, (0, t))"] ins
    by (auto simp: new_clone refines_def split: sum.splits)
  ultimately show ?thesis by (auto simp: others_kept_def intro!: exI[of _ ?x])
qed

lemma insertRemovedNew_fresh:
  assumes ok: "iddiff_ok d" and "mt_view t \<notin> removed_of d k" "mt_view t \<notin> added_of d k"
  shows "\<exists>d' x. insertRemovedNew d k t = Inr d' \<and> others_kept d d' k \<and> snd x = t
    \<and> change_of d' k = (change_of d k)\<lparr>m_removedItems := m_removedItems (change_of d k) @ [x]\<rparr>"
proof -
  let ?x = "(heap_next d, t)"
  let ?d' = "put_change (alloc d) k ((change_of d k)\<lparr>m_removedItems := m_removedItems (change_of d k) @ [?x]\<rparr>)"
  have ins: "insertRemovedNew d k t = Inr ?d'"
    using insertRemoved_eq[OF iddiff_ok_alloc[OF ok], of k ?x] assms(2,3)
    by (simp add: insertRemovedNew_def removed_of_def added_of_def)
  moreover have "iddiff_ok ?d'"
    using insertRemovedClone_refines[OF ok, of "(k, (0, t))"] ins
    by (auto simp: new_clone refines_def split: sum.splits)
  ultimately show ?thesis by (auto simp: others_kept_def intro!: exI[of _ ?x])
qed

lemma insertReviewNew_fresh:
  assumes ok: "iddiff_ok d" and "m_reviewComment (change_of d k) = None" "im_isTranslated t"
  shows "\<exists>d' x. insertReviewNew d k t = Inr d' \<and> others_kept d d' k \<and> snd x = t
    \<and> change_of d' k = (change_of d k)\<lparr>m_reviewComment := Some x\<rparr>"
proof -
  let ?x = "(heap_next d, t)"
  let ?d' = "put_change (alloc d) k ((change_of d k)\<lparr>m_reviewComment := Some ?x\<rparr>)"
  have ins: "insertReviewNew d k t = Inr ?d'"
    using assms(2,3) by (simp add: insertReviewNew_def insertReview_def emptyReview_def)
  moreover have "iddiff_ok ?d'"
    using insertReviewClone_refines[OF ok, of "(k, (0, t))"] assms(3) ins
    by (auto simp: insertReviewClone_def insertReviewNew_def refines_def split: sum.splits)
  ultimately show ?thesis by (auto simp: others_kept_def intro!: exI[of _ ?x])
qed

lemma insertRemovedNew_all:
  assumes "iddiff_ok d" "distinct (map mt_view ts)" "set (map mt_view ts) \<inter> (removed_of d k \<union> added_of d k) = {}"
  shows "\<exists>d' xs. rfold (\<lambda>d t. insertRemovedNew d k t) d ts = Inr d' \<and> others_kept d d' k \<and> map snd xs = ts
    \<and> change_of d' k = (change_of d k)\<lparr>m_removedItems := m_removedItems (change_of d k) @ xs\<rparr>"
  using assms
proof (induction ts arbitrary: d)
  case Nil
  then show ?case by (auto simp: others_kept_def)
next
  case (Cons t ts)
  then obtain d1 x where d1: "insertRemovedNew d k t = Inr d1" "others_kept d d1 k" "snd x = t"
    "change_of d1 k = (change_of d k)\<lparr>m_removedItems := m_removedItems (change_of d k) @ [x]\<rparr>"
    using insertRemovedNew_fresh[of d t k] by auto
  have "removed_of d1 k = insert (mt_view t) (removed_of d k)" "added_of d1 k = added_of d k"
    using d1(3,4) by (auto simp: removed_of_def added_of_def item_view_def)
  with Cons.prems have "set (map mt_view ts) \<inter> (removed_of d1 k \<union> added_of d1 k) = {}" by auto
  with Cons.IH[of d1] Cons.prems(2) d1(2) obtain d' xs where
    "rfold (\<lambda>d t. insertRemovedNew d k t) d1 ts = Inr d'" "others_kept d1 d' k" "map snd xs = ts"
    "change_of d' k = (change_of d1 k)\<lparr>m_removedItems := m_removedItems (change_of d1 k) @ xs\<rparr>"
    by (auto simp: others_kept_def)
  with d1 show ?case
    by (intro exI[of _ d'] exI[of _ "x # xs"]) (auto intro: others_kept_trans)
qed

section \<open>One ID\<close>

text \<open>Two entries with the same messages.\<close>

definition same_change :: "iddiff_change \<Rightarrow> iddiff_change \<Rightarrow> bool" where
  "same_change c c' \<longleftrightarrow>
     map (\<lambda>x. content_of (snd x)) (m_removedItems c) = map (\<lambda>x. content_of (snd x)) (m_removedItems c')
     \<and> map (\<lambda>x. content_of (snd x)) (m_addedItems c) = map (\<lambda>x. content_of (snd x)) (m_addedItems c')
     \<and> map_option (\<lambda>x. content_of (snd x)) (m_reviewComment c) = map_option (\<lambda>x. content_of (snd x)) (m_reviewComment c')"

definition review_list :: "iddiff_change \<Rightarrow> im_ptr list" where
  "review_list c = (case m_reviewComment c of Some x \<Rightarrow> [x] | None \<Rightarrow> [])"

lemma list_member_writable:
  assumes "\<forall>t \<in> set ts. writable t"
  shows "\<exists>ms. list_member name ts = Inr ms \<and> set (map fst ms) \<subseteq> {name}
    \<and> (\<forall>ins d. load_section ins k (map_of ms name) d = rfold (\<lambda>d t. ins d k t) d (map reloaded ts))
    \<and> (map_of ms name \<noteq> None \<longleftrightarrow> ts \<noteq> [])"
proof (cases "ts = []")
  case True
  then show ?thesis by (simp add: list_member_def load_section_def)
next
  case False
  obtain js where "rmap mtb_writeJson ts = Inr js" "length js = length ts" "rmap load_message js = Inr (map reloaded ts)"
    using writable_list[OF assms] by blast
  moreover from this False have "js \<noteq> []" by auto
  ultimately show ?thesis
    using False by (auto simp: list_member_def message_list_json_def load_section_def loadMessageList_def)
qed

definition writable_change :: "iddiff_change \<Rightarrow> bool" where
  "writable_change c \<longleftrightarrow> (\<forall>x \<in> set (change_items c). writable (snd x))"

text \<open>What is written for one ID, and that reading it inserts the three lists one after another.\<close>

lemma load_id_document:
  assumes c: "writable_change c" "\<not> change_empty c"
    and ids: "of_id k rl = map snd (m_removedItems c)" "of_id k al = map snd (m_addedItems c)"
      "of_id k vl = map snd (review_list c)"
  shows "\<exists>j. id_json rl al vl k = Inr j \<and> (\<forall>d. load_id d j =
      rbind (rfold (\<lambda>d t. insertAddedNew d k t) d (map reloaded (map snd (m_addedItems c)))) (\<lambda>d1.
      rbind (rfold (\<lambda>d t. insertRemovedNew d k t) d1 (map reloaded (map snd (m_removedItems c)))) (\<lambda>d2.
        rfold (\<lambda>d t. insertReviewNew d k t) d2 (map reloaded (map snd (review_list c))))))"
proof -
  let ?R = "map snd (m_removedItems c)" and ?A = "map snd (m_addedItems c)" and ?V = "map snd (review_list c)"
  have w: "\<forall>t \<in> set ?R. writable t" "\<forall>t \<in> set ?A. writable t" "\<forall>t \<in> set ?V. writable t"
    using c(1) by (auto simp: writable_change_def change_items_def review_list_def split: option.splits)
  obtain a where a: "list_member ''accept'' ?A = Inr a" "set (map fst a) \<subseteq> {''accept''}"
    "\<forall>ins d. load_section ins k (map_of a ''accept'') d = rfold (\<lambda>d t. ins d k t) d (map reloaded ?A)"
    "map_of a ''accept'' \<noteq> None \<longleftrightarrow> ?A \<noteq> []"
    using list_member_writable[OF w(2), of "''accept''" k] by blast
  obtain r where r: "list_member ''reject'' ?R = Inr r" "set (map fst r) \<subseteq> {''reject''}"
    "\<forall>ins d. load_section ins k (map_of r ''reject'') d = rfold (\<lambda>d t. ins d k t) d (map reloaded ?R)"
    "map_of r ''reject'' \<noteq> None \<longleftrightarrow> ?R \<noteq> []"
    using list_member_writable[OF w(1), of "''reject''" k] by blast
  obtain v where v: "list_member ''review'' ?V = Inr v" "set (map fst v) \<subseteq> {''review''}"
    "\<forall>ins d. load_section ins k (map_of v ''review'') d = rfold (\<lambda>d t. ins d k t) d (map reloaded ?V)"
    "map_of v ''review'' \<noteq> None \<longleftrightarrow> ?V \<noteq> []"
    using list_member_writable[OF w(3), of "''review''" k] by blast
  let ?ms = "(''ref'', JObj [(''intid'', JInt k)]) # a @ r @ v"
  have key: "map_of xs n = None" if "set (map fst xs) \<subseteq> {n'}" "n \<noteq> n'" for xs :: "(string \<times> json) list" and n n'
    using that by (auto simp: map_of_eq_None_iff)
  have look: "map_of (a @ r @ v) ''accept'' = map_of a ''accept''" "map_of (a @ r @ v) ''reject'' = map_of r ''reject''"
      "map_of (a @ r @ v) ''review'' = map_of v ''review''"
    using key[OF a(2)] key[OF r(2)] key[OF v(2)] by (auto simp: map_add_def split: option.splits)
  have some: "map_of a ''accept'' \<noteq> None \<or> map_of r ''reject'' \<noteq> None \<or> map_of v ''review'' \<noteq> None"
    using c(2) unfolding a(4) r(4) v(4)
    by (auto simp: change_empty_def emptyReview_def emptyAdded_def emptyRemoved_def review_list_def)
  have v3: "load_section insertReviewNew k (map_of v ''review'')
      = (\<lambda>d2. rfold (\<lambda>d t. insertReviewNew d k t) d2 (map reloaded ?V))"
    by (rule ext) (simp add: v(3))
  have "id_json rl al vl k = Inr (JObj ?ms)" by (simp add: id_json_def ids a(1) r(1) v(1))
  then show ?thesis
    using some by (simp add: load_id_def look a(3) r(3) v3 del: map_of_append map_map not_None_eq)
qed

text \<open>The accepted translation goes into a change that is new, the review into one without a review.\<close>

lemma insertAddedNew_all:
  assumes "iddiff_ok d" "change_of d k = new_change" "change_ok n c"
  shows "\<exists>d1 xs. rfold (\<lambda>d t. insertAddedNew d k t) d (map reloaded (map snd (m_addedItems c))) = Inr d1
    \<and> others_kept d d1 k \<and> map snd xs = map reloaded (map snd (m_addedItems c))
    \<and> change_of d1 k = new_change\<lparr>m_addedItems := xs\<rparr>"
proof (cases "m_addedItems c")
  case Nil
  with assms show ?thesis by (auto simp: others_kept_def new_change_def)
next
  case (Cons y ys)
  with assms(3) have y: "m_addedItems c = [y]" by (simp add: change_ok_def)
  from insertAddedNew_fresh[OF assms(1), of k "reloaded (snd y)"] assms(2) obtain d1 x where
    "insertAddedNew d k (reloaded (snd y)) = Inr d1" "others_kept d d1 k" "snd x = reloaded (snd y)"
    "change_of d1 k = new_change\<lparr>m_addedItems := [x]\<rparr>"
    by (auto simp: new_change_def removed_of_def)
  then show ?thesis by (intro exI[of _ d1] exI[of _ "[x]"]) (simp add: y)
qed

lemma insertReviewNew_all:
  assumes "iddiff_ok d" "m_reviewComment (change_of d k) = None" "change_ok n c" "writable_change c"
  shows "\<exists>d' ov. rfold (\<lambda>d t. insertReviewNew d k t) d (map reloaded (map snd (review_list c))) = Inr d' \<and> others_kept d d' k
    \<and> map_option (\<lambda>x. content_of (snd x)) ov = map_option (\<lambda>x. content_of (snd x)) (m_reviewComment c)
    \<and> change_of d' k = (change_of d k)\<lparr>m_reviewComment := ov\<rparr>"
proof (cases "m_reviewComment c")
  case None
  with assms(1,2) show ?thesis
    by (intro exI[of _ d] exI[of _ None]) (simp add: review_list_def others_kept_def)
next
  case (Some y)
  then have wy: "writable (snd y)" and ty: "im_isTranslated (snd y)"
    using assms(3,4) by (auto simp: writable_change_def change_items_def change_ok_def)
  then have "im_isTranslated (reloaded (snd y))"
    by (simp add: im_isTranslated_def isFuzzy_def mtb_isUntranslated_iff)
  with insertReviewNew_fresh[of d k "reloaded (snd y)"] assms(1,2) obtain d' x where
    "insertReviewNew d k (reloaded (snd y)) = Inr d'" "others_kept d d' k" "snd x = reloaded (snd y)"
    "change_of d' k = (change_of d k)\<lparr>m_reviewComment := Some x\<rparr>"
    by (auto simp: others_kept_def)
  with Some wy show ?thesis
    by (intro exI[of _ d'] exI[of _ "Some x"]) (simp add: review_list_def writable_message(2))
qed

lemma reloaded_contents:
  assumes "map snd zs = map reloaded (map snd us)" "\<forall>x \<in> set us. writable (snd x)"
  shows "map (\<lambda>x. content_of (snd x)) zs = map (\<lambda>x. content_of (snd x)) us"
    and "map item_view zs = map item_view us"
proof -
  have "map f (map snd zs) = map f (map snd us)" if "\<And>t. writable t \<Longrightarrow> f (reloaded t) = f t" for f :: "translation \<Rightarrow> 'b"
    unfolding assms(1) using assms(2) that by simp
  from this[of content_of] this[of mt_view] show "map (\<lambda>x. content_of (snd x)) zs = map (\<lambda>x. content_of (snd x)) us"
      "map item_view zs = map item_view us"
    by (simp_all add: writable_message(2) item_view_def[abs_def] comp_def)
qed

lemma load_id_fresh:
  assumes ok: "iddiff_ok d" and fresh: "change_of d k = new_change"
    and c: "change_ok n c" "writable_change c" "\<not> change_empty c"
    and ids: "of_id k rl = map snd (m_removedItems c)" "of_id k al = map snd (m_addedItems c)"
      "of_id k vl = map snd (review_list c)"
  shows "\<exists>j d'. id_json rl al vl k = Inr j \<and> load_id d j = Inr d' \<and> others_kept d d' k
    \<and> same_change c (change_of d' k)"
proof -
  let ?R = "map snd (m_removedItems c)" and ?A = "map snd (m_addedItems c)" and ?V = "map snd (review_list c)"
  have w: "\<forall>x \<in> set (m_removedItems c). writable (snd x)" "\<forall>x \<in> set (m_addedItems c). writable (snd x)"
    using c(2) by (auto simp: writable_change_def change_items_def)
  obtain j where j: "id_json rl al vl k = Inr j" "\<And>d. load_id d j =
      rbind (rfold (\<lambda>d t. insertAddedNew d k t) d (map reloaded ?A)) (\<lambda>d1.
      rbind (rfold (\<lambda>d t. insertRemovedNew d k t) d1 (map reloaded ?R)) (\<lambda>d2.
        rfold (\<lambda>d t. insertReviewNew d k t) d2 (map reloaded ?V)))"
    using load_id_document[OF c(2,3) ids] by blast
  obtain d1 xs where d1: "rfold (\<lambda>d t. insertAddedNew d k t) d (map reloaded ?A) = Inr d1" "others_kept d d1 k"
      "map snd xs = map reloaded ?A" "change_of d1 k = new_change\<lparr>m_addedItems := xs\<rparr>"
    using insertAddedNew_all[OF ok fresh c(1)] by blast
  have av: "added_of d1 k = set (map item_view (m_addedItems c))" "removed_of d1 k = {}"
    using arg_cong[OF reloaded_contents(2)[OF d1(3) w(2)], of set]
    by (simp_all add: added_of_def removed_of_def d1(4) new_change_def)
  have views: "map mt_view (map reloaded ?R) = map item_view (m_removedItems c)"
    using w(1) by (simp add: item_view_def)
  have "\<exists>d2 ys. rfold (\<lambda>d t. insertRemovedNew d k t) d1 (map reloaded ?R) = Inr d2 \<and> others_kept d1 d2 k
      \<and> map snd ys = map reloaded ?R \<and> change_of d2 k = (change_of d1 k)\<lparr>m_removedItems := m_removedItems (change_of d1 k) @ ys\<rparr>"
    using c(1) d1(2) by (intro insertRemovedNew_all) (auto simp: views av change_ok_def others_kept_def simp del: map_map)
  then obtain d2 ys where d2: "rfold (\<lambda>d t. insertRemovedNew d k t) d1 (map reloaded ?R) = Inr d2" "others_kept d1 d2 k"
      "map snd ys = map reloaded ?R" "change_of d2 k = new_change\<lparr>m_addedItems := xs, m_removedItems := ys\<rparr>"
    by (auto simp: d1(4) new_change_def)
  obtain d3 ov where d3: "rfold (\<lambda>d t. insertReviewNew d k t) d2 (map reloaded ?V) = Inr d3" "others_kept d2 d3 k"
      "map_option (\<lambda>x. content_of (snd x)) ov = map_option (\<lambda>x. content_of (snd x)) (m_reviewComment c)"
      "change_of d3 k = (change_of d2 k)\<lparr>m_reviewComment := ov\<rparr>"
    using insertReviewNew_all[of d2 k n c] d2(2,4) c(1,2) by (auto simp: others_kept_def new_change_def)
  have "same_change c (change_of d3 k)"
    using reloaded_contents(1)[OF d1(3) w(2)] reloaded_contents(1)[OF d2(3) w(1)] d3(3)
    by (simp add: same_change_def d3(4) d2(4))
  moreover have "load_id d j = Inr d3" using j(2) d1(1) d2(1) d3(1) by simp
  moreover have "others_kept d d3 k" using d1(2) d2(2) d3(2) by (blast intro: others_kept_trans)
  ultimately show ?thesis using j(1) by blast
qed

section \<open>The whole document\<close>

lemma same_change_new: "same_change c new_change \<longleftrightarrow> change_empty c"
  by (auto simp: same_change_def new_change_def change_empty_def emptyRemoved_def emptyAdded_def emptyReview_def)

lemma load_ids:
  assumes "iddiff_ok d" "distinct ks" "\<forall>k \<in> set ks. change_of d k = new_change"
    and "\<forall>k \<in> set ks. (\<exists>n. change_ok n (ch k)) \<and> writable_change (ch k) \<and> \<not> change_empty (ch k)
      \<and> of_id k rl = map snd (m_removedItems (ch k)) \<and> of_id k al = map snd (m_addedItems (ch k))
      \<and> of_id k vl = map snd (review_list (ch k))"
  shows "\<exists>js d'. rmap (id_json rl al vl) ks = Inr js \<and> length js = length ks \<and> rfold load_id d js = Inr d'
    \<and> iddiff_ok d' \<and> same_header d d' \<and> (\<forall>k \<in> set ks. same_change (ch k) (change_of d' k))
    \<and> (\<forall>k. k \<notin> set ks \<longrightarrow> change_of d' k = change_of d k)"
  using assms
proof (induction ks arbitrary: d)
  case Nil
  then show ?case by simp
next
  case (Cons k ks)
  then obtain n where n: "change_ok n (ch k)" by auto
  obtain j d1 where d1: "id_json rl al vl k = Inr j" "load_id d j = Inr d1" "others_kept d d1 k"
      "same_change (ch k) (change_of d1 k)"
    using load_id_fresh[OF Cons.prems(1) _ n, of k rl al vl] Cons.prems(3,4) by auto
  then have "iddiff_ok d1" "\<forall>i \<in> set ks. change_of d1 i = new_change"
    using Cons.prems(2,3) by (auto simp: others_kept_def)
  from Cons.IH[OF this(1) _ this(2)] Cons.prems(2,4) obtain js d' where
    "rmap (id_json rl al vl) ks = Inr js" "length js = length ks" "rfold load_id d1 js = Inr d'"
    "iddiff_ok d'" "same_header d1 d'" "\<forall>k \<in> set ks. same_change (ch k) (change_of d' k)"
    "\<forall>k. k \<notin> set ks \<longrightarrow> change_of d' k = change_of d1 k"
    by auto
  with d1 Cons.prems(2) show ?case by (auto simp: others_kept_def same_header_def)
qed

text \<open>What \<open>generate_json\<close> lists, by ID.\<close>

lemma generate_lists:
  assumes "iddiff_ok d"
  obtains rl al vl where "getRemovedVector d = Inr rl" "getAddedVector d = Inr al" "getReviewVector d = Inr vl"
    "\<And>k. of_id k rl = map snd (m_removedItems (change_of d k))"
    "\<And>k. of_id k al = map snd (m_addedItems (change_of d k))"
    "\<And>k. of_id k vl = map snd (review_list (change_of d k))"
proof -
  obtain rl where "getRemovedVector d = Inr rl" "\<And>k. of_id k rl = map snd (m_removedItems (change_of d k))"
    using section_vector_written[OF assms, of m_removedItems] unfolding getRemovedVector_def by (auto simp: new_change_def)
  moreover obtain al where "getAddedVector d = Inr al" "\<And>k. of_id k al = map snd (m_addedItems (change_of d k))"
    using section_vector_written[OF assms, of m_addedItems] unfolding getAddedVector_def by (auto simp: new_change_def)
  moreover obtain vl where "getReviewVector d = Inr vl" "\<And>k. of_id k vl = map snd (review_list (change_of d k))"
    using section_vector_written[OF assms, of review_list] unfolding getReviewVector_def review_list_def
    by (auto simp: new_change_def)
  ultimately show thesis using that by blast
qed

lemma json_roundtrip:
  assumes ok: "iddiff_ok d" and w: "\<forall>k. writable_change (change_of d k)" and k0: "\<not> change_empty (change_of d k0)"
    and date: "fromString t0 (dateString (m_diffDate d)) = Inr date"
  shows "\<exists>j d'. generate_json d = Inr j \<and> load_json (new_iddiff t0) j = Inr d' \<and> iddiff_ok d'
    \<and> m_subject d' = m_subject d \<and> m_authors d' = m_authors d \<and> m_diffDate d' = date
    \<and> (\<forall>k. same_change (change_of d k) (change_of d' k))"
proof -
  obtain rl al vl where l: "getRemovedVector d = Inr rl" "getAddedVector d = Inr al" "getReviewVector d = Inr vl"
    and ids: "\<And>k. of_id k rl = map snd (m_removedItems (change_of d k))"
    "\<And>k. of_id k al = map snd (m_addedItems (change_of d k))"
    "\<And>k. of_id k vl = map snd (review_list (change_of d k))"
    using generate_lists[OF ok] by blast
  let ?ks = "fold ss_insert (map fst vl) (fold ss_insert (map fst al) (fold ss_insert (map fst rl) []))"
  have set: "k \<in> set ?ks \<longleftrightarrow> \<not> change_empty (change_of d k)" for k
    using of_id_empty_iff[of k rl] of_id_empty_iff[of k al] of_id_empty_iff[of k vl]
    by (auto simp: set_fold_insert ids change_empty_def emptyRemoved_def emptyAdded_def emptyReview_def
        review_list_def split: option.splits)
  have "sset ?ks" by (intro sset_fold_insert sset_Nil)
  then have "distinct ?ks" by (simp add: sset_def strict_sorted_iff)
  let ?d0 = "(new_iddiff t0)\<lparr>m_subject := m_subject d, m_authors := m_authors d, m_diffDate := date\<rparr>"
  have d0: "iddiff_ok ?d0" "\<forall>k \<in> set ?ks. change_of ?d0 k = new_change"
    by (simp_all add: iddiff_ok_def new_iddiff_def om_inv_Nil change_of_def)
  obtain js d' where js: "rmap (id_json rl al vl) ?ks = Inr js" "length js = length ?ks" "rfold load_id ?d0 js = Inr d'"
    "iddiff_ok d'" "same_header ?d0 d'" "\<forall>k \<in> set ?ks. same_change (change_of d k) (change_of d' k)"
    "\<forall>k. k \<notin> set ?ks \<longrightarrow> change_of d' k = change_of ?d0 k"
    using load_ids[OF d0(1) \<open>distinct ?ks\<close> d0(2), of "change_of d" rl al vl] iddiff_ok_change[OF ok] w ids set
    by blast
  have "?ks \<noteq> []" using set[of k0] k0 by auto
  then have ne: "length js > 0" "rl \<noteq> [] \<or> al \<noteq> [] \<or> vl \<noteq> []" using js(2) by auto
  let ?j = "JObj [(''subject'', JStr (m_subject d)), (''authors'', JArr (map JStr (m_authors d))),
                (''dateCreated'', JStr (dateString (m_diffDate d))), (''messages'', JArr js)]"
  have "generate_json d = Inr ?j"
    using ne(2) js(1) by (auto simp: generate_json_def l Let_def)
  moreover have "load_json (new_iddiff t0) ?j = Inr d'"
    using js(3) ne(1) date by (simp add: load_json_def rmap_j_string) (simp add: new_iddiff_def)
  moreover have "same_change (change_of d k) (change_of d' k)" for k
  proof (cases "k \<in> set ?ks")
    case True
    then show ?thesis using js(6) by blast
  next
    case False
    with js(7) have "change_of d' k = new_change" by (simp add: change_of_def new_iddiff_def)
    with False set[of k] show ?thesis by (simp add: same_change_new)
  qed
  ultimately show ?thesis using js(4,5) by (auto simp: same_header_def)
qed

text \<open>
  C20. Reading the document that \<open>generateIddiffText\<close> wrote for an iddiff that is not empty and has
  no null forms gives back the subject, the authors, the date its text stands for, and for every
  ID the same messages in the same order in each of the three sections.
\<close>

theorem iddiff_json_roundtrip:
  assumes "iddiff_ok d" "\<forall>k. writable_change (change_of d k)" "\<not> change_empty (change_of d k0)"
    and "fromString t0 (dateString (m_diffDate d)) = Inr date"
  shows "\<exists>j d'. generate_json d = Inr j \<and> load_json (new_iddiff t0) j = Inr d' \<and> iddiff_ok d'
    \<and> m_subject d' = m_subject d \<and> m_authors d' = m_authors d \<and> m_diffDate d' = date
    \<and> (\<forall>k. same_change (change_of d k) (change_of d' k))"
  using assms by (rule json_roundtrip)

text \<open>
  An empty iddiff is written as an empty object, and reading that stops: what was written for
  an iddiff without changes cannot be loaded.
\<close>

theorem empty_iddiff_unreadable:
  assumes "iddiff_ok d" "\<forall>k. change_empty (change_of d k)"
  shows "generate_json d = Inr (JObj []) \<and> load_json d' (JObj []) = Inl AssertFail"
proof -
  obtain rl al vl where l: "getRemovedVector d = Inr rl" "getAddedVector d = Inr al" "getReviewVector d = Inr vl"
    and ids: "\<And>k. of_id k rl = map snd (m_removedItems (change_of d k))"
    "\<And>k. of_id k al = map snd (m_addedItems (change_of d k))"
    "\<And>k. of_id k vl = map snd (review_list (change_of d k))"
    using generate_lists[OF assms(1)] by blast
  have "of_id k rl = [] \<and> of_id k al = [] \<and> of_id k vl = []" for k
    using assms(2) by (simp add: ids change_empty_def emptyRemoved_def emptyAdded_def emptyReview_def review_list_def)
  then have "rl = []" "al = []" "vl = []" by (simp_all add: all_of_id_empty)
  then show ?thesis by (simp add: generate_json_def l load_json_def)
qed

section \<open>Witnesses\<close>

definition ex_iddiff :: iddiff where
  "ex_iddiff = put_change ((new_iddiff (fdt_default 0 0))\<lparr>m_subject := ''s'', m_authors := [''a''], heap_next := 1\<rparr>) 7
     (new_change\<lparr>m_addedItems := [(0, \<lparr>m_plural = False, m_fuzzy = False, m_msgstr = [os_of_string ''x'']\<rparr>)]\<rparr>)"

lemma ex_iddiff_ok: "iddiff_ok ex_iddiff"
proof -
  have "iddiff_ok ((new_iddiff (fdt_default 0 0))\<lparr>m_subject := ''s'', m_authors := [''a''], heap_next := 1\<rparr>)"
    by (simp add: iddiff_ok_def new_iddiff_def om_inv_Nil)
  then show ?thesis
    unfolding ex_iddiff_def by (rule iddiff_ok_put) (simp add: change_ok_def new_change_def change_items_def)
qed

lemma ex_iddiff_writable: "\<forall>k. writable_change (change_of ex_iddiff k)" "\<not> change_empty (change_of ex_iddiff 7)"
  by (simp_all add: ex_iddiff_def change_of_put) (simp_all add: writable_change_def change_of_def new_iddiff_def
      new_change_def change_items_def writable_def mt_view_def change_empty_def emptyAdded_def)

theorem iddiff_json_roundtrip_witness:
  "\<exists>j d'. generate_json ex_iddiff = Inr j \<and> load_json (new_iddiff (fdt_default 0 0)) j = Inr d'
    \<and> m_subject d' = ''s'' \<and> same_change (change_of ex_iddiff 7) (change_of d' 7)"
proof -
  have "fromString (fdt_default 0 0) (dateString (m_diffDate ex_iddiff)) = Inr ((fdt_default 0 0)\<lparr>m_init := False\<rparr>)"
    by (simp add: ex_iddiff_def put_change_def new_iddiff_def fdt_default_def fromString_def dateString_def fdt_isNull_def)
  moreover have "m_subject ex_iddiff = ''s''" by (simp add: ex_iddiff_def put_change_def)
  ultimately show ?thesis
    using iddiff_json_roundtrip[OF ex_iddiff_ok ex_iddiff_writable] by metis
qed

theorem empty_iddiff_unreadable_witness:
  "generate_json (new_iddiff (fdt_default 0 0)) = Inr (JObj [])
    \<and> load_json (new_iddiff (fdt_default 0 0)) (JObj []) = Inl AssertFail"
  by (rule empty_iddiff_unreadable[OF iddiff_ok_new])
    (simp add: change_of_def new_iddiff_def new_change_def change_empty_def emptyRemoved_def emptyAdded_def emptyReview_def)

end
