(* ===== verification/IddiffStore.thy ===== *)
theory IddiffStore
  imports IddiffUnion IddiffComments IddiffRoundtrip IddiffMinimize
begin

text \<open>
  Every iddiff that is made from new ones with the operations of the class has the invariant: by
  rule induction over the ways to make one. The two operations that are left out,
  \<open>reviewCommentText\<close> and \<open>clearReviewComment\<close>, leave a null pointer for an ID that is not there.
\<close>

section \<open>One operation\<close>

definition keeps_ok :: "(iddiff \<Rightarrow> iddiff res) \<Rightarrow> bool" where
  "keeps_ok f \<longleftrightarrow> (\<forall>d d'. iddiff_ok d \<longrightarrow> f d = Inr d' \<longrightarrow> iddiff_ok d')"

named_theorems keeps \<open>operations that keep the invariant of an iddiff\<close>

lemma keeps_okI: "(\<And>d d'. iddiff_ok d \<Longrightarrow> f d = Inr d' \<Longrightarrow> iddiff_ok d') \<Longrightarrow> keeps_ok f"
  by (simp add: keeps_ok_def)

lemma keeps_okD: "keeps_ok f \<Longrightarrow> f d = Inr d' \<Longrightarrow> iddiff_ok d \<Longrightarrow> iddiff_ok d'"
  by (simp add: keeps_ok_def)

lemma keeps_refines:
  assumes "\<And>d. iddiff_ok d \<Longrightarrow> refines (f d) (p d)"
  shows "keeps_ok f"
proof (rule keeps_okI)
  fix d d'
  assume "iddiff_ok d" "f d = Inr d'"
  then show "iddiff_ok d'" using assms[of d] by (simp add: refines_def)
qed

lemma keeps_Inr [keeps]: "keeps_ok Inr" and keeps_Inl [keeps]: "keeps_ok (\<lambda>d. Inl e)"
  by (simp_all add: keeps_ok_def)

lemma keeps_bind [keeps]: "keeps_ok f \<Longrightarrow> keeps_ok g \<Longrightarrow> keeps_ok (\<lambda>d. rbind (f d) g)"
  unfolding keeps_ok_def rbind_eq_Inr by blast

lemma keeps_query: "(\<And>x. keeps_ok (f x)) \<Longrightarrow> keeps_ok (\<lambda>d. rbind (q d) (\<lambda>x. f x d))"
  unfolding keeps_ok_def rbind_eq_Inr by blast

lemma keeps_rassert [keeps]: "keeps_ok f \<Longrightarrow> keeps_ok (\<lambda>d. rassert (P d) (f d))"
  unfolding keeps_ok_def rassert_eq_Inr by blast

lemma keeps_if [keeps]: "keeps_ok f \<Longrightarrow> keeps_ok g \<Longrightarrow> keeps_ok (\<lambda>d. if P d then f d else g d)"
  by (rule keeps_okI) (auto split: if_splits dest: keeps_okD)

lemma keeps_fold [keeps]:
  assumes "\<And>x. keeps_ok (\<lambda>d. f d x)"
  shows "keeps_ok (\<lambda>d. rfold f d xs)"
proof (rule keeps_okI)
  fix d d'
  assume "iddiff_ok d" "rfold f d xs = Inr d'"
  note run = this
  show "iddiff_ok d'"
    by (rule rfold_invariant[where P = iddiff_ok, OF run(2,1)]) (rule keeps_okD[OF assms])
qed

lemma keeps_insert [keeps]:
  "keeps_ok (\<lambda>d. insertRemovedClone d p)" "keeps_ok (\<lambda>d. insertAddedClone d p)"
  by (rule keeps_refines, erule insertRemovedClone_refines insertAddedClone_refines)+

lemma keeps_insertReview [keeps]: "keeps_ok (\<lambda>d. insertReviewClone d p)"
proof (cases "im_isTranslated (snd (snd p))")
  case True
  then show ?thesis using insertReviewClone_refines by (intro keeps_refines) blast
next
  case False
  then show ?thesis
    by (simp add: keeps_ok_def insertReviewClone_def insertReview_def Let_def rassert_eq_Inr)
qed

lemma keeps_insertNew [keeps]:
  "keeps_ok (\<lambda>d. insertRemovedNew d k t)" "keeps_ok (\<lambda>d. insertAddedNew d k t)" "keeps_ok (\<lambda>d. insertReviewNew d k t)"
  using keeps_insert[of "(k, (0, t))"] keeps_insertReview[of "(k, (0, t))"]
  by (simp_all add: insertRemovedNew_def insertAddedNew_def insertReviewNew_def insertRemovedClone_def
      insertAddedClone_def insertReviewClone_def)

lemma keeps_clearEmpty [keeps]: "keeps_ok (\<lambda>d. clearEmptyMessageData d k)"
proof (rule keeps_okI)
  fix d d'
  assume "iddiff_ok d" "clearEmptyMessageData d k = Inr d'"
  then show "iddiff_ok d'" using clearEmpty_ok[of d k] by auto
qed

lemma erase_change_ok:
  assumes "change_ok n c"
  shows "change_eraseRemoved c a = Inr c' \<Longrightarrow> change_ok n c'" "change_eraseAdded c a = Inr c' \<Longrightarrow> change_ok n c'"
proof -
  have part: "\<exists>us x vs. xs = us @ x # vs \<and> ys = us @ vs" if "eraseItem xs a = Inr ys" for xs ys
    using that eraseItem_present[of a xs] eraseItem_absent[of a xs] by (cases "a \<in> fst ` set xs") auto
  { assume "change_eraseRemoved c a = Inr c'"
    then obtain ys where "eraseItem (m_removedItems c) a = Inr ys" "c' = c\<lparr>m_removedItems := ys\<rparr>"
      by (auto simp: change_eraseRemoved_def rbind_eq_Inr)
    then obtain us x vs where "m_removedItems c = us @ x # vs" "c' = c\<lparr>m_removedItems := us @ vs\<rparr>"
      using part by blast
    then show "change_ok n c'" using assms by (auto simp: change_ok_def change_items_def) }
  assume "change_eraseAdded c a = Inr c'"
  then obtain ys where "eraseItem (m_addedItems c) a = Inr ys" "c' = c\<lparr>m_addedItems := ys\<rparr>"
    by (auto simp: change_eraseAdded_def rbind_eq_Inr)
  then obtain us x vs where "m_addedItems c = us @ x # vs" "c' = c\<lparr>m_addedItems := us @ vs\<rparr>"
    using part by blast
  moreover from this have "us = [] \<and> vs = []" using assms by (auto simp: change_ok_def)
  ultimately show "change_ok n c'" using assms by (simp add: change_ok_def change_items_def)
qed

lemma keeps_erase [keeps]: "keeps_ok (\<lambda>d. eraseRemoved d k a)" "keeps_ok (\<lambda>d. eraseAdded d k a)"
proof -
  have found: "change_ok (heap_next d) c" if "iddiff_ok d" "find_change d k = Inr (Some c)" for d c
    using that by (auto simp: find_change_ok iddiff_ok_def split: option.splits)
  have step: "iddiff_ok d'" if "iddiff_ok d" "find_change d k = Inr (Some c)"
      "change_eraseRemoved c a = Inr c' \<or> change_eraseAdded c a = Inr c'"
      "clearEmptyMessageData (put_change d k c') k = Inr d'" for d d' c c'
  proof -
    have "change_ok (heap_next d) c'"
      using erase_change_ok[OF found[OF that(1,2)]] that(3) by blast
    then show ?thesis
      using keeps_okD[OF keeps_clearEmpty that(4)] iddiff_ok_put[OF that(1)] by blast
  qed
  show "keeps_ok (\<lambda>d. eraseRemoved d k a)"
    by (rule keeps_okI, simp add: eraseRemoved_def rbind_eq_Inr rassert_eq_Inr del: not_None_eq split: option.splits)
      (blast intro: step)
  show "keeps_ok (\<lambda>d. eraseAdded d k a)"
    by (rule keeps_okI, simp add: eraseAdded_def rbind_eq_Inr rassert_eq_Inr del: not_None_eq split: option.splits)
      (blast intro: step)
qed

lemma iddiff_ok_header [simp]:
  "iddiff_ok (d\<lparr>m_subject := s\<rparr>) = iddiff_ok d" "iddiff_ok (d\<lparr>m_authors := au\<rparr>) = iddiff_ok d"
  "iddiff_ok (d\<lparr>m_diffDate := dt\<rparr>) = iddiff_ok d" "iddiff_ok (d\<lparr>m_minimizedIds := b\<rparr>) = iddiff_ok d"
  by (simp_all add: iddiff_ok_def)

lemma mergeHeaders_ok [simp]: "iddiff_ok (mergeHeaders d diff) = iddiff_ok d"
  by (simp add: mergeHeaders_def Let_def)

lemma keeps_headers [keeps]:
  "keeps_ok (\<lambda>d. Inr (mergeHeaders d diff))" "keeps_ok (\<lambda>d. Inr (d\<lparr>m_minimizedIds := b\<rparr>))"
  by (simp_all add: keeps_ok_def)

section \<open>The operations\<close>

lemma keeps_option [keeps]:
  "(\<And>x. keeps_ok (f x)) \<Longrightarrow> keeps_ok g \<Longrightarrow> keeps_ok (\<lambda>d. case q of Some x \<Rightarrow> f x d | None \<Rightarrow> g d)"
  by (cases q) simp_all

lemma keeps_reject [keeps]: "keeps_ok (\<lambda>d. rejectTranslation d k item)"
  unfolding rejectTranslation_def by (cases item) (simp_all only: option.case, (rule keeps | rule keeps_query)+)

lemma keeps_accept [keeps]: "keeps_ok (\<lambda>d. acceptTranslation d k item)"
  unfolding acceptTranslation_def by (cases item) (simp_all only: option.case, (rule keeps | rule keeps_query)+)

lemma keeps_merge [keeps]: "keeps_ok (\<lambda>d. merge d diff)"
  unfolding merge_def by (rule keeps | rule keeps_query)+

lemma keeps_filterTrusted [keeps]: "keeps_ok (\<lambda>d. filterTrustedIddiff d filtr input_diff)"
  unfolding filterTrustedIddiff_def by (rule keeps | rule keeps_query)+

lemma keeps_mergeTrComments [keeps]: "keeps_ok (\<lambda>d. mergeTrComments d diff)"
proof -
  have "keeps_ok (\<lambda>d. mergeTrComments_item d p)" for p
  proof (rule keeps_okI)
    fix d d'
    assume d: "iddiff_ok d" "mergeTrComments_item d p = Inr d'"
    show "iddiff_ok d'"
    proof (cases "findAddedSingle d (fst p)")
      case (Inr prev)
      show ?thesis
      proof (cases prev)
        case None
        then show ?thesis using d Inr keeps_okD[OF keeps_insert(2)] by (simp add: mergeTrComments_item_def)
      next
        case (Some q)
        then obtain d1 it where "eraseAdded (alloc d) (fst p) (fst q) = Inr d1" "insertAddedClone d1 it = Inr d'"
          using d(2) Inr unfolding mergeTrComments_item_def Let_def by (auto simp: rbind_eq_Inr)
        then show ?thesis
          using keeps_okD[OF keeps_erase(2)] keeps_okD[OF keeps_insert(2)] iddiff_ok_alloc[OF d(1)] by blast
      qed
    qed (use d in \<open>simp add: mergeTrComments_item_def\<close>)
  qed
  note this [keeps]
  show ?thesis unfolding mergeTrComments_def by (rule keeps | rule keeps_query)+
qed

lemma keeps_substitute [keeps]: "keeps_ok (\<lambda>d. substituteMsgId d a b)"
proof -
  have "iddiff_ok (case map_of (m_items d) a of
      Some v \<Rightarrow> d\<lparr>m_items := om_erase a (om_set b v (m_items d))\<rparr> | None \<Rightarrow> d)" if "iddiff_ok d" for d
    using that by (auto simp: iddiff_ok_def om_inv_erase om_inv_set map_of_om_set map_of_om_erase split: option.splits)
  then have "keeps_ok (\<lambda>d. Inr (case map_of (m_items d) a of
      Some v \<Rightarrow> d\<lparr>m_items := om_erase a (om_set b v (m_items d))\<rparr> | None \<Rightarrow> d))"
    by (simp add: keeps_ok_def)
  note this [keeps]
  show ?thesis unfolding substituteMsgId_def by (rule keeps | rule keeps_query)+
qed

lemma keeps_minimizeIds [keeps]: "keeps_ok (minimizeIds getMinIds)"
proof -
  have "keeps_ok (\<lambda>d. rfold (\<lambda>d i. rbind (nth_res msg_ids i) (\<lambda>a. rbind (nth_res min_ids i)
      (\<lambda>b. substituteMsgId d a b))) d is)" for msg_ids min_ids :: "int list" and "is"
    by (rule keeps | rule keeps_query)+
  then show ?thesis
    unfolding keeps_ok_def minimizeIds_def Let_def rbind_eq_Inr rassert_eq_Inr by auto
qed

section \<open>Filling from files\<close>

lemma keeps_messages [keeps]: "keeps_ok (\<lambda>d. diff_empty_messages d k gs)" "keeps_ok (\<lambda>d. diff_messages d k a b)"
  "keeps_ok (\<lambda>d. tr_comments_empty d k bs)" "keeps_ok (\<lambda>d. tr_comments_files d k as bs)"
proof -
  have alloc: "keeps_ok (\<lambda>d. Inr (alloc d))" by (simp add: keeps_ok_def iddiff_ok_alloc)
  have lines: "keeps_ok (\<lambda>d. insert_comment_lines d k ls)" for k ls
    unfolding insert_comment_lines_def by (rule keeps alloc)+
  show "keeps_ok (\<lambda>d. diff_empty_messages d k gs)"
  proof (induction gs arbitrary: k)
    case (Cons g gs)
    note Cons.IH [keeps]
    show ?case unfolding diff_empty_messages.simps by (rule keeps | rule keeps_query)+
  qed (simp add: keeps)
  show "keeps_ok (\<lambda>d. diff_messages d k a b)"
    unfolding diff_messages_def Let_def by (rule keeps | rule keeps_query)+
  show "keeps_ok (\<lambda>d. tr_comments_empty d k bs)"
  proof (induction bs arbitrary: k)
    case (Cons b bs)
    show ?case unfolding tr_comments_empty.simps by (rule keeps lines Cons.IH)+
  qed (simp add: keeps)
  show "keeps_ok (\<lambda>d. tr_comments_files d k as bs)"
  proof (induction as arbitrary: k bs)
    case (Cons a as)
    then show ?case
    proof (cases bs)
      case (Cons b bs')
      show ?thesis unfolding Cons tr_comments_files.simps by (rule keeps lines Cons.IH)+
    qed (simp add: keeps)
  qed (simp add: keeps)
qed

lemma cleared_header_ok: "diff_header (clearIddiff d) c = Inr d1 \<Longrightarrow> iddiff_ok d1"
  by (auto simp: diff_header_def rbind_eq_Inr header_irrelevant cleared)

lemma diffs_ok:
  "diffFiles getFirstId getTpHash d a b = Inr d' \<Longrightarrow> iddiff_ok d'"
  "diffAgainstEmpty getFirstId getTpHash d b = Inr d' \<Longrightarrow> iddiff_ok d'"
  "diffTrCommentsFiles getFirstId getTpHash d a b = Inr d' \<Longrightarrow> iddiff_ok d'"
  "diffTrCommentsAgainstEmpty getFirstId getTpHash d b = Inr d' \<Longrightarrow> iddiff_ok d'"
proof -
  have loop: "keeps_ok (\<lambda>d. rfold (\<lambda>d i. rbind (nth_res ga i) (\<lambda>x. rbind (group_message x 0) (\<lambda>ma.
      rbind (nth_res gb i) (\<lambda>y. rbind (group_message y 0) (\<lambda>mb. diff_messages d (fid + int i) ma mb))))) d is)"
    for ga gb fid "is"
    by (rule keeps | rule keeps_query)+
  { assume "diffFiles getFirstId getTpHash d a b = Inr d'"
    then show "iddiff_ok d'"
      unfolding diffFiles_def rbind_eq_Inr rassert_eq_Inr
      by (blast intro: keeps_okD[OF loop] cleared_header_ok) }
  { assume "diffAgainstEmpty getFirstId getTpHash d b = Inr d'"
    then show "iddiff_ok d'"
      unfolding diffAgainstEmpty_def rbind_eq_Inr rassert_eq_Inr
      by (blast intro: keeps_okD[OF keeps_messages(1)] cleared_header_ok) }
  { assume "diffTrCommentsFiles getFirstId getTpHash d a b = Inr d'"
    then show "iddiff_ok d'"
      unfolding diffTrCommentsFiles_def rbind_eq_Inr rassert_eq_Inr
      by - (elim conjE exE, auto intro: keeps_okD[OF keeps_messages(4)] cleared_header_ok split: option.split_asm) }
  assume "diffTrCommentsAgainstEmpty getFirstId getTpHash d b = Inr d'"
  then show "iddiff_ok d'"
    unfolding diffTrCommentsAgainstEmpty_def rbind_eq_Inr rassert_eq_Inr
    by (auto intro: keeps_okD[OF keeps_messages(3)] cleared_header_ok split: option.splits)
qed

lemma keeps_load_id [keeps]: "keeps_ok (\<lambda>d. load_id d msg)"
proof -
  have "keeps_ok (\<lambda>d. load_section insertAddedNew i oj d)" "keeps_ok (\<lambda>d. load_section insertRemovedNew i oj d)"
    "keeps_ok (\<lambda>d. load_section insertReviewNew i oj d)" for i oj
    unfolding load_section_def by (rule keeps | rule keeps_query)+
  note this [keeps]
  show ?thesis unfolding load_id_def by (rule keeps | rule keeps_query)+
qed

lemma loadIddiff_ok:
  assumes "iddiff_ok d" "loadIddiff parse d file_text = Inr (b, d')"
  shows "iddiff_ok d'"
proof -
  have loop: "keeps_ok (\<lambda>d. rfold load_id d messages)" for messages by (rule keeps)+
  have doc: "iddiff_ok d'" if load: "load_json d doc = Inr d'" for doc
  proof -
    obtain su au da ms where "rfold load_id (d\<lparr>m_subject := su, m_authors := au, m_diffDate := da\<rparr>) ms = Inr d'"
      using load unfolding load_json_def rbind_eq_Inr rassert_eq_Inr by - (elim conjE exE, rule that)
    moreover have "iddiff_ok (d\<lparr>m_subject := su, m_authors := au, m_diffDate := da\<rparr>)"
      using assms(1) by (simp add: iddiff_ok_def)
    ultimately show ?thesis using keeps_okD[OF loop] by blast
  qed
  show ?thesis using assms doc by (auto simp: loadIddiff_def rbind_eq_Inr split: option.splits if_splits)
qed

lemma keeps_clearReviewComments: "keeps_ok clearReviewComments"
proof (rule keeps_okI)
  fix d d'
  assume d: "iddiff_ok d" "clearReviewComments d = Inr d'"
  then obtain its where its: "rmap (\<lambda>(k, oc). case oc of None \<Rightarrow> Inl NullDeref
      | Some c \<Rightarrow> Inr (k, Some (change_clearReviewComment c))) (m_items d) = Inr its" "d' = d\<lparr>m_items := its\<rparr>"
    by (auto simp: clearReviewComments_def rbind_eq_Inr)
  have all: "its = map (\<lambda>(k, oc). (k, map_option change_clearReviewComment oc)) xs"
    if "rmap (\<lambda>(k, oc). case oc of None \<Rightarrow> Inl NullDeref
      | Some c \<Rightarrow> Inr (k, Some (change_clearReviewComment c))) xs = Inr its" for xs :: "(int, iddiff_change option) omap" and its
    using that by (induction xs arbitrary: its) (auto simp: rbind_eq_Inr split: option.splits prod.splits)
  have "its = map (\<lambda>(k, oc). (k, map_option change_clearReviewComment oc)) (m_items d)"
    by (rule all[OF its(1)])
  moreover have "change_ok n (change_clearReviewComment c)" if "change_ok n c" for n c
    using that by (auto simp: change_ok_def change_items_def change_clearReviewComment_def)
  moreover have "map_of (map (\<lambda>(k, oc). (k, map_option change_clearReviewComment oc)) xs) k
      = map_option (map_option change_clearReviewComment) (map_of xs k)" for xs :: "(int, iddiff_change option) omap" and k
    by (induction xs) auto
  moreover have "om_inv (map (\<lambda>(k, oc). (k, map_option change_clearReviewComment oc)) (m_items d))"
    using d(1) by (simp add: iddiff_ok_def om_inv_def split_def comp_def)
  ultimately show "iddiff_ok d'"
    using d(1) its(2) by (simp add: iddiff_ok_def) blast
qed

section \<open>Every iddiff\<close>

text \<open>
  The ways to make an iddiff with the operations of the class. Dates, file contents, pointers to
  messages and what the server answers are arbitrary.
\<close>

inductive iddiff_built :: "iddiff \<Rightarrow> bool" where
  built_new: "iddiff_built (new_iddiff t)"
| built_cleared: "iddiff_built d \<Longrightarrow> clearReviewComments d = Inr d' \<Longrightarrow> iddiff_built d'"
| built_removed: "iddiff_built d \<Longrightarrow> insertRemovedClone d p = Inr d' \<Longrightarrow> iddiff_built d'"
| built_added: "iddiff_built d \<Longrightarrow> insertAddedClone d p = Inr d' \<Longrightarrow> iddiff_built d'"
| built_review: "iddiff_built d \<Longrightarrow> insertReviewClone d p = Inr d' \<Longrightarrow> iddiff_built d'"
| built_accepted: "iddiff_built d \<Longrightarrow> acceptTranslation d k item = Inr d' \<Longrightarrow> iddiff_built d'"
| built_rejected: "iddiff_built d \<Longrightarrow> rejectTranslation d k item = Inr d' \<Longrightarrow> iddiff_built d'"
| built_merged: "iddiff_built d \<Longrightarrow> iddiff_built e \<Longrightarrow> merge d e = Inr d' \<Longrightarrow> iddiff_built d'"
| built_comments: "iddiff_built d \<Longrightarrow> iddiff_built e \<Longrightarrow> mergeTrComments d e = Inr d' \<Longrightarrow> iddiff_built d'"
| built_filtered: "iddiff_built d \<Longrightarrow> iddiff_built f \<Longrightarrow> iddiff_built e
    \<Longrightarrow> filterTrustedIddiff d f e = Inr d' \<Longrightarrow> iddiff_built d'"
| built_minimized: "iddiff_built d \<Longrightarrow> minimizeIds getMinIds d = Inr d' \<Longrightarrow> iddiff_built d'"
| built_diff: "iddiff_built d \<Longrightarrow> diffFiles getFirstId getTpHash d a b = Inr d' \<Longrightarrow> iddiff_built d'"
| built_diff_empty: "iddiff_built d \<Longrightarrow> diffAgainstEmpty getFirstId getTpHash d b = Inr d' \<Longrightarrow> iddiff_built d'"
| built_diff_comments: "iddiff_built d \<Longrightarrow> diffTrCommentsFiles getFirstId getTpHash d a b = Inr d' \<Longrightarrow> iddiff_built d'"
| built_comments_empty: "iddiff_built d \<Longrightarrow> diffTrCommentsAgainstEmpty getFirstId getTpHash d b = Inr d' \<Longrightarrow> iddiff_built d'"
| built_loaded: "iddiff_built d \<Longrightarrow> loadIddiff parse d file_text = Inr (b, d') \<Longrightarrow> iddiff_built d'"

lemma built_ok: "iddiff_built d \<Longrightarrow> iddiff_ok d"
proof (induction rule: iddiff_built.induct)
  case built_new
  show ?case by (rule iddiff_ok_new)
next
  case (built_cleared d d')
  then show ?case using keeps_okD[OF keeps_clearReviewComments] by blast
next
  case (built_loaded d parse s b d')
  then show ?case using loadIddiff_ok by blast
qed (blast intro: keeps_okD[OF keeps_insert(1)] keeps_okD[OF keeps_insert(2)] keeps_okD[OF keeps_insertReview] keeps_okD[OF keeps_accept]
    keeps_okD[OF keeps_reject] keeps_okD[OF keeps_merge] keeps_okD[OF keeps_mergeTrComments]
    keeps_okD[OF keeps_filterTrusted] keeps_okD[OF keeps_minimizeIds] diffs_ok)+



end
