(* ===== verification/Sha1.thy ===== *)
theory Sha1
  imports GitOid
begin

text \<open>
  \<open>gtpo/block-sha1/sha1.cpp\<close>: the SHA-1 routine of \<open>sha1_buffer\<close>, with its rolling array of 16
  words and its buffer of 64 bytes, and the SHA-1 of FIPS 180-4 as the reference.
\<close>

section \<open>The routine\<close>

type_synonym sha_chain = "u32 \<times> u32 \<times> u32 \<times> u32 \<times> u32"

text \<open>\<open>sha_W\<close> is the memory of the array \<open>W\<close> by byte; \<open>blk_SHA1_Init\<close> leaves it as it is.\<close>

record sha_ctx =
  sha_size :: "64 word"
  sha_H :: sha_chain
  sha_W :: "nat \<Rightarrow> byte"

definition blk_SHA1_Init :: "(nat \<Rightarrow> byte) \<Rightarrow> sha_ctx" where
  "blk_SHA1_Init w = \<lparr>sha_size = 0,
     sha_H = (0x67452301, 0xefcdab89, 0x98badcfe, 0x10325476, 0xc3d2e1f0), sha_W = w\<rparr>"

definition SHA_ROL :: "u32 \<Rightarrow> nat \<Rightarrow> u32" where
  "SHA_ROL x n = word_rotl n x"

definition SHA_ROR :: "u32 \<Rightarrow> nat \<Rightarrow> u32" where
  "SHA_ROR x n = word_rotr n x"

definition SHA_SRC :: "byte list \<Rightarrow> nat \<Rightarrow> u32" where
  "SHA_SRC data t = un_be32 (take 4 (List.drop (4 * t) data))"

text \<open>\<open>W(x)\<close> is \<open>array[x & 15]\<close>.\<close>

definition arr :: "u32 list \<Rightarrow> nat \<Rightarrow> u32" where
  "arr a x = a ! (x AND 15)"

definition SHA_MIX :: "u32 list \<Rightarrow> nat \<Rightarrow> u32" where
  "SHA_MIX a t = SHA_ROL (arr a (t + 13) XOR arr a (t + 8) XOR arr a (t + 2) XOR arr a t) 1"

text \<open>
  One \<open>SHA_ROUND\<close> with the variables in the roles A to E; the result has them in the roles of the
  next call, which takes E, A, B, C, D. After 80 rounds every variable is in its own role again.
\<close>

definition SHA_ROUND :: "nat \<Rightarrow> u32 \<Rightarrow> u32 \<Rightarrow> u32 \<Rightarrow> sha_chain \<times> u32 list \<Rightarrow> sha_chain \<times> u32 list" where
  "SHA_ROUND t temp fn const = (\<lambda>((A, B, C, D, E), a).
     ((E + (temp + SHA_ROL A 5 + fn + const), A, SHA_ROR B 2, C, D), a[t AND 15 := temp]))"

definition T_0_15 :: "byte list \<Rightarrow> nat \<Rightarrow> sha_chain \<times> u32 list \<Rightarrow> sha_chain \<times> u32 list" where
  "T_0_15 data t s = (case s of ((A, B, C, D, E), a) \<Rightarrow>
     SHA_ROUND t (SHA_SRC data t) (((C XOR D) AND B) XOR D) 0x5a827999 s)"

definition T_16_19 :: "nat \<Rightarrow> sha_chain \<times> u32 list \<Rightarrow> sha_chain \<times> u32 list" where
  "T_16_19 t s = (case s of ((A, B, C, D, E), a) \<Rightarrow>
     SHA_ROUND t (SHA_MIX a t) (((C XOR D) AND B) XOR D) 0x5a827999 s)"

definition T_20_39 :: "nat \<Rightarrow> sha_chain \<times> u32 list \<Rightarrow> sha_chain \<times> u32 list" where
  "T_20_39 t s = (case s of ((A, B, C, D, E), a) \<Rightarrow>
     SHA_ROUND t (SHA_MIX a t) (B XOR C XOR D) 0x6ed9eba1 s)"

definition T_40_59 :: "nat \<Rightarrow> sha_chain \<times> u32 list \<Rightarrow> sha_chain \<times> u32 list" where
  "T_40_59 t s = (case s of ((A, B, C, D, E), a) \<Rightarrow>
     SHA_ROUND t (SHA_MIX a t) ((B AND C) + (D AND (B XOR C))) 0x8f1bbcdc s)"

definition T_60_79 :: "nat \<Rightarrow> sha_chain \<times> u32 list \<Rightarrow> sha_chain \<times> u32 list" where
  "T_60_79 t s = (case s of ((A, B, C, D, E), a) \<Rightarrow>
     SHA_ROUND t (SHA_MIX a t) (B XOR C XOR D) 0xca62c1d6 s)"

text \<open>The array of the block is not initialised; every element is set before it is read.\<close>

definition sha_rounds :: "byte list \<Rightarrow> u32 list \<Rightarrow> sha_chain \<Rightarrow> sha_chain \<times> u32 list" where
  "sha_rounds data a H =
     fold T_60_79 [60..<80] (fold T_40_59 [40..<60] (fold T_20_39 [20..<40]
       (fold T_16_19 [16..<20] (fold (T_0_15 data) [0..<16] (H, a)))))"

definition chain_add :: "sha_chain \<Rightarrow> sha_chain \<Rightarrow> sha_chain" where
  "chain_add = (\<lambda>(h0, h1, h2, h3, h4) (A, B, C, D, E). (h0 + A, h1 + B, h2 + C, h3 + D, h4 + E))"

definition blk_SHA1_Block :: "sha_ctx \<Rightarrow> byte list \<Rightarrow> sha_ctx" where
  "blk_SHA1_Block c data = c\<lparr>sha_H := chain_add (sha_H c) (fst (sha_rounds data (replicate 16 0) (sha_H c)))\<rparr>"

definition mem_copy :: "(nat \<Rightarrow> byte) \<Rightarrow> nat \<Rightarrow> byte list \<Rightarrow> nat \<Rightarrow> byte" where
  "mem_copy w off src = (\<lambda>i. if off \<le> i \<and> i < off + length src then src ! (i - off) else w i)"

definition mem_bytes :: "(nat \<Rightarrow> byte) \<Rightarrow> byte list" where
  "mem_bytes w = map w [0..<64]"

text \<open>The loop over full blocks and the copy of the rest.\<close>

function update_blocks :: "sha_ctx \<Rightarrow> byte list \<Rightarrow> sha_ctx" where
  "update_blocks c data =
     (if length data \<ge> 64 then update_blocks (blk_SHA1_Block c data) (List.drop 64 data)
      else if data \<noteq> [] then c\<lparr>sha_W := mem_copy (sha_W c) 0 data\<rparr> else c)"
  by pat_completeness auto
termination by (relation "measure (\<lambda>(c, data). length data)") auto

declare update_blocks.simps [simp del]

definition blk_SHA1_Update :: "sha_ctx \<Rightarrow> byte list \<Rightarrow> sha_ctx" where
  "blk_SHA1_Update c data =
     (let lenW = unat (sha_size c AND 63);
          c1 = c\<lparr>sha_size := sha_size c + of_nat (length data)\<rparr>
      in if lenW \<noteq> 0 then
           let left = (if length data < 64 - lenW then length data else 64 - lenW);
               c2 = c1\<lparr>sha_W := mem_copy (sha_W c1) lenW (take left data)\<rparr>
           in if (lenW + left) AND 63 \<noteq> 0 then c2
              else update_blocks (blk_SHA1_Block c2 (mem_bytes (sha_W c2))) (List.drop left data)
         else update_blocks c1 data)"

definition sha_pad :: "byte list" where
  "sha_pad = 0x80 # replicate 63 0"

definition blk_SHA1_Final :: "sha_ctx \<Rightarrow> byte list" where
  "blk_SHA1_Final c =
     (let padlen0 = be32 (ucast (drop_bit 29 (sha_size c)));
          padlen1 = be32 (ucast (push_bit 3 (sha_size c)));
          i = uint (sha_size c AND 63);
          c1 = blk_SHA1_Update c (take (nat (1 + (63 AND (55 - i)))) sha_pad);
          c2 = blk_SHA1_Update c1 (padlen0 @ padlen1)
      in (case sha_H c2 of (h0, h1, h2, h3, h4) \<Rightarrow> be32 h0 @ be32 h1 @ be32 h2 @ be32 h3 @ be32 h4))"

definition sha1_buffer :: "(nat \<Rightarrow> byte) \<Rightarrow> byte list \<Rightarrow> git_oid" where
  "sha1_buffer w buffer = oid_of_raw (blk_SHA1_Final (blk_SHA1_Update (blk_SHA1_Init w) buffer))"

end
