(* ===== verification/Sha1Facts.thy ===== *)
theory Sha1Facts
  imports Sha1
begin

text \<open>
  SHA-1 as FIPS 180-4 defines it, and that \<open>sha1_buffer\<close> computes it, whatever the size of the
  buffer and whatever the memory held before.
\<close>

section \<open>The standard\<close>

definition fips_f :: "nat \<Rightarrow> u32 \<Rightarrow> u32 \<Rightarrow> u32 \<Rightarrow> u32" where
  "fips_f t x y z =
     (if t < 20 then (x AND y) XOR (NOT x AND z)
      else if t < 40 then x XOR y XOR z
      else if t < 60 then (x AND y) XOR (x AND z) XOR (y AND z)
      else x XOR y XOR z)"

definition fips_K :: "nat \<Rightarrow> u32" where
  "fips_K t = (if t < 20 then 0x5a827999 else if t < 40 then 0x6ed9eba1
     else if t < 60 then 0x8f1bbcdc else 0xca62c1d6)"

text \<open>The message schedule of a block of 64 bytes.\<close>

function fips_W :: "byte list \<Rightarrow> nat \<Rightarrow> u32" where
  "fips_W M t = (if t < 16 then un_be32 (take 4 (List.drop (4 * t) M))
     else word_rotl 1 (fips_W M (t - 3) XOR fips_W M (t - 8) XOR fips_W M (t - 14) XOR fips_W M (t - 16)))"
  by pat_completeness auto
termination by (relation "measure snd") auto

declare fips_W.simps [simp del]

primrec fips_rounds :: "byte list \<Rightarrow> sha_chain \<Rightarrow> nat \<Rightarrow> sha_chain" where
  "fips_rounds M H 0 = H"
| "fips_rounds M H (Suc t) = (case fips_rounds M H t of (a, b, c, d, e) \<Rightarrow>
     (word_rotl 5 a + fips_f t b c d + e + fips_K t + fips_W M t, a, word_rotl 30 b, c, d))"

definition fips_block :: "sha_chain \<Rightarrow> byte list \<Rightarrow> sha_chain" where
  "fips_block H M = chain_add H (fips_rounds M H 80)"

function fips_blocks :: "sha_chain \<Rightarrow> byte list \<Rightarrow> sha_chain" where
  "fips_blocks H m = (if length m \<ge> 64 then fips_blocks (fips_block H (take 64 m)) (List.drop 64 m) else H)"
  by pat_completeness auto
termination by (relation "measure (\<lambda>(H, m). length m)") auto

declare fips_blocks.simps [simp del]

definition fips_padding :: "byte list \<Rightarrow> byte list" where
  "fips_padding m = (let l = of_nat (8 * length m) :: 64 word in
     [0x80] @ replicate (nat ((55 - int (length m)) mod 64)) 0
       @ be32 (ucast (drop_bit 32 l)) @ be32 (ucast l))"

definition fips_sha1 :: "byte list \<Rightarrow> byte list" where
  "fips_sha1 m =
     (case fips_blocks (0x67452301, 0xefcdab89, 0x98badcfe, 0x10325476, 0xc3d2e1f0) (m @ fips_padding m) of
        (h0, h1, h2, h3, h4) \<Rightarrow> be32 h0 @ be32 h1 @ be32 h2 @ be32 h3 @ be32 h4)"

section \<open>Rounds\<close>

lemma and_15: "x AND 15 = x mod 16" and and_63: "x AND 63 = x mod 64" for x :: nat
proof -
  show "x AND 15 = x mod 16"
    using take_bit_eq_mask[of 4 x] by (simp add: take_bit_eq_mod mask_eq_exp_minus_1)
  show "x AND 63 = x mod 64"
    using take_bit_eq_mask[of 6 x] by (simp add: take_bit_eq_mod mask_eq_exp_minus_1)
qed

lemma ch_eq: "((c XOR d) AND b) XOR d = (b AND c) XOR (NOT b AND d)" for b c d :: u32
  by (rule bit_word_eqI) (auto simp: bit_simps)

lemma maj_eq: "(b AND c) + (d AND (b XOR c)) = (b AND c) XOR (b AND d) XOR (c AND d)" for b c d :: u32
proof -
  have "(b AND c) AND (d AND (b XOR c)) = 0"
    by (rule bit_word_eqI) (auto simp: bit_simps)
  then have "(b AND c) + (d AND (b XOR c)) = (b AND c) OR (d AND (b XOR c))"
    by (rule disjunctive_add_eq_or)
  also have "\<dots> = (b AND c) XOR (b AND d) XOR (c AND d)"
    by (rule bit_word_eqI) (auto simp: bit_simps)
  finally show ?thesis .
qed

lemma ror_2: "SHA_ROR x 2 = word_rotl 30 x"
  unfolding SHA_ROR_def by (rule bit_word_eqI) (simp add: bit_word_rotl_iff bit_word_rotr_iff)

definition round_inv :: "byte list \<Rightarrow> sha_chain \<Rightarrow> nat \<Rightarrow> sha_chain \<times> u32 list \<Rightarrow> bool" where
  "round_inv M H t s \<longleftrightarrow> fst s = fips_rounds M H t \<and> length (snd s) = 16
     \<and> (\<forall>j < t. t \<le> j + 16 \<longrightarrow> snd s ! (j mod 16) = fips_W M j)"

lemma round_inv_step:
  assumes "round_inv M H t ((A, B, C, D, E), a)"
    and "temp = fips_W M t" "fn = fips_f t B C D" "const = fips_K t"
  shows "round_inv M H (Suc t) (SHA_ROUND t temp fn const ((A, B, C, D, E), a))"
proof -
  have len: "length a = 16" and rec: "\<And>j. j < t \<Longrightarrow> t \<le> j + 16 \<Longrightarrow> a ! (j mod 16) = fips_W M j"
    and chain: "fips_rounds M H t = (A, B, C, D, E)"
    using assms(1) by (auto simp: round_inv_def)
  have "a[t mod 16 := temp] ! (j mod 16) = fips_W M j" if "j < Suc t" "Suc t \<le> j + 16" for j
  proof (cases "j = t")
    case True
    then show ?thesis using len assms(2) by simp
  next
    case False
    with that have j: "j < t" "t < j + 16" by auto
    have "j mod 16 \<noteq> t mod 16"
    proof
      assume "j mod 16 = t mod 16"
      then have "16 dvd t - j" using j(1) mod_eq_dvd_iff_nat[of j t 16] by simp
      with j show False by (auto dest: dvd_imp_le)
    qed
    then show ?thesis using rec[of j] j by simp
  qed
  then show ?thesis
    using len chain assms(2-4)
    by (simp add: round_inv_def SHA_ROUND_def and_15 SHA_ROL_def ror_2 ac_simps)
qed

lemma mix_eq:
  assumes "round_inv M H t (c, a)" "16 \<le> t"
  shows "SHA_MIX a t = fips_W M t"
proof -
  have rec: "\<And>j. j < t \<Longrightarrow> t \<le> j + 16 \<Longrightarrow> a ! (j mod 16) = fips_W M j"
    using assms(1) by (auto simp: round_inv_def)
  have "t + 13 = (t - 3) + 16" "t + 8 = (t - 8) + 16" "t + 2 = (t - 14) + 16" using assms(2) by simp_all
  then have "(t + 13) mod 16 = (t - 3) mod 16" "(t + 8) mod 16 = (t - 8) mod 16" "(t + 2) mod 16 = (t - 14) mod 16"
    by (simp_all only: mod_add_self2)
  moreover have "t mod 16 = (t - 16) mod 16" using assms(2) by (rule le_mod_geq)
  ultimately  have "arr a (t + 13) = fips_W M (t - 3)" "arr a (t + 8) = fips_W M (t - 8)" "arr a (t + 2) = fips_W M (t - 14)"
      "arr a t = fips_W M (t - 16)"
    using rec[of "t - 3"] rec[of "t - 8"] rec[of "t - 14"] rec[of "t - 16"] assms(2)
    by (simp_all add: arr_def and_15)
  then show ?thesis
    using assms(2) by (simp add: SHA_MIX_def SHA_ROL_def fips_W.simps[of M t])
qed

lemma rounds_fold:
  assumes "lo \<le> hi" "round_inv M H lo s"
    and "\<And>t s. lo \<le> t \<Longrightarrow> t < hi \<Longrightarrow> round_inv M H t s \<Longrightarrow> round_inv M H (Suc t) (f t s)"
  shows "round_inv M H hi (fold f [lo..<hi] s)"
  using assms
proof (induction hi rule: dec_induct)
  case base
  then show ?case by simp
next
  case (step n)
  then show ?case by simp
qed

text \<open>Which round function and constant each macro stands for.\<close>

lemma macro_steps:
  "t < 16 \<Longrightarrow> round_inv M H t s \<Longrightarrow> round_inv M H (Suc t) (T_0_15 M t s)"
  "16 \<le> t \<Longrightarrow> t < 20 \<Longrightarrow> round_inv M H t s \<Longrightarrow> round_inv M H (Suc t) (T_16_19 t s)"
  "20 \<le> t \<Longrightarrow> t < 40 \<Longrightarrow> round_inv M H t s \<Longrightarrow> round_inv M H (Suc t) (T_20_39 t s)"
  "40 \<le> t \<Longrightarrow> t < 60 \<Longrightarrow> round_inv M H t s \<Longrightarrow> round_inv M H (Suc t) (T_40_59 t s)"
  "60 \<le> t \<Longrightarrow> t < 80 \<Longrightarrow> round_inv M H t s \<Longrightarrow> round_inv M H (Suc t) (T_60_79 t s)"
proof -
  obtain A B C D E a where s: "s = ((A, B, C, D, E), a)" by (metis prod.collapse)
  show "t < 16 \<Longrightarrow> round_inv M H t s \<Longrightarrow> round_inv M H (Suc t) (T_0_15 M t s)"
    unfolding T_0_15_def s prod.case
    by (rule round_inv_step) (simp_all add: SHA_SRC_def fips_W.simps[of M t] fips_f_def fips_K_def ch_eq)
  show "16 \<le> t \<Longrightarrow> t < 20 \<Longrightarrow> round_inv M H t s \<Longrightarrow> round_inv M H (Suc t) (T_16_19 t s)"
    unfolding T_16_19_def s prod.case
    by (rule round_inv_step) (simp_all add: mix_eq fips_f_def fips_K_def ch_eq)
  show "20 \<le> t \<Longrightarrow> t < 40 \<Longrightarrow> round_inv M H t s \<Longrightarrow> round_inv M H (Suc t) (T_20_39 t s)"
    unfolding T_20_39_def s prod.case
    by (rule round_inv_step) (simp_all add: mix_eq fips_f_def fips_K_def)
  show "40 \<le> t \<Longrightarrow> t < 60 \<Longrightarrow> round_inv M H t s \<Longrightarrow> round_inv M H (Suc t) (T_40_59 t s)"
    unfolding T_40_59_def s prod.case
    by (rule round_inv_step) (simp_all add: mix_eq fips_f_def fips_K_def maj_eq)
  show "60 \<le> t \<Longrightarrow> t < 80 \<Longrightarrow> round_inv M H t s \<Longrightarrow> round_inv M H (Suc t) (T_60_79 t s)"
    unfolding T_60_79_def s prod.case
    by (rule round_inv_step) (simp_all add: mix_eq fips_f_def fips_K_def)
qed

lemma block_eq: "blk_SHA1_Block c M = c\<lparr>sha_H := fips_block (sha_H c) M\<rparr>"
proof -
  have "round_inv M (sha_H c) 80 (sha_rounds M (replicate 16 0) (sha_H c))"
    unfolding sha_rounds_def
    by (intro rounds_fold macro_steps) (simp_all add: round_inv_def)
  then show ?thesis by (simp add: blk_SHA1_Block_def fips_block_def round_inv_def)
qed

lemma fips_block_take: "fips_block H (take 64 M) = fips_block H M"
proof -
  have "fips_W (take 64 M) t = fips_W M t" for t
  proof (induction t rule: less_induct)
    case (less t)
    have "take 4 (List.drop (4 * t) (take 64 M)) = take 4 (List.drop (4 * t) M)" if "t < 16"
      using that by (simp add: drop_take min_def)
    then show ?case using less by (simp add: fips_W.simps[of _ t])
  qed
  then have "fips_rounds (take 64 M) H t = fips_rounds M H t" for t
    by (induction t) (simp_all split: prod.splits)
  then show ?thesis by (simp add: fips_block_def)
qed

section \<open>Absorbing bytes\<close>

text \<open>The bytes after the last full block.\<close>

definition tail_of :: "byte list \<Rightarrow> byte list" where
  "tail_of m = List.drop (64 * (length m div 64)) m"

definition absorbed :: "sha_chain \<Rightarrow> sha_ctx \<Rightarrow> byte list \<Rightarrow> bool" where
  "absorbed H c m \<longleftrightarrow> sha_size c = of_nat (length m) \<and> sha_H c = fips_blocks H m
     \<and> (\<forall>i < length m mod 64. sha_W c i = tail_of m ! i)"

lemma length_tail: "length (tail_of m) = length m mod 64"
  by (simp add: tail_of_def minus_mult_div_eq_mod)

lemma fips_blocks_append:
  "fips_blocks H (m @ d) = fips_blocks (fips_blocks H m) (tail_of m @ d)"
proof (induction H m rule: fips_blocks.induct)
  case (1 H m)
  show ?case
  proof (cases "64 \<le> length m")
    case True
    then have "tail_of m = tail_of (List.drop 64 m)"
      by (simp add: tail_of_def le_div_geq add.commute)
    moreover have "fips_blocks H (m @ d) = fips_blocks (fips_block H (take 64 m)) (List.drop 64 m @ d)"
      using True by (subst fips_blocks.simps) simp
    moreover have "fips_blocks H m = fips_blocks (fips_block H (take 64 m)) (List.drop 64 m)"
      using True by (subst fips_blocks.simps) simp
    ultimately show ?thesis using 1[OF True] by simp
  next
    case False
    then have "fips_blocks H m = H" "tail_of m = m"
      by (simp_all add: fips_blocks.simps[of H m] tail_of_def)
    then show ?thesis by simp
  qed
qed

lemma fips_blocks_small: "length m < 64 \<Longrightarrow> fips_blocks H m = H"
  by (simp add: fips_blocks.simps)

lemma fips_blocks_full:
  "length b = 64 \<Longrightarrow> fips_blocks H (b @ d) = fips_blocks (fips_block H b) d"
  by (subst fips_blocks.simps) simp

lemma tail_append: "tail_of (m @ d) = tail_of (tail_of m @ d)"
proof -
  let ?q = "length m div 64"
  have l: "length m = 64 * ?q + length (tail_of m)" by (simp add: length_tail)
  have "(length m + length d) div 64 = ?q + (length (tail_of m) + length d) div 64"
    by (metis add.assoc div_mult_self4 l mult.commute zero_neq_numeral)
  then have "64 * ((length m + length d) div 64) = 64 * ?q + 64 * ((length (tail_of m) + length d) div 64)" by simp
  moreover have "tail_of m @ d = List.drop (64 * ?q) (m @ d)"
    by (simp add: tail_of_def)
  moreover have "length (tail_of m @ d) = length (tail_of m) + length d" "length (m @ d) = length m + length d"
    by simp_all
  ultimately show ?thesis
    unfolding tail_of_def[of "m @ d"] tail_of_def[of "tail_of m @ d"] by (simp only: drop_drop add.commute)
qed

lemma update_blocks_facts:
  "sha_size (update_blocks c d) = sha_size c \<and> sha_H (update_blocks c d) = fips_blocks (sha_H c) d
    \<and> (\<forall>i < length d mod 64. sha_W (update_blocks c d) i = tail_of d ! i)"
proof (induction c d rule: update_blocks.induct)
  case (1 c d)
  show ?case
  proof (cases "64 \<le> length d")
    case True
    then have "tail_of d = tail_of (List.drop 64 d)" "length (List.drop 64 d) mod 64 = length d mod 64"
      by (simp_all add: tail_of_def le_div_geq le_mod_geq add.commute)
    moreover have "fips_blocks (sha_H c) d = fips_blocks (fips_block (sha_H c) d) (List.drop 64 d)"
      using True by (subst fips_blocks.simps) (simp add: fips_block_take)
    ultimately show ?thesis
      using 1[OF True] True by (simp add: update_blocks.simps[of c d] block_eq)
  next
    case False
    then have "tail_of d = d" by (simp add: tail_of_def)
    with False show ?thesis
      by (simp add: update_blocks.simps[of c d] fips_blocks_small mem_copy_def)
  qed
qed

lemma size_and_63: "sha_size c = of_nat n \<Longrightarrow> unat (sha_size c AND 63) = n mod 64"
proof -
  assume "sha_size c = of_nat n"
  moreover have "(63 :: 64 word) = mask 6" by (simp add: mask_eq_exp_minus_1)
  ultimately have "sha_size c AND 63 = take_bit 6 (of_nat n)" by (simp only: take_bit_eq_mask)
  then have "unat (sha_size c AND 63) = take_bit 6 (take_bit 64 n)"
    by (simp only: unsigned_take_bit_eq unsigned_of_nat) simp
  also have "\<dots> = n mod 64" by (simp add: take_bit_eq_mod mod_mod_cancel)
  finally show ?thesis .
qed

text \<open>
  The three ways through \<open>blk_SHA1_Update\<close>: no bytes are waiting in the context; the new bytes do not
  fill the block; they do.
\<close>

lemma update_absorbs_empty:
  assumes "absorbed H c m" "length m mod 64 = 0"
  shows "absorbed H (blk_SHA1_Update c d) (m @ d)"
proof -
  have size: "sha_size c = of_nat (length m)" and chain: "sha_H c = fips_blocks H m"
    using assms by (auto simp: absorbed_def)
  let ?c1 = "c\<lparr>sha_size := sha_size c + of_nat (length d)\<rparr>"
  have upd: "blk_SHA1_Update c d = update_blocks ?c1 d"
    using assms(2) size_and_63[OF size] by (simp add: blk_SHA1_Update_def)
  have "tail_of m = []" using assms(2) length_tail[of m] by simp
  then have "tail_of (m @ d) = tail_of d" "fips_blocks H (m @ d) = fips_blocks (sha_H c) d"
    using tail_append[of m d] fips_blocks_append[of H m d] by (simp_all add: chain)
  moreover have "length (m @ d) mod 64 = length d mod 64" using assms(2) by (simp add: mod_add_left_eq[symmetric])
  moreover have "sha_size ?c1 = of_nat (length (m @ d))" "sha_H ?c1 = sha_H c" by (simp_all add: size)
  ultimately show ?thesis using update_blocks_facts[of ?c1 d] unfolding absorbed_def upd by simp
qed

lemma copied_tail:
  assumes "absorbed H c m" "k \<le> length d" "i < length m mod 64 + k"
  shows "mem_copy (sha_W c) (length m mod 64) (take k d) i = (tail_of m @ take k d) ! i"
  using assms length_tail[of m] by (auto simp: absorbed_def mem_copy_def nth_append)

lemma update_absorbs_short:
  assumes m: "absorbed H c m" "length m mod 64 \<noteq> 0" and short: "length d < 64 - length m mod 64"
  shows "absorbed H (blk_SHA1_Update c d) (m @ d)"
proof -
  have size: "sha_size c = of_nat (length m)" and chain: "sha_H c = fips_blocks H m"
    using m by (auto simp: absorbed_def)
  have upd: "blk_SHA1_Update c d = c\<lparr>sha_size := sha_size c + of_nat (length d),
      sha_W := mem_copy (sha_W c) (length m mod 64) (take (length d) d)\<rparr>"
    using m(2) short size_and_63[OF size] by (simp add: blk_SHA1_Update_def Let_def and_63)
  have small: "length (tail_of m @ d) < 64" using short by (simp add: length_tail)
  then have "tail_of (m @ d) = tail_of m @ d" using tail_append[of m d] by (simp add: tail_of_def)
  moreover have "length (m @ d) mod 64 = length m mod 64 + length d"
    using short by (simp add: mod_add_left_eq[of "length m" 64, symmetric])
  ultimately show ?thesis
    using fips_blocks_append[of H m d] fips_blocks_small[OF small] copied_tail[OF m(1), of "length d" d]
    by (simp add: absorbed_def upd size chain)
qed

lemma update_absorbs_full:
  assumes m: "absorbed H c m" "length m mod 64 \<noteq> 0" and full: "64 - length m mod 64 \<le> length d"
  shows "absorbed H (blk_SHA1_Update c d) (m @ d)"
proof -
  define left where "left = 64 - length m mod 64"
  let ?b = "tail_of m @ take left d" and ?w = "mem_copy (sha_W c) (length m mod 64) (take left d)"
  let ?c2 = "c\<lparr>sha_size := sha_size c + of_nat (length d), sha_W := ?w, sha_H := fips_block (sha_H c) ?b\<rparr>"
  have size: "sha_size c = of_nat (length m)" and chain: "sha_H c = fips_blocks H m"
    using m by (auto simp: absorbed_def)
  have left: "length m mod 64 + left = 64" "left \<le> length d" using full by (auto simp: left_def)
  have b: "length ?b = 64" using left by (simp add: length_tail)
  have "mem_bytes ?w = ?b"
    by (rule nth_equalityI) (use b copied_tail[OF m(1) left(2)] left(1) in \<open>auto simp: mem_bytes_def\<close>)
  then have upd: "blk_SHA1_Update c d = update_blocks ?c2 (List.drop left d)"
    using m(2) full left(1) size_and_63[OF size] by (simp add: blk_SHA1_Update_def Let_def left_def[symmetric] and_63 block_eq)
  have td: "tail_of m @ d = ?b @ List.drop left d" by simp
  have "fips_blocks H (m @ d) = fips_blocks (fips_block (sha_H c) ?b) (List.drop left d)"
    unfolding fips_blocks_append[of H m d] td chain by (rule fips_blocks_full[OF b])
  moreover have "tail_of ?b = []" using b length_tail[of ?b] by simp
  then have "tail_of (m @ d) = tail_of (List.drop left d)"
    using tail_append[of m d] tail_append[of ?b "List.drop left d"] unfolding td by simp
  moreover have "length (m @ d) mod 64 = length (List.drop left d) mod 64"
  proof -
    have "length (m @ d) mod 64 = length (tail_of m @ d) mod 64" by (simp add: length_tail mod_add_left_eq)
    then show ?thesis unfolding td length_append[of ?b] b by simp
  qed
  ultimately show ?thesis
    using update_blocks_facts[of ?c2 "List.drop left d", folded upd] by (simp add: absorbed_def size)
qed

lemma update_absorbs: "absorbed H c m \<Longrightarrow> absorbed H (blk_SHA1_Update c d) (m @ d)"
  using update_absorbs_empty update_absorbs_short update_absorbs_full by (metis not_le)

section \<open>The whole hash\<close>

lemma int_and_63: "63 AND (i :: int) = i mod 64"
  using take_bit_eq_mask[of 6 i] by (simp add: take_bit_eq_mod mask_eq_exp_minus_1 and.commute)

lemma length_words_eq:
  "ucast (drop_bit 29 s) = (ucast (drop_bit 32 (push_bit 3 s)) :: u32)" for s :: "64 word"
  by (rule bit_word_eqI) (auto simp: bit_simps)

text \<open>The padding of \<open>blk_SHA1_Final\<close> is the standard's.\<close>

lemma code_padding:
  assumes "sha_size c = of_nat (length m)"
  shows "take (nat (1 + (63 AND (55 - uint (sha_size c AND 63))))) sha_pad
      @ be32 (ucast (drop_bit 29 (sha_size c))) @ be32 (ucast (push_bit 3 (sha_size c))) = fips_padding m"
proof -
  have u: "uint (sha_size c AND 63) = int (length m mod 64)"
    using size_and_63[OF assms] by (metis uint_nat)
  have p: "63 AND (55 - int (length m mod 64)) = (55 - int (length m)) mod 64"
    unfolding int_and_63 of_nat_mod by (simp add: mod_diff_right_eq)
  define k where "k = nat ((55 - int (length m)) mod 64)"
  have "0 \<le> (55 - int (length m)) mod 64" "(55 - int (length m)) mod 64 < 64" by simp_all
  then have k: "nat (1 + (55 - int (length m)) mod 64) = Suc k" "k \<le> 63"
    unfolding k_def by linarith+
  have pad: "take (nat (1 + (63 AND (55 - uint (sha_size c AND 63))))) sha_pad = [0x80] @ replicate k 0"
    unfolding u p k(1) using k(2) by (simp add: sha_pad_def min_def)
  have "push_bit 3 (sha_size c) = of_nat (8 * length m)"
    by (simp add: assms push_bit_eq_mult)
  then show ?thesis
    unfolding pad length_words_eq by (simp add: fips_padding_def Let_def k_def)
qed

lemma final_absorbed:
  assumes c: "absorbed (0x67452301, 0xefcdab89, 0x98badcfe, 0x10325476, 0xc3d2e1f0) c m"
  shows "blk_SHA1_Final c = fips_sha1 m"
proof -
  let ?H = "(0x67452301, 0xefcdab89, 0x98badcfe, 0x10325476, 0xc3d2e1f0) :: sha_chain"
  let ?p = "take (nat (1 + (63 AND (55 - uint (sha_size c AND 63))))) sha_pad"
  let ?l = "be32 (ucast (drop_bit 29 (sha_size c))) @ be32 (ucast (push_bit 3 (sha_size c)))"
  have pad: "?p @ ?l = fips_padding m"
    using c code_padding[of c m] by (simp add: absorbed_def)
  have "absorbed ?H (blk_SHA1_Update (blk_SHA1_Update c ?p) ?l) ((m @ ?p) @ ?l)"
    by (intro update_absorbs c)
  then have "sha_H (blk_SHA1_Update (blk_SHA1_Update c ?p) ?l) = fips_blocks ?H (m @ fips_padding m)"
    unfolding absorbed_def append_assoc pad by blast
  then show ?thesis by (simp add: blk_SHA1_Final_def fips_sha1_def Let_def)
qed

lemma absorbed_init:
  "absorbed (0x67452301, 0xefcdab89, 0x98badcfe, 0x10325476, 0xc3d2e1f0) (blk_SHA1_Init w) []"
  by (simp add: absorbed_def blk_SHA1_Init_def fips_blocks_small)

lemma sha1_eq: "blk_SHA1_Final (blk_SHA1_Update (blk_SHA1_Init w) m) = fips_sha1 m"
  using final_absorbed[OF update_absorbs[OF absorbed_init, of w m]] by simp

text \<open>
  C21. The optimised routine computes SHA-1: for every buffer and whatever the uninitialised
  memory of its context held, \<open>sha1_buffer\<close> gives the 20 bytes that FIPS 180-4 defines.
\<close>

theorem sha1_buffer_correct:
  "sha1_buffer w m = fips_sha1 m \<and> length (sha1_buffer w m) = oid_size"
proof -
  obtain a b c d e where "fips_blocks (0x67452301, 0xefcdab89, 0x98badcfe, 0x10325476, 0xc3d2e1f0)
      (m @ fips_padding m) = (a, b, c, d, e)" by (metis prod.collapse)
  then have "length (fips_sha1 m) = 20" by (simp add: fips_sha1_def)
  then show ?thesis by (simp add: sha1_buffer_def oid_of_raw_def sha1_eq oid_size_def)
qed

text \<open>
  \<open>blk_SHA1_Update\<close> may be called with the data in any pieces: hashing a buffer in two parts is
  hashing it at once.
\<close>

theorem sha1_update_pieces:
  "blk_SHA1_Final (blk_SHA1_Update (blk_SHA1_Update (blk_SHA1_Init w) a) b)
    = blk_SHA1_Final (blk_SHA1_Update (blk_SHA1_Init w) (a @ b))"
  using final_absorbed[OF update_absorbs[OF update_absorbs[OF absorbed_init]], of w a b] by (simp add: sha1_eq)

end
