(* ===== verification/Commits.thy ===== *)
theory Commits
  imports GitOid
begin

text \<open>
  \<open>gtpo/commitfilechange.cpp\<close> and \<open>gtpo/commit.cpp\<close>: a change of one file in a commit, and a
  commit with its list of changes and the binary search in it. An object ID that a constructor
  does not set is \<open>None\<close>; a \<open>const git_oid *\<close> that may be null is a \<open>git_oid option\<close>.
\<close>

section \<open>\<open>CommitFileChange\<close>\<close>

definition ADD :: int where "ADD = 1"
definition DEL :: int where "DEL = 2"
definition MOD :: int where "MOD = 3"

lemmas change_types = ADD_def DEL_def MOD_def

record file_change =
  fc_oid1 :: "git_oid option"
  fc_oid2 :: "git_oid option"
  fc_path :: string
  fc_name :: string
  fc_type :: int

definition strip_slash :: "string \<Rightarrow> string" where
  "strip_slash path = (case path of c # cs \<Rightarrow> if c = CHR ''/'' then cs else path | [] \<Rightarrow> path)"

definition new_file_change ::
    "git_oid option \<Rightarrow> git_oid option \<Rightarrow> string \<Rightarrow> string \<Rightarrow> int \<Rightarrow> file_change res" where
  "new_file_change oid1 oid2 path name type =
     rassert (if type = ADD then oid1 = None \<and> oid2 \<noteq> None
              else if type = DEL then oid1 \<noteq> None \<and> oid2 = None
              else if type = MOD then oid1 \<noteq> None \<and> oid2 \<noteq> None
              else False)
       (Inr \<lparr>fc_oid1 = oid1, fc_oid2 = oid2, fc_path = strip_slash path, fc_name = name, fc_type = type\<rparr>)"

definition the_oid :: "git_oid option \<Rightarrow> git_oid res" where
  "the_oid x = (case x of None \<Rightarrow> Inl Uninitialized | Some o1 \<Rightarrow> Inr o1)"

definition change_oid1 :: "file_change \<Rightarrow> git_oid res" where
  "change_oid1 c = rassert (fc_type c = DEL \<or> fc_type c = MOD) (the_oid (fc_oid1 c))"

definition change_oid2 :: "file_change \<Rightarrow> git_oid res" where
  "change_oid2 c = rassert (fc_type c = ADD \<or> fc_type c = MOD) (the_oid (fc_oid2 c))"

definition tryOid1 :: "file_change \<Rightarrow> git_oid option" where
  "tryOid1 c = (if fc_type c = DEL \<or> fc_type c = MOD then fc_oid1 c else None)"

definition tryOid2 :: "file_change \<Rightarrow> git_oid option" where
  "tryOid2 c = (if fc_type c = ADD \<or> fc_type c = MOD then fc_oid2 c else None)"

definition change_print :: "file_change \<Rightarrow> string res" where
  "change_print c =
     (if fc_type c = ADD then Inr (''A    ('' @ fc_path c @ '') '' @ fc_name c @ [CHR 0x0A])
      else if fc_type c = DEL then Inr (''D    ('' @ fc_path c @ '') '' @ fc_name c @ [CHR 0x0A])
      else if fc_type c = MOD then Inr (''M    ('' @ fc_path c @ '') '' @ fc_name c @ [CHR 0x0A])
      else Inl AssertFail)"

text \<open>The class invariant: the IDs that are set are those of the type.\<close>

definition file_change_ok :: "file_change \<Rightarrow> bool" where
  "file_change_ok c \<longleftrightarrow> fc_type c \<in> {ADD, DEL, MOD}
     \<and> (fc_oid1 c \<noteq> None \<longleftrightarrow> fc_type c \<noteq> ADD) \<and> (fc_oid2 c \<noteq> None \<longleftrightarrow> fc_type c \<noteq> DEL)"

lemma new_file_change_wf: "new_file_change a b p n t = Inr c \<Longrightarrow> file_change_ok c"
  by (auto simp: new_file_change_def file_change_ok_def change_types res_simps split: if_splits)

lemma tryOid_ok:
  assumes "file_change_ok c"
  shows "tryOid1 c = fc_oid1 c" "tryOid2 c = fc_oid2 c"
    "fc_type c \<noteq> ADD \<Longrightarrow> change_oid1 c = Inr (the (fc_oid1 c))"
    "fc_type c \<noteq> DEL \<Longrightarrow> change_oid2 c = Inr (the (fc_oid2 c))"
  using assms
  by (auto simp: file_change_ok_def tryOid1_def tryOid2_def change_oid1_def change_oid2_def the_oid_def change_types)

section \<open>\<open>Commit\<close>\<close>

text \<open>Constructed from the ID and the time of a libgit2 commit.\<close>

record commit =
  c_oid :: git_oid
  c_time :: int
  c_changes :: "file_change list"

definition new_commit :: "git_oid \<Rightarrow> int \<Rightarrow> commit" where
  "new_commit oid time = \<lparr>c_oid = oid, c_time = time, c_changes = []\<rparr>"

definition addChange :: "commit \<Rightarrow> file_change \<Rightarrow> commit" where
  "addChange c ch = c\<lparr>c_changes := c_changes c @ [ch]\<rparr>"

definition nChanges :: "commit \<Rightarrow> int" where
  "nChanges c = int (length (c_changes c))"

definition commit_change :: "commit \<Rightarrow> int \<Rightarrow> file_change res" where
  "commit_change c index = rassert (index \<ge> 0 \<and> index < nChanges c) (nth_res (c_changes c) (nat index))"

definition build_pathname :: "string \<Rightarrow> string \<Rightarrow> string" where
  "build_pathname path name = path @ ''/'' @ name"

text \<open>On strings without a NUL byte.\<close>

definition strcmp :: "string \<Rightarrow> string \<Rightarrow> int" where
  "strcmp a b = (if a < b then - 1 else if a = b then 0 else 1)"

function findChange_loop :: "commit \<Rightarrow> string \<Rightarrow> int \<Rightarrow> int \<Rightarrow> file_change option res" where
  "findChange_loop c pattern left right =
     (if left \<le> right then
        let mid = (left + right) div 2 in
        rbind (commit_change c mid) (\<lambda>change.
          let cmp = strcmp pattern (build_pathname (fc_path change) (fc_name change)) in
          if cmp > 0 then findChange_loop c pattern (mid + 1) right
          else if cmp < 0 then findChange_loop c pattern left (mid - 1)
          else Inr (Some change))
      else Inr None)"
  by pat_completeness auto
termination by (relation "measure (\<lambda>(c, p, l, r). nat (r - l + 1))") auto

declare findChange_loop.simps [simp del]

definition findChange :: "commit \<Rightarrow> string \<Rightarrow> string \<Rightarrow> file_change option res" where
  "findChange c name path = findChange_loop c (build_pathname path name) 0 (nChanges c - 1)"

definition findChangesByBasename :: "commit \<Rightarrow> string \<Rightarrow> file_change list" where
  "findChangesByBasename c basename = filter (\<lambda>ch. basename = fc_name ch) (c_changes c)"

definition findRemovalOid :: "commit \<Rightarrow> string \<Rightarrow> string \<Rightarrow> git_oid option res" where
  "findRemovalOid c name path = rbind (findChange c name path) (\<lambda>r. case r of
      Some change \<Rightarrow> if fc_type change = DEL then rbind (change_oid1 change) (\<lambda>x. Inr (Some x)) else Inr None
    | None \<Rightarrow> Inr None)"

definition findUpdateOid :: "commit \<Rightarrow> string \<Rightarrow> string \<Rightarrow> git_oid option res" where
  "findUpdateOid c name path = rbind (findChange c name path) (\<lambda>r. case r of
      Some change \<Rightarrow> if fc_type change = ADD \<or> fc_type change = MOD
        then rbind (change_oid2 change) (\<lambda>x. Inr (Some x)) else Inr None
    | None \<Rightarrow> Inr None)"

definition findUpdateOidsByBasename :: "commit \<Rightarrow> string \<Rightarrow> git_oid list res" where
  "findUpdateOidsByBasename c basename =
     rmap change_oid2 (filter (\<lambda>ch. fc_type ch = ADD \<or> fc_type ch = MOD) (findChangesByBasename c basename))"

section \<open>The search\<close>

definition fullname :: "file_change \<Rightarrow> string" where
  "fullname ch = build_pathname (fc_path ch) (fc_name ch)"

text \<open>What the comment in the code states of the changes: they are sorted by their full names.\<close>

definition commit_ok :: "commit \<Rightarrow> bool" where
  "commit_ok c \<longleftrightarrow> sorted_wrt (<) (map fullname (c_changes c)) \<and> (\<forall>ch \<in> set (c_changes c). file_change_ok ch)"

definition change_at :: "commit \<Rightarrow> string \<Rightarrow> file_change option" where
  "change_at c full = List.find (\<lambda>ch. fullname ch = full) (c_changes c)"

lemma find_distinct:
  assumes "distinct (map f xs)" "i < length xs"
  shows "List.find (\<lambda>x. f x = f (xs ! i)) xs = Some (xs ! i)"
  using assms
proof (induction xs arbitrary: i)
  case Nil
  then show ?case by simp
next
  case (Cons x xs)
  then show ?case by (cases i) auto
qed

text \<open>In a commit sorted by full name, the order of two names is that of their positions.\<close>

lemma sorted_position:
  assumes "sorted_wrt (<) (map fullname cs)" "i < length cs" "j < length cs"
  shows "fullname (cs ! i) < fullname (cs ! j) \<longleftrightarrow> i < j"
proof -
  have mono: "fullname (cs ! a) < fullname (cs ! b)" if "a < b" "b < length cs" for a b
    using assms(1) that by (auto simp: sorted_wrt_iff_nth_less)
  show ?thesis using mono[of i j] mono[of j i] assms(2,3) by (cases i j rule: linorder_cases) auto
qed

text \<open>One round of the loop, at the position in the middle.\<close>

lemma findChange_round:
  assumes "left \<le> right" "(left + right) div 2 = int k" "k < length (c_changes c)"
  shows "findChange_loop c pattern left right =
    (if fullname (c_changes c ! k) < pattern then findChange_loop c pattern (int k + 1) right
     else if pattern < fullname (c_changes c ! k) then findChange_loop c pattern left (int k - 1)
     else Inr (Some (c_changes c ! k)))"
  using assms by (subst findChange_loop.simps) (auto simp: commit_change_def nChanges_def strcmp_def fullname_def[symmetric])

lemma findChange_loop_correct:
  assumes "sorted_wrt (<) (map fullname (c_changes c))"
    and "0 \<le> left" "right < nChanges c"
    and "\<And>i. i < length (c_changes c) \<Longrightarrow> fullname (c_changes c ! i) = pattern
      \<Longrightarrow> left \<le> int i \<and> int i \<le> right"
  shows "findChange_loop c pattern left right = Inr (change_at c pattern)"
  using assms(2-)
proof (induction "nat (right + 1 - left)" arbitrary: left right rule: less_induct)
  case less
  let ?cs = "c_changes c"
  let ?f = "\<lambda>i. fullname (?cs ! i)"
  show ?case
  proof (cases "left \<le> right")
    case False
    then have "change_at c pattern = None"
      using less.prems(3) by (fastforce simp: change_at_def find_None_iff in_set_conv_nth)
    with False show ?thesis by (simp add: findChange_loop.simps)
  next
    case True
    define k where "k = nat ((left + right) div 2)"
    have mid: "left \<le> int k" "int k \<le> right" "(left + right) div 2 = int k" "k < length ?cs"
      using True less.prems(1,2) by (auto simp: k_def nChanges_def)
    note round = findChange_round[OF True mid(3,4)]
    note pos = sorted_position[OF assms(1)]
    consider "?f k < pattern" | "pattern < ?f k" | "pattern = ?f k" by fastforce
    then show ?thesis
    proof cases
      case 1
      have "findChange_loop c pattern (int k + 1) right = Inr (change_at c pattern)"
        using less.prems pos[of k] mid 1 by (intro less.hyps) fastforce+
      with 1 show ?thesis by (simp add: round)
    next
      case 2
      have "findChange_loop c pattern left (int k - 1) = Inr (change_at c pattern)"
        using less.prems pos[of _ k] mid 2 by (intro less.hyps) fastforce+
      then show ?thesis using 2 order.asym[OF 2] unfolding round by argo
    next
      case 3
      have "distinct (map fullname ?cs)" using assms(1) by (simp add: strict_sorted_iff)
      then have "change_at c pattern = Some (?cs ! k)" unfolding change_at_def 3 using mid(4) by (rule find_distinct)
      with 3 show ?thesis by (simp add: round)
    qed
  qed
qed

section \<open>Looking up a file in a commit\<close>

text \<open>
  What the repository relies on: on a well-formed commit the lookup is the search for the full name.
\<close>

locale change_lookup =
  fixes find :: "'c \<Rightarrow> string \<Rightarrow> string \<Rightarrow> file_change option res"
    and at :: "'c \<Rightarrow> string \<Rightarrow> file_change option"
    and inv :: "'c \<Rightarrow> bool"
  assumes find_at: "inv c \<Longrightarrow> find c name path = Inr (at c (build_pathname path name))"
    and at_ok: "inv c \<Longrightarrow> at c full = Some ch \<Longrightarrow> file_change_ok ch"
begin

lemma find_total: "inv c \<Longrightarrow> \<exists>r. find c name path = Inr r"
  by (simp add: find_at)

lemma find_removal:
  assumes "inv c"
  shows "rbind (find c name path) (\<lambda>r. case r of
      Some change \<Rightarrow> if fc_type change = DEL then rbind (change_oid1 change) (\<lambda>x. Inr (Some x)) else Inr None
    | None \<Rightarrow> Inr None)
    = Inr (case at c (build_pathname path name) of
        Some ch \<Rightarrow> if fc_type ch = DEL then fc_oid1 ch else None | None \<Rightarrow> None)"
proof (cases "at c (build_pathname path name)")
  case None
  then show ?thesis using assms by (simp add: find_at)
next
  case (Some ch)
  then have "file_change_ok ch" using assms at_ok by blast
  then show ?thesis using Some assms
    by (auto simp: find_at tryOid_ok file_change_ok_def change_types)
qed

lemma find_update:
  assumes "inv c"
  shows "rbind (find c name path) (\<lambda>r. case r of
      Some change \<Rightarrow> if fc_type change = ADD \<or> fc_type change = MOD
        then rbind (change_oid2 change) (\<lambda>x. Inr (Some x)) else Inr None
    | None \<Rightarrow> Inr None)
    = Inr (case at c (build_pathname path name) of Some ch \<Rightarrow> fc_oid2 ch | None \<Rightarrow> None)"
proof (cases "at c (build_pathname path name)")
  case None
  then show ?thesis using assms by (simp add: find_at)
next
  case (Some ch)
  then have "file_change_ok ch" using assms at_ok by blast
  then show ?thesis using Some assms
    by (auto simp: find_at tryOid_ok file_change_ok_def change_types)
qed

end

interpretation commit_lookup: change_lookup findChange change_at commit_ok
proof unfold_locales
  fix c :: commit and name path full ch
  assume c: "commit_ok c"
  show "findChange c name path = Inr (change_at c (build_pathname path name))"
    unfolding findChange_def
    by (rule findChange_loop_correct) (use c in \<open>auto simp: commit_ok_def nChanges_def\<close>)
  show "change_at c full = Some ch \<Longrightarrow> file_change_ok ch"
    using c find_SomeD by (fastforce simp: change_at_def commit_ok_def)
qed

lemma findRemovalOid_eq:
  "commit_ok c \<Longrightarrow> findRemovalOid c name path = Inr (case change_at c (build_pathname path name) of
      Some ch \<Rightarrow> if fc_type ch = DEL then fc_oid1 ch else None | None \<Rightarrow> None)"
  unfolding findRemovalOid_def by (rule commit_lookup.find_removal)

lemma findUpdateOid_eq:
  "commit_ok c \<Longrightarrow> findUpdateOid c name path = Inr (case change_at c (build_pathname path name) of
      Some ch \<Rightarrow> fc_oid2 ch | None \<Rightarrow> None)"
  unfolding findUpdateOid_def by (rule commit_lookup.find_update)

lemma findUpdateOidsByBasename_eq:
  assumes "\<forall>ch \<in> set (c_changes c). file_change_ok ch"
  shows "findUpdateOidsByBasename c basename = Inr (List.map_filter
    (\<lambda>ch. if fc_name ch = basename then fc_oid2 ch else None) (c_changes c))"
  using assms
proof (induction "c_changes c" arbitrary: c)
  case Nil
  then show ?case by (simp add: findUpdateOidsByBasename_def findChangesByBasename_def map_filter_simps)
next
  case (Cons ch chs)
  have "findUpdateOidsByBasename (c\<lparr>c_changes := chs\<rparr>) basename = Inr (List.map_filter
    (\<lambda>ch. if fc_name ch = basename then fc_oid2 ch else None) chs)"
    using Cons.hyps(1)[of "c\<lparr>c_changes := chs\<rparr>"] Cons.prems Cons.hyps(2)[symmetric] by simp
  moreover have "file_change_ok ch" using Cons.prems Cons.hyps(2)[symmetric] by simp
  ultimately show ?case
    using tryOid_ok(4)[of ch]
    by (auto simp: findUpdateOidsByBasename_def findChangesByBasename_def Cons.hyps(2)[symmetric]
        map_filter_simps file_change_ok_def change_types)
qed

end
