(* ===== verification/GitTree.thy ===== *)
theory GitTree
  imports Commits "HOL-Library.Word"
begin

text \<open>
  \<open>gtpo/repository.cpp\<close>, first part: the difference of two Git trees as a list of file changes.
  A tree object of libgit2 is its ID with its entries in order; an entry of directory mode holds
  the tree that \<open>git_tree_lookup\<close> finds for its ID, \<open>None\<close> where the lookup fails.
\<close>

unbundle bit_operations_syntax

section \<open>Trees\<close>

datatype git_tree = GitTree (tree_id: git_oid) (tree_entries: "tree_entry list")
  and tree_entry = TreeEntry (entry_name: string) (entry_filemode: "32 word") (entry_id: git_oid)
    (entry_object: "git_tree option")

definition REPO_MODE_DIR :: "32 word" where
  "REPO_MODE_DIR = 0x4000"

definition is_dir :: "tree_entry \<Rightarrow> bool" where
  "is_dir e \<longleftrightarrow> entry_filemode e AND REPO_MODE_DIR \<noteq> 0"

definition git_tree_entry_subtree :: "tree_entry \<Rightarrow> git_tree res" where
  "git_tree_entry_subtree e = (case entry_object e of None \<Rightarrow> Inl AssertFail | Some t \<Rightarrow> Inr t)"

definition concat_path :: "string \<Rightarrow> string \<Rightarrow> string" where
  "concat_path path name = path @ ''/'' @ name"

definition ends_with :: "string \<Rightarrow> string \<Rightarrow> bool" where
  "ends_with str ending \<longleftrightarrow> length str \<ge> length ending
     \<and> List.drop (length str - length ending) str = ending"

definition is_dot_or_dotdot :: "string \<Rightarrow> bool" where
  "is_dot_or_dotdot str \<longleftrightarrow> str = ''.'' \<or> str = ''..''"

text \<open>The name by which entries are sorted: that of a directory with a slash.\<close>

definition entry_key :: "tree_entry \<Rightarrow> string" where
  "entry_key e = (if is_dir e then entry_name e @ ''/'' else entry_name e)"

definition git_tree_entry_namecmp :: "tree_entry \<Rightarrow> tree_entry \<Rightarrow> int" where
  "git_tree_entry_namecmp e1 e2 = strcmp (entry_key e1) (entry_key e2)"

text \<open>The check of one round of the loop: an entry goes before the next one.\<close>

fun head_sorted :: "tree_entry list \<Rightarrow> bool" where
  "head_sorted (e1 # e2 # es) \<longleftrightarrow> git_tree_entry_namecmp e1 e2 < 0"
| "head_sorted _ \<longleftrightarrow> True"

section \<open>\<open>diffTree\<close>\<close>

definition add_change :: "git_oid option \<Rightarrow> git_oid option \<Rightarrow> string \<Rightarrow> string \<Rightarrow> int \<Rightarrow> commit \<Rightarrow> commit res" where
  "add_change oid1 oid2 path name type c =
     rbind (new_file_change oid1 oid2 path name type) (\<lambda>ch. Inr (addChange c ch))"

definition tree_list :: "git_tree option \<Rightarrow> tree_entry list" where
  "tree_list t = (case t of None \<Rightarrow> [] | Some t' \<Rightarrow> tree_entries t')"

definition same_tree :: "git_tree option \<Rightarrow> git_tree option \<Rightarrow> bool" where
  "same_tree t1 t2 = (case (t1, t2) of (Some a, Some b) \<Rightarrow> memcmp (tree_id a) (tree_id b) = 0 | _ \<Rightarrow> False)"

text \<open>For termination: the size of what there is to compare.\<close>

definition tree_size :: "git_tree option \<Rightarrow> nat" where
  "tree_size t = (case t of None \<Rightarrow> 0 | Some t' \<Rightarrow> size t')"

lemma tree_size_simps [simp]: "tree_size None = 0" "tree_size (Some t) = size t"
  by (simp_all add: tree_size_def)

lemma tree_list_size: "size_list size (tree_list t) \<le> tree_size t"
  by (cases t; cases "the t") (auto simp: tree_list_def)

lemma entry_object_size: "entry_object e = Some t \<Longrightarrow> size t < size e"
  by (cases e) auto

lemma git_tree_entry_subtree_size:
  "git_tree_entry_subtree e = Inr t \<Longrightarrow> size t < size e"
  by (auto simp: git_tree_entry_subtree_def entry_object_size split: option.splits)

lemma rbind_cong [fundef_cong]:
  "m = m' \<Longrightarrow> (\<And>x. m' = Inr x \<Longrightarrow> f x = g x) \<Longrightarrow> rbind m f = rbind m' g"
  by (cases m') auto

text \<open>
  \<open>diff_loop\<close> is the loop on what is left of the two lists of entries; \<open>diffTree\<close> on a null tree
  has no entries on that side.
\<close>

function diffTree :: "git_tree option \<Rightarrow> git_tree option \<Rightarrow> string \<Rightarrow> commit \<Rightarrow> commit res"
  and diff_loop :: "tree_entry list \<Rightarrow> tree_entry list \<Rightarrow> string \<Rightarrow> commit \<Rightarrow> commit res"
  where
  "diffTree t1 t2 path c =
     (if same_tree t1 t2 then Inr c else diff_loop (tree_list t1) (tree_list t2) path c)"
| "diff_loop [] [] path c = Inr c"
| "diff_loop (e1 # es1) [] path c = rassert (head_sorted (e1 # es1))
     (rbind (if is_dir e1
        then rbind (git_tree_entry_subtree e1) (\<lambda>s1. diffTree (Some s1) None (path @ ''/'' @ entry_name e1) c)
        else add_change (Some (entry_id e1)) None path (entry_name e1) DEL c)
      (\<lambda>c'. diff_loop es1 [] path c'))"
| "diff_loop [] (e2 # es2) path c = rassert (head_sorted (e2 # es2))
     (rbind (if is_dir e2
        then rbind (git_tree_entry_subtree e2) (\<lambda>s2. diffTree None (Some s2) (path @ ''/'' @ entry_name e2) c)
        else add_change None (Some (entry_id e2)) path (entry_name e2) ADD c)
      (\<lambda>c'. diff_loop [] es2 path c'))"
| "diff_loop (e1 # es1) (e2 # es2) path c = rassert (head_sorted (e1 # es1) \<and> head_sorted (e2 # es2))
     (let cmp = git_tree_entry_namecmp e1 e2 in
      if cmp < 0 then
        rbind (if is_dir e1
          then rbind (git_tree_entry_subtree e1) (\<lambda>s1. diffTree (Some s1) None (path @ ''/'' @ entry_name e1) c)
          else add_change (Some (entry_id e1)) None path (entry_name e1) DEL c)
        (\<lambda>c'. diff_loop es1 (e2 # es2) path c')
      else if cmp > 0 then
        rbind (if is_dir e2
          then rbind (git_tree_entry_subtree e2) (\<lambda>s2. diffTree None (Some s2) (path @ ''/'' @ entry_name e2) c)
          else add_change None (Some (entry_id e2)) path (entry_name e2) ADD c)
        (\<lambda>c'. diff_loop (e1 # es1) es2 path c')
      else
        rbind (if memcmp (entry_id e1) (entry_id e2) = 0 then Inr c
          else rassert (entry_filemode e1 = entry_filemode e2
                  \<or> (entry_filemode e1 = 0x81ED \<and> entry_filemode e2 = 0x81A4))
            (if is_dir e1
             then rbind (git_tree_entry_subtree e1) (\<lambda>s1. rbind (git_tree_entry_subtree e2) (\<lambda>s2.
               diffTree (Some s1) (Some s2) (path @ ''/'' @ entry_name e1) c))
             else add_change (Some (entry_id e1)) (Some (entry_id e2)) path (entry_name e1) MOD c))
        (\<lambda>c'. diff_loop es1 es2 path c'))"
  by pat_completeness auto
termination
proof (relation "measure (\<lambda>x. case x of
      Inl (t1, t2, p, c) \<Rightarrow> Suc (tree_size t1 + tree_size t2)
    | Inr (es1, es2, p, c) \<Rightarrow> size_list size es1 + size_list size es2)", goal_cases)
  case (2 t1 t2 path c)
  then show ?case
    using tree_list_size[of t1] tree_list_size[of t2] by simp
qed (auto dest!: git_tree_entry_subtree_size)

end
