(* ===== verification/GitTreeFacts.thy ===== *)
theory GitTreeFacts
  imports GitTree
begin

text \<open>
  The difference of two trees is exact: its changes are the files whose IDs differ, each once,
  in the order of their full names, with the old and the new ID.
\<close>

section \<open>The files of a tree\<close>

text \<open>A file is named by the path (without a leading slash) and the name that a change has.\<close>

type_synonym file_key = "string \<times> string"

fun tree_files :: "string \<Rightarrow> git_tree \<Rightarrow> file_key \<rightharpoonup> git_oid"
  and entries_files :: "string \<Rightarrow> tree_entry list \<Rightarrow> file_key \<rightharpoonup> git_oid"
  and entry_files :: "string \<Rightarrow> tree_entry \<Rightarrow> file_key \<rightharpoonup> git_oid"
  where
  "tree_files p (GitTree i es) = entries_files p es"
| "entries_files p [] = Map.empty"
| "entries_files p (e # es) = entry_files p e ++ entries_files p es"
| "entry_files p (TreeEntry n m i ob) =
     (if is_dir (TreeEntry n m i ob) then
        (case ob of None \<Rightarrow> Map.empty | Some t \<Rightarrow> tree_files (p @ ''/'' @ n) t)
      else [(strip_slash p, n) \<mapsto> i])"

definition opt_files :: "string \<Rightarrow> git_tree option \<Rightarrow> file_key \<rightharpoonup> git_oid" where
  "opt_files p t = (case t of None \<Rightarrow> Map.empty | Some t' \<Rightarrow> tree_files p t')"

lemma opt_files_list: "opt_files p t = entries_files p (tree_list t)"
  by (cases t; cases "the t") (auto simp: opt_files_def tree_list_def)

text \<open>
  What Git promises of the trees in its object database \<open>odb\<close>: the ID of an object determines
  it, entries are sorted and their names are not empty and hold no slash; files have one of the
  modes \<open>ms\<close>, and every directory can be looked up.
\<close>

definition name_ok :: "string \<Rightarrow> bool" where
  "name_ok n \<longleftrightarrow> n \<noteq> [] \<and> CHR ''/'' \<notin> set n"

fun tree_ok :: "(git_oid \<Rightarrow> git_tree option) \<Rightarrow> 32 word set \<Rightarrow> git_tree \<Rightarrow> bool"
  and entry_ok :: "(git_oid \<Rightarrow> git_tree option) \<Rightarrow> 32 word set \<Rightarrow> tree_entry \<Rightarrow> bool"
  where
  "tree_ok odb ms (GitTree i es) \<longleftrightarrow> oid_ok i \<and> odb i = Some (GitTree i es)
     \<and> sorted_wrt (\<lambda>a b. entry_key a < entry_key b) es \<and> (\<forall>e \<in> set es. entry_ok odb ms e)"
| "entry_ok odb ms (TreeEntry n m i ob) \<longleftrightarrow> name_ok n \<and> oid_ok i
     \<and> (if is_dir (TreeEntry n m i ob)
        then m = REPO_MODE_DIR \<and> (case ob of None \<Rightarrow> False | Some t \<Rightarrow> tree_id t = i \<and> tree_ok odb ms t)
        else m \<in> ms)"

text \<open>The changes of mode that the code accepts when the contents change too.\<close>

definition modes_fit :: "32 word set \<Rightarrow> 32 word set \<Rightarrow> bool" where
  "modes_fit ms1 ms2 \<longleftrightarrow> (\<forall>m1 \<in> ms1. \<forall>m2 \<in> ms2. m1 = m2 \<or> (m1 = 0x81ED \<and> m2 = 0x81A4))"

section \<open>The order of full names\<close>

definition path_ok :: "string \<Rightarrow> bool" where
  "path_ok p \<longleftrightarrow> p = [] \<or> (\<exists>x. p = CHR ''/'' # x \<and> x \<noteq> [])"

definition abs_name :: "file_key \<Rightarrow> string" where
  "abs_name k = (if fst k = [] then CHR ''/'' # snd k else CHR ''/'' # fst k @ CHR ''/'' # snd k)"

definition under :: "string \<Rightarrow> string \<Rightarrow> file_key \<Rightarrow> bool" where
  "under p key k \<longleftrightarrow> (\<exists>r. abs_name k = p @ CHR ''/'' # key @ r \<and> (r \<noteq> [] \<longrightarrow> last key = CHR ''/''))"

definition key_ok :: "string \<Rightarrow> bool" where
  "key_ok key \<longleftrightarrow> key \<noteq> [] \<and> key \<noteq> ''/'' \<and> CHR ''/'' \<notin> set (butlast key)"

lemma append_less_same [simp]: "p @ a < p @ b \<longleftrightarrow> a < (b :: 'a::linorder list)"
  by (induction p) auto

lemma list_less_cases:
  assumes "a < (b :: 'a::linorder list)"
  obtains (prefix) x v where "b = a @ x # v"
  | (differ) u x y v w where "a = u @ x # v" "b = u @ y # w" "x < y"
  using assms unfolding list_less_def lexord_def by blast

lemma key_entry_ok:
  assumes "name_ok (entry_name e)"
  shows "key_ok (entry_key e)" "last (entry_key e) = CHR ''/'' \<longleftrightarrow> is_dir e"
proof -
  have "last (entry_name e) \<noteq> CHR ''/''"
    using assms unfolding name_ok_def by (metis last_in_set)
  then show "key_ok (entry_key e)" "last (entry_key e) = CHR ''/'' \<longleftrightarrow> is_dir e"
    using assms by (auto simp: key_ok_def entry_key_def name_ok_def butlast_append dest: in_set_butlastD)
qed

lemma entry_key_same:
  assumes "name_ok (entry_name a)" "name_ok (entry_name b)" "entry_key a = entry_key b"
  shows "entry_name a = entry_name b" "is_dir a \<longleftrightarrow> is_dir b"
proof -
  have "CHR ''/'' \<in> set (entry_key x) \<longleftrightarrow> is_dir x" if "name_ok (entry_name x)" for x
    using that by (auto simp: entry_key_def name_ok_def)
  from this[OF assms(1)] this[OF assms(2)] show "is_dir a \<longleftrightarrow> is_dir b" using assms(3) by simp
  then show "entry_name a = entry_name b" using assms(3) by (simp add: entry_key_def split: if_splits)
qed

lemma under_less:
  assumes "key_ok key" "key_ok key'" "key < key'" "under p key k" "under p key' k'"
  shows "abs_name k < abs_name k'"
proof -
  obtain r where r: "abs_name k = p @ CHR ''/'' # key @ r" "r \<noteq> [] \<Longrightarrow> last key = CHR ''/''"
    using assms(4) by (auto simp: under_def)
  obtain r' where r': "abs_name k' = p @ CHR ''/'' # key' @ r'"
    using assms(5) by (auto simp: under_def)
  from assms(3) have "key @ r < key' @ r'"
  proof (cases rule: list_less_cases)
    case (prefix x v)
    have "r = []"
    proof (rule ccontr)
      assume "r \<noteq> []"
      then have "CHR ''/'' \<in> set key" using r(2) assms(1) by (metis key_ok_def last_in_set)
      then show False using assms(2) prefix by (auto simp: key_ok_def butlast_append)
    qed
    then show ?thesis using prefix append_less_same[of key "[]" "x # v @ r'"] by simp
  next
    case (differ u x y v w)
    then show ?thesis using append_less_same[of u "x # v @ r" "y # w @ r'"] by simp
  qed
  then show ?thesis unfolding r(1) r' by simp
qed

lemma strip_slash_path: "path_ok p \<Longrightarrow> abs_name (strip_slash p, n) = p @ CHR ''/'' # n"
  by (auto simp: path_ok_def strip_slash_def abs_name_def)

lemma path_ok_sub: "name_ok n \<Longrightarrow> path_ok p \<Longrightarrow> path_ok (p @ ''/'' @ n)"
  by (auto simp: path_ok_def name_ok_def)

text \<open>The files of an entry are below its key.\<close>

lemma files_under:
  "tree_ok odb ms t \<Longrightarrow> path_ok p \<Longrightarrow> k \<in> dom (tree_files p t) \<Longrightarrow> \<exists>key. key_ok key \<and> under p key k"
  "\<forall>e \<in> set es. entry_ok odb ms e \<Longrightarrow> path_ok p \<Longrightarrow> k \<in> dom (entries_files p es)
    \<Longrightarrow> \<exists>e \<in> set es. under p (entry_key e) k"
  "entry_ok odb ms e \<Longrightarrow> path_ok p \<Longrightarrow> k \<in> dom (entry_files p e) \<Longrightarrow> under p (entry_key e) k"
proof (induction p t and p es and p e rule: tree_files_entries_files_entry_files.induct)
  case (1 p i es)
  then obtain e where "e \<in> set es" "under p (entry_key e) k" by auto
  moreover have "name_ok (entry_name e)" using 1 \<open>e \<in> set es\<close> by (cases e) auto
  ultimately show ?case using key_entry_ok by blast
next
  case (2 p)
  then show ?case by simp
next
  case (3 p e es)
  then show ?case by auto
next
  case (4 p n m i ob)
  let ?e = "TreeEntry n m i ob"
  have n: "name_ok n" using 4 by simp
  show ?case
  proof (cases "is_dir ?e")
    case True
    then obtain t where t: "ob = Some t" "tree_ok odb ms t" "k \<in> dom (tree_files (p @ ''/'' @ n) t)"
      using 4 by (auto split: option.splits)
    then obtain key where "under (p @ ''/'' @ n) key k"
      using 4(1)[OF True t(1)] path_ok_sub[OF n] 4(3) by blast
    then show ?thesis using True by (auto simp: under_def entry_key_def)
  next
    case False
    then have "k = (strip_slash p, n)" using 4 by (auto split: if_splits)
    then show ?thesis
      using False 4(3) by (auto simp: under_def entry_key_def strip_slash_path)
  qed
qed

section \<open>What a difference is\<close>

definition change_key :: "file_change \<Rightarrow> file_key" where
  "change_key ch = (fc_path ch, fc_name ch)"

definition change_for :: "file_change list \<Rightarrow> file_key \<Rightarrow> file_change option" where
  "change_for ds k = List.find (\<lambda>ch. change_key ch = k) ds"

definition is_diff :: "(file_key \<rightharpoonup> git_oid) \<Rightarrow> (file_key \<rightharpoonup> git_oid) \<Rightarrow> file_change list \<Rightarrow> bool" where
  "is_diff f g ds \<longleftrightarrow> sorted_wrt (<) (map (abs_name \<circ> change_key) ds) \<and> (\<forall>ch \<in> set ds. file_change_ok ch)
     \<and> (\<forall>ch \<in> set ds. f (change_key ch) = fc_oid1 ch \<and> g (change_key ch) = fc_oid2 ch \<and> fc_oid1 ch \<noteq> fc_oid2 ch)
     \<and> (\<forall>k. f k \<noteq> g k \<longrightarrow> k \<in> change_key ` set ds)"

lemma is_diff_same: "is_diff f f []"
  by (simp add: is_diff_def)

lemma is_diff_key: "is_diff f g ds \<Longrightarrow> ch \<in> set ds \<Longrightarrow> change_key ch \<in> dom f \<union> dom g"
  unfolding is_diff_def by (metis UnI1 UnI2 domIff)

lemma is_diff_append:
  assumes "is_diff f g ds" "is_diff f' g' ds'"
    and less: "\<And>k k'. k \<in> dom f \<union> dom g \<Longrightarrow> k' \<in> dom f' \<union> dom g' \<Longrightarrow> abs_name k < abs_name k'"
  shows "is_diff (f ++ f') (g ++ g') (ds @ ds')"
proof -
  have disj: "k \<notin> dom f' \<union> dom g'" if "k \<in> dom f \<union> dom g" for k
    using less[OF that, of k] by auto
  have sorted: "sorted_wrt (<) (map (abs_name \<circ> change_key) (ds @ ds'))"
    using assms(1,2) less is_diff_key[OF assms(1)] is_diff_key[OF assms(2)]
    by (auto simp: is_diff_def sorted_wrt_append)
  have eq1: "(f ++ f') k = f k" "(g ++ g') k = g k" if "k \<in> dom f \<union> dom g" for k
    using disj[OF that] by (auto simp: map_add_def split: option.splits)
  have eq2: "(f ++ f') k = f' k" "(g ++ g') k = g' k" if "k \<in> dom f' \<union> dom g'" for k
    using disj[of k] that by (auto simp: map_add_def split: option.splits)
  have "(f ++ f') (change_key ch) = fc_oid1 ch \<and> (g ++ g') (change_key ch) = fc_oid2 ch \<and> fc_oid1 ch \<noteq> fc_oid2 ch"
    if "ch \<in> set (ds @ ds')" for ch
    using that eq1[of "change_key ch"] eq2[of "change_key ch"] is_diff_key[OF assms(1), of ch]
      is_diff_key[OF assms(2), of ch] assms(1,2)
    unfolding is_diff_def by auto
  moreover have "k \<in> change_key ` set (ds @ ds')" if "(f ++ f') k \<noteq> (g ++ g') k" for k
  proof (cases "k \<in> dom f \<union> dom g")
    case True
    then have "f k \<noteq> g k" using that eq1 by metis
    then have "k \<in> change_key ` set ds" using assms(1) unfolding is_diff_def by blast
    then show ?thesis by auto
  next
    case False
    then have "(f ++ f') k = f' k" "(g ++ g') k = g' k"
      by (auto simp: map_add_def domIff split: option.splits)
    then have "f' k \<noteq> g' k" using that by metis
    then have "k \<in> change_key ` set ds'" using assms(2) unfolding is_diff_def by blast
    then show ?thesis by auto
  qed
  moreover have "\<forall>ch \<in> set (ds @ ds'). file_change_ok ch" using assms(1,2) by (auto simp: is_diff_def)
  ultimately show ?thesis using sorted unfolding is_diff_def by blast
qed

section \<open>\<open>diffTree\<close>\<close>

text \<open>A step of the comparison appends the changes from the files \<open>f\<close> to the files \<open>g\<close>.\<close>

definition diffs_to :: "commit \<Rightarrow> commit res \<Rightarrow> (file_key \<rightharpoonup> git_oid) \<Rightarrow> (file_key \<rightharpoonup> git_oid) \<Rightarrow> bool" where
  "diffs_to c r f g \<longleftrightarrow> (\<exists>ds. r = Inr (c\<lparr>c_changes := c_changes c @ ds\<rparr>) \<and> is_diff f g ds)"

lemma diffs_to_same: "diffs_to c (Inr c) f f"
  unfolding diffs_to_def by (rule exI[of _ "[]"]) (simp add: is_diff_same)

lemma diffs_to_seq:
  assumes "diffs_to c r f g" "\<And>c'. r = Inr c' \<Longrightarrow> diffs_to c' (h c') f' g'"
    and "\<And>k k'. k \<in> dom f \<union> dom g \<Longrightarrow> k' \<in> dom f' \<union> dom g' \<Longrightarrow> abs_name k < abs_name k'"
  shows "diffs_to c (rbind r h) (f ++ f') (g ++ g')"
proof -
  obtain ds where ds: "r = Inr (c\<lparr>c_changes := c_changes c @ ds\<rparr>)" "is_diff f g ds"
    using assms(1) by (auto simp: diffs_to_def)
  obtain ds' where ds': "h (c\<lparr>c_changes := c_changes c @ ds\<rparr>) = Inr (c\<lparr>c_changes := c_changes c @ ds @ ds'\<rparr>)"
      "is_diff f' g' ds'"
    using assms(2)[OF ds(1)] by (auto simp: diffs_to_def)
  show ?thesis
    using ds ds' is_diff_append[OF ds(2) ds'(2) assms(3)] by (auto simp: diffs_to_def)
qed

lemma add_change_diffs:
  "diffs_to c (add_change (Some a) None p n DEL c) [(strip_slash p, n) \<mapsto> a] Map.empty"
  "diffs_to c (add_change None (Some b) p n ADD c) Map.empty [(strip_slash p, n) \<mapsto> b]"
  "a \<noteq> b \<Longrightarrow> diffs_to c (add_change (Some a) (Some b) p n MOD c) [(strip_slash p, n) \<mapsto> a] [(strip_slash p, n) \<mapsto> b]"
proof -
  have single: "diffs_to c (Inr (addChange c ch)) f g" if "is_diff f g [ch]" for f g ch
    using that by (auto simp: diffs_to_def addChange_def)
  show "diffs_to c (add_change (Some a) None p n DEL c) [(strip_slash p, n) \<mapsto> a] Map.empty"
      "diffs_to c (add_change None (Some b) p n ADD c) Map.empty [(strip_slash p, n) \<mapsto> b]"
      "a \<noteq> b \<Longrightarrow> diffs_to c (add_change (Some a) (Some b) p n MOD c) [(strip_slash p, n) \<mapsto> a] [(strip_slash p, n) \<mapsto> b]"
    by (auto simp: add_change_def new_file_change_def is_diff_def change_types file_change_ok_def change_key_def
        intro!: single split: if_splits)
qed

lemma entries_before:
  assumes "entry_ok odb ms e" "\<forall>e' \<in> set es. entry_ok odb' ms' e' \<and> entry_key e < entry_key e'" "path_ok p"
    and "under p (entry_key e) k" "k' \<in> dom (entries_files p es)"
  shows "abs_name k < abs_name k'"
proof -
  obtain e' where e': "e' \<in> set es" "under p (entry_key e') k'"
    using files_under(2)[of es odb' ms' p k'] assms by auto
  then have "entry_ok odb' ms' e'" "entry_key e < entry_key e'" using assms(2) by auto
  moreover have "name_ok (entry_name x)" if "entry_ok o1 m x" for o1 m x using that by (cases x) auto
  ultimately show ?thesis
    using key_entry_ok(1)[of e] key_entry_ok(1)[of e'] under_less[OF _ _ _ assms(4) e'(2)] assms(1) by blast
qed

lemma namecmp: "git_tree_entry_namecmp a b < 0 \<longleftrightarrow> entry_key a < entry_key b"
    "git_tree_entry_namecmp a b > 0 \<longleftrightarrow> entry_key b < entry_key a"
  by (auto simp: git_tree_entry_namecmp_def strcmp_def)

abbreviation entries_sorted :: "tree_entry list \<Rightarrow> bool" where
  "entries_sorted es \<equiv> sorted_wrt (\<lambda>a b. entry_key a < entry_key b) es"

lemma head_sorted_ok: "entries_sorted es \<Longrightarrow> head_sorted es"
  by (induction es rule: head_sorted.induct) (auto simp: namecmp)

lemma subtree_ok:
  assumes "entry_ok odb ms e" "is_dir e"
  obtains t where "git_tree_entry_subtree e = Inr t" "tree_ok odb ms t" "tree_id t = entry_id e"
    "entry_filemode e = REPO_MODE_DIR" "entry_files p e = tree_files (p @ ''/'' @ entry_name e) t"
  using assms by (cases e) (auto simp: git_tree_entry_subtree_def split: option.splits)

lemma file_ok:
  assumes "entry_ok odb ms e" "\<not> is_dir e"
  shows "entry_filemode e \<in> ms" "entry_files p e = [(strip_slash p, entry_name e) \<mapsto> entry_id e]"
  using assms by (cases e; auto)+

lemma entry_ok_name: "entry_ok odb ms e \<Longrightarrow> name_ok (entry_name e) \<and> oid_ok (entry_id e)"
  by (cases e) auto

definition opt_ok :: "(git_oid \<Rightarrow> git_tree option) \<Rightarrow> 32 word set \<Rightarrow> git_tree option \<Rightarrow> bool" where
  "opt_ok odb ms t = (case t of None \<Rightarrow> True | Some t' \<Rightarrow> tree_ok odb ms t')"

lemma opt_ok_list: "opt_ok odb ms t \<Longrightarrow> entries_sorted (tree_list t) \<and> (\<forall>e \<in> set (tree_list t). entry_ok odb ms e)"
  by (cases t; cases "the t") (auto simp: opt_ok_def tree_list_def)

lemma same_tree_same:
  assumes "same_tree t1 t2" "opt_ok odb ms1 t1" "opt_ok odb ms2 t2"
  shows "opt_files p t1 = opt_files p t2"
proof -
  obtain i es j es' where t: "t1 = Some (GitTree i es)" "t2 = Some (GitTree j es')" "memcmp i j = 0"
    using assms(1) by (auto simp: same_tree_def split: option.splits) (metis git_tree.collapse)
  then have "i = j" using assms memcmp_eq[of i j] by (simp add: opt_ok_def oid_ok_def)
  then show ?thesis using t assms by (simp add: opt_ok_def)
qed

lemma opt_files_simps [simp]: "opt_files p None = Map.empty" "opt_files p (Some t) = tree_files p t"
  by (simp_all add: opt_files_def)

lemma opt_ok_simps [simp]: "opt_ok odb ms None" "opt_ok odb ms (Some t) \<longleftrightarrow> tree_ok odb ms t"
  by (simp_all add: opt_ok_def)

lemma diffs_to_rassert: "b \<Longrightarrow> diffs_to c r f g \<Longrightarrow> diffs_to c (rassert b r) f g"
  by simp

text \<open>An entry that only one of the trees has, and an entry that both have.\<close>

lemma removed_entry:
  assumes "entry_ok odb ms e" "path_ok p"
    and "\<And>s. is_dir e \<Longrightarrow> git_tree_entry_subtree e = Inr s \<Longrightarrow> tree_ok odb ms s
      \<Longrightarrow> diffs_to c (diffTree (Some s) None (p @ ''/'' @ entry_name e) c)
        (tree_files (p @ ''/'' @ entry_name e) s) Map.empty"
  shows "diffs_to c (if is_dir e
        then rbind (git_tree_entry_subtree e) (\<lambda>s. diffTree (Some s) None (p @ ''/'' @ entry_name e) c)
        else add_change (Some (entry_id e)) None p (entry_name e) DEL c) (entry_files p e) Map.empty"
proof (cases "is_dir e")
  case True
  obtain t where "git_tree_entry_subtree e = Inr t" "tree_ok odb ms t"
      "entry_files p e = tree_files (p @ ''/'' @ entry_name e) t"
    using subtree_ok[OF assms(1) True] by metis
  then show ?thesis using True assms(3)[of t] by simp
next
  case False
  then show ?thesis using file_ok(2)[OF assms(1), of p] add_change_diffs(1) by simp
qed

lemma added_entry:
  assumes "entry_ok odb ms e" "path_ok p"
    and "\<And>s. is_dir e \<Longrightarrow> git_tree_entry_subtree e = Inr s \<Longrightarrow> tree_ok odb ms s
      \<Longrightarrow> diffs_to c (diffTree None (Some s) (p @ ''/'' @ entry_name e) c)
        Map.empty (tree_files (p @ ''/'' @ entry_name e) s)"
  shows "diffs_to c (if is_dir e
        then rbind (git_tree_entry_subtree e) (\<lambda>s. diffTree None (Some s) (p @ ''/'' @ entry_name e) c)
        else add_change None (Some (entry_id e)) p (entry_name e) ADD c) Map.empty (entry_files p e)"
proof (cases "is_dir e")
  case True
  obtain t where "git_tree_entry_subtree e = Inr t" "tree_ok odb ms t"
      "entry_files p e = tree_files (p @ ''/'' @ entry_name e) t"
    using subtree_ok[OF assms(1) True] by metis
  then show ?thesis using True assms(3)[of t] by simp
next
  case False
  then show ?thesis using file_ok(2)[OF assms(1), of p] add_change_diffs(2) by simp
qed

lemma common_entry:
  assumes "entry_ok odb ms1 e1" "entry_ok odb ms2 e2" "path_ok p" "modes_fit ms1 ms2"
    and key: "entry_key e1 = entry_key e2"
    and sub: "\<And>s1 s2. memcmp (entry_id e1) (entry_id e2) \<noteq> 0 \<Longrightarrow> is_dir e1
      \<Longrightarrow> git_tree_entry_subtree e1 = Inr s1 \<Longrightarrow> git_tree_entry_subtree e2 = Inr s2
      \<Longrightarrow> tree_ok odb ms1 s1 \<Longrightarrow> tree_ok odb ms2 s2
      \<Longrightarrow> diffs_to c (diffTree (Some s1) (Some s2) (p @ ''/'' @ entry_name e1) c)
        (tree_files (p @ ''/'' @ entry_name e1) s1) (tree_files (p @ ''/'' @ entry_name e1) s2)"
  shows "diffs_to c (if memcmp (entry_id e1) (entry_id e2) = 0 then Inr c
          else rassert (entry_filemode e1 = entry_filemode e2
                  \<or> (entry_filemode e1 = 0x81ED \<and> entry_filemode e2 = 0x81A4))
            (if is_dir e1
             then rbind (git_tree_entry_subtree e1) (\<lambda>s1. rbind (git_tree_entry_subtree e2) (\<lambda>s2.
               diffTree (Some s1) (Some s2) (p @ ''/'' @ entry_name e1) c))
             else add_change (Some (entry_id e1)) (Some (entry_id e2)) p (entry_name e1) MOD c))
     (entry_files p e1) (entry_files p e2)"
proof -
  have names: "entry_name e1 = entry_name e2" "is_dir e1 \<longleftrightarrow> is_dir e2"
    using entry_key_same[OF _ _ key] entry_ok_name assms(1,2) by blast+
  have ids: "memcmp (entry_id e1) (entry_id e2) = 0 \<longleftrightarrow> entry_id e1 = entry_id e2"
    using memcmp_eq entry_ok_name assms(1,2) by (metis oid_ok_def)
  show ?thesis
  proof (cases "is_dir e1")
    case True
    obtain s1 where s1: "git_tree_entry_subtree e1 = Inr s1" "tree_ok odb ms1 s1" "tree_id s1 = entry_id e1"
        "entry_filemode e1 = REPO_MODE_DIR" "entry_files p e1 = tree_files (p @ ''/'' @ entry_name e1) s1"
      using subtree_ok[OF assms(1) True] by metis
    obtain s2 where s2: "git_tree_entry_subtree e2 = Inr s2" "tree_ok odb ms2 s2" "tree_id s2 = entry_id e2"
        "entry_filemode e2 = REPO_MODE_DIR" "entry_files p e2 = tree_files (p @ ''/'' @ entry_name e2) s2"
      using subtree_ok[OF assms(2)] True names by metis
    have "entry_id e1 = entry_id e2 \<Longrightarrow> s1 = s2"
      using s1(2,3) s2(2,3) by (cases s1; cases s2) auto
    then show ?thesis
      using True s1 s2 names ids sub[of s1 s2] diffs_to_same by auto
  next
    case False
    then have "entry_filemode e1 = entry_filemode e2 \<or> (entry_filemode e1 = 0x81ED \<and> entry_filemode e2 = 0x81A4)"
      using file_ok(1) assms names unfolding modes_fit_def by metis
    then show ?thesis
      using False names ids file_ok(2)[OF assms(1), of p] file_ok(2)[OF assms(2), of p] diffs_to_same
        add_change_diffs(3) by auto
  qed
qed

text \<open>One turn of the loop, when the rest of the loop and the subtrees are exact.\<close>

abbreviation removed_step :: "tree_entry \<Rightarrow> string \<Rightarrow> commit \<Rightarrow> commit res" where
  "removed_step e p c \<equiv> (if is_dir e
     then rbind (git_tree_entry_subtree e) (\<lambda>s1. diffTree (Some s1) None (p @ ''/'' @ entry_name e) c)
     else add_change (Some (entry_id e)) None p (entry_name e) DEL c)"

abbreviation added_step :: "tree_entry \<Rightarrow> string \<Rightarrow> commit \<Rightarrow> commit res" where
  "added_step e p c \<equiv> (if is_dir e
     then rbind (git_tree_entry_subtree e) (\<lambda>s2. diffTree None (Some s2) (p @ ''/'' @ entry_name e) c)
     else add_change None (Some (entry_id e)) p (entry_name e) ADD c)"

abbreviation common_step :: "tree_entry \<Rightarrow> tree_entry \<Rightarrow> string \<Rightarrow> commit \<Rightarrow> commit res" where
  "common_step e1 e2 p c \<equiv> (if memcmp (entry_id e1) (entry_id e2) = 0 then Inr c
     else rassert (entry_filemode e1 = entry_filemode e2
             \<or> (entry_filemode e1 = 0x81ED \<and> entry_filemode e2 = 0x81A4))
       (if is_dir e1
        then rbind (git_tree_entry_subtree e1) (\<lambda>s1. rbind (git_tree_entry_subtree e2) (\<lambda>s2.
          diffTree (Some s1) (Some s2) (p @ ''/'' @ entry_name e1) c))
        else add_change (Some (entry_id e1)) (Some (entry_id e2)) p (entry_name e1) MOD c))"

definition entry_first :: "(git_oid \<Rightarrow> git_tree option) \<Rightarrow> 32 word set \<Rightarrow> tree_entry \<Rightarrow> tree_entry list \<Rightarrow> bool" where
  "entry_first odb ms e es \<longleftrightarrow> (\<forall>e' \<in> set es. entry_ok odb ms e' \<and> entry_key e < entry_key e')"

lemma loop_removed:
  assumes e: "entry_ok odb ms1 e" "entry_first odb ms1 e es1" "entry_first odb ms2 e es2" and p: "path_ok p"
    and sub: "\<And>s. is_dir e \<Longrightarrow> git_tree_entry_subtree e = Inr s \<Longrightarrow> tree_ok odb ms1 s
      \<Longrightarrow> diffs_to c (diffTree (Some s) None (p @ ''/'' @ entry_name e) c) (tree_files (p @ ''/'' @ entry_name e) s) Map.empty"
    and loop: "\<And>c'. removed_step e p c = Inr c' \<Longrightarrow> diffs_to c' (diff_loop es1 es2 p c') (entries_files p es1) (entries_files p es2)"
  shows "diffs_to c (rbind (removed_step e p c) (\<lambda>c'. diff_loop es1 es2 p c')) (entries_files p (e # es1)) (entries_files p es2)"
proof -
  note before = entries_before[OF e(1) e(2)[unfolded entry_first_def] p] entries_before[OF e(1) e(3)[unfolded entry_first_def] p]
  have "diffs_to c (rbind (removed_step e p c) (\<lambda>c'. diff_loop es1 es2 p c'))
      (entry_files p e ++ entries_files p es1) (Map.empty ++ entries_files p es2)"
    by (rule diffs_to_seq[OF removed_entry[OF e(1) p sub] loop]; assumption?) (elim UnE; simp add: before files_under(3)[OF e(1) p])
  then show ?thesis by simp
qed

lemma loop_added:
  assumes e: "entry_ok odb ms2 e" "entry_first odb ms2 e es2" "entry_first odb ms1 e es1" and p: "path_ok p"
    and sub: "\<And>s. is_dir e \<Longrightarrow> git_tree_entry_subtree e = Inr s \<Longrightarrow> tree_ok odb ms2 s
      \<Longrightarrow> diffs_to c (diffTree None (Some s) (p @ ''/'' @ entry_name e) c) Map.empty (tree_files (p @ ''/'' @ entry_name e) s)"
    and loop: "\<And>c'. added_step e p c = Inr c' \<Longrightarrow> diffs_to c' (diff_loop es1 es2 p c') (entries_files p es1) (entries_files p es2)"
  shows "diffs_to c (rbind (added_step e p c) (\<lambda>c'. diff_loop es1 es2 p c')) (entries_files p es1) (entries_files p (e # es2))"
proof -
  note before = entries_before[OF e(1) e(2)[unfolded entry_first_def] p] entries_before[OF e(1) e(3)[unfolded entry_first_def] p]
  have "diffs_to c (rbind (added_step e p c) (\<lambda>c'. diff_loop es1 es2 p c'))
      (Map.empty ++ entries_files p es1) (entry_files p e ++ entries_files p es2)"
    by (rule diffs_to_seq[OF added_entry[OF e(1) p sub] loop]; assumption?) (elim UnE; simp add: before files_under(3)[OF e(1) p])
  then show ?thesis by simp
qed

lemma loop_common:
  assumes e1: "entry_ok odb ms1 e1" "entry_first odb ms1 e1 es1" and e2: "entry_ok odb ms2 e2" "entry_first odb ms2 e2 es2"
    and p: "path_ok p" and modes: "modes_fit ms1 ms2" and key: "entry_key e1 = entry_key e2"
    and sub: "\<And>s1 s2. memcmp (entry_id e1) (entry_id e2) \<noteq> 0 \<Longrightarrow> is_dir e1
      \<Longrightarrow> git_tree_entry_subtree e1 = Inr s1 \<Longrightarrow> git_tree_entry_subtree e2 = Inr s2
      \<Longrightarrow> tree_ok odb ms1 s1 \<Longrightarrow> tree_ok odb ms2 s2
      \<Longrightarrow> diffs_to c (diffTree (Some s1) (Some s2) (p @ ''/'' @ entry_name e1) c)
        (tree_files (p @ ''/'' @ entry_name e1) s1) (tree_files (p @ ''/'' @ entry_name e1) s2)"
    and loop: "\<And>c'. common_step e1 e2 p c = Inr c'
      \<Longrightarrow> diffs_to c' (diff_loop es1 es2 p c') (entries_files p es1) (entries_files p es2)"
  shows "diffs_to c (rbind (common_step e1 e2 p c) (\<lambda>c'. diff_loop es1 es2 p c'))
      (entries_files p (e1 # es1)) (entries_files p (e2 # es2))"
proof -
  have all: "entry_first odb ms2 e1 es2" "entry_first odb ms1 e2 es1"
    using e1(2) e2(2) key by (simp_all add: entry_first_def)
  note before = entries_before[OF e1(1) e1(2)[unfolded entry_first_def] p] entries_before[OF e1(1) all(1)[unfolded entry_first_def] p]
    entries_before[OF e2(1) e2(2)[unfolded entry_first_def] p] entries_before[OF e2(1) all(2)[unfolded entry_first_def] p]
  have "diffs_to c (rbind (common_step e1 e2 p c) (\<lambda>c'. diff_loop es1 es2 p c'))
      (entry_files p e1 ++ entries_files p es1) (entry_files p e2 ++ entries_files p es2)"
    by (rule diffs_to_seq[OF common_entry[OF e1(1) e2(1) p modes key sub] loop]; assumption?)
      (elim UnE; simp add: before files_under(3)[OF e1(1) p] files_under(3)[OF e2(1) p])
  then show ?thesis by simp
qed

lemma diffTree_diff_loop_exact:
  assumes "modes_fit ms1 ms2"
  shows "opt_ok odb ms1 t1 \<Longrightarrow> opt_ok odb ms2 t2 \<Longrightarrow> path_ok p
      \<Longrightarrow> diffs_to c (diffTree t1 t2 p c) (opt_files p t1) (opt_files p t2)"
    and "entries_sorted es1 \<Longrightarrow> entries_sorted es2 \<Longrightarrow> \<forall>e \<in> set es1. entry_ok odb ms1 e
      \<Longrightarrow> \<forall>e \<in> set es2. entry_ok odb ms2 e \<Longrightarrow> path_ok p
      \<Longrightarrow> diffs_to c (diff_loop es1 es2 p c) (entries_files p es1) (entries_files p es2)"
proof (induction t1 t2 p c and es1 es2 p c rule: diffTree_diff_loop.induct)
  case (1 t1 t2 path c)
  then show ?case
    using same_tree_same[OF _ "1.prems"(1,2)] opt_ok_list[OF "1.prems"(1)] opt_ok_list[OF "1.prems"(2)]
      diffs_to_same[of c]
    by (auto simp: opt_files_list)
next
  case (2 path c)
  then show ?case using diffs_to_same by simp
next
  case (3 e1 es1 path c)
  then show ?case
    using path_ok_sub entry_ok_name head_sorted_ok[of "e1 # es1"] unfolding diff_loop.simps
    by (intro diffs_to_rassert loop_removed[where odb = odb and ?ms1.0 = ms1 and ?ms2.0 = ms2]) (auto simp: entry_first_def)
next
  case (4 e2 es2 path c)
  then show ?case
    using path_ok_sub entry_ok_name head_sorted_ok[of "e2 # es2"] unfolding diff_loop.simps
    by (intro diffs_to_rassert loop_added[where odb = odb and ?ms1.0 = ms1 and ?ms2.0 = ms2]) (auto simp: entry_first_def)
next
  case (5 e1 es1 e2 es2 path c)
  let ?cmp = "git_tree_entry_namecmp e1 e2"
  have e1: "entry_ok odb ms1 e1" "entry_first odb ms1 e1 es1" "path_ok (path @ ''/'' @ entry_name e1)"
    and e2: "entry_ok odb ms2 e2" "entry_first odb ms2 e2 es2" "path_ok (path @ ''/'' @ entry_name e2)"
    using "5.prems" path_ok_sub entry_ok_name[of odb ms1 e1] entry_ok_name[of odb ms2 e2] by (auto simp: entry_first_def)
  note p = "5.prems"(5)
  have heads: "head_sorted (e1 # es1) \<and> head_sorted (e2 # es2)"
    using "5.prems"(1,2) by (simp add: head_sorted_ok)
  consider (less) "?cmp < 0" | (greater) "\<not> ?cmp < 0" "?cmp > 0" | (same) "\<not> ?cmp < 0" "\<not> ?cmp > 0" by blast
  then show ?case
  proof cases
    case less
    then have "entry_first odb ms2 e1 (e2 # es2)"
      using e2(1,2) by (auto simp: entry_first_def namecmp)
    then show ?thesis
      unfolding diff_loop.simps Let_def if_P[OF less]
      by (intro diffs_to_rassert[OF heads] loop_removed[OF e1(1,2) _ p])
        (use "5.IH"(1)[OF refl less] "5.IH"(2)[OF refl less] "5.prems" e1(3) in auto)
  next
    case greater
    then have "entry_first odb ms1 e2 (e1 # es1)"
      using e1(1,2) by (auto simp: entry_first_def namecmp)
    then show ?thesis
      unfolding diff_loop.simps Let_def if_not_P[OF greater(1)] if_P[OF greater(2)]
      by (intro diffs_to_rassert[OF heads] loop_added[OF e2(1,2) _ p])
        (use "5.IH"(3)[OF refl greater] "5.IH"(4)[OF refl greater] "5.prems" e2(3) in auto)
  next
    case same
    then have key: "entry_key e1 = entry_key e2"
      using namecmp(1)[of e1 e2] namecmp(2)[of e1 e2] by auto
    show ?thesis
      unfolding diff_loop.simps Let_def if_not_P[OF same(1)] if_not_P[OF same(2)]
      by (intro diffs_to_rassert[OF heads] loop_common[OF e1(1,2) e2(1,2) p assms key])
        (use "5.IH"(5)[OF refl same] "5.IH"(6)[OF refl same] "5.prems" e1(3) in auto)
  qed
qed

lemma diffTree_diffs:
  assumes "modes_fit ms1 ms2" "opt_ok odb ms1 t1" "opt_ok odb ms2 t2"
  shows "diffs_to c (diffTree t1 t2 [] c) (opt_files [] t1) (opt_files [] t2)"
  using diffTree_diff_loop_exact(1)[OF assms] by (simp add: path_ok_def)

text \<open>
  C23. On trees as Git stores them \<open>diffTree\<close> succeeds and adds exactly one change for each file whose
  blob differs between the trees, or that only one of them has: the changes are sorted by full
  name, well-formed, and hold the old and the new ID of the file.
\<close>

theorem diffTree_exact:
  assumes "modes_fit ms1 ms2" "opt_ok odb ms1 t1" "opt_ok odb ms2 t2"
  shows "\<exists>ds. diffTree t1 t2 [] c = Inr (c\<lparr>c_changes := c_changes c @ ds\<rparr>)
    \<and> is_diff (opt_files [] t1) (opt_files [] t2) ds"
  using diffTree_diffs[OF assms, of c] unfolding diffs_to_def .

section \<open>Searching the changes\<close>

lemma file_keys:
  "tree_ok odb ms t \<Longrightarrow> p \<noteq> [] \<Longrightarrow> path_ok p \<Longrightarrow> k \<in> dom (tree_files p t) \<Longrightarrow> name_ok (snd k) \<and> fst k \<noteq> []"
  "\<forall>e \<in> set es. entry_ok odb ms e \<and> (p = [] \<longrightarrow> is_dir e) \<Longrightarrow> path_ok p
    \<Longrightarrow> k \<in> dom (entries_files p es) \<Longrightarrow> name_ok (snd k) \<and> fst k \<noteq> []"
  "entry_ok odb ms e \<Longrightarrow> (p = [] \<longrightarrow> is_dir e) \<Longrightarrow> path_ok p
    \<Longrightarrow> k \<in> dom (entry_files p e) \<Longrightarrow> name_ok (snd k) \<and> fst k \<noteq> []"
proof (induction p t and p es and p e rule: tree_files_entries_files_entry_files.induct)
  case (1 p i es)
  then show ?case by simp
next
  case (2 p)
  then show ?case by simp
next
  case (3 p e es)
  then show ?case by auto
next
  case (4 p n m i ob)
  let ?e = "TreeEntry n m i ob"
  have n: "name_ok n" using 4 by simp
  show ?case
  proof (cases "is_dir ?e")
    case True
    then obtain t where t: "ob = Some t" "tree_ok odb ms t" "k \<in> dom (tree_files (p @ ''/'' @ n) t)"
      using 4 by (auto split: option.splits)
    then show ?thesis using 4(1)[OF True t(1,2)] path_ok_sub[OF n] 4(4) by simp
  next
    case False
    then have "k = (strip_slash p, n)" "p \<noteq> []" using 4 by (auto split: if_splits)
    then show ?thesis using n 4(4) by (auto simp: path_ok_def strip_slash_def)
  qed
qed

definition no_root_files :: "git_tree option \<Rightarrow> bool" where
  "no_root_files t \<longleftrightarrow> list_all is_dir (tree_list t)"

lemma opt_file_keys:
  "opt_ok odb ms t \<Longrightarrow> no_root_files t \<Longrightarrow> k \<in> dom (opt_files [] t) \<Longrightarrow> name_ok (snd k) \<and> fst k \<noteq> []"
  using file_keys(2)[of "tree_list t" odb ms "[]" k] opt_ok_list[of odb ms t]
  by (auto simp: opt_files_list no_root_files_def list_all_iff path_ok_def)

lemma abs_name_full: "fc_path ch \<noteq> [] \<Longrightarrow> abs_name (fc_path ch, fc_name ch) = CHR ''/'' # fullname ch"
  by (simp add: abs_name_def fullname_def build_pathname_def)

lemma split_last_slash:
  "name_ok n \<Longrightarrow> name_ok n' \<Longrightarrow> build_pathname p n = build_pathname p' n' \<longleftrightarrow> p = p' \<and> n = n'"
proof -
  assume n: "name_ok n" "name_ok n'"
  have "p = p' \<and> n = n'" if "p @ CHR ''/'' # n = p' @ CHR ''/'' # n'"
  proof -
    have "rev n @ CHR ''/'' # rev p = rev n' @ CHR ''/'' # rev p'"
      using arg_cong[OF that, of rev] by simp
    then have "takeWhile (\<lambda>c. c \<noteq> CHR ''/'') (rev n @ CHR ''/'' # rev p)
        = takeWhile (\<lambda>c. c \<noteq> CHR ''/'') (rev n' @ CHR ''/'' # rev p')" by simp
    moreover have "takeWhile (\<lambda>c. c \<noteq> CHR ''/'') (rev x @ CHR ''/'' # rev y) = rev x" if "name_ok x" for x y
      using that by (subst takeWhile_append2) (auto simp: name_ok_def)
    ultimately have "n = n'" using n by simp
    with that show ?thesis by simp
  qed
  then show "build_pathname p n = build_pathname p' n' \<longleftrightarrow> p = p' \<and> n = n'"
    by (auto simp: build_pathname_def)
qed

text \<open>What a lookup finds in the changes between two file maps.\<close>

lemma diff_commit_lookup:
  assumes "is_diff f g (c_changes c)" "\<And>k. k \<in> dom f \<union> dom g \<Longrightarrow> name_ok (snd k) \<and> fst k \<noteq> []"
  shows "commit_ok c"
    and "name_ok name \<Longrightarrow> case change_at c (build_pathname path name) of
      None \<Rightarrow> f (path, name) = g (path, name)
    | Some ch \<Rightarrow> fc_oid1 ch = f (path, name) \<and> fc_oid2 ch = g (path, name) \<and> fc_oid1 ch \<noteq> fc_oid2 ch \<and> file_change_ok ch"
proof -
  let ?cs = "c_changes c"
  have keys: "name_ok (fc_name ch) \<and> fc_path ch \<noteq> []" if "ch \<in> set ?cs" for ch
    using assms(2)[OF is_diff_key[OF assms(1) that]] by (simp add: change_key_def)
  have "map (abs_name \<circ> change_key) ?cs = map ((#) (CHR ''/'') \<circ> fullname) ?cs"
    using keys abs_name_full by (auto simp: change_key_def)
  then have "sorted_wrt (<) (map ((#) (CHR ''/'') \<circ> fullname) ?cs)"
    using assms(1) by (metis is_diff_def)
  then have "sorted_wrt (<) (map fullname ?cs)"
    by (simp add: sorted_wrt_map)
  then show ok: "commit_ok c"
    using assms(1) by (simp add: commit_ok_def is_diff_def)
  assume name: "name_ok name"
  show "case change_at c (build_pathname path name) of
      None \<Rightarrow> f (path, name) = g (path, name)
    | Some ch \<Rightarrow> fc_oid1 ch = f (path, name) \<and> fc_oid2 ch = g (path, name) \<and> fc_oid1 ch \<noteq> fc_oid2 ch \<and> file_change_ok ch"
  proof (cases "change_at c (build_pathname path name)")
    case None
    then have "(path, name) \<notin> change_key ` set ?cs"
      by (auto simp: change_at_def find_None_iff fullname_def change_key_def)
    then have "f (path, name) = g (path, name)"
      using assms(1) unfolding is_diff_def by blast
    with None show ?thesis by simp
  next
    case (Some ch)
    then have ch: "ch \<in> set ?cs" "fullname ch = build_pathname path name"
      using find_SomeD by (fastforce simp: change_at_def)+
    then have "change_key ch = (path, name)"
      using keys[OF ch(1)] name split_last_slash[of "fc_name ch" name] by (simp add: fullname_def change_key_def)
    then show ?thesis using ch(1) assms(1) Some by (auto simp: is_diff_def)
  qed
qed

lemma diff_lookups:
  assumes "is_diff f g (c_changes c)" "\<And>k. k \<in> dom f \<union> dom g \<Longrightarrow> name_ok (snd k) \<and> fst k \<noteq> []" "name_ok name"
  shows "findUpdateOid c name path = Inr (if f (path, name) = g (path, name) then None else g (path, name))"
    and "findRemovalOid c name path = Inr (if g (path, name) = None then f (path, name) else None)"
proof -
  note l = diff_commit_lookup(2)[OF assms(1,2,3), of path]
  have ok: "commit_ok c" by (rule diff_commit_lookup(1)[OF assms(1,2)])
  show "findUpdateOid c name path = Inr (if f (path, name) = g (path, name) then None else g (path, name))"
    unfolding findUpdateOid_eq[OF ok] using l by (auto split: option.splits)
  show "findRemovalOid c name path = Inr (if g (path, name) = None then f (path, name) else None)"
    unfolding findRemovalOid_eq[OF ok] using l
    by (auto split: option.splits simp: file_change_ok_def change_types)
qed

text \<open>
  C25. When no file lies in the root directory, the binary search of \<open>Commit\<close> in the changes that
  \<open>diffTree\<close> lists answers for every path and name what the two trees say: the new ID of an added or
  modified file, the old ID of a removed one.
\<close>

theorem diffTree_searchable:
  assumes "modes_fit ms1 ms2" "opt_ok odb ms1 t1" "opt_ok odb ms2 t2" "no_root_files t1" "no_root_files t2"
  shows "\<exists>c. diffTree t1 t2 [] (new_commit oid time) = Inr c \<and> (\<forall>name path. name_ok name \<longrightarrow>
      (let old = opt_files [] t1 (path, name); new = opt_files [] t2 (path, name) in
        findUpdateOid c name path = Inr (if old = new then None else new)
        \<and> findRemovalOid c name path = Inr (if new = None then old else None)))"
proof -
  obtain ds where ds: "diffTree t1 t2 [] (new_commit oid time) = Inr ((new_commit oid time)\<lparr>c_changes := ds\<rparr>)"
      "is_diff (opt_files [] t1) (opt_files [] t2) ds"
    using diffTree_diffs[OF assms(1-3), of "new_commit oid time"] by (auto simp: diffs_to_def new_commit_def)
  have keys: "name_ok (snd k) \<and> fst k \<noteq> []" if "k \<in> dom (opt_files [] t1) \<union> dom (opt_files [] t2)" for k
    using that opt_file_keys[OF assms(2,4)] opt_file_keys[OF assms(3,5)] by blast
  have "is_diff (opt_files [] t1) (opt_files [] t2) (c_changes ((new_commit oid time)\<lparr>c_changes := ds\<rparr>))"
    using ds(2) by simp
  note l = diff_lookups[OF this keys]
  show ?thesis
    unfolding ds(1) Let_def by (rule exI, rule conjI[OF refl], intro allI impI conjI l)
qed

text \<open>
  A changed file of the root directory is not found: its full name starts with a slash, that of
  other files does not, so that the changes are not sorted the way the search expects.
\<close>

theorem root_file_not_found:
  "let t = GitTree t_id [TreeEntry ''po'' 0x4000 d_id (Some (GitTree d_id [TreeEntry ''a.po'' 0x81A4 b_id None])),
       TreeEntry ''x.po'' 0x81A4 x_id None] in
   \<exists>c. diffTree None (Some t) [] (new_commit oid time) = Inr c
     \<and> opt_files [] (Some t) ([], ''x.po'') = Some x_id \<and> findUpdateOid c ''x.po'' [] = Inr None"
  by (simp add: Let_def tree_list_def same_tree_def is_dir_def REPO_MODE_DIR_def git_tree_entry_subtree_def
      add_change_def new_file_change_def change_types git_tree_entry_namecmp_def entry_key_def strcmp_def
      strip_slash_def new_commit_def addChange_def findUpdateOid_def findChange_def nChanges_def
      findChange_loop.simps commit_change_def build_pathname_def)

section \<open>Witnesses\<close>

definition wit_odb :: "git_oid \<Rightarrow> git_tree option" where
  "wit_odb i =
     (if i = replicate 20 1 then Some (GitTree (replicate 20 1) [TreeEntry ''a.po'' 0x81A4 (replicate 20 5) None,
        TreeEntry ''b.po'' 0x81ED (replicate 20 6) None])
      else if i = replicate 20 2 then Some (GitTree (replicate 20 2) [TreeEntry ''b.po'' 0x81A4 (replicate 20 7) None,
        TreeEntry ''c.po'' 0x81A4 (replicate 20 5) None])
      else if i = replicate 20 3 then Some (GitTree (replicate 20 3) [TreeEntry ''po'' 0x4000 (replicate 20 1)
        (Some (GitTree (replicate 20 1) [TreeEntry ''a.po'' 0x81A4 (replicate 20 5) None,
        TreeEntry ''b.po'' 0x81ED (replicate 20 6) None]))])
      else if i = replicate 20 4 then Some (GitTree (replicate 20 4) [TreeEntry ''po'' 0x4000 (replicate 20 2)
        (Some (GitTree (replicate 20 2) [TreeEntry ''b.po'' 0x81A4 (replicate 20 7) None,
        TreeEntry ''c.po'' 0x81A4 (replicate 20 5) None]))])
      else None)"

lemma wit_trees:
  "modes_fit {0x81A4, 0x81ED} {0x81A4}"
  "opt_ok wit_odb {0x81A4, 0x81ED} (wit_odb (replicate 20 3))" "opt_ok wit_odb {0x81A4} (wit_odb (replicate 20 4))"
  "no_root_files (wit_odb (replicate 20 3))" "no_root_files (wit_odb (replicate 20 4))"
  by (simp_all add: modes_fit_def wit_odb_def opt_ok_def oid_ok_def oid_size_def name_ok_def is_dir_def
      REPO_MODE_DIR_def entry_key_def no_root_files_def tree_list_def)

theorem diffTree_exact_witness:
  "\<exists>ds. diffTree (wit_odb (replicate 20 3)) (wit_odb (replicate 20 4)) [] (new_commit oid_zero 0)
      = Inr ((new_commit oid_zero 0)\<lparr>c_changes := c_changes (new_commit oid_zero 0) @ ds\<rparr>)
    \<and> is_diff (opt_files [] (wit_odb (replicate 20 3))) (opt_files [] (wit_odb (replicate 20 4))) ds"
  by (rule diffTree_exact[OF wit_trees(1-3)])

theorem diffTree_searchable_witness:
  "\<exists>c. diffTree (wit_odb (replicate 20 3)) (wit_odb (replicate 20 4)) [] (new_commit oid_zero 0) = Inr c
    \<and> findUpdateOid c ''b.po'' ''po'' = Inr (Some (replicate 20 7))
    \<and> findRemovalOid c ''a.po'' ''po'' = Inr (Some (replicate 20 5))"
proof -
  obtain c where c: "diffTree (wit_odb (replicate 20 3)) (wit_odb (replicate 20 4)) [] (new_commit oid_zero 0) = Inr c"
    and l: "\<And>name path. name_ok name \<Longrightarrow>
      (let old = opt_files [] (wit_odb (replicate 20 3)) (path, name);
           new = opt_files [] (wit_odb (replicate 20 4)) (path, name) in
        findUpdateOid c name path = Inr (if old = new then None else new)
        \<and> findRemovalOid c name path = Inr (if new = None then old else None))"
    using diffTree_searchable[OF wit_trees, of oid_zero 0] by blast
  have files: "opt_files [] (wit_odb (replicate 20 3)) (''po'', ''b.po'') = Some (replicate 20 6)"
      "opt_files [] (wit_odb (replicate 20 4)) (''po'', ''b.po'') = Some (replicate 20 7)"
      "opt_files [] (wit_odb (replicate 20 3)) (''po'', ''a.po'') = Some (replicate 20 5)"
      "opt_files [] (wit_odb (replicate 20 4)) (''po'', ''a.po'') = None"
    by (simp_all add: wit_odb_def opt_files_def is_dir_def REPO_MODE_DIR_def strip_slash_def)
  show ?thesis
    using c l[of "''b.po''" "''po''"] l[of "''a.po''" "''po''"] files by (auto simp: name_ok_def Let_def)
qed

end
