(* ===== verification/Repository.thy ===== *)
theory Repository
  imports GitTree FileDateTime
begin

text \<open>
  \<open>gtpo/repository.cpp\<close>: reading the commits of a repository, and the searches in them by
  position, time and file name. What libgit2 finds on disk is a value: whether the directory
  opens as a repository, the target of \<open>refs/heads/master\<close>, commits with their trees and parents,
  and the blobs by ID.
\<close>

datatype git_commit = GitCommit (gc_id: git_oid) (gc_time: int) (gc_tree: "git_tree option")
    (gc_parents: "git_commit list")

record git_dir =
  gd_master :: "git_oid option"
  gd_commit :: "git_oid \<Rightarrow> git_commit option"
  gd_blob :: "git_oid \<Rightarrow> byte list option"

record repository =
  r_gitDir :: string
  r_libgitRepo :: "git_dir option"
  r_oidMaster :: "git_oid option"
  r_commitsInit :: bool
  r_commits :: "commit list"

definition new_repository :: "string \<Rightarrow> repository" where
  "new_repository git_dir = \<lparr>r_gitDir = git_dir, r_libgitRepo = None, r_oidMaster = None,
     r_commitsInit = False, r_commits = []\<rparr>"

section \<open>Reading\<close>

definition libgitClose :: "repository \<Rightarrow> repository" where
  "libgitClose r = r\<lparr>r_libgitRepo := None\<rparr>"

definition libgitRepo :: "(string \<Rightarrow> git_dir option) \<Rightarrow> repository \<Rightarrow> (git_dir \<times> repository) res" where
  "libgitRepo disk r = (case r_libgitRepo r of
      Some g \<Rightarrow> Inr (g, r)
    | None \<Rightarrow> (case disk (r_gitDir r) of
        None \<Rightarrow> Inl (Throw (RuntimeError (''Failed to open Git repository at '' @ r_gitDir r)))
      | Some g \<Rightarrow> Inr (g, r\<lparr>r_libgitRepo := Some g\<rparr>)))"

definition blobLookup :: "(string \<Rightarrow> git_dir option) \<Rightarrow> repository \<Rightarrow> git_oid \<Rightarrow> (byte list option \<times> repository) res" where
  "blobLookup disk r oid = rbind (libgitRepo disk r) (\<lambda>(g, r'). Inr (gd_blob g oid, r'))"

definition initOidMaster :: "(string \<Rightarrow> git_dir option) \<Rightarrow> repository \<Rightarrow> repository res" where
  "initOidMaster disk r = rbind (libgitRepo disk r) (\<lambda>(g, r').
     case gd_master g of
       None \<Rightarrow> Inl (Throw (RuntimeError ''git_reference_lookup failed''))
     | Some m \<Rightarrow> Inr (r'\<lparr>r_oidMaster := Some m\<rparr>))"

text \<open>The commit that \<open>master\<close> points to; both callers look it up in the same way.\<close>

definition lookup_master :: "repository \<Rightarrow> git_commit res" where
  "lookup_master r = (case (r_libgitRepo r, r_oidMaster r) of
      (Some g, Some m) \<Rightarrow> (case gd_commit g m of Some c \<Rightarrow> Inr c | None \<Rightarrow> Inl AssertFail)
    | _ \<Rightarrow> Inl NullDeref)"

definition commit_tree :: "git_commit option \<Rightarrow> git_tree option res" where
  "commit_tree c = (case c of
      None \<Rightarrow> Inr None
    | Some c' \<Rightarrow> (case gc_tree c' of None \<Rightarrow> Inl AssertFail | Some t \<Rightarrow> Inr (Some t)))"

definition diffCommit :: "repository \<Rightarrow> git_commit option \<Rightarrow> git_commit \<Rightarrow> repository res" where
  "diffCommit r commit1 commit2 = rassert (\<not> r_commitsInit r)
     (rbind (commit_tree commit1) (\<lambda>tree1. rbind (commit_tree (Some commit2)) (\<lambda>tree2.
      rbind (diffTree tree1 tree2 [] (new_commit (gc_id commit2) (gc_time commit2))) (\<lambda>currentCommit.
        Inr (r\<lparr>r_commits := r_commits r @ [currentCommit]\<rparr>)))))"

fun read_history :: "git_commit \<Rightarrow> repository \<Rightarrow> repository res" where
  "read_history (GitCommit i t tr ps) r = rassert (length ps \<le> 1)
     (case ps of
        [] \<Rightarrow> diffCommit r None (GitCommit i t tr ps)
      | p # _ \<Rightarrow> rbind (diffCommit r (Some p) (GitCommit i t tr ps)) (\<lambda>r'. read_history p r'))"

text \<open>
  The two loops over the times. Their bounds \<open>size() - 1\<close> and \<open>size() - 2\<close> are computed in 64
  bits, so that the second one wraps for a single commit.
\<close>

definition size_minus :: "nat \<Rightarrow> nat \<Rightarrow> nat" where
  "size_minus n k = unat (of_nat n - of_nat k :: 64 word)"

function times_loop :: "(int \<Rightarrow> int \<Rightarrow> bool) \<Rightarrow> nat \<Rightarrow> commit list \<Rightarrow> nat \<Rightarrow> nat \<Rightarrow> unit res" where
  "times_loop P k cs i limit =
     (if i < limit then rbind (nth_res cs i) (\<lambda>a. rbind (nth_res cs (i + k)) (\<lambda>b.
        rassert (P (c_time a) (c_time b)) (times_loop P k cs (i + 1) limit)))
      else Inr ())"
  by pat_completeness auto
termination by (relation "measure (\<lambda>(P, k, cs, i, limit). limit - i)") auto

declare times_loop.simps [simp del]

definition check_times :: "commit list \<Rightarrow> unit res" where
  "check_times cs =
     rbind (times_loop (\<lambda>a b. \<not> a > b + 394) 1 cs 0 (size_minus (length cs) 1)) (\<lambda>_.
       times_loop (\<lambda>a b. \<not> a \<ge> b) 2 cs 0 (size_minus (length cs) 2))"

definition readRepositoryCommits :: "(string \<Rightarrow> git_dir option) \<Rightarrow> repository \<Rightarrow> repository res" where
  "readRepositoryCommits disk r =
     (if r_commitsInit r then Inr r else
      rbind (libgitRepo disk r) (\<lambda>(g, r1).
      rbind (initOidMaster disk r1) (\<lambda>r2.
      rbind (lookup_master r2) (\<lambda>commit.
      rbind (read_history commit r2) (\<lambda>r3.
        let r4 = r3\<lparr>r_commits := rev (r_commits r3)\<rparr> in
        rbind (check_times (r_commits r4)) (\<lambda>_. Inr (r4\<lparr>r_commitsInit := True\<rparr>)))))))"

section \<open>Searching\<close>

definition nCommits :: "repository \<Rightarrow> int res" where
  "nCommits r = rassert (r_commitsInit r) (Inr (int (length (r_commits r))))"

definition repo_commit :: "repository \<Rightarrow> int \<Rightarrow> commit res" where
  "repo_commit r index = rassert (r_commitsInit r) (rbind (nCommits r) (\<lambda>n.
     rassert (index \<ge> 0 \<and> index < n) (nth_res (r_commits r) (nat index))))"

function removal_loop :: "repository \<Rightarrow> string \<Rightarrow> string \<Rightarrow> int \<Rightarrow> int \<Rightarrow> git_oid option res" where
  "removal_loop r name path from i =
     (if i \<ge> 0 \<and> i \<ge> from - 10 then
        rbind (repo_commit r i) (\<lambda>c. rbind (findRemovalOid c name path) (\<lambda>oid.
          case oid of Some x \<Rightarrow> Inr (Some x) | None \<Rightarrow> removal_loop r name path from (i - 1)))
      else Inr None)"
  by pat_completeness auto
termination by (relation "measure (\<lambda>(r, n, p, f, i). nat (i + 1))") auto

declare removal_loop.simps [simp del]

definition findLastRemovalOid :: "repository \<Rightarrow> int \<Rightarrow> string \<Rightarrow> string \<Rightarrow> git_oid option res" where
  "findLastRemovalOid r from_commit name path = rbind (nCommits r) (\<lambda>n.
     rassert (from_commit < n) (removal_loop r name path from_commit from_commit))"

function next_update_loop :: "repository \<Rightarrow> string \<Rightarrow> string \<Rightarrow> int \<Rightarrow> int \<Rightarrow> git_oid option res" where
  "next_update_loop r name path n i =
     (if i < n then
        rbind (repo_commit r i) (\<lambda>c. rbind (findUpdateOid c name path) (\<lambda>oid.
          case oid of Some x \<Rightarrow> Inr (Some x) | None \<Rightarrow> next_update_loop r name path n (i + 1)))
      else Inr None)"
  by pat_completeness auto
termination by (relation "measure (\<lambda>(r, nm, p, n, i). nat (n - i))") auto

declare next_update_loop.simps [simp del]

definition findNextUpdateOid :: "repository \<Rightarrow> int \<Rightarrow> string \<Rightarrow> string \<Rightarrow> git_oid option res" where
  "findNextUpdateOid r from_commit name path = rbind (nCommits r) (\<lambda>n.
     rassert (from_commit \<ge> 0 \<and> from_commit < n) (next_update_loop r name path n from_commit))"

text \<open>
  The loop that two searches share. It returns the position of the commit with the object ID:
  the pointers that the code returns are equal if and only if the positions are.
\<close>

function last_update_loop :: "repository \<Rightarrow> string \<Rightarrow> string \<Rightarrow> int \<Rightarrow> (int \<times> git_oid) option res" where
  "last_update_loop r name path i =
     (if i \<ge> 0 then
        rbind (repo_commit r i) (\<lambda>c. rbind (findUpdateOid c name path) (\<lambda>oid.
          case oid of Some x \<Rightarrow> Inr (Some (i, x)) | None \<Rightarrow> last_update_loop r name path (i - 1)))
      else Inr None)"
  by pat_completeness auto
termination by (relation "measure (\<lambda>(r, n, p, i). nat (i + 1))") auto

declare last_update_loop.simps [simp del]

definition findLastUpdateOid :: "repository \<Rightarrow> int \<Rightarrow> string \<Rightarrow> string \<Rightarrow> git_oid option res" where
  "findLastUpdateOid r from_commit name path = rbind (nCommits r) (\<lambda>n.
     rassert (from_commit \<ge> 0 \<and> from_commit < n)
       (rbind (last_update_loop r name path from_commit) (\<lambda>x. Inr (map_option snd x))))"

text \<open>The binary search, down to at most three commits, and the search among those.\<close>

function time_search :: "repository \<Rightarrow> int \<Rightarrow> int \<Rightarrow> int \<Rightarrow> (int \<times> int) res" where
  "time_search r time lo hi =
     (if hi - lo > 2 then
        let m = (lo + hi) div 2 in
        rbind (repo_commit r m) (\<lambda>c.
          if time < c_time c then time_search r time lo m else time_search r time m hi)
      else Inr (lo, hi))"
  by pat_completeness auto
termination by (relation "measure (\<lambda>(r, t, l, h). nat (h - l))") auto

function time_scan :: "repository \<Rightarrow> int \<Rightarrow> int \<Rightarrow> int \<Rightarrow> int res" where
  "time_scan r time lo hi =
     (if hi \<ge> lo then rbind (repo_commit r hi) (\<lambda>c.
        if time \<ge> c_time c then Inr hi else time_scan r time lo (hi - 1))
      else Inl AssertFail)"
  by pat_completeness auto
termination by (relation "measure (\<lambda>(r, t, l, h). nat (h - l + 1))") auto

declare time_search.simps [simp del] time_scan.simps [simp del]

definition lastCommitByTime :: "repository \<Rightarrow> int \<Rightarrow> int res" where
  "lastCommitByTime r time = rbind (nCommits r) (\<lambda>n.
     if n = 0 then Inr (- 1) else
     rbind (repo_commit r 0) (\<lambda>c0.
       if time < c_time c0 then Inr (- 1)
       else rbind (time_search r time 0 (n - 1)) (\<lambda>(lo, hi). time_scan r time lo hi)))"

definition findFileOidByTime :: "repository \<Rightarrow> int \<Rightarrow> string \<Rightarrow> string \<Rightarrow> (int \<times> git_oid) option res" where
  "findFileOidByTime r time name path = rbind (lastCommitByTime r time) (\<lambda>commit_index.
     if commit_index = - 1 then Inr None else last_update_loop r name path commit_index)"

definition nearestCommitByTime :: "repository \<Rightarrow> int \<Rightarrow> int res" where
  "nearestCommitByTime r time = rbind (lastCommitByTime r time) (\<lambda>commit.
     Inr (if commit = - 1 then 0 else commit))"

definition compareCommitsByDate :: "repository \<Rightarrow> int \<Rightarrow> int \<Rightarrow> bool \<Rightarrow> bool res" where
  "compareCommitsByDate r a b descending = rbind (nCommits r) (\<lambda>n.
     rassert (a \<ge> 0 \<and> a < n \<and> b \<ge> 0 \<and> b < n)
       (rbind (repo_commit r a) (\<lambda>ca. rbind (repo_commit r b) (\<lambda>cb.
          Inr (if descending then c_time ca > c_time cb else c_time ca < c_time cb)))))"

text \<open>
  \<open>std::sort\<close> with \<open>compareCommitsByDate\<close>; commits of the same time stay in the order they have
  (the standard leaves that order open).
\<close>

definition time_of :: "repository \<Rightarrow> int \<Rightarrow> int" where
  "time_of r i = c_time (r_commits r ! nat i)"

definition sort_commits :: "repository \<Rightarrow> bool \<Rightarrow> int list \<Rightarrow> int list" where
  "sort_commits r descending is =
     (if descending then sort_key (\<lambda>i. - time_of r i) is else sort_key (time_of r) is)"

definition listCommitsBetweenDates ::
    "(string \<Rightarrow> git_dir option) \<Rightarrow> repository \<Rightarrow> file_date_time \<Rightarrow> file_date_time \<Rightarrow> (int list \<times> repository) res" where
  "listCommitsBetweenDates disk r date_a date_b =
     rbind (readRepositoryCommits disk r) (\<lambda>r.
     let backward = fdt_less date_b date_a in
     rbind (nearestCommitByTime r (fdt_time date_a)) (\<lambda>less0.
     rbind (nearestCommitByTime r (fdt_time date_b)) (\<lambda>more0.
     rbind (nCommits r) (\<lambda>n.
     let (less, more) = (if backward then (more0, less0) else (less0, more0));
         less = max (less - 5) 0; more = min (more + 5) (n - 1) in
     rbind (rfold (\<lambda>res i. rbind (repo_commit r i) (\<lambda>c.
          Inr (if isBetween (fdt_of_time (c_time c)) date_a date_b then res @ [i] else res))) [] [less..more])
       (\<lambda>res. Inr (sort_commits r backward res, r))))))"

fun relevant_pot_loop :: "repository \<Rightarrow> string \<Rightarrow> int list \<Rightarrow> git_oid option res" where
  "relevant_pot_loop r basename [] = Inr None"
| "relevant_pot_loop r basename (i # is) =
     rbind (repo_commit r i) (\<lambda>c. rbind (findUpdateOidsByBasename c basename) (\<lambda>po_oids.
       rassert (length po_oids \<le> 1)
         (if po_oids \<noteq> [] then Inr (Some (hd po_oids)) else relevant_pot_loop r basename is)))"

definition findRelevantPot ::
    "(string \<Rightarrow> git_dir option) \<Rightarrow> repository \<Rightarrow> string \<Rightarrow> file_date_time \<Rightarrow> (git_oid option \<times> repository) res" where
  "findRelevantPot disk r basename date =
     rbind (listCommitsBetweenDates disk r (plusHours date (- 3)) (plusDays date 14)) (\<lambda>(commits, r1).
     rbind (listCommitsBetweenDates disk r1 (plusSeconds (plusHours date (- 3)) (- 1)) (fdt_of_time 0))
       (\<lambda>(commits_prev, r2). rbind (relevant_pot_loop r2 basename (commits @ commits_prev)) (\<lambda>oid. Inr (oid, r2))))"

text \<open>A \<open>GitOid2Change\<close> is an ID with the change it comes from.\<close>

definition dumpOids :: "repository \<Rightarrow> (git_oid \<times> file_change) list \<Rightarrow> (git_oid \<times> file_change) list res" where
  "dumpOids r dest = rbind (nCommits r) (\<lambda>_. Inr (dest @ concat (map (\<lambda>c. concat (map (\<lambda>ch.
     (case tryOid1 ch of Some o1 \<Rightarrow> [(o1, ch)] | None \<Rightarrow> []) @ (case tryOid2 ch of Some o2 \<Rightarrow> [(o2, ch)] | None \<Rightarrow> []))
       (c_changes c))) (r_commits r))))"

definition commitIndexByOid :: "repository \<Rightarrow> git_oid \<Rightarrow> int res" where
  "commitIndexByOid r oid = rbind (nCommits r) (\<lambda>_.
     Inr (case List.find (\<lambda>i. oid_eq oid (c_oid (r_commits r ! i))) [0..<length (r_commits r)] of
       Some i \<Rightarrow> int i | None \<Rightarrow> - 1))"

section \<open>The blobs of the current tree\<close>

text \<open>
  The stack of \<open>blob_iterator\<close>: the entries of each open directory and the position in them.
  \<open>walkBlob\<close> may not return, which is the value \<open>None\<close>: an empty directory is never entered, and
  the loop stays at its entry.
\<close>

type_synonym blob_stack = "(tree_entry list \<times> nat) list"

definition enterDir :: "git_tree \<Rightarrow> blob_stack \<Rightarrow> blob_stack" where
  "enterDir t st = (if length (tree_entries t) > 0 then (tree_entries t, 0) # st else st)"

definition iter_isEnd :: "blob_stack \<Rightarrow> bool" where
  "iter_isEnd st \<longleftrightarrow> length st = 0"

definition next_entry :: "blob_stack \<Rightarrow> blob_stack" where
  "next_entry st = (case st of [] \<Rightarrow> [] | (es, idx) # st' \<Rightarrow> (es, idx + 1) # st')"

partial_function (option) walkBlob :: "blob_stack \<Rightarrow> blob_stack res option" where
  "walkBlob st = (case st of
      [] \<Rightarrow> Some (Inr [])
    | (es, idx) # st' \<Rightarrow>
        if \<not> (idx + 1 \<ge> length es \<or> git_tree_entry_namecmp (es ! idx) (es ! (idx + 1)) < 0)
        then Some (Inl AssertFail)
        else if idx = length es then walkBlob (next_entry st')
        else if is_dir (es ! idx) then (case git_tree_entry_subtree (es ! idx) of
            Inl e \<Rightarrow> Some (Inl e)
          | Inr t \<Rightarrow> walkBlob (enterDir t st))
        else Some (Inr st))"

definition iter_begin :: "git_commit \<Rightarrow> blob_stack res option" where
  "iter_begin c = (case commit_tree (Some c) of
      Inr (Some tree) \<Rightarrow> walkBlob (enterDir tree []) | _ \<Rightarrow> Some (Inl AssertFail))"

definition iter_increment :: "blob_stack \<Rightarrow> blob_stack res option" where
  "iter_increment st = (if iter_isEnd st then Some (Inl AssertFail) else walkBlob (next_entry st))"

definition iter_deref :: "blob_stack \<Rightarrow> tree_entry res" where
  "iter_deref st = (case st of [] \<Rightarrow> Inl AssertFail
    | (es, idx) # _ \<Rightarrow> rassert (idx < length es) (Inr (es ! idx)))"

text \<open>\<open>strcmp(name + strlen(name) - 3, ".po")\<close> reads before a name of less than three characters.\<close>

definition is_po_name :: "string \<Rightarrow> bool res" where
  "is_po_name name = (if length name < 3 then Inl OutOfBounds
     else Inr (strcmp (List.drop (length name - 3) name) ''.po'' = 0))"

partial_function (option) oids_loop :: "blob_stack \<Rightarrow> git_oid list \<Rightarrow> git_oid list res option" where
  "oids_loop st res =
     (if iter_isEnd st then Some (Inr res) else
      case rbind (iter_deref st) (\<lambda>e. rbind (is_po_name (entry_name e)) (\<lambda>b.
          Inr (if b then res @ [entry_id e] else res))) of
        Inl e \<Rightarrow> Some (Inl e)
      | Inr res' \<Rightarrow> (case iter_increment st of
          None \<Rightarrow> None
        | Some (Inl e) \<Rightarrow> Some (Inl e)
        | Some (Inr st') \<Rightarrow> oids_loop st' res'))"

definition getCurrentOids :: "(string \<Rightarrow> git_dir option) \<Rightarrow> repository \<Rightarrow> (git_oid list \<times> repository) res option" where
  "getCurrentOids disk r =
     (case rbind (libgitRepo disk r) (\<lambda>(g, r1). rbind (initOidMaster disk r1) (\<lambda>r2.
        rbind (lookup_master r2) (\<lambda>commit. Inr (commit, r2)))) of
        Inl e \<Rightarrow> Some (Inl e)
      | Inr (commit, r2) \<Rightarrow> (case iter_begin commit of
          None \<Rightarrow> None
        | Some (Inl e) \<Rightarrow> Some (Inl e)
        | Some (Inr st) \<Rightarrow> (case oids_loop st [] of
            None \<Rightarrow> None
          | Some (Inl e) \<Rightarrow> Some (Inl e)
          | Some (Inr oids) \<Rightarrow> Some (Inr (oids, r2)))))"

end
