(* ===== verification/RepositoryFacts.thy ===== *)
theory RepositoryFacts
  imports Repository GitTreeFacts
begin

text \<open>
  The searches of a repository: by time, and the version of a file that a position in the
  history has.
\<close>

section \<open>Searching by time\<close>

abbreviation ctime :: "repository \<Rightarrow> nat \<Rightarrow> int" where
  "ctime r i \<equiv> c_time (r_commits r ! i)"

abbreviation csize :: "repository \<Rightarrow> nat" where
  "csize r \<equiv> length (r_commits r)"

lemma repo_commit_ok:
  "r_commitsInit r \<Longrightarrow> 0 \<le> i \<Longrightarrow> i < int (csize r) \<Longrightarrow> repo_commit r i = Inr (r_commits r ! nat i)"
  by (simp add: repo_commit_def nCommits_def)

lemma time_search_spec:
  assumes "r_commitsInit r" "0 \<le> lo" "lo \<le> hi" "hi < int (csize r)"
    and "ctime r (nat lo) \<le> time" "hi = int (csize r) - 1 \<or> time < ctime r (nat hi)"
  shows "\<exists>lo' hi'. time_search r time lo hi = Inr (lo', hi') \<and> 0 \<le> lo' \<and> lo' \<le> hi' \<and> hi' < int (csize r)
    \<and> ctime r (nat lo') \<le> time \<and> (hi' = int (csize r) - 1 \<or> time < ctime r (nat hi'))"
  using assms
proof (induction r time lo hi rule: time_search.induct)
  case (1 r time lo hi)
  show ?case
  proof (cases "hi - lo > 2")
    case False
    then show ?thesis using 1 by (subst time_search.simps) simp
  next
    case True
    define m where "m = (lo + hi) div 2"
    have m: "0 \<le> m" "lo \<le> m" "m \<le> hi" "m < int (csize r)" using True 1 by (auto simp: m_def)
    note c = repo_commit_ok[OF "1.prems"(1) m(1,4)]
    show ?thesis
      using 1 True m c by (subst time_search.simps) (simp add: m_def[symmetric])
  qed
qed

lemma time_scan_spec:
  assumes "r_commitsInit r" "0 \<le> lo" "lo \<le> hi" "hi < int (csize r)" "ctime r (nat lo) \<le> time"
  shows "\<exists>i. time_scan r time lo hi = Inr i \<and> lo \<le> i \<and> i \<le> hi \<and> ctime r (nat i) \<le> time
    \<and> (i < hi \<longrightarrow> time < ctime r (nat (i + 1)))"
  using assms
proof (induction r time lo hi rule: time_scan.induct)
  case (1 r time lo hi)
  have c: "repo_commit r hi = Inr (r_commits r ! nat hi)"
    using 1 by (simp add: repo_commit_ok)
  show ?case
  proof (cases "ctime r (nat hi) \<le> time")
    case True
    then show ?thesis using 1 c by (subst time_scan.simps) simp
  next
    case False
    then have "lo \<le> hi - 1" using "1.prems" by (cases "lo = hi") auto
    then obtain i where i: "time_scan r time lo (hi - 1) = Inr i" "lo \<le> i" "i \<le> hi - 1" "ctime r (nat i) \<le> time"
        "i < hi - 1 \<longrightarrow> time < ctime r (nat (i + 1))"
      using "1.IH"[OF "1.prems"(3) c] False "1.prems" by auto
    have "time_scan r time lo hi = Inr i"
      using i(1) False c "1.prems"(3) by (subst time_scan.simps) simp
    moreover have "time < ctime r (nat (i + 1))"
      using i(3,5) False by (cases "i = hi - 1") auto
    ultimately show ?thesis using i by auto
  qed
qed

text \<open>
  C36. Whatever the times are, \<open>lastCommitByTime\<close> returns: -1 when the first commit is later than the
  given time, otherwise a commit that is not later while the next one is.
\<close>

theorem lastCommitByTime_local:
  assumes "r_commitsInit r"
  shows "\<exists>i. lastCommitByTime r time = Inr i
    \<and> (i = - 1 \<and> (csize r = 0 \<or> time < ctime r 0)
       \<or> 0 \<le> i \<and> i < int (csize r) \<and> ctime r (nat i) \<le> time
          \<and> (i + 1 < int (csize r) \<longrightarrow> time < ctime r (nat (i + 1))))"
proof (cases "csize r = 0 \<or> time < ctime r 0")
  case True
  then show ?thesis
    using assms by (auto simp: lastCommitByTime_def nCommits_def repo_commit_def)
next
  case False
  let ?n = "int (csize r)"
  have "\<exists>lo hi. time_search r time 0 (?n - 1) = Inr (lo, hi) \<and> 0 \<le> lo \<and> lo \<le> hi \<and> hi < ?n
    \<and> ctime r (nat lo) \<le> time \<and> (hi = ?n - 1 \<or> time < ctime r (nat hi))"
    by (rule time_search_spec) (use False assms in auto)
  then obtain lo hi where s: "time_search r time 0 (?n - 1) = Inr (lo, hi)" "0 \<le> lo" "lo \<le> hi" "hi < ?n"
    "ctime r (nat lo) \<le> time" "hi = ?n - 1 \<or> time < ctime r (nat hi)"
    by blast
  obtain i where i: "time_scan r time lo hi = Inr i" "lo \<le> i" "i \<le> hi" "ctime r (nat i) \<le> time"
      "i < hi \<longrightarrow> time < ctime r (nat (i + 1))"
    using time_scan_spec[OF assms s(2-5)] by blast
  show ?thesis
  proof (intro exI conjI disjI2)
    show "lastCommitByTime r time = Inr i"
      using False assms s(1) i(1) by (simp add: lastCommitByTime_def nCommits_def repo_commit_ok)
    show "i + 1 < ?n \<longrightarrow> time < ctime r (nat (i + 1))"
    proof
      assume "i + 1 < ?n"
      show "time < ctime r (nat (i + 1))"
      proof (cases "i < hi")
        case False
        with i(3) have "i = hi" by simp
        with s(6) i(4) \<open>i + 1 < ?n\<close> show ?thesis by auto
      qed (use i(5) in simp)
    qed
  qed (use i s in auto)
qed

text \<open>
  C27. When the times never decrease, \<open>lastCommitByTime\<close> returns the latest commit done as of the
  given time: exactly the commits up to it are not later.
\<close>

theorem lastCommitByTime_sorted:
  assumes "r_commitsInit r" "sorted (map c_time (r_commits r))"
  shows "\<exists>i. lastCommitByTime r time = Inr i \<and> - 1 \<le> i
    \<and> (\<forall>j < csize r. ctime r j \<le> time \<longleftrightarrow> int j \<le> i)"
proof -
  obtain i where i: "lastCommitByTime r time = Inr i"
    "i = - 1 \<and> (csize r = 0 \<or> time < ctime r 0)
       \<or> 0 \<le> i \<and> i < int (csize r) \<and> ctime r (nat i) \<le> time
          \<and> (i + 1 < int (csize r) \<longrightarrow> time < ctime r (nat (i + 1)))"
    using lastCommitByTime_local[OF assms(1)] by blast
  have mono: "ctime r a \<le> ctime r b" if "a \<le> b" "b < csize r" for a b
    using sorted_nth_mono[OF assms(2) that(1)] that by simp
  have "ctime r j \<le> time \<longleftrightarrow> int j \<le> i" if j: "j < csize r" for j
  proof (cases "i = - 1")
    case True
    then show ?thesis using i(2) mono[of 0 j] j by auto
  next
    case False
    then have i': "0 \<le> i" "i < int (csize r)" "ctime r (nat i) \<le> time"
        "i + 1 < int (csize r) \<Longrightarrow> time < ctime r (nat (i + 1))" using i(2) by auto
    show ?thesis
    proof (cases "int j \<le> i")
      case True
      then have "j \<le> nat i" "nat i < csize r" using i' by auto
      then show ?thesis using mono[of j "nat i"] True i' by auto
    next
      case False
      then have "nat (i + 1) \<le> j" "i + 1 < int (csize r)" using j by auto
      then show ?thesis using mono[of "nat (i + 1)" j] i'(4) False j by auto
    qed
  qed
  then show ?thesis using i by auto
qed

text \<open>
  With times that pass the checks of \<open>readRepositoryCommits\<close> (each commit is earlier than the one
  after the next) \<open>lastCommitByTime\<close> can miss the latest commit: of the commits at 0, 1, 10, 9 and
  20 it returns the second one for the time 9, at which the fourth was made.
\<close>

theorem lastCommitByTime_misses:
  "let r = (new_repository [])\<lparr>r_commitsInit := True,
         r_commits := map (new_commit oid_zero) [0, 1, 10, 9, 20]\<rparr> in
   check_times (r_commits r) = Inr () \<and> ctime r 3 \<le> 9 \<and> lastCommitByTime r 9 = Inr 1"
  by (simp add: Let_def new_repository_def new_commit_def check_times_def size_minus_def times_loop.simps
      nth_res_def lastCommitByTime_def nCommits_def repo_commit_def time_search.simps time_scan.simps)

section \<open>The versions of a file\<close>

text \<open>
  \<open>F i\<close> are the files of the tree of commit \<open>i\<close>; \<open>tracks\<close> says that the changes of the commits are
  the differences between them.
\<close>

definition before :: "(nat \<Rightarrow> file_key \<rightharpoonup> git_oid) \<Rightarrow> nat \<Rightarrow> file_key \<rightharpoonup> git_oid" where
  "before F i = (if i = 0 then Map.empty else F (i - 1))"

definition tracks :: "repository \<Rightarrow> (nat \<Rightarrow> file_key \<rightharpoonup> git_oid) \<Rightarrow> bool" where
  "tracks r F \<longleftrightarrow> r_commitsInit r \<and> (\<forall>i < csize r. is_diff (before F i) (F i) (c_changes (r_commits r ! i))
     \<and> (\<forall>k \<in> dom (F i). name_ok (snd k) \<and> fst k \<noteq> []))"

fun last_version :: "(nat \<Rightarrow> file_key \<rightharpoonup> git_oid) \<Rightarrow> file_key \<Rightarrow> nat \<Rightarrow> git_oid option" where
  "last_version F k 0 = F 0 k"
| "last_version F k (Suc i) = (case F (Suc i) k of Some x \<Rightarrow> Some x | None \<Rightarrow> last_version F k i)"

lemma tracks_diff:
  assumes "tracks r F" "i < csize r"
  shows "is_diff (before F i) (F i) (c_changes (r_commits r ! i))"
    and "k \<in> dom (before F i) \<union> dom (F i) \<Longrightarrow> name_ok (snd k) \<and> fst k \<noteq> []"
proof -
  show "is_diff (before F i) (F i) (c_changes (r_commits r ! i))" using assms by (simp add: tracks_def)
  assume k: "k \<in> dom (before F i) \<union> dom (F i)"
  show "name_ok (snd k) \<and> fst k \<noteq> []"
  proof (cases "k \<in> dom (F i)")
    case True
    then show ?thesis using assms by (auto simp: tracks_def)
  next
    case False
    then have "i \<noteq> 0" "k \<in> dom (F (i - 1))" using k by (auto simp: before_def split: if_splits)
    moreover have "i - 1 < csize r" using assms(2) by simp
    ultimately show ?thesis using assms(1) unfolding tracks_def by blast
  qed
qed

lemma tracks_lookups:
  assumes "tracks r F" "i < csize r" "name_ok name"
  shows "findUpdateOid (r_commits r ! i) name path
      = Inr (if before F i (path, name) = F i (path, name) then None else F i (path, name))"
    and "findRemovalOid (r_commits r ! i) name path
      = Inr (if F i (path, name) = None then before F i (path, name) else None)"
  using diff_lookups[OF tracks_diff[OF assms(1,2)] assms(3)] by blast+

lemma last_update_loop_version:
  assumes "tracks r F" "i < csize r" "name_ok name"
  shows "\<exists>p. last_update_loop r name path (int i) = Inr p \<and> map_option snd p = last_version F (path, name) i"
  using assms(2)
proof (induction i)
  case 0
  have "repo_commit r 0 = Inr (r_commits r ! 0)"
    using assms(1) 0 repo_commit_ok[of r 0] by (simp add: tracks_def)
  moreover have "last_update_loop r name path (- 1) = Inr None" by (subst last_update_loop.simps) simp
  ultimately show ?case
    using tracks_lookups(1)[OF assms(1) 0 assms(3), of path]
    by (subst last_update_loop.simps) (auto simp: before_def split: option.splits)
next
  case (Suc i)
  then obtain p where p: "last_update_loop r name path (int i) = Inr p"
      "map_option snd p = last_version F (path, name) i" by auto
  have "repo_commit r (int (Suc i)) = Inr (r_commits r ! Suc i)"
    using assms(1) Suc.prems repo_commit_ok[of r "int (Suc i)"] by (simp add: tracks_def del: of_nat_Suc)
  moreover have "last_version F k i = F i k" if "F i k \<noteq> None" for k
    using that by (cases i) (auto split: option.splits)
  ultimately show ?case
    using tracks_lookups(1)[OF assms(1) Suc.prems assms(3), of path] p
    by (subst last_update_loop.simps) (auto simp: before_def split: option.splits)
qed

text \<open>
  \<open>findLastUpdateOid\<close> gives the version of a file that the tree of the commit has; for a file
  that was deleted before, the version it had last; nothing only if it never existed.
\<close>

theorem findLastUpdateOid_version:
  assumes "tracks r F" "i < csize r" "name_ok name"
  shows "findLastUpdateOid r (int i) name path = Inr (last_version F (path, name) i)"
proof -
  obtain p where "last_update_loop r name path (int i) = Inr p" "map_option snd p = last_version F (path, name) i"
    using last_update_loop_version[OF assms] by blast
  then show ?thesis
    using assms by (simp add: findLastUpdateOid_def nCommits_def tracks_def)
qed

text \<open>
  C26. \<open>findFileOidByTime\<close> gives the last version of a file as of the commit that \<open>lastCommitByTime\<close>
  finds, even when the file no longer exists there.
\<close>

theorem findFileOidByTime_version:
  assumes "tracks r F" "name_ok name" "lastCommitByTime r time = Inr i"
  shows "\<exists>p. findFileOidByTime r time name path = Inr p
    \<and> map_option snd p = (if i = - 1 then None else last_version F (path, name) (nat i))"
proof (cases "i = - 1")
  case True
  then show ?thesis using assms(3) by (simp add: findFileOidByTime_def)
next
  case False
  then have "0 \<le> i" "nat i < csize r"
    using lastCommitByTime_local[of r time] assms by (auto simp: tracks_def)
  then show ?thesis
    using last_update_loop_version[OF assms(1) _ assms(2), of "nat i" path] assms(3) False
    by (auto simp: findFileOidByTime_def)
qed

end
