(* ===== verification/RepositoryHistory.thy ===== *)
theory RepositoryHistory
  imports RepositoryFacts
begin

text \<open>
  What \<open>readRepositoryCommits\<close> makes of the history in a Git repository, and what the iterator over
  the blobs of the current tree visits.
\<close>

section \<open>Reading the history\<close>

text \<open>The commits from \<open>HEAD\<close> to the root.\<close>

fun chain :: "git_commit \<Rightarrow> git_commit list" where
  "chain (GitCommit i t tr ps) = GitCommit i t tr ps # (case ps of [] \<Rightarrow> [] | p # _ \<Rightarrow> chain p)"

definition commit_fine :: "(git_oid \<Rightarrow> git_tree option) \<Rightarrow> git_commit \<Rightarrow> bool" where
  "commit_fine odb c \<longleftrightarrow> length (gc_parents c) \<le> 1 \<and> gc_tree c \<noteq> None
     \<and> opt_ok odb {0x81A4} (gc_tree c) \<and> no_root_files (gc_tree c)"

text \<open>The commits that were read against those of the history, both from \<open>HEAD\<close> to the root.\<close>

definition parent_tree :: "git_commit list \<Rightarrow> git_tree option" where
  "parent_tree cs = (case cs of [] \<Rightarrow> None | p # _ \<Rightarrow> gc_tree p)"

fun linked :: "git_commit list \<Rightarrow> commit list \<Rightarrow> bool" where
  "linked (c # cs) (m # ms) \<longleftrightarrow> c_oid m = gc_id c \<and> c_time m = gc_time c
     \<and> is_diff (opt_files [] (parent_tree cs)) (opt_files [] (gc_tree c)) (c_changes m) \<and> linked cs ms"
| "linked cs ms \<longleftrightarrow> cs = [] \<and> ms = []"

lemma modes_fit_same: "modes_fit {m} {m}"
  by (simp add: modes_fit_def)

lemma diffCommit_fine:
  assumes "\<not> r_commitsInit r" "commit_fine odb c" "case p of None \<Rightarrow> True | Some p' \<Rightarrow> commit_fine odb p'"
  shows "\<exists>m. diffCommit r p c = Inr (r\<lparr>r_commits := r_commits r @ [m]\<rparr>) \<and> c_oid m = gc_id c \<and> c_time m = gc_time c
    \<and> is_diff (opt_files [] (case p of None \<Rightarrow> None | Some p' \<Rightarrow> gc_tree p')) (opt_files [] (gc_tree c)) (c_changes m)"
proof -
  let ?t1 = "case p of None \<Rightarrow> None | Some p' \<Rightarrow> gc_tree p'"
  have t1: "commit_tree p = Inr ?t1" "opt_ok odb {0x81A4} ?t1"
    using assms(3) by (auto simp: commit_tree_def commit_fine_def split: option.splits)
  have t2: "commit_tree (Some c) = Inr (gc_tree c)" "opt_ok odb {0x81A4} (gc_tree c)"
    using assms(2) by (auto simp: commit_tree_def commit_fine_def split: option.splits)
  obtain ds where "diffTree ?t1 (gc_tree c) [] (new_commit (gc_id c) (gc_time c))
      = Inr ((new_commit (gc_id c) (gc_time c))\<lparr>c_changes := ds\<rparr>)" "is_diff (opt_files [] ?t1) (opt_files [] (gc_tree c)) ds"
    using diffTree_diffs[OF modes_fit_same t1(2) t2(2), of "new_commit (gc_id c) (gc_time c)"]
    by (auto simp: diffs_to_def new_commit_def)
  then show ?thesis
    using assms(1) t1(1) t2(1)
    by (intro exI[of _ "(new_commit (gc_id c) (gc_time c))\<lparr>c_changes := ds\<rparr>"])
      (simp add: diffCommit_def new_commit_def del: diffTree.simps)
qed

lemma read_history_linked:
  assumes "\<not> r_commitsInit r" "\<forall>c \<in> set (chain head). commit_fine odb c"
  shows "\<exists>ms. read_history head r = Inr (r\<lparr>r_commits := r_commits r @ ms\<rparr>) \<and> linked (chain head) ms"
  using assms
proof (induction head arbitrary: r rule: chain.induct)
  case (1 i t tr ps)
  let ?c = "GitCommit i t tr ps"
  have c: "commit_fine odb ?c" using 1(3) by simp
  show ?case
  proof (cases ps)
    case Nil
    then show ?thesis
      using diffCommit_fine[OF 1(2) c, of None] by (auto simp: parent_tree_def)
  next
    case (Cons p ps')
    then have ps: "ps = [p]" using c by (simp add: commit_fine_def)
    have p: "\<forall>c \<in> set (chain p). commit_fine odb c" using 1(3) ps by simp
    obtain c0 cs where cs: "chain p = c0 # cs" "gc_tree c0 = gc_tree p" "c0 = p" by (cases p) auto
    obtain m where m: "diffCommit r (Some p) ?c = Inr (r\<lparr>r_commits := r_commits r @ [m]\<rparr>)"
        "c_oid m = i" "c_time m = t" "is_diff (opt_files [] (gc_tree p)) (opt_files [] tr) (c_changes m)"
      using diffCommit_fine[OF 1(2) c, of "Some p"] p cs by auto
    obtain ms where ms: "read_history p (r\<lparr>r_commits := r_commits r @ [m]\<rparr>)
        = Inr (r\<lparr>r_commits := (r_commits r @ [m]) @ ms\<rparr>)" "linked (chain p) ms"
      using 1(1)[OF Cons, of "r\<lparr>r_commits := r_commits r @ [m]\<rparr>"] 1(2) p by auto
    show ?thesis
    proof (intro exI conjI)
      show "read_history ?c r = Inr (r\<lparr>r_commits := r_commits r @ m # ms\<rparr>)"
        using m(1) ms(1) ps by simp
      show "linked (chain ?c) (m # ms)"
        using m ms(2) ps cs by (simp add: parent_tree_def)
    qed
  qed
qed

lemma linked_nth:
  "linked cs ms \<Longrightarrow> length cs = length ms"
  "linked cs ms \<Longrightarrow> i < length cs \<Longrightarrow> c_oid (ms ! i) = gc_id (cs ! i) \<and> c_time (ms ! i) = gc_time (cs ! i)
    \<and> is_diff (opt_files [] (if i + 1 < length cs then gc_tree (cs ! (i + 1)) else None))
        (opt_files [] (gc_tree (cs ! i))) (c_changes (ms ! i))"
proof (induction cs ms arbitrary: i rule: linked.induct)
  case (1 c cs m ms)
  {
    case 1
    then show ?case using "1.IH"(1) by simp
  next
    case 2
    then show ?case using "1.IH"(2)[of "i - 1"]
      by (cases i; cases cs) (auto simp: parent_tree_def)
  }
qed auto

text \<open>The trees of the history in the order of the commits, and the times that pass the checks.\<close>

definition tree_at :: "git_commit \<Rightarrow> nat \<Rightarrow> file_key \<rightharpoonup> git_oid" where
  "tree_at head i = opt_files [] (gc_tree (rev (chain head) ! i))"

definition times_fine :: "int list \<Rightarrow> bool" where
  "times_fine ts \<longleftrightarrow> (\<forall>i. i + 1 < length ts \<longrightarrow> ts ! i \<le> ts ! (i + 1) + 394)
     \<and> (\<forall>i. i + 2 < length ts \<longrightarrow> ts ! i < ts ! (i + 2))"

lemma times_loop_ok:
  assumes "limit + k = length cs" "\<And>j. j < limit \<Longrightarrow> P (c_time (cs ! j)) (c_time (cs ! (j + k)))"
  shows "times_loop P k cs i limit = Inr ()"
  using assms
proof (induction P k cs i limit rule: times_loop.induct)
  case (1 P k cs i limit)
  then show ?case by (subst times_loop.simps) (auto simp: nth_res_def)
qed

lemma size_minus_eq: "k \<le> n \<Longrightarrow> n < 2 ^ 64 \<Longrightarrow> size_minus n k = n - k"
proof -
  assume "k \<le> n" "n < 2 ^ 64"
  then have "of_nat n - of_nat k = (of_nat (n - k) :: 64 word)" by (simp add: of_nat_diff)
  then show ?thesis using \<open>n < 2 ^ 64\<close> by (simp add: size_minus_def unsigned_of_nat take_bit_nat_eq_self)
qed

lemma check_times_ok:
  assumes "times_fine (map c_time cs)" "2 \<le> length cs" "length cs < 2 ^ 64"
  shows "check_times cs = Inr ()"
proof -
  have 1: "\<not> c_time (cs ! j) > c_time (cs ! (j + 1)) + 394" if "j < length cs - 1" for j
  proof -
    have "j + 1 < length cs" using that by simp
    then show ?thesis using assms(1) unfolding times_fine_def by (fastforce simp: not_less)
  qed
  have 2: "\<not> c_time (cs ! j) \<ge> c_time (cs ! (j + 2))" if "j < length cs - 2" for j
  proof -
    have "j + 2 < length cs" using that by simp
    then have "map c_time cs ! j < map c_time cs ! (j + 2)" using assms(1) unfolding times_fine_def by simp
    then show ?thesis using that by simp
  qed
  have "times_loop (\<lambda>a b. \<not> a > b + 394) 1 cs 0 (length cs - 1) = Inr ()"
      "times_loop (\<lambda>a b. \<not> a \<ge> b) 2 cs 0 (length cs - 2) = Inr ()"
    using 1 2 assms(2) by (intro times_loop_ok; simp)+
  then show ?thesis
    using assms(2,3) by (simp add: check_times_def size_minus_eq)
qed

definition fresh_repo :: "string \<Rightarrow> repository \<Rightarrow> bool" where
  "fresh_repo dir r \<longleftrightarrow> r = new_repository dir"

lemma history_tracks:
  assumes "linked (chain head) ms" "\<forall>c \<in> set (chain head). commit_fine odb c"
    and "r_commitsInit r" "r_commits r = rev ms"
  shows "tracks r (tree_at head)"
  unfolding tracks_def
proof (intro conjI allI impI ballI)
  show "r_commitsInit r" by fact
  fix i assume i: "i < csize r"
  let ?cs = "chain head"
  let ?n = "length ms"
  have n: "length ?cs = ?n" by (rule linked_nth(1)[OF assms(1)])
  let ?j = "?n - Suc i"
  have i': "i < ?n" using i assms(4) by simp
  have com: "r_commits r ! i = ms ! ?j" unfolding assms(4) by (rule rev_nth[OF i'])
  have tr: "tree_at head i = opt_files [] (gc_tree (?cs ! ?j))"
    using i' n by (simp add: tree_at_def rev_nth)
  have bef: "before (tree_at head) i = opt_files [] (if ?j + 1 < length ?cs then gc_tree (?cs ! (?j + 1)) else None)"
  proof (cases "i = 0")
    case False
    then have "?n - Suc (i - 1) = ?j + 1" using i' by simp
    then show ?thesis using False i' n by (auto simp: before_def tree_at_def rev_nth)
  qed (use i' n in \<open>auto simp: before_def\<close>)
  show "is_diff (before (tree_at head) i) (tree_at head i) (c_changes (r_commits r ! i))"
    unfolding com tr bef using linked_nth(2)[OF assms(1), of ?j] i' n by simp
  have fine: "commit_fine odb (?cs ! ?j)" using assms(2) i' n by simp
  fix k assume "k \<in> dom (tree_at head i)"
  then show "name_ok (snd k)" "fst k \<noteq> []"
    using opt_file_keys[of odb "{0x81A4}" "gc_tree (?cs ! ?j)" k] fine unfolding tr commit_fine_def by blast+
qed

lemma history_read:
  assumes disk: "disk dir = Some g" "gd_master g = Some m" "gd_commit g m = Some head"
    and fine: "\<forall>c \<in> set (chain head). commit_fine odb c"
    and times: "times_fine (map gc_time (rev (chain head)))"
    and size: "2 \<le> length (chain head)" "length (chain head) < 2 ^ 64"
  shows "\<exists>r. readRepositoryCommits disk (new_repository dir) = Inr r \<and> tracks r (tree_at head)
    \<and> map c_oid (r_commits r) = map gc_id (rev (chain head))
    \<and> map c_time (r_commits r) = map gc_time (rev (chain head))"
proof -
  let ?r2 = "(new_repository dir)\<lparr>r_libgitRepo := Some g, r_oidMaster := Some m\<rparr>"
  have "\<not> r_commitsInit ?r2" by (simp add: new_repository_def)
  then obtain ms where ms: "read_history head ?r2 = Inr (?r2\<lparr>r_commits := r_commits ?r2 @ ms\<rparr>)"
      "linked (chain head) ms"
    using read_history_linked[OF _ fine] by blast
  let ?r = "?r2\<lparr>r_commits := rev ms, r_commitsInit := True\<rparr>"
  note n = linked_nth(1)[OF ms(2)]
  have cs: "map c_oid (rev ms) = map gc_id (rev (chain head))" "map c_time (rev ms) = map gc_time (rev (chain head))"
    using linked_nth(2)[OF ms(2)] n by (auto simp: rev_map[symmetric] intro!: nth_equalityI)
  have "check_times (rev ms) = Inr ()"
    by (rule check_times_ok) (use cs(2) times size n in simp_all)
  then have read: "readRepositoryCommits disk (new_repository dir) = Inr ?r"
    using disk ms(1)
    by (simp add: readRepositoryCommits_def libgitRepo_def initOidMaster_def lookup_master_def new_repository_def)
  have "tracks ?r (tree_at head)"
    by (rule history_tracks[OF ms(2) fine]) simp_all
  then show ?thesis using read cs by (intro exI[of _ ?r]) simp
qed

text \<open>
  C22. Reading a linear history of at least two commits, with trees as Git stores them and times in
  the tolerated order, succeeds: the repository then has the commits from the root to \<open>HEAD\<close> with their
  IDs and times, and the changes of each are exactly the differences to the tree before it.
\<close>

theorem readRepositoryCommits_history:
  assumes disk: "disk dir = Some g" "gd_master g = Some m" "gd_commit g m = Some head"
    and fine: "\<forall>c \<in> set (chain head). commit_fine odb c"
    and times: "times_fine (map gc_time (rev (chain head)))"
    and size: "2 \<le> length (chain head)" "length (chain head) < 2 ^ 64"
  shows "\<exists>r. readRepositoryCommits disk (new_repository dir) = Inr r \<and> tracks r (tree_at head)
    \<and> map c_oid (r_commits r) = map gc_id (rev (chain head))
    \<and> map c_time (r_commits r) = map gc_time (rev (chain head))"
  by (rule history_read[where disk = disk and dir = dir, OF assms])

text \<open>
  A repository with a single commit makes the second check of the times read behind the vector:
  its bound wraps around.
\<close>

theorem single_commit_out_of_bounds:
  assumes disk: "disk dir = Some g" "gd_master g = Some m" "gd_commit g m = Some head"
    and fine: "\<forall>c \<in> set (chain head). commit_fine odb c" and single: "length (chain head) = 1"
  shows "readRepositoryCommits disk (new_repository dir) = Inl OutOfBounds"
proof -
  let ?r2 = "(new_repository dir)\<lparr>r_libgitRepo := Some g, r_oidMaster := Some m\<rparr>"
  have "\<not> r_commitsInit ?r2" by (simp add: new_repository_def)
  then obtain ms where ms: "read_history head ?r2 = Inr (?r2\<lparr>r_commits := r_commits ?r2 @ ms\<rparr>)"
      "linked (chain head) ms"
    using read_history_linked[OF _ fine] by blast
  then obtain c where c: "ms = [c]"
    using linked_nth(1)[OF ms(2)] single by (cases ms) auto
  have "check_times [c] = Inl OutOfBounds"
    by (simp add: check_times_def size_minus_def times_loop.simps nth_res_def unat_gt_0)
  then show ?thesis
    using disk ms(1) c
    by (simp add: readRepositoryCommits_def libgitRepo_def initOidMaster_def lookup_master_def new_repository_def)
qed

section \<open>Walking the blobs\<close>

text \<open>The files of a tree in the order of its entries, and that no directory in it is empty.\<close>

fun tree_blobs :: "git_tree \<Rightarrow> tree_entry list"
  and entry_blobs :: "tree_entry \<Rightarrow> tree_entry list"
  where
  "tree_blobs (GitTree i es) = concat (map entry_blobs es)"
| "entry_blobs (TreeEntry n m i ob) =
     (if is_dir (TreeEntry n m i ob) then (case ob of None \<Rightarrow> [] | Some t \<Rightarrow> tree_blobs t)
      else [TreeEntry n m i ob])"

fun no_empty_dir :: "git_tree \<Rightarrow> bool"
  and entry_not_empty :: "tree_entry \<Rightarrow> bool"
  where
  "no_empty_dir (GitTree i es) \<longleftrightarrow> (\<forall>e \<in> set es. entry_not_empty e)"
| "entry_not_empty (TreeEntry n m i ob) \<longleftrightarrow>
     (case ob of None \<Rightarrow> True | Some t \<Rightarrow> tree_entries t \<noteq> [] \<and> no_empty_dir t)"

definition entries_fine :: "(git_oid \<Rightarrow> git_tree option) \<Rightarrow> 32 word set \<Rightarrow> tree_entry list \<Rightarrow> bool" where
  "entries_fine odb ms es \<longleftrightarrow> entries_sorted es \<and> (\<forall>e \<in> set es. entry_ok odb ms e \<and> entry_not_empty e)"

text \<open>
  What is left to visit: the top directory from its position, those below it from the entry after
  the one that is open.
\<close>

definition blobs_of :: "tree_entry list \<Rightarrow> tree_entry list" where
  "blobs_of es = concat (map entry_blobs es)"

fun lower_blobs :: "blob_stack \<Rightarrow> tree_entry list" where
  "lower_blobs [] = []"
| "lower_blobs ((es, i) # st) = blobs_of (List.drop (i + 1) es) @ lower_blobs st"

fun left_blobs :: "blob_stack \<Rightarrow> tree_entry list" where
  "left_blobs [] = []"
| "left_blobs ((es, i) # st) = blobs_of (List.drop i es) @ lower_blobs st"

fun lower_size :: "blob_stack \<Rightarrow> nat" where
  "lower_size [] = 0"
| "lower_size ((es, i) # st) = Suc (size_list size (List.drop (i + 1) es) + lower_size st)"

fun left_size :: "blob_stack \<Rightarrow> nat" where
  "left_size [] = 0"
| "left_size ((es, i) # st) = Suc (size_list size (List.drop i es) + lower_size st)"

definition stack_fine :: "(git_oid \<Rightarrow> git_tree option) \<Rightarrow> 32 word set \<Rightarrow> blob_stack \<Rightarrow> bool" where
  "stack_fine odb ms st \<longleftrightarrow> (\<forall>(es, i) \<in> set st. entries_fine odb ms es)
     \<and> (case st of [] \<Rightarrow> True | (es, i) # st' \<Rightarrow> i \<le> length es \<and> (\<forall>(es, i) \<in> set st'. i < length es))"

lemma next_entry_facts:
  "stack_fine odb ms (f # st) \<Longrightarrow> stack_fine odb ms (next_entry st)"
  "left_blobs (next_entry st) = lower_blobs st"
  "left_size (next_entry st) = lower_size st"
  by (cases st; force simp: stack_fine_def next_entry_def)+

lemma entries_fine_head:
  assumes "entries_fine odb ms es" "i + 1 < length es"
  shows "git_tree_entry_namecmp (es ! i) (es ! (i + 1)) < 0"
proof -
  have "entries_sorted es" using assms(1) by (simp add: entries_fine_def)
  then have "entry_key (es ! i) < entry_key (es ! (i + 1))"
    using assms(2) unfolding sorted_wrt_iff_nth_less by simp
  then show ?thesis by (simp add: namecmp)
qed

lemma blobs_of_drop:
  "i < length es \<Longrightarrow> blobs_of (List.drop i es) = entry_blobs (es ! i) @ blobs_of (List.drop (i + 1) es)"
  by (simp add: blobs_of_def Cons_nth_drop_Suc[symmetric])

lemma size_drop:
  "i < length es \<Longrightarrow> size_list size (List.drop i es) = Suc (size (es ! i) + size_list size (List.drop (i + 1) es))"
  for es :: "tree_entry list"
  by (simp add: Cons_nth_drop_Suc[symmetric])

text \<open>
  One step of the walk: at the end of a directory it goes on above, before a directory it goes in, and
  before a blob it stops. Each step keeps the blobs still to come, and leaves less to walk.
\<close>

lemma entries_fine_sorted:
  "entries_fine odb ms es \<Longrightarrow> i + 1 \<ge> length es \<or> git_tree_entry_namecmp (es ! i) (es ! (i + 1)) < 0"
  using entries_fine_head[of odb ms es i] by linarith

lemma walkBlob_at_end:
  assumes fine: "stack_fine odb ms ((es, length es) # st)"
  shows "walkBlob ((es, length es) # st) = walkBlob (next_entry st)" "stack_fine odb ms (next_entry st)"
    "left_blobs (next_entry st) = left_blobs ((es, length es) # st)"
    "left_size (next_entry st) < left_size ((es, length es) # st)"
  using fine next_entry_facts(1)[of odb ms] unfolding next_entry_facts
  by ((subst walkBlob.simps, simp) | (simp add: blobs_of_def))+

lemma walkBlob_at_dir:
  assumes fine: "stack_fine odb ms ((es, i) # st)" and i: "i < length es" "is_dir (es ! i)"
  shows "\<exists>st2. walkBlob ((es, i) # st) = walkBlob st2 \<and> stack_fine odb ms st2
    \<and> left_blobs st2 = left_blobs ((es, i) # st) \<and> left_size st2 < left_size ((es, i) # st)"
proof -
  have es: "entries_fine odb ms es" using fine by (simp add: stack_fine_def)
  then have e: "entry_ok odb ms (es ! i)" "entry_not_empty (es ! i)" using i(1) by (simp_all add: entries_fine_def)
  obtain t where t: "git_tree_entry_subtree (es ! i) = Inr t" "tree_ok odb ms t"
    using subtree_ok[OF e(1) i(2)] by metis
  have "entry_object (es ! i) = Some t" using t(1) by (auto simp: git_tree_entry_subtree_def split: option.splits)
  then have t': "tree_entries t \<noteq> []" "no_empty_dir t" "entry_blobs (es ! i) = tree_blobs t"
      "size (es ! i) = Suc (Suc (size t))"
    using e(2) i(2) by (cases "es ! i"; auto)+
  let ?st2 = "(tree_entries t, 0) # (es, i) # st"
  have enter: "enterDir t ((es, i) # st) = ?st2" using t'(1) by (simp add: enterDir_def)
  have "entries_fine odb ms (tree_entries t)" using t(2) t'(2) by (cases t) (auto simp: entries_fine_def)
  then have "stack_fine odb ms ?st2" using fine i by (auto simp: stack_fine_def)
  moreover have "size t = Suc (size_list size (tree_entries t))" by (cases t) simp
  then have "left_size ?st2 < left_size ((es, i) # st)" using size_drop[OF i(1)] t'(4) by simp
  moreover have "walkBlob ((es, i) # st) = walkBlob ?st2"
    using i entries_fine_sorted[OF es, of i] t(1) by (subst walkBlob.simps) (auto simp: enter)
  moreover have "left_blobs ?st2 = left_blobs ((es, i) # st)"
    using t'(3) blobs_of_drop[OF i(1)] by (cases t) (simp add: blobs_of_def)
  ultimately show ?thesis by blast
qed

lemma walkBlob_finds:
  assumes "stack_fine odb ms st"
  shows "\<exists>st'. walkBlob st = Some (Inr st') \<and> stack_fine odb ms st' \<and> left_blobs st' = left_blobs st
    \<and> (case st' of [] \<Rightarrow> True | (es, i) # _ \<Rightarrow> i < length es \<and> \<not> is_dir (es ! i))"
  using assms
proof (induction "left_size st" arbitrary: st rule: less_induct)
  case less
  have step: ?case if "walkBlob st = walkBlob st2" "stack_fine odb ms st2" "left_blobs st2 = left_blobs st"
      "left_size st2 < left_size st" for st2
    using less.hyps[OF that(4,2)] that(1,3) by simp
  show ?case
  proof (cases st)
    case Nil
    then show ?thesis by (simp add: walkBlob.simps stack_fine_def)
  next
    case (Cons f st1)
    obtain es i where f: "st = (es, i) # st1" using Cons by (cases f) simp
    have es: "entries_fine odb ms es" "i \<le> length es" using less.prems unfolding f stack_fine_def by auto
    consider (at_end) "i = length es" | (dir) "i < length es" "is_dir (es ! i)" | (blob) "i < length es" "\<not> is_dir (es ! i)"
      using es(2) by fastforce
    then show ?thesis
    proof cases
      case at_end
      then show ?thesis using step walkBlob_at_end[of odb ms es st1] less.prems unfolding f by blast
    next
      case dir
      then show ?thesis using step walkBlob_at_dir[of odb ms es i st1] less.prems unfolding f by blast
    next
      case blob
      have "walkBlob st = Some (Inr st)"
        unfolding f using blob entries_fine_sorted[OF es(1), of i] by (subst walkBlob.simps) simp
      then show ?thesis using less.prems blob by (auto simp: f)
    qed
  qed
qed

definition po_ids :: "tree_entry list \<Rightarrow> git_oid list" where
  "po_ids es = map entry_id (filter (\<lambda>e. ends_with (entry_name e) ''.po'') es)"

lemma is_po_name_eq: "3 \<le> length n \<Longrightarrow> is_po_name n = Inr (ends_with n ''.po'')"
  by (auto simp: is_po_name_def ends_with_def strcmp_def eval_nat_numeral)

lemma oids_loop_collects:
  assumes "stack_fine odb ms st" "case st of [] \<Rightarrow> True | (es, i) # _ \<Rightarrow> i < length es \<and> \<not> is_dir (es ! i)"
    and "\<forall>e \<in> set (left_blobs st). 3 \<le> length (entry_name e)"
  shows "oids_loop st res = Some (Inr (res @ po_ids (left_blobs st)))"
  using assms
proof (induction "length (left_blobs st)" arbitrary: st res rule: less_induct)
  case less
  show ?case
  proof (cases st)
    case Nil
    then show ?thesis by (simp add: oids_loop.simps iter_isEnd_def po_ids_def)
  next
    case (Cons f st1)
    obtain es i where f: "f = (es, i)" by (cases f)
    have i: "i < length es" "\<not> is_dir (es ! i)" using less.prems(2) unfolding Cons f by auto
    let ?e = "es ! i"
    let ?n = "next_entry st"
    have blob: "entry_blobs ?e = [?e]" using i(2) by (cases ?e) simp
    have left: "left_blobs st = ?e # left_blobs ?n"
      unfolding Cons f next_entry_def using blobs_of_drop[OF i(1)] blob by simp
    have fine: "stack_fine odb ms ?n"
      using less.prems(1) i(1) unfolding Cons f stack_fine_def next_entry_def by auto
    obtain st' where st': "walkBlob ?n = Some (Inr st')" "stack_fine odb ms st'" "left_blobs st' = left_blobs ?n"
        "case st' of [] \<Rightarrow> True | (es, i) # _ \<Rightarrow> i < length es \<and> \<not> is_dir (es ! i)"
      using walkBlob_finds[OF fine] by blast
    have len: "3 \<le> length (entry_name ?e)" using less.prems(3) left by simp
    let ?res = "if ends_with (entry_name ?e) ''.po'' then res @ [entry_id ?e] else res"
    have "oids_loop st' ?res = Some (Inr (?res @ po_ids (left_blobs st')))"
      by (rule less.hyps) (use st' left less.prems(3) in auto)
    moreover have "oids_loop st res = oids_loop st' ?res"
      using st'(1) i len
      by (subst oids_loop.simps)
        (simp add: Cons f iter_isEnd_def iter_deref_def is_po_name_eq iter_increment_def)
    ultimately show ?thesis using st'(3) left by (simp add: po_ids_def)
  qed
qed

text \<open>
  C31. On a tree without empty directories \<open>getCurrentOids\<close> returns, with the IDs of exactly the files
  whose names end in \<open>.po\<close>, at any depth and in the order of the entries.
\<close>

theorem getCurrentOids_complete:
  assumes disk: "disk dir = Some g" "gd_master g = Some m" "gd_commit g m = Some head"
    and tree: "gc_tree head = Some t" "tree_ok odb ms t" "no_empty_dir t"
    and names: "\<forall>e \<in> set (tree_blobs t). 3 \<le> length (entry_name e)"
  shows "\<exists>r. getCurrentOids disk (new_repository dir) = Some (Inr (po_ids (tree_blobs t), r))"
proof -
  let ?r2 = "(new_repository dir)\<lparr>r_libgitRepo := Some g, r_oidMaster := Some m\<rparr>"
  have fine: "stack_fine odb ms (enterDir t [])"
    using tree(2,3) by (cases t) (auto simp: enterDir_def stack_fine_def entries_fine_def)
  have left: "left_blobs (enterDir t []) = tree_blobs t"
    by (cases t) (auto simp: enterDir_def blobs_of_def)
  obtain st where st: "walkBlob (enterDir t []) = Some (Inr st)" "stack_fine odb ms st"
      "left_blobs st = tree_blobs t" "case st of [] \<Rightarrow> True | (es, i) # _ \<Rightarrow> i < length es \<and> \<not> is_dir (es ! i)"
    using walkBlob_finds[OF fine] left by auto
  have "oids_loop st [] = Some (Inr (po_ids (tree_blobs t)))"
    using oids_loop_collects[OF st(2,4)] names st(3) by simp
  then have "getCurrentOids disk (new_repository dir) = Some (Inr (po_ids (tree_blobs t), ?r2))"
    using disk tree(1) st(1)
    by (simp add: getCurrentOids_def libgitRepo_def initOidMaster_def lookup_master_def iter_begin_def
        commit_tree_def new_repository_def)
  then show ?thesis by blast
qed


end
