(* ===== verification/RepositoryWitness.thy ===== *)
theory RepositoryWitness
  imports RepositoryHistory
begin

text \<open>
  A repository with two commits, on which the theorems about repositories are applied: the first
  has an empty tree, the second adds \<open>po/b.po\<close> and \<open>po/c.po\<close>.
\<close>

definition wit_odb2 :: "git_oid \<Rightarrow> git_tree option" where
  "wit_odb2 i = (if i = replicate 20 8 then Some (GitTree (replicate 20 8) []) else wit_odb i)"

definition wit_root :: git_commit where
  "wit_root = GitCommit (replicate 20 11) 100 (wit_odb2 (replicate 20 8)) []"

definition wit_head :: git_commit where
  "wit_head = GitCommit (replicate 20 12) 200 (wit_odb2 (replicate 20 4)) [wit_root]"

definition wit_git_dir :: git_dir where
  "wit_git_dir = \<lparr>gd_master = Some (replicate 20 12),
     gd_commit = (\<lambda>i. if i = replicate 20 12 then Some wit_head else Some wit_root), gd_blob = (\<lambda>_. None)\<rparr>"

definition wit_disk :: "string \<Rightarrow> git_dir option" where
  "wit_disk dir = (if dir = ''repo'' then Some wit_git_dir else None)"

lemma wit_chain: "chain wit_head = [wit_head, wit_root]"
  by (simp add: wit_head_def wit_root_def)

lemmas wit_tree_simps = wit_odb2_def wit_odb_def opt_ok_def oid_ok_def oid_size_def name_ok_def is_dir_def
  REPO_MODE_DIR_def entry_key_def no_root_files_def tree_list_def

lemma wit_fine: "commit_fine wit_odb2 wit_root" "commit_fine wit_odb2 wit_head"
  by (simp_all add: commit_fine_def wit_root_def wit_head_def wit_tree_simps)

lemma wit_disk_facts:
  "wit_disk ''repo'' = Some wit_git_dir" "gd_master wit_git_dir = Some (replicate 20 12)"
  "gd_commit wit_git_dir (replicate 20 12) = Some wit_head"
  by (simp_all add: wit_disk_def wit_git_dir_def)

theorem readRepositoryCommits_history_witness:
  "\<exists>r. readRepositoryCommits wit_disk (new_repository ''repo'') = Inr r \<and> tracks r (tree_at wit_head)
    \<and> map c_oid (r_commits r) = map gc_id (rev (chain wit_head))
    \<and> map c_time (r_commits r) = map gc_time (rev (chain wit_head))"
proof (rule readRepositoryCommits_history[where disk = wit_disk and dir = "''repo''", OF wit_disk_facts(1,2)])
  show "\<forall>c \<in> set (chain wit_head). commit_fine wit_odb2 c" using wit_fine by (simp add: wit_chain)
  show "times_fine (map gc_time (rev (chain wit_head)))"
    by (simp add: wit_chain times_fine_def) (simp add: wit_head_def wit_root_def)
qed (simp_all add: wit_disk_facts wit_chain)

text \<open>The same directory with only the first commit.\<close>

definition wit_single :: git_dir where
  "wit_single = wit_git_dir\<lparr>gd_commit := (\<lambda>_. Some wit_root)\<rparr>"

theorem single_commit_out_of_bounds_witness:
  "readRepositoryCommits (\<lambda>_. Some wit_single) (new_repository ''repo'') = Inl OutOfBounds"
proof (rule single_commit_out_of_bounds[where disk = "\<lambda>_. Some wit_single" and dir = "''repo''", OF refl])
  show "gd_master wit_single = Some (replicate 20 12)" by (simp add: wit_single_def wit_git_dir_def)
  show "\<forall>c \<in> set (chain wit_root). commit_fine wit_odb2 c" using wit_fine(1) by (simp add: wit_root_def)
qed (simp_all add: wit_single_def wit_root_def)

theorem getCurrentOids_complete_witness:
  "\<exists>r. getCurrentOids wit_disk (new_repository ''repo'') = Some (Inr ([replicate 20 7, replicate 20 5], r))"
proof -
  obtain t where t: "wit_odb2 (replicate 20 4) = Some t" "tree_ok wit_odb2 {0x81A4} t" "no_empty_dir t"
      "tree_blobs t = [TreeEntry ''b.po'' 0x81A4 (replicate 20 7) None, TreeEntry ''c.po'' 0x81A4 (replicate 20 5) None]"
    by (simp add: wit_tree_simps)
  have "po_ids (tree_blobs t) = [replicate 20 7, replicate 20 5]"
    unfolding t(4) by (simp add: po_ids_def ends_with_def)
  moreover have "gc_tree wit_head = Some t" using t(1) by (simp add: wit_head_def)
  ultimately show ?thesis
    using getCurrentOids_complete[where disk = wit_disk and dir = "''repo''", OF wit_disk_facts _ t(2,3)] t(4) by auto
qed


text \<open>A repository whose second commit deletes the file that the first one adds.\<close>

definition wit_add :: file_change where
  "wit_add = \<lparr>fc_oid1 = None, fc_oid2 = Some oid_zero, fc_path = ''po'', fc_name = ''a.po'', fc_type = ADD\<rparr>"

definition wit_del :: file_change where
  "wit_del = \<lparr>fc_oid1 = Some oid_zero, fc_oid2 = None, fc_path = ''po'', fc_name = ''a.po'', fc_type = DEL\<rparr>"

definition wit_repo :: repository where
  "wit_repo = (new_repository ''repo'')\<lparr>r_commitsInit := True, r_commits :=
     [addChange (new_commit oid_zero 100) wit_add, addChange (new_commit oid_zero 200) wit_del]\<rparr>"

definition wit_files :: "nat \<Rightarrow> file_key \<rightharpoonup> git_oid" where
  "wit_files i = (if i = 0 then [(''po'', ''a.po'') \<mapsto> oid_zero] else Map.empty)"

lemmas wit_repo_simps = wit_repo_def new_repository_def addChange_def new_commit_def

lemma wit_repo_tracks: "tracks wit_repo wit_files"
  by (auto simp: tracks_def wit_repo_simps less_Suc_eq is_diff_def before_def wit_files_def wit_add_def wit_del_def
      change_key_def file_change_ok_def change_types name_ok_def split: if_splits)

lemma wit_repo_time: "lastCommitByTime wit_repo 300 = Inr 1"
  by (simp add: lastCommitByTime_def wit_repo_simps nCommits_def repo_commit_def time_search.simps time_scan.simps)

theorem lastCommitByTime_local_witness:
  "\<exists>i. lastCommitByTime wit_repo 150 = Inr i
    \<and> (i = - 1 \<and> (csize wit_repo = 0 \<or> 150 < ctime wit_repo 0)
       \<or> 0 \<le> i \<and> i < int (csize wit_repo) \<and> ctime wit_repo (nat i) \<le> 150
          \<and> (i + 1 < int (csize wit_repo) \<longrightarrow> 150 < ctime wit_repo (nat (i + 1))))"
  by (rule lastCommitByTime_local) (simp add: wit_repo_simps)

theorem lastCommitByTime_sorted_witness:
  "\<exists>i. lastCommitByTime wit_repo 150 = Inr i \<and> - 1 \<le> i
    \<and> (\<forall>j < csize wit_repo. ctime wit_repo j \<le> 150 \<longleftrightarrow> int j \<le> i)"
  by (rule lastCommitByTime_sorted) (simp_all add: wit_repo_simps)

theorem findFileOidByTime_version_witness:
  "\<exists>p. findFileOidByTime wit_repo 300 ''a.po'' ''po'' = Inr p \<and> map_option snd p = Some oid_zero"
  using findFileOidByTime_version[OF wit_repo_tracks _ wit_repo_time, of "''a.po''" "''po''"]
  by (simp add: name_ok_def wit_files_def)

end
