(* ===== verification/DateText.thy ===== *)
theory DateText
  imports FileDateTime
begin

text \<open>
  The text of a date is read back as the same date, to the minute, with the same time zone; for
  this the calendar of \<open>FileDateTime\<close> is inverted.
\<close>

section \<open>The calendar\<close>

lemma year_of_era:
  fixes e y A B C k j :: int
  assumes e: "0 \<le> e" "e < 146097"
    and A: "A = e div 1460" and B: "B = e div 36524" and C: "C = e div 146096"
    and y: "y = (e - A + B - C) div 365" and k: "k = y div 4" and j: "j = y div 100"
  shows "0 \<le> y" "y < 400" "0 \<le> e - (365 * y + k - j)" "e - (365 * y + k - j) \<le> 366"
proof -
  have a: "1460 * A \<le> e" "e < 1460 * A + 1460" and b: "36524 * B \<le> e" "e < 36524 * B + 36524"
    and c: "146096 * C \<le> e" "e < 146096 * C + 146096"
    unfolding A B C by linarith+
  have yy: "365 * y \<le> e - A + B - C" "e - A + B - C < 365 * y + 365" unfolding y by linarith+
  have kk: "4 * k \<le> y" "y < 4 * k + 4" and jj: "100 * j \<le> y" "y < 100 * j + 100" unfolding k j by linarith+
  have C01: "C = 0 \<or> C = 1" using c e by linarith
  then have C0: "0 \<le> C" by auto
  have B04: "0 \<le> B" "B \<le> 4" using b e by linarith+
  have A0: "0 \<le> A" "A \<le> 100" using a e by linarith+
  have C4: "C = 1 \<Longrightarrow> B = 4 \<and> e = 146096 \<and> A = 100" using c b a e by linarith
  have AB: "25 * B \<le> A" using a b B04 by linarith
  have BC: "0 \<le> B - C" using C01 C4 B04 by auto
  show y0: "0 \<le> y" using yy A0 a BC by linarith
  show "y < 400"
  proof (cases "C = 1")
    case True
    then show ?thesis using C4 yy by linarith
  next
    case False
    then have "C = 0" "B \<le> 3" using C01 c b by linarith+
    then show ?thesis
    proof (cases "e < 146000")
      case True
      then show ?thesis using yy AB B04 C01 by linarith
    next
      case False
      then have "A = 100" using a e A0 by linarith
      then show ?thesis using yy \<open>C = 0\<close> \<open>B \<le> 3\<close> c by linarith
    qed
  qed
  have kA: "k \<le> A" using yy kk a AB C0 B04 by linarith
  have j0: "0 \<le> j" using j y0 by simp
  have "k - j \<le> A - B + C"
  proof (cases "B - C \<le> j")
    case True
    then show ?thesis using kA by linarith
  next
    case far: False
    then have "C = 0"
    proof (cases "C = 1")
      case True
      then have "B - C = 3" "e = 146096" "A = 100" using C4 by auto
      then have "365 * y + 365 > 145999" using yy True by linarith
      then have "399 \<le> y" by linarith
      then have "3 \<le> j" using jj by linarith
      then show ?thesis using far \<open>B - C = 3\<close> by linarith
    qed (use C01 in simp)
    then have "36500 * B > e - A + B" using far yy jj by linarith
    then have "25 * B < A" using b by linarith
    moreover have "1459 * A < 36500 * B - B" using \<open>36500 * B > e - A + B\<close> a by linarith
    ultimately show ?thesis using B04 by linarith
  qed
  then show "0 \<le> e - (365 * y + k - j)" using yy by linarith
  have "A \<le> k + 1"
    using yy kk a C01 C4 B04 A0 by linarith
  moreover have "j \<le> B"
  proof (rule ccontr)
    assume "\<not> j \<le> B"
    then have "B + 1 \<le> j" by simp
    have "36500 * j \<le> 365 * y" using jj(1) by linarith
    then have low: "36500 * B + 36500 \<le> e - A + B - C" using \<open>B + 1 \<le> j\<close> yy(1) by linarith
    then have "A < 24 * B + 24 + B" using b C0 by linarith
    then show False using low a(2) B04 C0 by linarith
  qed
  ultimately show "e - (365 * y + k - j) \<le> 366" using yy C01 C4 by linarith
qed

lemma civil_of_days:
  assumes "civil_from_days n = (y, m, d)"
  shows "1 \<le> m" "m \<le> 12" "1 \<le> d" "days_from_civil y m 1 + (d - 1) = n"
proof -
  define e where "e = (n + 719468) mod 146097"
  define era where "era = (n + 719468) div 146097"
  define yoe where "yoe = (e - e div 1460 + e div 36524 - e div 146096) div 365"
  define doy where "doy = e - (365 * yoe + yoe div 4 - yoe div 100)"
  define mp where "mp = (5 * doy + 2) div 153"
  have e: "0 \<le> e" "e < 146097" by (simp_all add: e_def)
  note y = year_of_era[OF e refl refl refl yoe_def refl refl, folded doy_def]
  have mp: "0 \<le> mp" "mp \<le> 11" using y(3,4) unfolding mp_def by linarith+
  have res: "m = (if mp < 10 then mp + 3 else mp - 9)" "d = doy - (153 * mp + 2) div 5 + 1"
      "y = (if m \<le> 2 then yoe + era * 400 + 1 else yoe + era * 400)"
  proof -
    have "civil_from_days n = (if (if mp < 10 then mp + 3 else mp - 9) \<le> 2 then yoe + era * 400 + 1 else yoe + era * 400,
        if mp < 10 then mp + 3 else mp - 9, doy - (153 * mp + 2) div 5 + 1)"
      by (simp only: civil_from_days_def Let_def e_def era_def yoe_def doy_def mp_def)
    with assms show "m = (if mp < 10 then mp + 3 else mp - 9)" "d = doy - (153 * mp + 2) div 5 + 1"
      "y = (if m \<le> 2 then yoe + era * 400 + 1 else yoe + era * 400)"
      by (simp_all only: prod.inject) auto
  qed
  show "1 \<le> m" "m \<le> 12" using res(1) mp by auto
  have "153 * mp \<le> 5 * doy + 2" unfolding mp_def by linarith
  then show "1 \<le> d" unfolding res(2) by linarith
  have mp': "(if m > 2 then m - 3 else m + 9) = mp" using res(1) mp by auto
  have "(if m \<le> 2 then y - 1 else y) = yoe + era * 400" using res(3) by simp
  moreover have "(yoe + era * 400) div 400 = era" "(yoe + era * 400) mod 400 = yoe" using y(1,2) by simp_all
  ultimately have "days_from_civil y m 1 = era * 146097 + (yoe * 365 + yoe div 4 - yoe div 100 + (153 * mp + 2) div 5) - 719468"
    by (simp add: days_from_civil_def Let_def mp')
  moreover have "era * 146097 + e = n + 719468" unfolding era_def e_def by simp
  ultimately show "days_from_civil y m 1 + (d - 1) = n" using res(2) by (simp add: doy_def)
qed

lemma gmtime_fields: "1 \<le> tm_mon (gmtime t)" "tm_mon (gmtime t) \<le> 12" "1 \<le> tm_mday (gmtime t)"
    "0 \<le> tm_hour (gmtime t)" "0 \<le> tm_min (gmtime t)"
  using civil_of_days[of "t div 86400"] by (auto simp: gmtime_def split: prod.splits)

lemma mktime_gmtime: "mktime (gmtime t) = t - t mod 60"
proof -
  obtain y m d where c: "civil_from_days (t div 86400) = (y, m, d)" by (cases "civil_from_days (t div 86400)")
  note cd = civil_of_days[OF c]
  have "(m - 1) div 12 = 0" "(m - 1) mod 12 = m - 1" using cd(1,2) by simp_all
  then have "mktime (gmtime t) = (days_from_civil y m 1 + (d - 1)) * 86400 + t mod 86400 div 3600 * 3600 + t mod 3600 div 60 * 60"
    by (simp add: gmtime_def c mktime_def Let_def algebra_simps)
  also have "\<dots> = t div 86400 * 86400 + t mod 86400 div 3600 * 3600 + t mod 3600 div 60 * 60" by (simp only: cd(4))
  also have "\<dots> = t - t mod 60"
  proof -
    have "t mod 86400 mod 3600 = t mod 3600" "t mod 3600 mod 60 = t mod 60"
      by (rule mod_mod_cancel; simp)+
    then show ?thesis
      using div_mult_mod_eq[of t 86400] div_mult_mod_eq[of "t mod 86400" 3600] div_mult_mod_eq[of "t mod 3600" 60]
      by linarith
  qed
  finally show ?thesis .
qed

section \<open>Decimal numbers\<close>

lemma nat_dec_digits: "\<forall>c \<in> set (nat_dec n). is_digit c" and nat_dec_not_Nil: "nat_dec n \<noteq> []"
  and nat_dec_val: "digits_val (nat_dec n) = n"
proof -
  have d: "of_char (digit_char k) = 48 + k" if "k < 10" for k
    using that by (simp add: digit_char_def)
  have "(\<forall>c \<in> set (nat_dec n). is_digit c) \<and> nat_dec n \<noteq> [] \<and> digits_val (nat_dec n) = n"
  proof (induction n rule: nat_dec.induct)
    case (1 n)
    show ?case
    proof (cases "n < 10")
      case True
      then show ?thesis using d by (subst (1 2 3) nat_dec.simps) (simp add: is_digit_def digits_val_def)
    next
      case False
      then show ?thesis
        using 1 d[of "n mod 10"] nat_dec.simps[of n]
        by (auto simp: is_digit_def digits_val_def)
    qed
  qed
  then show "\<forall>c \<in> set (nat_dec n). is_digit c" "nat_dec n \<noteq> []" "digits_val (nat_dec n) = n" by blast+
qed

lemma digit_not: "is_digit c \<Longrightarrow> c \<noteq> CHR 0x0A \<and> c \<noteq> CHR 0x00 \<and> \<not> is_space c \<and> c \<noteq> CHR ''-'' \<and> c \<noteq> CHR ''+''"
  by (auto simp: is_digit_def is_space_def)

lemma nat_dec_props [simp]: "nat_dec n \<noteq> []" "digits_val (nat_dec n) = n" "Ball (set (nat_dec n)) is_digit"
  using nat_dec_digits[of n] nat_dec_not_Nil nat_dec_val by auto

text \<open>\<open>%d\<close> on digits that something else follows.\<close>

definition no_digit :: "string \<Rightarrow> bool" where
  "no_digit s \<longleftrightarrow> (case s of [] \<Rightarrow> True | c # _ \<Rightarrow> \<not> is_digit c)"

lemma digits_split:
  assumes "Ball (set ds) is_digit" "no_digit r"
  shows "takeWhile is_digit (ds @ r) = ds" "dropWhile is_digit (ds @ r) = r"
proof -
  have "takeWhile is_digit r = []" "dropWhile is_digit r = r"
    using assms(2) by (cases r; auto simp: no_digit_def)+
  then show "takeWhile is_digit (ds @ r) = ds" "dropWhile is_digit (ds @ r) = r"
    using assms(1) by (auto simp: takeWhile_append2 dropWhile_append2)
qed

lemma scan_digits:
  assumes "Ball (set ds) is_digit" "ds \<noteq> []" "no_digit r"
  shows "scan_d (ds @ r) = Some (int (digits_val ds), r)"
    "scan_d (CHR ''+'' # ds @ r) = Some (int (digits_val ds), r)"
    "scan_d (CHR ''-'' # ds @ r) = Some (- int (digits_val ds), r)"
proof -
  obtain c cs where c: "ds = c # cs" "is_digit c" using assms(1,2) by (cases ds) auto
  have s: "\<not> is_space (CHR ''+'')" "\<not> is_space (CHR ''-'')" by (simp_all add: is_space_def)
  note split = digits_split[OF assms(1,3)]
  have "dropWhile is_space (ds @ r) = ds @ r" using c digit_not by simp
  moreover have "hd (ds @ r) \<noteq> CHR ''-''" "hd (ds @ r) \<noteq> CHR ''+''" using c digit_not[OF c(2)] by auto
  ultimately show "scan_d (ds @ r) = Some (int (digits_val ds), r)"
    using split assms(2) by (simp add: scan_d_def Let_def)
  show "scan_d (CHR ''+'' # ds @ r) = Some (int (digits_val ds), r)"
    "scan_d (CHR ''-'' # ds @ r) = Some (- int (digits_val ds), r)"
    using split assms(2) s by (simp_all add: scan_d_def Let_def)
qed

lemma scan_int_dec: "no_digit r \<Longrightarrow> scan_d (int_dec i @ r) = Some (i, r)"
  by (simp add: int_dec_def scan_digits)

lemma dec2_digits:
  assumes "0 \<le> i"
  shows "Ball (set (dec2 i)) is_digit" "dec2 i \<noteq> []" "digits_val (dec2 i) = nat i"
proof -
  have "is_digit (CHR ''0'')" by (simp add: is_digit_def)
  moreover have "digits_val (CHR ''0'' # ds) = digits_val ds" for ds by (simp add: digits_val_def)
  ultimately show "Ball (set (dec2 i)) is_digit" "dec2 i \<noteq> []" "digits_val (dec2 i) = nat i"
    using assms by (simp_all add: dec2_def int_dec_def)
qed

lemma scan_dec2: "0 \<le> i \<Longrightarrow> no_digit r \<Longrightarrow> scan_d (dec2 i @ r) = Some (i, r)"
  by (simp add: scan_digits(1) dec2_digits)

section \<open>Reading what was written\<close>

lemma scan_zone:
  assumes "0 \<le> z"
  shows "scan_d (CHR ''+'' # dec2 z @ ''00'') = Some (100 * z, [])" "scan_d (CHR ''-'' # dec2 z @ ''00'') = Some (- (100 * z), [])"
proof -
  have "digits_val (dec2 z @ ''00'') = 100 * digits_val (dec2 z)" by (simp add: digits_val_def)
  moreover have "Ball (set (dec2 z @ ''00'')) is_digit" using dec2_digits(1)[OF assms] by (auto simp: is_digit_def)
  ultimately show "scan_d (CHR ''+'' # dec2 z @ ''00'') = Some (100 * z, [])" "scan_d (CHR ''-'' # dec2 z @ ''00'') = Some (- (100 * z), [])"
    using scan_digits(2,3)[of "dec2 z @ ''00''" "[]"] dec2_digits(3)[OF assms] assms by (simp_all add: no_digit_def)
qed

lemma read_date:
  "fromString d0 (dateString d) = Inr (if m_init d
     then d0\<lparr>m_init := True, m_timezone := m_timezone d, m_date := m_date d - m_date d mod 60\<rparr>
     else d0\<lparr>m_init := False\<rparr>)"
proof (cases "m_init d")
  case False
  then show ?thesis by (simp add: dateString_def fdt_isNull_def fromString_def)
next
  case True
  let ?t = "gmtime (m_date d + 3600 * m_timezone d)" and ?z = "m_timezone d"
  let ?sign = "if ?z \<ge> 0 then CHR ''+'' else CHR ''-''"
  define r5 where "r5 = dec2 (tm_min ?t) @ ?sign # dec2 \<bar>?z\<bar> @ ''00''"
  define r4 where "r4 = dec2 (tm_hour ?t) @ CHR '':'' # r5"
  define r3 where "r3 = dec2 (tm_mday ?t) @ CHR '' '' # r4"
  define r2 where "r2 = dec2 (tm_mon ?t) @ CHR ''-'' # r3"
  have str: "dateString d = int_dec (tm_year ?t) @ CHR ''-'' # r2"
    using True by (simp add: dateString_def fdt_isNull_def strftime_minutes_def r2_def r3_def r4_def r5_def)
  have nd: "no_digit (CHR ''-'' # r)" "no_digit (CHR '':'' # r)" "no_digit (CHR '' '' # r)" "no_digit (?sign # r)" for r
    by (auto simp: no_digit_def is_digit_def)
  note f = gmtime_fields[of "m_date d + 3600 * ?z"]
  have "0 \<le> tm_mon ?t" "0 \<le> tm_mday ?t" using f by linarith+
  then have scans: "scan_d (dateString d) = Some (tm_year ?t, CHR ''-'' # r2)" "scan_d r2 = Some (tm_mon ?t, CHR ''-'' # r3)"
      "scan_d r3 = Some (tm_mday ?t, CHR '' '' # r4)" "scan_d r4 = Some (tm_hour ?t, CHR '':'' # r5)"
      "scan_d r5 = Some (tm_min ?t, ?sign # dec2 \<bar>?z\<bar> @ ''00'')"
    unfolding str r2_def r3_def r4_def r5_def by (simp_all only: scan_int_dec scan_dec2 nd f)
  have space: "dropWhile is_space (CHR '' '' # r4) = r4"
    using dec2_digits(1,2)[OF f(4)] digit_not unfolding r4_def by (cases "dec2 (tm_hour ?t)") (auto simp: is_space_def)
  have zone: "scan_d (?sign # dec2 \<bar>?z\<bar> @ ''00'') = Some (100 * ?z, [])" using scan_zone[of "\<bar>?z\<bar>"] by auto
  have "scan_date (dateString d) = Inr (?t, 100 * ?z)"
    by (simp only: scan_date_def scans space zone scan_lit_def Let_def Option.bind.simps option.case list.case prod.case
        if_True refl sum.case) simp
  moreover have "length (dateString d) > 0" by (simp add: str)
  moreover have "m_date d + 3600 * ?z - (m_date d + 3600 * ?z) mod 60 - 3600 * ?z = m_date d - m_date d mod 60"
  proof -
    have "(m_date d + 60 * (60 * ?z)) mod 60 = m_date d mod 60" by (rule mod_mult_self2)
    then show ?thesis by simp
  qed
  moreover have "100 * ?z mod 100 = 0" "100 * ?z div 100 = ?z" by simp_all
  ultimately show ?thesis
    using True unfolding fromString_def by (simp only: if_True rbind.simps prod.case rassert_def mktime_gmtime refl)
qed


end
