(* ===== verification/CStrings.thy ===== *)
theory CStrings
  imports DateText
begin

text \<open>
  What the file readers use of C's strings: the string up to the first NUL, \<open>fgets\<close> on the rest of
  a file, cutting at a character, \<open>strcspn\<close>, and \<open>atoi\<close> (for numbers that fit in an \<open>int\<close>).
\<close>

definition c_str :: "string \<Rightarrow> string" where
  "c_str s = takeWhile (\<lambda>c. c \<noteq> CHR 0x00) s"

text \<open>At most \<open>n\<close> characters, up to and with the first newline.\<close>

fun take_line :: "nat \<Rightarrow> string \<Rightarrow> string \<times> string" where
  "take_line 0 s = ([], s)"
| "take_line (Suc n) [] = ([], [])"
| "take_line (Suc n) (c # cs) =
     (if c = CHR 0x0A then ([c], cs) else (let (a, b) = take_line n cs in (c # a, b)))"

lemma take_line_append: "fst (take_line n s) @ snd (take_line n s) = s"
  by (induction n s rule: take_line.induct) (auto split: prod.splits)

lemma take_line_length: "s \<noteq> [] \<Longrightarrow> 0 < n \<Longrightarrow> length (snd (take_line n s)) < length s"
proof -
  assume "s \<noteq> []" "0 < n"
  then have "fst (take_line n s) \<noteq> []"
    by (cases n; cases s) (auto split: prod.splits)
  then have "0 < length (fst (take_line n s))" by simp
  then show ?thesis using arg_cong[OF take_line_append[of n s], of length] unfolding length_append by linarith
qed

text \<open>The lines that \<open>fgets(line, size, f)\<close> returns until the end of the file.\<close>

function fgets_lines :: "nat \<Rightarrow> string \<Rightarrow> string list" where
  "fgets_lines bufsize s = (if s = [] \<or> bufsize < 2 then []
     else fst (take_line (bufsize - 1) s) # fgets_lines bufsize (snd (take_line (bufsize - 1) s)))"
  by pat_completeness auto
termination by (relation "measure (\<lambda>(n, s). length s)") (auto simp: take_line_length)

declare fgets_lines.simps [simp del]

definition cut_at :: "char \<Rightarrow> string \<Rightarrow> (string \<times> string) option" where
  "cut_at c s = (if c \<in> set s then Some (takeWhile (\<lambda>x. x \<noteq> c) s, tl (dropWhile (\<lambda>x. x \<noteq> c) s)) else None)"

definition until_any :: "string \<Rightarrow> string \<Rightarrow> string" where
  "until_any cs s = takeWhile (\<lambda>c. c \<notin> set cs) s"

definition atoi :: "string \<Rightarrow> int" where
  "atoi s = (case scan_d s of None \<Rightarrow> 0 | Some (i, _) \<Rightarrow> i)"

section \<open>Facts\<close>

lemma c_str_id: "CHR 0x00 \<notin> set s \<Longrightarrow> c_str s = s"
  by (auto simp: c_str_def takeWhile_eq_all_conv)

lemma take_line_newline:
  "CHR 0x0A \<notin> set l \<Longrightarrow> length l < n \<Longrightarrow> take_line n (l @ CHR 0x0A # s) = (l @ [CHR 0x0A], s)"
proof (induction l arbitrary: n)
  case Nil
  then show ?case by (cases n) auto
next
  case (Cons c l)
  then show ?case by (cases n) auto
qed

text \<open>A file of lines that fit in the buffer is read line by line.\<close>

definition as_lines :: "string list \<Rightarrow> string" where
  "as_lines ls = concat (map (\<lambda>l. l @ [CHR 0x0A]) ls)"

lemma fgets_as_lines:
  assumes "\<forall>l \<in> set ls. CHR 0x0A \<notin> set l \<and> length l + 1 < bufsize"
  shows "fgets_lines bufsize (as_lines ls) = map (\<lambda>l. l @ [CHR 0x0A]) ls"
  using assms
proof (induction ls)
  case Nil
  then show ?case by (simp add: as_lines_def fgets_lines.simps)
next
  case (Cons l ls)
  then have l: "CHR 0x0A \<notin> set l" "length l < bufsize - 1" "\<not> bufsize < 2" by auto
  have "as_lines (l # ls) = l @ CHR 0x0A # as_lines ls" by (simp add: as_lines_def)
  then show ?case
    using take_line_newline[OF l(1,2)] l(3) Cons
    by (subst fgets_lines.simps) simp
qed

lemma cut_at_append: "c \<notin> set a \<Longrightarrow> cut_at c (a @ c # b) = Some (a, b)"
  by (induction a) (auto simp: cut_at_def)

lemma until_any_append: "set a \<inter> set cs = {} \<Longrightarrow> c \<in> set cs \<Longrightarrow> until_any cs (a @ c # b) = a"
  unfolding until_any_def by (subst takeWhile_append2) auto

end
