(* ===== verification/ProcessOrphans.thy ===== *)
theory ProcessOrphans
  imports CStrings Bytes
begin

text \<open>
  \<open>gtpo/processorphans.cpp\<close>: the list of commands that move, copy, merge and delete translation
  files, read from a text file, and the searches in it.
\<close>

unbundle bit_operations_syntax

section \<open>An entry\<close>

definition MOVE :: int where "MOVE = 1"
definition COPY :: int where "COPY = 2"
definition DELETE :: int where "DELETE = 4"
definition MERGE :: int where "MERGE = 8"
definition MERGEKEEP :: int where "MERGEKEEP = 16"

lemmas command_types = MOVE_def COPY_def DELETE_def MERGE_def MERGEKEEP_def

record orphan_entry =
  oe_type :: int
  oe_origin :: string
  oe_destination :: string
  oe_destPath :: string
  oe_destNamePot :: string
  oe_origPath :: string
  oe_origNamePot :: string

text \<open>The path before the last slash, and the name after it with a \<open>t\<close> appended.\<close>

definition splitFullnamePot :: "string \<Rightarrow> (string \<times> string) res" where
  "splitFullnamePot fullname =
     (if CHR ''/'' \<notin> set fullname
      then Inl (Throw (RuntimeError (''No slash found in the whole path to file: '' @ fullname)))
      else let name = rev (takeWhile (\<lambda>c. c \<noteq> CHR ''/'') (rev fullname)) in
        Inr (take (length fullname - length name - 1) fullname, name @ ''t''))"

definition command_type :: "string \<Rightarrow> int res" where
  "command_type cmd =
     (if cmd = ''move'' then Inr MOVE
      else if cmd = ''copy'' then Inr COPY
      else if cmd = ''delete'' then Inr DELETE
      else if cmd = ''merge'' then Inr MERGE
      else if cmd = ''mergekeep'' then Inr MERGEKEEP
      else Inl (Throw (RuntimeError (''unexpected command: '' @ cmd))))"

definition new_orphan_entry :: "string \<Rightarrow> string \<Rightarrow> opt_string \<Rightarrow> orphan_entry res" where
  "new_orphan_entry cmd origin destination =
     rbind (command_type cmd) (\<lambda>type.
     rbind (splitFullnamePot origin) (\<lambda>(origPath, origNamePot).
       if type = DELETE then
         Inr \<lparr>oe_type = type, oe_origin = origin, oe_destination = [], oe_destPath = [], oe_destNamePot = [],
           oe_origPath = origPath, oe_origNamePot = origNamePot\<rparr>
       else if os_isNull destination then Inl (Throw (RuntimeError ''Destination is empty''))
       else rbind (os_to_string destination) (\<lambda>dest.
         rbind (splitFullnamePot dest) (\<lambda>(destPath, destNamePot).
         Inr \<lparr>oe_type = type, oe_origin = origin, oe_destination = dest, oe_destPath = destPath,
           oe_destNamePot = destNamePot, oe_origPath = origPath, oe_origNamePot = origNamePot\<rparr>))))"

section \<open>The file\<close>

definition skipped_line :: "string \<Rightarrow> bool" where
  "skipped_line line \<longleftrightarrow> (case line of [] \<Rightarrow> True
    | c # _ \<Rightarrow> c = CHR 0x0A \<or> c = CHR 0x0D \<or> line = [CHR '' '', CHR 0x0A] \<or> c = CHR ''#'')"

definition parse_orphan_line :: "string \<Rightarrow> orphan_entry res" where
  "parse_orphan_line line = (case cut_at CHR '' '' line of
      None \<Rightarrow> Inl AssertFail
    | Some (cmd, origin) \<Rightarrow> (case cut_at CHR '' '' origin of
        None \<Rightarrow> new_orphan_entry cmd (until_any [CHR '' '', CHR 0x0A, CHR 0x0D] origin) (os_of_cstr None)
      | Some (origin', destination) \<Rightarrow>
          new_orphan_entry cmd origin' (os_of_cstr (Some (until_any [CHR '' '', CHR 0x0A, CHR 0x0D] destination)))))"

definition read_orphans :: "string \<Rightarrow> string option \<Rightarrow> orphan_entry list res" where
  "read_orphans filename contents = (case contents of
      None \<Rightarrow> Inl (Throw (RuntimeError (''Could not open file '' @ filename)))
    | Some text \<Rightarrow> rmap parse_orphan_line (filter (\<lambda>l. \<not> skipped_line l) (map c_str (fgets_lines 10000 text))))"

definition findByOrigin :: "orphan_entry list \<Rightarrow> orphan_entry list \<Rightarrow> string \<Rightarrow> string \<Rightarrow> int \<Rightarrow> orphan_entry list" where
  "findByOrigin entries dest name path types = dest @ filter (\<lambda>e. oe_type e AND types \<noteq> 0
     \<and> path = oe_origPath e \<and> name = oe_origNamePot e) entries"

definition findByDestination :: "orphan_entry list \<Rightarrow> orphan_entry list \<Rightarrow> string \<Rightarrow> string \<Rightarrow> int \<Rightarrow> orphan_entry list" where
  "findByDestination entries dest name path types = dest @ filter (\<lambda>e. oe_type e AND types \<noteq> 0
     \<and> path = oe_destPath e \<and> name = oe_destNamePot e) entries"

section \<open>Reading what was written\<close>

text \<open>A command as one writes it into the file, and the entry it stands for.\<close>

datatype orphan_command =
    TwoFiles (oc_type: int) (oc_orig: "string \<times> string") (oc_dest: "string \<times> string")
  | DeleteFile (oc_orig: "string \<times> string")

definition command_word :: "int \<Rightarrow> string" where
  "command_word type = (if type = MOVE then ''move'' else if type = COPY then ''copy''
     else if type = MERGE then ''merge'' else ''mergekeep'')"

definition full_path :: "string \<times> string \<Rightarrow> string" where
  "full_path f = fst f @ ''/'' @ snd f"

fun command_line :: "orphan_command \<Rightarrow> string" where
  "command_line (TwoFiles type orig dest) = command_word type @ '' '' @ full_path orig @ '' '' @ full_path dest"
| "command_line (DeleteFile orig) = ''delete '' @ full_path orig"

fun command_entry :: "orphan_command \<Rightarrow> orphan_entry" where
  "command_entry (TwoFiles type orig dest) = \<lparr>oe_type = type, oe_origin = full_path orig,
     oe_destination = full_path dest, oe_destPath = fst dest, oe_destNamePot = snd dest @ ''t'',
     oe_origPath = fst orig, oe_origNamePot = snd orig @ ''t''\<rparr>"
| "command_entry (DeleteFile orig) = \<lparr>oe_type = DELETE, oe_origin = full_path orig,
     oe_destination = [], oe_destPath = [], oe_destNamePot = [],
     oe_origPath = fst orig, oe_origNamePot = snd orig @ ''t''\<rparr>"

definition file_plain :: "string \<times> string \<Rightarrow> bool" where
  "file_plain f \<longleftrightarrow> set (fst f @ snd f) \<inter> {CHR '' '', CHR 0x0A, CHR 0x0D, CHR 0x00} = {} \<and> CHR ''/'' \<notin> set (snd f)"

fun command_plain :: "orphan_command \<Rightarrow> bool" where
  "command_plain (TwoFiles type orig dest) \<longleftrightarrow> type \<in> {MOVE, COPY, MERGE, MERGEKEEP} \<and> file_plain orig \<and> file_plain dest"
| "command_plain (DeleteFile orig) \<longleftrightarrow> file_plain orig"

lemma splitFullnamePot_path:
  assumes "file_plain f"
  shows "splitFullnamePot (full_path f) = Inr (fst f, snd f @ ''t'')"
proof -
  have "takeWhile (\<lambda>c. c \<noteq> CHR ''/'') (rev (snd f) @ CHR ''/'' # rev (fst f)) = rev (snd f)"
    using assms by (subst takeWhile_append2) (auto simp: file_plain_def)
  then show ?thesis by (simp add: splitFullnamePot_def full_path_def Let_def)
qed

lemma full_path_chars:
  assumes "file_plain f"
  shows "set (full_path f) \<inter> {CHR '' '', CHR 0x0A, CHR 0x0D, CHR 0x00} = {}"
  using assms by (auto simp: file_plain_def full_path_def)

lemma command_word_type:
  "type \<in> {MOVE, COPY, MERGE, MERGEKEEP} \<Longrightarrow> command_type (command_word type) = Inr type \<and> type \<noteq> DELETE
    \<and> set (command_word type) \<inter> {CHR '' '', CHR 0x0A, CHR 0x0D, CHR 0x00, CHR ''#''} = {} \<and> command_word type \<noteq> []"
  by (auto simp: command_word_def command_type_def command_types)

lemma parse_command_line:
  assumes "command_plain c"
  shows "parse_orphan_line (command_line c @ [CHR 0x0A]) = Inr (command_entry c)"
proof (cases c)
  case (TwoFiles type orig dest)
  let ?w = "command_word type" and ?o = "full_path orig" and ?d = "full_path dest"
  have c: "type \<in> {MOVE, COPY, MERGE, MERGEKEEP}" "file_plain orig" "file_plain dest"
    using assms by (simp_all add: TwoFiles)
  note w = command_word_type[OF c(1)] and o = full_path_chars[OF c(2)] and d = full_path_chars[OF c(3)]
  have "cut_at CHR '' '' (?w @ CHR '' '' # ?o @ CHR '' '' # ?d @ [CHR 0x0A])
      = Some (?w, ?o @ CHR '' '' # ?d @ [CHR 0x0A])"
    using w by (intro cut_at_append) auto
  moreover have "cut_at CHR '' '' (?o @ CHR '' '' # ?d @ [CHR 0x0A]) = Some (?o, ?d @ [CHR 0x0A])"
    using o by (intro cut_at_append) auto
  moreover have "until_any [CHR '' '', CHR 0x0A, CHR 0x0D] (?d @ [CHR 0x0A]) = ?d"
    using d by (intro until_any_append) auto
  ultimately show ?thesis
    using w splitFullnamePot_path[OF c(2)] splitFullnamePot_path[OF c(3)]
    by (simp add: TwoFiles parse_orphan_line_def new_orphan_entry_def os_to_string_view)
next
  case (DeleteFile orig)
  let ?o = "full_path orig"
  have c: "file_plain orig" using assms by (simp add: DeleteFile)
  note o = full_path_chars[OF c]
  have "cut_at CHR '' '' (''delete'' @ CHR '' '' # ?o @ [CHR 0x0A]) = Some (''delete'', ?o @ [CHR 0x0A])"
    by (intro cut_at_append) auto
  moreover have "cut_at CHR '' '' (?o @ [CHR 0x0A]) = None" using o by (auto simp: cut_at_def)
  moreover have "until_any [CHR '' '', CHR 0x0A, CHR 0x0D] (?o @ [CHR 0x0A]) = ?o"
    using o by (intro until_any_append) auto
  ultimately show ?thesis
    using splitFullnamePot_path[OF c]
    by (simp add: DeleteFile parse_orphan_line_def new_orphan_entry_def command_type_def)
qed

lemma command_line_chars:
  assumes "command_plain c"
  shows "CHR 0x0A \<notin> set (command_line c)" "CHR 0x00 \<notin> set (command_line c)"
    "\<not> skipped_line (command_line c @ [CHR 0x0A])"
proof -
  have o: "set (full_path (oc_orig c)) \<inter> {CHR '' '', CHR 0x0A, CHR 0x0D, CHR 0x00} = {}"
    using assms by (cases c) (auto dest: full_path_chars)
  have "CHR 0x0A \<notin> set (command_line c) \<and> CHR 0x00 \<notin> set (command_line c) \<and> \<not> skipped_line (command_line c @ [CHR 0x0A])"
  proof (cases c)
    case (TwoFiles type orig dest)
    then have d: "set (full_path dest) \<inter> {CHR '' '', CHR 0x0A, CHR 0x0D, CHR 0x00} = {}"
      using assms full_path_chars by auto
    have w: "set (command_word type) \<inter> {CHR '' '', CHR 0x0A, CHR 0x0D, CHR 0x00, CHR ''#''} = {}" "command_word type \<noteq> []"
      using command_word_type[of type] assms TwoFiles by auto
    then obtain x xs where "command_word type = x # xs" by (cases "command_word type") auto
    then show ?thesis using o d w TwoFiles by (auto simp: skipped_line_def)
  next
    case (DeleteFile orig)
    then show ?thesis using o by (auto simp: skipped_line_def)
  qed
  then show "CHR 0x0A \<notin> set (command_line c)" "CHR 0x00 \<notin> set (command_line c)"
    "\<not> skipped_line (command_line c @ [CHR 0x0A])" by blast+
qed

text \<open>
  A file with one command per line, of less than 9999 characters each, is read as the list of
  the entries of these commands.
\<close>

theorem read_orphans_roundtrip:
  assumes "\<forall>c \<in> set cs. command_plain c \<and> length (command_line c) < 9999"
  shows "read_orphans filename (Some (as_lines (map command_line cs))) = Inr (map command_entry cs)"
proof -
  have "fgets_lines 10000 (as_lines (map command_line cs)) = map (\<lambda>l. l @ [CHR 0x0A]) (map command_line cs)"
    by (rule fgets_as_lines) (use assms command_line_chars(1) in auto)
  then have lines: "map c_str (fgets_lines 10000 (as_lines (map command_line cs))) = map (\<lambda>c. command_line c @ [CHR 0x0A]) cs"
    using assms command_line_chars(2) by (auto intro!: c_str_id)
  have keep: "filter (\<lambda>l. \<not> skipped_line l) (map (\<lambda>c. command_line c @ [CHR 0x0A]) cs)
      = map (\<lambda>c. command_line c @ [CHR 0x0A]) cs"
    using assms command_line_chars(3) by (auto simp: filter_id_conv)
  have "rmap parse_orphan_line (map (\<lambda>c. command_line c @ [CHR 0x0A]) cs) = Inr (map command_entry cs)"
    using assms by (induction cs) (auto simp: parse_command_line)
  then show ?thesis by (simp add: read_orphans_def lines keep)
qed

theorem read_orphans_roundtrip_witness:
  "read_orphans ''process_orphans.txt'' (Some (as_lines (map command_line
      [TwoFiles MOVE (''l10n/kdebase'', ''a.po'') (''l10n/kdelibs'', ''a.po''), DeleteFile (''l10n/kdebase'', ''b.po'')])))
    = Inr (map command_entry
      [TwoFiles MOVE (''l10n/kdebase'', ''a.po'') (''l10n/kdelibs'', ''a.po''), DeleteFile (''l10n/kdebase'', ''b.po'')])"
  by (rule read_orphans_roundtrip) (simp add: file_plain_def full_path_def command_word_def command_types)

end
