(* ===== verification/Detector.thy ===== *)
theory Detector
  imports Repository ProcessOrphans
begin

text \<open>
  \<open>gtpo/detectorbase.cpp\<close> and \<open>gtpo/detector.cpp\<close>: pairs of object IDs of files that follow each
  other or correspond to each other in two branches, the condensed graph of these pairs, and the
  file of pairs that were processed already.
\<close>

section \<open>Pairs\<close>

type_synonym oid_pair = "git_oid \<times> git_oid"

definition new_oid_pair :: oid_pair where
  "new_oid_pair = (oid_zero, oid_zero)"

definition setPair :: "git_oid \<Rightarrow> git_oid \<Rightarrow> oid_pair" where
  "setPair oid1 oid2 = (oid1, oid2)"

definition pair_less :: "oid_pair \<Rightarrow> oid_pair \<Rightarrow> bool res" where
  "pair_less p q = rassert (memcmp (fst p) (snd p) < 0)
     (let cmp1 = memcmp (fst p) (fst q) in
      if cmp1 < 0 then Inr True else if cmp1 > 0 then Inr False else Inr (memcmp (snd p) (snd q) < 0))"

definition pair_eq :: "oid_pair \<Rightarrow> oid_pair \<Rightarrow> bool res" where
  "pair_eq p q = rassert (memcmp (fst p) (snd p) < 0)
     (Inr (memcmp (fst p) (fst q) = 0 \<and> memcmp (snd p) (snd q) = 0))"

text \<open>
  \<open>std::sort\<close> and \<open>std::unique\<close> with these operators. The standard does not fix which pairs are
  compared; on pairs that pass the assertions the result does not depend on it.
\<close>

fun sort_insert :: "oid_pair \<Rightarrow> oid_pair list \<Rightarrow> oid_pair list res" where
  "sort_insert p [] = Inr [p]"
| "sort_insert p (q # qs) = rbind (pair_less q p) (\<lambda>b.
     if b then rbind (sort_insert p qs) (\<lambda>qs'. Inr (q # qs')) else Inr (p # q # qs))"

fun sort_pairs :: "oid_pair list \<Rightarrow> oid_pair list res" where
  "sort_pairs [] = Inr []"
| "sort_pairs (p # ps) = rbind (sort_pairs ps) (sort_insert p)"

fun unique_pairs :: "oid_pair list \<Rightarrow> oid_pair list res" where
  "unique_pairs (p # q # qs) = rbind (pair_eq p q) (\<lambda>b.
     rbind (unique_pairs (q # qs)) (\<lambda>r. Inr (if b then r else p # r)))"
| "unique_pairs ps = Inr ps"

section \<open>\<open>DetectorBase\<close>\<close>

record detector_base =
  d_oidPairs :: "oid_pair list"
  d_maxPairs :: int

definition new_detector :: detector_base where
  "new_detector = \<lparr>d_oidPairs = [], d_maxPairs = 20000\<rparr>"

definition nPairs :: "detector_base \<Rightarrow> int" where
  "nPairs d = int (length (d_oidPairs d))"

definition addOidPair :: "detector_base \<Rightarrow> git_oid \<Rightarrow> git_oid \<Rightarrow> detector_base" where
  "addOidPair d oid1 oid2 =
     (let d1 = (if nPairs d = d_maxPairs d then d\<lparr>d_maxPairs := d_maxPairs d + 20000\<rparr> else d);
          cmp = memcmp oid1 oid2
      in if cmp < 0 then d1\<lparr>d_oidPairs := d_oidPairs d1 @ [setPair oid1 oid2]\<rparr>
         else if cmp > 0 then d1\<lparr>d_oidPairs := d_oidPairs d1 @ [setPair oid2 oid1]\<rparr>
         else d1)"

definition dumpPairs :: "detector_base \<Rightarrow> oid_pair list \<Rightarrow> oid_pair list" where
  "dumpPairs d dest = dest @ d_oidPairs d"

section \<open>\<open>DetectorSuccessors\<close>\<close>

definition addFound :: "detector_base \<Rightarrow> git_oid res \<Rightarrow> git_oid option \<Rightarrow> bool \<Rightarrow> detector_base res" where
  "addFound d oid found found_first = (case found of
      None \<Rightarrow> Inr d
    | Some x \<Rightarrow> rbind oid (\<lambda>o1. Inr (if found_first then addOidPair d x o1 else addOidPair d o1 x)))"

definition successors_processChange ::
    "repository \<Rightarrow> orphan_entry list option \<Rightarrow> detector_base \<Rightarrow> int \<Rightarrow> file_change \<Rightarrow> detector_base res" where
  "successors_processChange repo transitions d commit_index change =
     (if fc_type change = MOD then
        rbind (change_oid1 change) (\<lambda>o1. rbind (change_oid2 change) (\<lambda>o2. Inr (addOidPair d o1 o2)))
      else if fc_type change = DEL then
        (case transitions of
           None \<Rightarrow> Inr d
         | Some entries \<Rightarrow>
             rfold (\<lambda>d entry. rbind (findNextUpdateOid repo (max (commit_index - 20) 0) (oe_destNamePot entry) (oe_destPath entry))
                (\<lambda>oid. addFound d (change_oid1 change) oid False))
               d (findByOrigin entries [] (fc_name change) (fc_path change) (MOVE OR MERGE)))
      else if fc_type change = ADD then
        rbind (findLastRemovalOid repo (commit_index - 1) (fc_name change) (fc_path change)) (\<lambda>oid.
        rbind (addFound d (change_oid2 change) oid True) (\<lambda>d1.
        (case transitions of
           None \<Rightarrow> Inr d1
         | Some entries \<Rightarrow>
             rfold (\<lambda>d entry. rbind (findLastUpdateOid repo commit_index (oe_origNamePot entry) (oe_origPath entry))
                (\<lambda>oid. addFound d (change_oid2 change) oid False))
               d1 (findByDestination entries [] (fc_name change) (fc_path change) COPY))))
      else Inl AssertFail)"

text \<open>The loops over all changes of all commits.\<close>

definition for_changes ::
    "repository \<Rightarrow> (detector_base \<Rightarrow> int \<Rightarrow> file_change \<Rightarrow> detector_base res) \<Rightarrow> detector_base \<Rightarrow> detector_base res" where
  "for_changes repo f d = rbind (nCommits repo) (\<lambda>n.
     rfold (\<lambda>d i. rbind (repo_commit repo i) (\<lambda>c.
       rfold (\<lambda>d j. rbind (commit_change c j) (\<lambda>ch. f d i ch)) d [0..nChanges c - 1])) d [0..n - 1])"

definition successors_doDetect ::
    "(string \<Rightarrow> git_dir option) \<Rightarrow> repository option \<Rightarrow> orphan_entry list option \<Rightarrow> detector_base
      \<Rightarrow> (detector_base \<times> repository) res" where
  "successors_doDetect disk repo transitions d = (case repo of
      None \<Rightarrow> Inl (Throw (RuntimeError ''m_repo is null''))
    | Some r0 \<Rightarrow> rbind (readRepositoryCommits disk r0) (\<lambda>r.
        rbind (for_changes r (successors_processChange r transitions) d) (\<lambda>d'. Inr (d', r))))"

section \<open>\<open>DetectorInterBranch\<close>\<close>

definition inter_processChange ::
    "repository \<Rightarrow> repository \<Rightarrow> detector_base \<Rightarrow> int \<Rightarrow> file_change \<Rightarrow> detector_base res" where
  "inter_processChange repo other_repo d commit_index change = (case tryOid2 change of
      None \<Rightarrow> Inr d
    | Some oid \<Rightarrow>
        rbind (repo_commit repo commit_index) (\<lambda>c.
        rbind (findFileOidByTime other_repo (c_time c) (fc_name change) (fc_path change)) (\<lambda>other_oid.
        let d1 = (case other_oid of None \<Rightarrow> d | Some (_, x) \<Rightarrow> addOidPair d oid x) in
        rbind (findFileOidByTime other_repo (c_time c + 5000) (fc_name change) (fc_path change)) (\<lambda>other_oid2.
        Inr (case other_oid2 of None \<Rightarrow> d1
          | Some (i, x) \<Rightarrow> if map_option fst other_oid = Some i then d1 else addOidPair d1 oid x)))))"

definition inter_doDetect ::
    "(string \<Rightarrow> git_dir option) \<Rightarrow> repository option \<Rightarrow> repository option \<Rightarrow> detector_base
      \<Rightarrow> (detector_base \<times> repository \<times> repository) res" where
  "inter_doDetect disk repoA repoB d = (case (repoA, repoB) of
      (Some a0, Some b0) \<Rightarrow>
        rbind (readRepositoryCommits disk a0) (\<lambda>a. rbind (readRepositoryCommits disk b0) (\<lambda>b.
        rbind (for_changes a (inter_processChange a b) d) (\<lambda>d'. Inr (d', a, b))))
    | _ \<Rightarrow> Inl AssertFail)"

section \<open>\<open>detectTransitions\<close>\<close>

text \<open>\<open>proorph\<close> is the contents of the file at \<open>path_proorph\<close>, \<open>None\<close> when it cannot be opened.\<close>

definition detectTransitions ::
    "(string \<Rightarrow> git_dir option) \<Rightarrow> oid_pair list \<Rightarrow> string \<Rightarrow> string \<Rightarrow> string \<Rightarrow> string option \<Rightarrow> oid_pair list res" where
  "detectTransitions disk dest path_trunk path_stable path_proorph proorph =
     rbind (read_orphans path_proorph proorph) (\<lambda>transitions.
     rbind (successors_doDetect disk (Some (new_repository path_trunk)) (Some transitions) new_detector) (\<lambda>(d1, repo).
     rbind (successors_doDetect disk (Some (new_repository path_stable)) (Some transitions) new_detector) (\<lambda>(d2, repo_stable).
     rbind (inter_doDetect disk (Some repo) (Some repo_stable) new_detector) (\<lambda>(d3, _, _).
     rbind (sort_pairs (dumpPairs d3 (dumpPairs d2 (dumpPairs d1 [])))) (\<lambda>allPairs.
     rbind (unique_pairs allPairs) (\<lambda>allPairs'. Inr (dest @ allPairs')))))))"

section \<open>The file of processed pairs\<close>

definition writePairToFile :: "oid_pair list \<Rightarrow> byte list" where
  "writePairToFile allPairs = concat (map (\<lambda>p. fst p @ snd p) allPairs)"

text \<open>\<open>std::set<GitOidPair>\<close> by its elements in order, searched from the front.\<close>

fun pset_insert :: "oid_pair \<Rightarrow> oid_pair list \<Rightarrow> oid_pair list res" where
  "pset_insert p [] = Inr [p]"
| "pset_insert p (q # qs) = rbind (pair_less q p) (\<lambda>b.
     if b then rbind (pset_insert p qs) (\<lambda>qs'. Inr (q # qs'))
     else rbind (pair_less p q) (\<lambda>b'. Inr (if b' then p # q # qs else q # qs)))"

fun pset_contains :: "oid_pair list \<Rightarrow> oid_pair \<Rightarrow> bool res" where
  "pset_contains [] p = Inr False"
| "pset_contains (q # qs) p = rbind (pair_less q p) (\<lambda>b.
     if b then pset_contains qs p else rbind (pair_less p q) (\<lambda>b'. Inr (\<not> b')))"

fun read_pairs :: "nat \<Rightarrow> byte list \<Rightarrow> oid_pair list" where
  "read_pairs 0 bs = []"
| "read_pairs (Suc n) bs = (oid_of_raw (take 20 bs), oid_of_raw (take 20 (List.drop 20 bs))) # read_pairs n (List.drop 40 bs)"

definition filterProcessedTransitions :: "string \<Rightarrow> byte list option \<Rightarrow> oid_pair list \<Rightarrow> oid_pair list \<Rightarrow> oid_pair list res" where
  "filterProcessedTransitions file_processed contents input output = (case contents of
      None \<Rightarrow> Inl (Throw (RuntimeError (''filterProcessedTransitions: Failed to open file '' @ file_processed)))
    | Some bs \<Rightarrow>
        rbind (rfold (\<lambda>s p. pset_insert p s) [] (read_pairs (length bs div 40) bs)) (\<lambda>processed.
        rfold (\<lambda>out p. rbind (pset_contains processed p) (\<lambda>b. Inr (if b then out else out @ [p]))) output input))"

section \<open>\<open>GraphCondenser\<close>\<close>

record graph_condenser =
  gc_n :: nat
  gc_edges :: "nat list list"
  gc_vis :: "bool list"

definition new_condenser :: "nat \<Rightarrow> graph_condenser" where
  "new_condenser n = \<lparr>gc_n = n, gc_edges = replicate n [], gc_vis = replicate n False\<rparr>"

definition push_edge :: "nat list list \<Rightarrow> nat \<Rightarrow> nat \<Rightarrow> nat list list res" where
  "push_edge edges i j = rbind (nth_res edges i) (\<lambda>es. Inr (edges[i := es @ [j]]))"

definition addEdge :: "graph_condenser \<Rightarrow> nat \<Rightarrow> nat \<Rightarrow> graph_condenser res" where
  "addEdge g i j = rbind (push_edge (gc_edges g) i j) (\<lambda>e1. rbind (push_edge e1 j i) (\<lambda>e2. Inr (g\<lparr>gc_edges := e2\<rparr>)))"

definition unvisited :: "bool list \<Rightarrow> nat" where
  "unvisited vis = length (filter Not vis)"

lemma unvisited_mark: "v < length vis \<Longrightarrow> \<not> vis ! v \<Longrightarrow> unvisited (vis[v := True]) < unvisited vis"
proof (induction vis arbitrary: v)
  case Nil
  then show ?case by simp
next
  case (Cons b vis)
  then show ?case by (cases v) (auto simp: unvisited_def)
qed

text \<open>
  \<open>dumpCluster\<close> called for each vertex of a list, with the marks of visited vertices and the
  vertices in \<open>dest\<close> as the state; the recursion goes through the lists of edges.
\<close>

function dump_list :: "nat list list \<Rightarrow> nat list \<Rightarrow> bool list \<times> nat list \<Rightarrow> (bool list \<times> nat list) res" where
  "dump_list edges [] s = Inr s"
| "dump_list edges (v # vs) (vis, dest) =
     (if v < length vis \<and> v < length edges then
        (if vis ! v then dump_list edges vs (vis, dest)
         else (case dump_list edges (edges ! v) (vis[v := True], dest @ [v]) of
             Inl e \<Rightarrow> Inl e
           | Inr s \<Rightarrow> dump_list edges vs s))
      else Inl OutOfBounds)"
  by pat_completeness auto

termination
proof -
  have fewer: "unvisited (fst s') \<le> unvisited (fst s)"
    if "dump_list_dom (edges, vs, s)" "dump_list edges vs s = Inr s'" for edges vs s s'
    using that
  proof (induction edges vs s arbitrary: s' rule: dump_list.pinduct)
    case (1 edges s)
    then show ?case by (simp add: dump_list.psimps)
  next
    case (2 edges v vs vis dest)
    show ?case
    proof (cases "v < length vis \<and> v < length edges \<and> \<not> vis ! v")
      case True
      then obtain t where t: "dump_list edges (edges ! v) (vis[v := True], dest @ [v]) = Inr t"
          "dump_list edges vs t = Inr s'"
        using "2.prems" "2.hyps" by (auto simp: dump_list.psimps split: sum.splits)
      then have "unvisited (fst t) \<le> unvisited (vis[v := True])" "unvisited (fst s') \<le> unvisited (fst t)"
        using "2.IH"(2)[of t] "2.IH"(3)[of t s'] True by auto
      then show ?thesis using unvisited_mark[of v vis] True by simp
    next
      case False
      then show ?thesis
        using "2.prems" "2.hyps" "2.IH"(1)[of s'] by (auto simp: dump_list.psimps split: if_splits)
    qed
  qed
  show ?thesis
  proof (relation "measures [\<lambda>(edges, vs, s). unvisited (fst s), \<lambda>(edges, vs, s). length vs]", goal_cases)
    case (4 edges v vs vis dest x)
    then have "unvisited (fst x) \<le> unvisited (vis[v := True])"
      using fewer by fastforce
    then show ?case using unvisited_mark[of v vis] 4 by simp
  qed (auto simp: unvisited_mark)
qed

definition dumpCluster :: "graph_condenser \<Rightarrow> nat list \<Rightarrow> (graph_condenser \<times> nat list) res" where
  "dumpCluster g dest = (case List.find (\<lambda>i. \<not> gc_vis g ! i) [0..<gc_n g] of
      None \<Rightarrow> Inr (g, dest)
    | Some start \<Rightarrow> rbind (dump_list (gc_edges g) [start] (gc_vis g, dest)) (\<lambda>(vis, dest').
        Inr (g\<lparr>gc_vis := vis\<rparr>, dest')))"

section \<open>\<open>clusterStats\<close> and \<open>generateGraphviz\<close>\<close>

text \<open>IDs with their changes, sorted and made unique by ID; which change of equal IDs comes first is open.\<close>

fun unique_oids :: "(git_oid \<times> file_change) list \<Rightarrow> (git_oid \<times> file_change) list" where
  "unique_oids (p # q # qs) = (if oid_eq (fst p) (fst q) then unique_oids (p # qs) else p # unique_oids (q # qs))"
| "unique_oids ps = ps"

definition gitoid2num :: "(git_oid \<times> file_change) list \<Rightarrow> git_oid \<Rightarrow> nat" where
  "gitoid2num allOids oid = (case List.find (\<lambda>i. oid_eq (fst (allOids ! i)) oid) [0..<length allOids] of
     Some i \<Rightarrow> i | None \<Rightarrow> 0)"

definition cluster_text :: "(git_oid \<times> file_change) list \<Rightarrow> nat list \<Rightarrow> string res" where
  "cluster_text allOids cluster = (if length cluster < 3 then
     rbind (rmap (\<lambda>v. rbind (nth_res allOids v) (\<lambda>p.
       Inr (fc_path (snd p) @ ''/'' @ fc_name (snd p) @ [CHR 0x0A]))) cluster)
       (\<lambda>ls. Inr (nat_dec (length cluster) @ [CHR 0x0A] @ concat ls)) else Inr [])"

lemma dump_list_decreases:
  "dump_list edges vs s = Inr s' \<Longrightarrow> unvisited (fst s') \<le> unvisited (fst s)"
proof (induction edges vs s arbitrary: s' rule: dump_list.induct)
  case (1 edges s)
  then show ?case by simp
next
  case (2 edges v vs vis dest)
  show ?case
  proof (cases "v < length vis \<and> v < length edges \<and> \<not> vis ! v")
    case True
    then obtain t where t: "dump_list edges (edges ! v) (vis[v := True], dest @ [v]) = Inr t"
        "dump_list edges vs t = Inr s'"
      using "2.prems" by (auto split: sum.splits)
    then have "unvisited (fst t) \<le> unvisited (vis[v := True])" "unvisited (fst s') \<le> unvisited (fst t)"
      using "2.IH"(2)[of t] "2.IH"(3)[of t s'] True by auto
    then show ?thesis using unvisited_mark[of v vis] True by simp
  next
    case False
    then show ?thesis using "2.prems" "2.IH"(1)[of s'] by (auto split: if_splits)
  qed
qed

lemma dumpCluster_unvisited:
  assumes "dumpCluster g [] = Inr (g', c)" "c \<noteq> []"
  shows "unvisited (gc_vis g') < unvisited (gc_vis g)"
proof -
  obtain v where v: "List.find (\<lambda>i. \<not> gc_vis g ! i) [0..<gc_n g] = Some v"
    using assms by (cases "List.find (\<lambda>i. \<not> gc_vis g ! i) [0..<gc_n g]") (auto simp: dumpCluster_def)
  then have vis: "\<not> gc_vis g ! v" using find_SomeD by fastforce
  obtain s where s: "dump_list (gc_edges g) [v] (gc_vis g, []) = Inr s" "gc_vis g' = fst s"
    using assms v by (auto simp: dumpCluster_def res_simps split: prod.splits)
  then have "dump_list (gc_edges g) (gc_edges g ! v) ((gc_vis g)[v := True], [v]) = Inr s" "v < length (gc_vis g)"
    using vis by (auto split: if_splits sum.splits)
  then show ?thesis
    using dump_list_decreases[of "gc_edges g" "gc_edges g ! v" "((gc_vis g)[v := True], [v])" s]
      unvisited_mark[of v "gc_vis g"] vis s(2) by simp
qed

function cluster_loop :: "(git_oid \<times> file_change) list \<Rightarrow> graph_condenser \<Rightarrow> string \<Rightarrow> string res" where
  "cluster_loop allOids g out = (case dumpCluster g [] of
      Inl e \<Rightarrow> Inl e
    | Inr (g', cluster) \<Rightarrow> if cluster = [] then Inr out
        else rbind (cluster_text allOids cluster) (\<lambda>text. cluster_loop allOids g' (out @ text)))"
  by pat_completeness auto
termination
  by (relation "measure (\<lambda>(a, g, out). unvisited (gc_vis g))") (auto simp: dumpCluster_unvisited)

declare cluster_loop.simps [simp del]

definition clusterStats :: "repository \<Rightarrow> repository \<Rightarrow> oid_pair list \<Rightarrow> string res" where
  "clusterStats repo repo_stable allPairs =
     rbind (dumpOids repo []) (\<lambda>a. rbind (dumpOids repo_stable a) (\<lambda>b.
     let allOids = unique_oids (sort_key fst b) in
     rbind (rfold (\<lambda>g p. addEdge g (gitoid2num allOids (fst p)) (gitoid2num allOids (snd p)))
         (new_condenser (length allOids)) allPairs) (\<lambda>g.
       cluster_loop allOids g (''Number of unique OIDs: '' @ nat_dec (length allOids) @ [CHR 0x0A]))))"

definition generateGraphviz :: "(git_oid \<Rightarrow> string) \<Rightarrow> oid_pair list \<Rightarrow> string" where
  "generateGraphviz git_oid_fmt allPairs =
     ''graph identified_translation_templates'' @ [CHR 0x0A] @ ''{'' @ [CHR 0x0A]
     @ concat (map (\<lambda>p. replicate 4 CHR '' '' @ [CHR 0x22] @ git_oid_fmt (fst p) @ [CHR 0x22] @ '' -- ''
         @ [CHR 0x22] @ git_oid_fmt (snd p) @ [CHR 0x22] @ '';'' @ [CHR 0x0A]) allPairs)
     @ ''}'' @ [CHR 0x0A]"

end
