(* ===== verification/DetectorFacts.thy ===== *)
theory DetectorFacts
  imports Detector RepositoryHistory
begin

text \<open>
  What the detectors find: pairs of two different IDs in order, each once, among them every
  modification of a file; and that the file of processed pairs filters what was written to it.
\<close>

section \<open>Sorting pairs\<close>

definition pair_ok :: "oid_pair \<Rightarrow> bool" where
  "pair_ok p \<longleftrightarrow> oid_ok (fst p) \<and> oid_ok (snd p) \<and> fst p < snd p"

lemma memcmp_cases:
  assumes "oid_ok a" "oid_ok b"
  shows "memcmp a b < 0 \<longleftrightarrow> a < b" "memcmp a b > 0 \<longleftrightarrow> b < a" "memcmp a b = 0 \<longleftrightarrow> a = b"
proof -
  have l: "length a = length b" using assms by (simp add: oid_ok_def)
  show 1: "memcmp a b < 0 \<longleftrightarrow> a < b" "memcmp a b = 0 \<longleftrightarrow> a = b"
    using memcmp_less[OF l] memcmp_eq[OF l] by auto
  have "memcmp a b > 0 \<longleftrightarrow> \<not> a < b \<and> a \<noteq> b" using 1 by linarith
  then show "memcmp a b > 0 \<longleftrightarrow> b < a" by auto
qed

lemma pair_less_ok: "pair_ok p \<Longrightarrow> pair_ok q \<Longrightarrow> pair_less p q = Inr (p < q)"
  using memcmp_cases[of "fst p" "snd p"] memcmp_cases[of "fst p" "fst q"] memcmp_cases[of "snd p" "snd q"]
  by (auto simp: pair_less_def pair_ok_def less_prod_def' Let_def)

lemma pair_eq_ok: "pair_ok p \<Longrightarrow> pair_ok q \<Longrightarrow> pair_eq p q = Inr (p = q)"
  using memcmp_cases[of "fst p" "snd p"] memcmp_cases[of "fst p" "fst q"] memcmp_cases[of "snd p" "snd q"]
  by (auto simp: pair_eq_def pair_ok_def prod_eq_iff)

lemma sort_insert_ok: "pair_ok p \<Longrightarrow> \<forall>q \<in> set qs. pair_ok q \<Longrightarrow> sort_insert p qs = Inr (insort p qs)"
  by (induction qs) (auto simp: pair_less_ok not_le)

lemma sort_pairs_ok: "\<forall>q \<in> set qs. pair_ok q \<Longrightarrow> sort_pairs qs = Inr (sort qs)"
  by (induction qs) (auto simp: sort_insert_ok)

lemma unique_pairs_ok: "\<forall>q \<in> set qs. pair_ok q \<Longrightarrow> unique_pairs qs = Inr (uniq qs)"
  by (induction qs rule: uniq.induct) (auto simp: pair_eq_ok)

lemma sort_unique_ok:
  assumes "\<forall>q \<in> set qs. pair_ok q"
  shows "rbind (sort_pairs qs) unique_pairs = Inr (uniq (sort qs))" "sset (uniq (sort qs))"
  using assms by (simp_all add: sort_pairs_ok unique_pairs_ok sset_uniq)

section \<open>Adding pairs\<close>

definition grows :: "detector_base \<Rightarrow> detector_base \<Rightarrow> bool" where
  "grows d d' \<longleftrightarrow> (\<exists>new. d_oidPairs d' = d_oidPairs d @ new \<and> (\<forall>p \<in> set new. pair_ok p))"

lemma grows_refl: "grows d d"
  by (simp add: grows_def)

lemma grows_trans: "grows a b \<Longrightarrow> grows b c \<Longrightarrow> grows a c"
  by (auto simp: grows_def)

lemma grows_pairs: "grows a b \<Longrightarrow> set (d_oidPairs a) \<subseteq> set (d_oidPairs b)"
  by (auto simp: grows_def)

definition ordered_pair :: "git_oid \<Rightarrow> git_oid \<Rightarrow> oid_pair" where
  "ordered_pair a b = (if a < b then (a, b) else (b, a))"

lemma addOidPair_pairs:
  assumes "oid_ok a" "oid_ok b"
  shows "d_oidPairs (addOidPair d a b) = d_oidPairs d @ (if a = b then [] else [ordered_pair a b])"
  using memcmp_cases[OF assms] by (auto simp: addOidPair_def Let_def setPair_def ordered_pair_def)

lemma addOidPair_grows: "oid_ok a \<Longrightarrow> oid_ok b \<Longrightarrow> grows d (addOidPair d a b)"
  by (auto simp: grows_def addOidPair_pairs pair_ok_def ordered_pair_def)

lemma addFound_grows:
  assumes "oid = Inr a" "oid_ok a" "\<And>x. found = Some x \<Longrightarrow> oid_ok x"
  shows "\<exists>d'. addFound d oid found b = Inr d' \<and> grows d d'"
  using assms by (cases found) (auto simp: addFound_def grows_refl addOidPair_grows)

lemma rfold_grows:
  assumes "\<And>d e. e \<in> set es \<Longrightarrow> \<exists>d'. f d e = Inr d' \<and> grows d d'"
  shows "\<exists>d'. rfold f d es = Inr d' \<and> grows d d'"
  using assms
proof (induction es arbitrary: d)
  case Nil
  then show ?case by (simp add: grows_refl)
next
  case (Cons e es)
  obtain d1 where d1: "f d e = Inr d1" "grows d d1" using Cons.prems[of e d] by auto
  obtain d2 where "rfold f d1 es = Inr d2" "grows d1 d2" using Cons.IH[of d1] Cons.prems by auto
  then show ?case using d1 grows_trans by auto
qed

section \<open>Processing every change\<close>

text \<open>
  What a detector does with a change: it adds proper pairs only, among them those that it must find.
\<close>

locale change_processor =
  fixes process :: "repository \<Rightarrow> detector_base \<Rightarrow> int \<Rightarrow> file_change \<Rightarrow> detector_base res"
    and good :: "repository \<Rightarrow> bool"
    and must :: "file_change \<Rightarrow> oid_pair set"
  assumes step: "good r \<Longrightarrow> i < csize r \<Longrightarrow> ch \<in> set (c_changes (r_commits r ! i)) \<Longrightarrow>
      \<exists>d'. process r d (int i) ch = Inr d' \<and> grows d d' \<and> must ch \<subseteq> set (d_oidPairs d')"
    and init: "good r \<Longrightarrow> r_commitsInit r"
begin

lemma changes_of_commit:
  assumes "good r" "i < csize r" "c = r_commits r ! i"
  shows "k \<le> length (c_changes c) \<Longrightarrow>
    \<exists>d'. rfold (\<lambda>d j. rbind (commit_change c j) (\<lambda>ch. process r d (int i) ch)) d [0..int k - 1] = Inr d'
      \<and> grows d d' \<and> (\<forall>j < k. must (c_changes c ! j) \<subseteq> set (d_oidPairs d'))"
proof (induction k)
  case 0
  then show ?case by (simp add: grows_refl)
next
  case (Suc k)
  then obtain d1 where d1: "rfold (\<lambda>d j. rbind (commit_change c j) (\<lambda>ch. process r d (int i) ch)) d [0..int k - 1] = Inr d1"
      "grows d d1" "\<forall>j < k. must (c_changes c ! j) \<subseteq> set (d_oidPairs d1)" by auto
  have k: "k < length (c_changes c)" using Suc.prems by simp
  then have ch: "commit_change c (int k) = Inr (c_changes c ! k)" by (simp add: commit_change_def nChanges_def)
  obtain d2 where d2: "process r d1 (int i) (c_changes c ! k) = Inr d2" "grows d1 d2"
      "must (c_changes c ! k) \<subseteq> set (d_oidPairs d2)"
    using step[OF assms(1,2), of "c_changes c ! k" d1] k assms(3) by auto
  have list: "[0..int (Suc k) - 1] = [0..int k - 1] @ [int k]"
    using upto_rec2[of 0 "int k"] by simp
  have "\<forall>j < Suc k. must (c_changes c ! j) \<subseteq> set (d_oidPairs d2)"
  proof (intro allI impI)
    fix j assume "j < Suc k"
    then consider "j < k" | "j = k" by linarith
    then show "must (c_changes c ! j) \<subseteq> set (d_oidPairs d2)"
      by cases (use d1(3) d2(3) grows_pairs[OF d2(2)] in blast)+
  qed
  then show ?case
    unfolding list rfold_append d1(1) using d2 ch grows_trans[OF d1(2) d2(2)] by simp
qed

lemma all_changes:
  assumes "good r"
  shows "\<exists>d'. for_changes r (process r) d = Inr d' \<and> grows d d'
    \<and> (\<forall>i < csize r. \<forall>ch \<in> set (c_changes (r_commits r ! i)). must ch \<subseteq> set (d_oidPairs d'))"
proof -
  let ?f = "\<lambda>d i. rbind (repo_commit r i) (\<lambda>c.
       rfold (\<lambda>d j. rbind (commit_change c j) (\<lambda>ch. process r d i ch)) d [0..nChanges c - 1])"
  have "n \<le> csize r \<Longrightarrow> \<exists>d'. rfold ?f d [0..int n - 1] = Inr d' \<and> grows d d'
    \<and> (\<forall>i < n. \<forall>ch \<in> set (c_changes (r_commits r ! i)). must ch \<subseteq> set (d_oidPairs d'))" for n
  proof (induction n)
    case 0
    then show ?case by (simp add: grows_refl)
  next
    case (Suc n)
    then obtain d1 where d1: "rfold ?f d [0..int n - 1] = Inr d1" "grows d d1"
        "\<forall>i < n. \<forall>ch \<in> set (c_changes (r_commits r ! i)). must ch \<subseteq> set (d_oidPairs d1)" by auto
    let ?c = "r_commits r ! n"
    have n: "n < csize r" using Suc.prems by simp
    obtain d2 where d2: "rfold (\<lambda>d j. rbind (commit_change ?c j) (\<lambda>ch. process r d (int n) ch)) d1 [0..nChanges ?c - 1] = Inr d2"
        "grows d1 d2" "\<forall>j < length (c_changes ?c). must (c_changes ?c ! j) \<subseteq> set (d_oidPairs d2)"
      using changes_of_commit[OF assms n refl order_refl, of d1] unfolding nChanges_def by blast
    have f: "?f d1 (int n) = Inr d2"
      using repo_commit_ok[OF init[OF assms], of "int n"] n d2(1) by simp
    have list: "[0..int (Suc n) - 1] = [0..int n - 1] @ [int n]"
      using upto_rec2[of 0 "int n"] by simp
    have "\<forall>ch \<in> set (c_changes ?c). must ch \<subseteq> set (d_oidPairs d2)"
      using d2(3) by (metis in_set_conv_nth)
    then have "\<forall>i < Suc n. \<forall>ch \<in> set (c_changes (r_commits r ! i)). must ch \<subseteq> set (d_oidPairs d2)"
    proof (intro allI impI)
      fix i assume "i < Suc n"
      then consider "i < n" | "i = n" by linarith
      then show "\<forall>ch \<in> set (c_changes (r_commits r ! i)). must ch \<subseteq> set (d_oidPairs d2)"
        by cases (use d1(3) \<open>\<forall>ch \<in> set (c_changes ?c). must ch \<subseteq> set (d_oidPairs d2)\<close> grows_pairs[OF d2(2)] in blast)+
    qed
    then show ?case
      unfolding list rfold_append d1(1) using f grows_trans[OF d1(2) d2(2)] by simp
  qed
  from this[OF order_refl] show ?thesis
    by (simp add: for_changes_def nCommits_def init[OF assms])
qed

end

section \<open>Searches in a repository that was read\<close>

definition good_repo :: "repository \<Rightarrow> bool" where
  "good_repo r \<longleftrightarrow> (\<exists>F. tracks r F \<and> (\<forall>i k x. i < csize r \<longrightarrow> F i k = Some x \<longrightarrow> oid_ok x))"

lemma good_init: "good_repo r \<Longrightarrow> r_commitsInit r"
  by (auto simp: good_repo_def tracks_def)

lemma good_change:
  assumes "good_repo r" "i < csize r" "ch \<in> set (c_changes (r_commits r ! i))"
  shows "file_change_ok ch" "fc_oid1 ch = Some a \<Longrightarrow> oid_ok a" "fc_oid2 ch = Some b \<Longrightarrow> oid_ok b" "fc_oid1 ch \<noteq> fc_oid2 ch"
proof -
  obtain F where F: "tracks r F" "\<And>i k x. i < csize r \<Longrightarrow> F i k = Some x \<Longrightarrow> oid_ok x"
    using assms(1) unfolding good_repo_def by blast
  have d: "is_diff (before F i) (F i) (c_changes (r_commits r ! i))"
    using F(1) assms(2) by (simp add: tracks_def)
  then have ch: "before F i (change_key ch) = fc_oid1 ch" "F i (change_key ch) = fc_oid2 ch"
    using assms(3) by (auto simp: is_diff_def)
  have "i - 1 < csize r" using assms(2) by simp
  then show "fc_oid1 ch = Some a \<Longrightarrow> oid_ok a" "fc_oid2 ch = Some b \<Longrightarrow> oid_ok b"
    using ch F(2)[of "i - 1"] F(2)[OF assms(2)] by (auto simp: before_def split: if_splits)
  show "file_change_ok ch" "fc_oid1 ch \<noteq> fc_oid2 ch" using d assms(3) by (auto simp: is_diff_def)
qed

lemma good_commit:
  assumes "good_repo r" "i < csize r"
  shows "commit_ok (r_commits r ! i)"
proof -
  obtain F where F: "tracks r F" using assms(1) unfolding good_repo_def by blast
  show ?thesis by (rule diff_commit_lookup(1)[OF tracks_diff[OF F assms(2)]])
qed

lemma good_lookups:
  assumes "good_repo r" "i < csize r"
  shows "\<exists>x. findUpdateOid (r_commits r ! i) name path = Inr x \<and> (\<forall>a. x = Some a \<longrightarrow> oid_ok a)"
    and "\<exists>x. findRemovalOid (r_commits r ! i) name path = Inr x \<and> (\<forall>a. x = Some a \<longrightarrow> oid_ok a)"
proof -
  note ok = good_commit[OF assms]
  have ch: "ch \<in> set (c_changes (r_commits r ! i))" if "change_at (r_commits r ! i) full = Some ch" for full ch
    using that find_SomeD by (fastforce simp: change_at_def)
  show "\<exists>x. findUpdateOid (r_commits r ! i) name path = Inr x \<and> (\<forall>a. x = Some a \<longrightarrow> oid_ok a)"
      "\<exists>x. findRemovalOid (r_commits r ! i) name path = Inr x \<and> (\<forall>a. x = Some a \<longrightarrow> oid_ok a)"
    unfolding findUpdateOid_eq[OF ok] findRemovalOid_eq[OF ok]
    using good_change[OF assms ch] by (auto split: option.splits)
qed

lemma next_update_total:
  assumes "good_repo r" "0 \<le> i" "n = int (csize r)"
  shows "\<exists>x. next_update_loop r name path n i = Inr x \<and> (\<forall>a. x = Some a \<longrightarrow> oid_ok a)"
  using assms
proof (induction r name path n i rule: next_update_loop.induct)
  case (1 r name path n i)
  show ?case
  proof (cases "i < n")
    case True
    then have i: "nat i < csize r" "repo_commit r i = Inr (r_commits r ! nat i)"
      using 1 repo_commit_ok[OF good_init[OF "1.prems"(1)]] by auto
    obtain x where x: "findUpdateOid (r_commits r ! nat i) name path = Inr x" "\<forall>a. x = Some a \<longrightarrow> oid_ok a"
      using good_lookups(1)[OF "1.prems"(1) i(1)] by blast
    show ?thesis
    proof (cases x)
      case None
      then show ?thesis
        using "1.IH"[OF True i(2) x(1)] 1(2-4) True i x by (subst next_update_loop.simps) simp
    next
      case (Some a)
      then show ?thesis using True i x by (subst next_update_loop.simps) simp
    qed
  qed (simp add: next_update_loop.simps[of r name path n i])
qed

lemma last_update_total:
  assumes "good_repo r" "i < int (csize r)"
  shows "\<exists>x. last_update_loop r name path i = Inr x \<and> (\<forall>a. x = Some a \<longrightarrow> oid_ok (snd a))"
  using assms
proof (induction r name path i rule: last_update_loop.induct)
  case (1 r name path i)
  show ?case
  proof (cases "0 \<le> i")
    case True
    then have i: "nat i < csize r" "repo_commit r i = Inr (r_commits r ! nat i)"
      using 1 repo_commit_ok[OF good_init[OF "1.prems"(1)]] by auto
    obtain x where x: "findUpdateOid (r_commits r ! nat i) name path = Inr x" "\<forall>a. x = Some a \<longrightarrow> oid_ok a"
      using good_lookups(1)[OF "1.prems"(1) i(1)] by blast
    show ?thesis
    proof (cases x)
      case None
      then show ?thesis
        using "1.IH"[OF True i(2) x(1)] 1(2-3) True i x by (subst last_update_loop.simps) simp
    next
      case (Some a)
      then show ?thesis using True i x by (subst last_update_loop.simps) simp
    qed
  qed (simp add: last_update_loop.simps[of r name path i])
qed

lemma removal_total:
  assumes "good_repo r" "i < int (csize r)"
  shows "\<exists>x. removal_loop r name path from i = Inr x \<and> (\<forall>a. x = Some a \<longrightarrow> oid_ok a)"
  using assms
proof (induction r name path "from" i rule: removal_loop.induct)
  case (1 r name path "from" i)
  show ?case
  proof (cases "i \<ge> 0 \<and> i \<ge> from - 10")
    case True
    then have i: "nat i < csize r" "repo_commit r i = Inr (r_commits r ! nat i)"
      using 1 repo_commit_ok[OF good_init[OF "1.prems"(1)]] by auto
    obtain x where x: "findRemovalOid (r_commits r ! nat i) name path = Inr x" "\<forall>a. x = Some a \<longrightarrow> oid_ok a"
      using good_lookups(2)[OF "1.prems"(1) i(1)] by blast
    show ?thesis
    proof (cases x)
      case None
      then show ?thesis
        using "1.IH"[OF True i(2) x(1)] 1(2-3) True i x by (subst removal_loop.simps) simp
    next
      case (Some a)
      then show ?thesis using True i x by (subst removal_loop.simps) simp
    qed
  qed (auto simp: removal_loop.simps[of r name path "from" i])
qed

lemma search_totals:
  assumes "good_repo r"
  shows "0 \<le> i \<Longrightarrow> i < int (csize r) \<Longrightarrow>
      \<exists>x. findNextUpdateOid r i name path = Inr x \<and> (\<forall>a. x = Some a \<longrightarrow> oid_ok a)"
    and "0 \<le> i \<Longrightarrow> i < int (csize r) \<Longrightarrow>
      \<exists>x. findLastUpdateOid r i name path = Inr x \<and> (\<forall>a. x = Some a \<longrightarrow> oid_ok a)"
    and "i < int (csize r) \<Longrightarrow>
      \<exists>x. findLastRemovalOid r i name path = Inr x \<and> (\<forall>a. x = Some a \<longrightarrow> oid_ok a)"
    and "\<exists>x. findFileOidByTime r t name path = Inr x \<and> (\<forall>a. x = Some a \<longrightarrow> oid_ok (snd a))"
proof -
  note n = nCommits_def good_init[OF assms]
  show "0 \<le> i \<Longrightarrow> i < int (csize r) \<Longrightarrow>
      \<exists>x. findNextUpdateOid r i name path = Inr x \<and> (\<forall>a. x = Some a \<longrightarrow> oid_ok a)"
    using next_update_total[OF assms _ refl, of i name path] by (simp add: findNextUpdateOid_def n)
  show "i < int (csize r) \<Longrightarrow>
      \<exists>x. findLastRemovalOid r i name path = Inr x \<and> (\<forall>a. x = Some a \<longrightarrow> oid_ok a)"
    using removal_total[OF assms, of i name path i] by (simp add: findLastRemovalOid_def n)
  show "0 \<le> i \<Longrightarrow> i < int (csize r) \<Longrightarrow>
      \<exists>x. findLastUpdateOid r i name path = Inr x \<and> (\<forall>a. x = Some a \<longrightarrow> oid_ok a)"
    using last_update_total[OF assms, of i name path] by (auto simp: findLastUpdateOid_def n)
  obtain j where "lastCommitByTime r t = Inr j" "j < int (csize r)"
    using lastCommitByTime_local[OF good_init[OF assms], of t] by fastforce
  then show "\<exists>x. findFileOidByTime r t name path = Inr x \<and> (\<forall>a. x = Some a \<longrightarrow> oid_ok (snd a))"
    using last_update_total[OF assms, of j name path] by (auto simp: findFileOidByTime_def)
qed

section \<open>The detectors\<close>

text \<open>A modification must give the pair of the old and the new ID.\<close>

definition modification :: "file_change \<Rightarrow> oid_pair set" where
  "modification ch = (case (fc_oid1 ch, fc_oid2 ch) of (Some a, Some b) \<Rightarrow> {ordered_pair a b} | _ \<Rightarrow> {})"

lemma next_updates_added:
  assumes repo: "good_repo r" "i < csize r" and id: "oid = Inr a" "oid_ok a"
  shows "\<exists>d'. rfold (\<lambda>d entry. rbind (findNextUpdateOid r (max (int i - 20) 0) (oe_destNamePot entry) (oe_destPath entry))
      (\<lambda>found. addFound d oid found False)) d es = Inr d' \<and> grows d d'"
proof (rule rfold_grows)
  fix d e
  have "max (int i - 20) 0 < int (csize r)" using repo(2) by linarith
  then obtain x where x: "findNextUpdateOid r (max (int i - 20) 0) (oe_destNamePot e) (oe_destPath e) = Inr x"
      "\<forall>a. x = Some a \<longrightarrow> oid_ok a"
    using search_totals(1)[OF repo(1) max.cobounded2, of "int i - 20"] by blast
  show "\<exists>d'. rbind (findNextUpdateOid r (max (int i - 20) 0) (oe_destNamePot e) (oe_destPath e))
      (\<lambda>found. addFound d oid found False) = Inr d' \<and> grows d d'"
    unfolding x(1) rbind.simps by (rule addFound_grows[OF id]) (use x(2) in auto)
qed

lemma last_updates_added:
  assumes repo: "good_repo r" "i < csize r" and id: "oid = Inr b" "oid_ok b"
  shows "\<exists>d'. rfold (\<lambda>d entry. rbind (findLastUpdateOid r (int i) (oe_origNamePot entry) (oe_origPath entry))
      (\<lambda>found. addFound d oid found False)) d es = Inr d' \<and> grows d d'"
proof (rule rfold_grows)
  fix d e
  obtain x where x: "findLastUpdateOid r (int i) (oe_origNamePot e) (oe_origPath e) = Inr x"
      "\<forall>a. x = Some a \<longrightarrow> oid_ok a"
    using search_totals(2)[OF repo(1), of "int i"] repo(2) by (metis of_nat_0_le_iff of_nat_less_iff)
  show "\<exists>d'. rbind (findLastUpdateOid r (int i) (oe_origNamePot e) (oe_origPath e))
      (\<lambda>found. addFound d oid found False) = Inr d' \<and> grows d d'"
    unfolding x(1) rbind.simps by (rule addFound_grows[OF id]) (use x(2) in auto)
qed

lemma successors_deletion:
  assumes repo: "good_repo r" "i < csize r" and ok: "file_change_ok ch" "\<forall>a. fc_oid1 ch = Some a \<longrightarrow> oid_ok a"
    and del: "fc_type ch = DEL" "fc_oid1 ch = Some a" "fc_oid2 ch = None"
  shows "\<exists>d'. successors_processChange r t d (int i) ch = Inr d' \<and> grows d d'"
proof -
  have id: "change_oid1 ch = Inr a" "oid_ok a" using tryOid_ok(3)[OF ok(1)] ok(2) del by (auto simp: change_types)
  show ?thesis
  proof (cases t)
    case None
    then show ?thesis using del by (simp add: successors_processChange_def change_types grows_refl)
  next
    case (Some es)
    then show ?thesis
      using del next_updates_added[OF repo id, of d "findByOrigin es [] (fc_name ch) (fc_path ch) (MOVE OR MERGE)"]
      by (auto simp: successors_processChange_def change_types)
  qed
qed

lemma successors_addition:
  assumes repo: "good_repo r" "i < csize r" and ok: "file_change_ok ch" "\<forall>b. fc_oid2 ch = Some b \<longrightarrow> oid_ok b"
    and add: "fc_type ch = ADD" "fc_oid1 ch = None" "fc_oid2 ch = Some b"
  shows "\<exists>d'. successors_processChange r t d (int i) ch = Inr d' \<and> grows d d'"
proof -
  have id: "change_oid2 ch = Inr b" "oid_ok b" using tryOid_ok(4)[OF ok(1)] ok(2) add by (auto simp: change_types)
  have "int i - 1 < int (csize r)" using repo(2) by simp
  then obtain x where x: "findLastRemovalOid r (int i - 1) (fc_name ch) (fc_path ch) = Inr x" "\<forall>a. x = Some a \<longrightarrow> oid_ok a"
    using search_totals(3)[OF repo(1)] by blast
  obtain d1 where d1: "addFound d (change_oid2 ch) x True = Inr d1" "grows d d1"
    using addFound_grows[OF id] x(2) by blast
  show ?thesis
  proof (cases t)
    case None
    then show ?thesis using add x(1) d1 by (simp add: successors_processChange_def change_types)
  next
    case (Some es)
    then show ?thesis
      using add x(1) d1 grows_trans[OF d1(2)]
        last_updates_added[OF repo id, of d1 "findByDestination es [] (fc_name ch) (fc_path ch) COPY"]
      by (auto simp: successors_processChange_def change_types)
  qed
qed

lemma successors_step:
  assumes "good_repo r" "i < csize r" "ch \<in> set (c_changes (r_commits r ! i))"
  shows "\<exists>d'. successors_processChange r t d (int i) ch = Inr d' \<and> grows d d' \<and> modification ch \<subseteq> set (d_oidPairs d')"
proof -
  note ch = good_change[OF assms]
  consider (mod) a b where "fc_type ch = MOD" "fc_oid1 ch = Some a" "fc_oid2 ch = Some b"
    | (del) a where "fc_type ch = DEL" "fc_oid1 ch = Some a" "fc_oid2 ch = None"
    | (add) b where "fc_type ch = ADD" "fc_oid1 ch = None" "fc_oid2 ch = Some b"
    using ch(1) by (auto simp: file_change_ok_def change_types)
  then show ?thesis
  proof cases
    case mod
    then have ids: "change_oid1 ch = Inr a" "change_oid2 ch = Inr b" "oid_ok a" "oid_ok b" "a \<noteq> b"
      using tryOid_ok(3,4)[OF ch(1)] ch(2-4) by (auto simp: change_types)
    then show ?thesis
      using mod addOidPair_grows[OF ids(3,4), of d] addOidPair_pairs[OF ids(3,4), of d]
      by (auto simp: successors_processChange_def modification_def)
  next
    case del
    then show ?thesis using successors_deletion[OF assms(1,2) ch(1) _ del] ch(2) by (simp add: modification_def)
  next
    case add
    then show ?thesis using successors_addition[OF assms(1,2) ch(1) _ add] ch(3) by (simp add: modification_def)
  qed
qed

interpretation successors: change_processor "\<lambda>r. successors_processChange r t" good_repo modification for t
  by unfold_locales (use successors_step good_init in auto)

lemma inter_step:
  assumes "good_repo a" "good_repo b" "i < csize a" "ch \<in> set (c_changes (r_commits a ! i))"
  shows "\<exists>d'. inter_processChange a b d (int i) ch = Inr d' \<and> grows d d'"
proof (cases "fc_oid2 ch")
  case None
  then show ?thesis
    using tryOid_ok(2)[OF good_change(1)[OF assms(1,3,4)]] by (simp add: inter_processChange_def grows_refl)
next
  case (Some x)
  note ch = good_change[OF assms(1,3,4)]
  have x: "tryOid2 ch = Some x" "oid_ok x" using Some tryOid_ok(2)[OF ch(1)] ch(3) by auto
  let ?c = "r_commits a ! i"
  have c: "repo_commit a (int i) = Inr ?c" using repo_commit_ok[OF good_init[OF assms(1)], of "int i"] assms(3) by simp
  obtain y where y: "findFileOidByTime b (c_time ?c) (fc_name ch) (fc_path ch) = Inr y" "\<forall>p. y = Some p \<longrightarrow> oid_ok (snd p)"
    using search_totals(4)[OF assms(2)] by blast
  obtain z where z: "findFileOidByTime b (c_time ?c + 5000) (fc_name ch) (fc_path ch) = Inr z"
      "\<forall>p. z = Some p \<longrightarrow> oid_ok (snd p)"
    using search_totals(4)[OF assms(2)] by blast
  let ?d1 = "case y of None \<Rightarrow> d | Some (_, o') \<Rightarrow> addOidPair d x o'"
  have d1: "grows d ?d1" using y(2) addOidPair_grows[OF x(2)] grows_refl by (auto split: option.splits)
  have "grows ?d1 (case z of None \<Rightarrow> ?d1
    | Some (i, o') \<Rightarrow> if map_option fst y = Some i then ?d1 else addOidPair ?d1 x o')"
    using z(2) addOidPair_grows[OF x(2)] grows_refl by (auto split: option.splits)
  then show ?thesis
    using x(1) c y(1) z(1) grows_trans[OF d1] by (simp add: inter_processChange_def Let_def)
qed

text \<open>The repository it compares with is an argument; it need not find anything.\<close>

definition good_both :: "repository \<Rightarrow> repository \<Rightarrow> bool" where
  "good_both b a \<longleftrightarrow> good_repo a \<and> good_repo b"

interpretation inter: change_processor "\<lambda>a. inter_processChange a b" "good_both b" "\<lambda>_. {}" for b
  by unfold_locales (use inter_step good_init in \<open>auto simp: good_both_def\<close>)

section \<open>\<open>detectTransitions\<close>\<close>

text \<open>A directory that holds a history which can be read.\<close>

definition readable :: "(string \<Rightarrow> git_dir option) \<Rightarrow> (git_oid \<Rightarrow> git_tree option) \<Rightarrow> string \<Rightarrow> git_commit \<Rightarrow> bool" where
  "readable disk odb dir head \<longleftrightarrow> (\<exists>g m. disk dir = Some g \<and> gd_master g = Some m \<and> gd_commit g m = Some head)
     \<and> (\<forall>c \<in> set (chain head). commit_fine odb c) \<and> times_fine (map gc_time (rev (chain head)))
     \<and> 2 \<le> length (chain head) \<and> length (chain head) < 2 ^ 64"

lemma tree_files_oid:
  "tree_ok odb ms t \<Longrightarrow> tree_files p t k = Some x \<Longrightarrow> oid_ok x"
  "\<forall>e \<in> set es. entry_ok odb ms e \<Longrightarrow> entries_files p es k = Some x \<Longrightarrow> oid_ok x"
  "entry_ok odb ms e \<Longrightarrow> entry_files p e k = Some x \<Longrightarrow> oid_ok x"
  by (induction p t and p es and p e rule: tree_files_entries_files_entry_files.induct)
    (auto split: if_splits option.splits)

lemma readable_repo:
  assumes "readable disk odb dir head"
  shows "\<exists>r. readRepositoryCommits disk (new_repository dir) = Inr r \<and> tracks r (tree_at head) \<and> good_repo r
    \<and> csize r = length (chain head)"
proof -
  obtain g m where g: "disk dir = Some g" "gd_master g = Some m" "gd_commit g m = Some head"
    and fine: "\<forall>c \<in> set (chain head). commit_fine odb c"
    using assms by (auto simp: readable_def)
  obtain r where r: "readRepositoryCommits disk (new_repository dir) = Inr r" "tracks r (tree_at head)"
      "map c_oid (r_commits r) = map gc_id (rev (chain head))"
    using history_read[where disk = disk and dir = dir, OF g fine] assms by (auto simp: readable_def)
  have n: "csize r = length (chain head)" using arg_cong[OF r(3), of length] by simp
  have "oid_ok x" if i: "i < csize r" and x: "tree_at head i k = Some x" for i k x
  proof -
    let ?c = "rev (chain head) ! i"
    have "?c \<in> set (rev (chain head))" using i n by (intro nth_mem) simp
    then have "commit_fine odb ?c" using fine by simp
    then obtain t where "gc_tree ?c = Some t" "tree_ok odb {0x81A4} t" by (auto simp: commit_fine_def)
    then show ?thesis using x tree_files_oid(1)[of odb "{0x81A4}" t "[]" k x] by (simp add: tree_at_def)
  qed
  then have "good_repo r" unfolding good_repo_def using r(2) by blast
  then show ?thesis using r(1,2) n by blast
qed

definition modified_pairs :: "git_commit \<Rightarrow> oid_pair set" where
  "modified_pairs head = {ordered_pair a b | a b i k. Suc i < length (chain head) \<and> a \<noteq> b
     \<and> tree_at head i k = Some a \<and> tree_at head (Suc i) k = Some b}"

lemma modified_pairs_found:
  assumes "tracks r (tree_at head)" "csize r = length (chain head)"
    and "\<forall>i < csize r. \<forall>ch \<in> set (c_changes (r_commits r ! i)). modification ch \<subseteq> P"
  shows "modified_pairs head \<subseteq> P"
proof
  fix p assume "p \<in> modified_pairs head"
  then obtain a b i k where p: "p = ordered_pair a b" "Suc i < csize r" "a \<noteq> b"
      "tree_at head i k = Some a" "tree_at head (Suc i) k = Some b"
    using assms(2) by (auto simp: modified_pairs_def)
  have d: "is_diff (before (tree_at head) (Suc i)) (tree_at head (Suc i)) (c_changes (r_commits r ! Suc i))"
    by (rule tracks_diff(1)[OF assms(1) p(2)])
  have "before (tree_at head) (Suc i) k = Some a" using p(4) by (simp add: before_def)
  then obtain ch where "ch \<in> set (c_changes (r_commits r ! Suc i))" "fc_oid1 ch = Some a" "fc_oid2 ch = Some b"
    using d p(3,5) unfolding is_diff_def by (metis (no_types, lifting) image_iff option.inject)
  then show "p \<in> P" using assms(3) p(1,2) by (force simp: modification_def)
qed

lemma successors_detects:
  assumes "readable disk odb dir head"
  shows "\<exists>d r. successors_doDetect disk (Some (new_repository dir)) t new_detector = Inr (d, r)
    \<and> (\<forall>p \<in> set (d_oidPairs d). pair_ok p) \<and> modified_pairs head \<subseteq> set (d_oidPairs d) \<and> good_repo r"
proof -
  obtain r where r: "readRepositoryCommits disk (new_repository dir) = Inr r" "tracks r (tree_at head)" "good_repo r"
      "csize r = length (chain head)"
    using readable_repo[OF assms] by blast
  obtain d where d: "for_changes r (successors_processChange r t) new_detector = Inr d" "grows new_detector d"
      "\<forall>i < csize r. \<forall>ch \<in> set (c_changes (r_commits r ! i)). modification ch \<subseteq> set (d_oidPairs d)"
    using successors.all_changes[OF r(3), of t new_detector] by blast
  have "\<forall>p \<in> set (d_oidPairs d). pair_ok p" using d(2) by (auto simp: grows_def new_detector_def)
  then show ?thesis
    using r d modified_pairs_found[OF r(2,4) d(3)] by (simp add: successors_doDetect_def)
qed

lemma detectTransitions_ok:
  assumes "readable disk odb trunk head1" "readable disk odb branch head2"
    and "read_orphans path_proorph proorph = Inr transitions"
  shows "\<exists>ps. detectTransitions disk dest trunk branch path_proorph proorph = Inr (dest @ ps)
    \<and> sset ps \<and> (\<forall>p \<in> set ps. pair_ok p) \<and> modified_pairs head1 \<union> modified_pairs head2 \<subseteq> set ps"
proof -
  obtain d1 r1 where d1: "successors_doDetect disk (Some (new_repository trunk)) (Some transitions) new_detector = Inr (d1, r1)"
      "\<forall>p \<in> set (d_oidPairs d1). pair_ok p" "modified_pairs head1 \<subseteq> set (d_oidPairs d1)" "good_repo r1"
    using successors_detects[OF assms(1)] by blast
  obtain d2 r2 where d2: "successors_doDetect disk (Some (new_repository branch)) (Some transitions) new_detector = Inr (d2, r2)"
      "\<forall>p \<in> set (d_oidPairs d2). pair_ok p" "modified_pairs head2 \<subseteq> set (d_oidPairs d2)" "good_repo r2"
    using successors_detects[OF assms(2)] by blast
  have "good_both r2 r1" using d1 d2 by (simp add: good_both_def)
  then obtain d3 where "for_changes r1 (inter_processChange r1 r2) new_detector = Inr d3" "grows new_detector d3"
    using inter.all_changes[of r2 r1 new_detector] by blast
  then have d3: "inter_doDetect disk (Some r1) (Some r2) new_detector = Inr (d3, r1, r2)" "\<forall>p \<in> set (d_oidPairs d3). pair_ok p"
    using good_init[OF d1(4)] good_init[OF d2(4)]
    by (auto simp: inter_doDetect_def readRepositoryCommits_def grows_def new_detector_def)
  let ?all = "d_oidPairs d1 @ d_oidPairs d2 @ d_oidPairs d3"
  have ok: "\<forall>p \<in> set ?all. pair_ok p" using d1(2) d2(2) d3(2) by auto
  have "detectTransitions disk dest trunk branch path_proorph proorph = Inr (dest @ uniq (sort ?all))"
    using sort_unique_ok(1)[OF ok] assms(3) d1(1) d2(1) d3(1) sort_pairs_ok[OF ok]
    by (simp add: detectTransitions_def dumpPairs_def)
  moreover have "set (uniq (sort ?all)) = set ?all" by simp
  ultimately show ?thesis
    using sort_unique_ok(2)[OF ok] ok d1(3) d2(3) by (intro exI[of _ "uniq (sort ?all)"]) auto
qed

text \<open>
  C24. For two repositories that can be read and a readable list of orphans \<open>detectTransitions\<close>
  succeeds. It appends pairs of two different IDs, the smaller one first, in strictly ascending
  order; among them are the old and new IDs of every file that a commit of either repository
  modifies.
\<close>

theorem detectTransitions_pairs:
  assumes "readable disk odb trunk head1" "readable disk odb branch head2"
    and "read_orphans path_proorph proorph = Inr transitions"
  shows "\<exists>ps. detectTransitions disk dest trunk branch path_proorph proorph = Inr (dest @ ps)
    \<and> sset ps \<and> (\<forall>p \<in> set ps. pair_ok p) \<and> modified_pairs head1 \<union> modified_pairs head2 \<subseteq> set ps"
  by (rule detectTransitions_ok[OF assms])

section \<open>Processed pairs\<close>

lemma pset_insert_ok: "pair_ok p \<Longrightarrow> \<forall>q \<in> set qs. pair_ok q \<Longrightarrow> sset qs \<Longrightarrow> pset_insert p qs = Inr (ss_insert p qs)"
  by (induction qs) (auto simp: pair_less_ok sset_def)

lemma pset_contains_ok: "pair_ok p \<Longrightarrow> \<forall>q \<in> set qs. pair_ok q \<Longrightarrow> sset qs \<Longrightarrow> pset_contains qs p = Inr (p \<in> set qs)"
  by (induction qs) (auto simp: pair_less_ok sset_def)

lemma read_pairs_written:
  "\<forall>p \<in> set ps. pair_ok p \<Longrightarrow> read_pairs (length ps) (writePairToFile ps) = ps
    \<and> length (writePairToFile ps) = 40 * length ps"
proof (induction ps)
  case Nil
  then show ?case by (simp add: writePairToFile_def)
next
  case (Cons p ps)
  then have p: "length (fst p) = 20" "length (snd p) = 20" by (auto simp: pair_ok_def oid_ok_def oid_size_def)
  have w: "writePairToFile (p # ps) = fst p @ snd p @ writePairToFile ps" by (simp add: writePairToFile_def)
  show ?case
    using Cons p unfolding w by (simp add: oid_of_raw_def oid_size_def)
qed

lemma fold_pset:
  "\<forall>p \<in> set ps. pair_ok p \<Longrightarrow> \<forall>q \<in> set s. pair_ok q \<Longrightarrow> sset s
    \<Longrightarrow> rfold (\<lambda>s p. pset_insert p s) s ps = Inr (fold ss_insert ps s)"
  by (induction ps arbitrary: s) (auto simp: pset_insert_ok)

text \<open>
  Filtering with the file that \<open>writePairToFile\<close> wrote keeps exactly the pairs that were not
  written, in their order.
\<close>

theorem filter_written_pairs:
  assumes "\<forall>p \<in> set written. pair_ok p" "\<forall>p \<in> set input. pair_ok p"
  shows "filterProcessedTransitions file (Some (writePairToFile written)) input dest
    = Inr (dest @ filter (\<lambda>p. p \<notin> set written) input)"
proof -
  let ?s = "fold ss_insert written []"
  have s: "rfold (\<lambda>s p. pset_insert p s) [] written = Inr ?s" using fold_pset[OF assms(1), of "[]"] by simp
  have s_ok: "sset ?s" "set ?s = set written" by (simp_all add: sset_fold_insert set_fold_insert)
  have "rfold (\<lambda>out p. rbind (pset_contains ?s p) (\<lambda>b. Inr (if b then out else out @ [p]))) dest input
      = Inr (dest @ filter (\<lambda>p. p \<notin> set written) input)"
    using assms(2)
  proof (induction input arbitrary: dest)
    case Nil
    then show ?case by simp
  next
    case (Cons p input)
    then have "pset_contains ?s p = Inr (p \<in> set written)"
      using pset_contains_ok[of p ?s] s_ok assms(1) by simp
    then show ?case using Cons by simp
  qed
  then show ?thesis
    using read_pairs_written[OF assms(1)] s by (simp add: filterProcessedTransitions_def)
qed

end
