(* ===== verification/DetectorWitness.thy ===== *)
theory DetectorWitness
  imports DetectorFacts RepositoryWitness
begin

text \<open>The theorems about the detectors on the repository with two commits.\<close>

lemma wit_readable: "readable wit_disk wit_odb2 ''repo'' wit_head"
  unfolding readable_def
proof (intro conjI)
  show "\<exists>g m. wit_disk ''repo'' = Some g \<and> gd_master g = Some m \<and> gd_commit g m = Some wit_head"
    using wit_disk_facts by blast
  show "\<forall>c \<in> set (chain wit_head). commit_fine wit_odb2 c" using wit_fine by (simp add: wit_chain)
  show "times_fine (map gc_time (rev (chain wit_head)))"
    by (simp add: wit_chain times_fine_def) (simp add: wit_head_def wit_root_def)
qed (simp_all add: wit_chain)

theorem detectTransitions_pairs_witness:
  "\<exists>ps. detectTransitions wit_disk [] ''repo'' ''repo'' ''orphans.txt'' (Some []) = Inr ([] @ ps)
    \<and> sset ps \<and> (\<forall>p \<in> set ps. pair_ok p) \<and> modified_pairs wit_head \<union> modified_pairs wit_head \<subseteq> set ps"
  by (rule detectTransitions_pairs[OF wit_readable wit_readable, where transitions = "[]"])
    (simp add: read_orphans_def fgets_lines.simps)

theorem filter_written_pairs_witness:
  "filterProcessedTransitions ''pairs.dat'' (Some (writePairToFile [(replicate 20 1, replicate 20 2)]))
      [(replicate 20 1, replicate 20 3), (replicate 20 1, replicate 20 2)] []
    = Inr ([] @ filter (\<lambda>p. p \<notin> set [(replicate 20 1, replicate 20 2)])
        [(replicate 20 1, replicate 20 3), (replicate 20 1, replicate 20 2)])"
proof (rule filter_written_pairs)
  have less: "replicate 20 a < replicate 20 b" if "a < b" for a b :: byte
    using that by (simp add: eval_nat_numeral)
  have "replicate 20 1 < (replicate 20 2 :: git_oid)" "replicate 20 1 < (replicate 20 3 :: git_oid)"
    by (rule less; simp add: word_less_nat_alt)+
  then show "\<forall>p \<in> set [(replicate 20 1, replicate 20 2)]. pair_ok p"
    "\<forall>p \<in> set [(replicate 20 1, replicate 20 3), (replicate 20 1, replicate 20 2)]. pair_ok p"
    by (simp_all add: pair_ok_def oid_ok_def oid_size_def)
qed

end
