(* ===== verification/Clusters.thy ===== *)
theory Clusters
  imports Detector
begin

text \<open>
  \<open>GraphCondenser::dumpCluster\<close> dumps the connected components of the graph of pairs, each once.
\<close>

definition edge_rel :: "nat list list \<Rightarrow> (nat \<times> nat) set" where
  "edge_rel edges = {(u, w). u < length edges \<and> w \<in> set (edges ! u)}"

definition graph_ok :: "nat list list \<Rightarrow> bool" where
  "graph_ok edges \<longleftrightarrow> edge_rel edges \<subseteq> {..<length edges} \<times> {..<length edges} \<and> sym (edge_rel edges)"

definition marked :: "bool list \<Rightarrow> nat set" where
  "marked vis = {v. v < length vis \<and> vis ! v}"

text \<open>The invariant of the class: marks are complete components.\<close>

definition condenser_ok :: "graph_condenser \<Rightarrow> bool" where
  "condenser_ok g \<longleftrightarrow> length (gc_edges g) = gc_n g \<and> length (gc_vis g) = gc_n g \<and> graph_ok (gc_edges g)
     \<and> edge_rel (gc_edges g) `` marked (gc_vis g) \<subseteq> marked (gc_vis g)"

section \<open>Building the graph\<close>

lemma new_condenser_ok: "condenser_ok (new_condenser n)"
  by (auto simp: condenser_ok_def new_condenser_def graph_ok_def edge_rel_def marked_def sym_def)

lemma marked_update: "v < length vis \<Longrightarrow> marked (vis[v := True]) = insert v (marked vis)"
  by (auto simp: marked_def nth_list_update)

lemma push_edge_ok: "i < length es \<Longrightarrow> push_edge es i j = Inr (es[i := es ! i @ [j]])"
  by (simp add: push_edge_def)

lemma edge_rel_push: "i < length es \<Longrightarrow> edge_rel (es[i := es ! i @ [j]]) = insert (i, j) (edge_rel es)"
  by (auto simp: edge_rel_def nth_list_update split: if_splits)

lemma addEdge_ok:
  assumes "condenser_ok g" "i < gc_n g" "j < gc_n g" "marked (gc_vis g) = {}"
  shows "\<exists>g'. addEdge g i j = Inr g' \<and> condenser_ok g' \<and> gc_n g' = gc_n g \<and> marked (gc_vis g') = {}
    \<and> edge_rel (gc_edges g') = edge_rel (gc_edges g) \<union> {(i, j), (j, i)}"
proof -
  let ?e1 = "(gc_edges g)[i := gc_edges g ! i @ [j]]"
  let ?e2 = "?e1[j := ?e1 ! j @ [i]]"
  have n: "length (gc_edges g) = gc_n g" using assms(1) by (simp add: condenser_ok_def)
  have "addEdge g i j = Inr (g\<lparr>gc_edges := ?e2\<rparr>)"
    using assms(2,3) n by (simp add: addEdge_def push_edge_ok)
  moreover have rel: "edge_rel ?e2 = edge_rel (gc_edges g) \<union> {(i, j), (j, i)}"
    using assms(2,3) n by (auto simp: edge_rel_push)
  moreover have "condenser_ok (g\<lparr>gc_edges := ?e2\<rparr>)"
    using assms rel unfolding condenser_ok_def graph_ok_def by (auto simp: sym_def)
  ultimately show ?thesis using assms(4) by (intro exI[of _ "g\<lparr>gc_edges := ?e2\<rparr>"]) simp
qed

section \<open>The depth-first search\<close>

definition visits :: "nat list list \<Rightarrow> nat list \<Rightarrow> bool list \<Rightarrow> bool list \<Rightarrow> nat list \<Rightarrow> bool" where
  "visits edges vs vis vis' new \<longleftrightarrow> length vis' = length vis \<and> distinct new
     \<and> marked vis' = marked vis \<union> set new \<and> set new \<inter> marked vis = {} \<and> set vs \<subseteq> marked vis'
     \<and> edge_rel edges `` set new \<subseteq> marked vis' \<and> set new \<subseteq> (edge_rel edges)\<^sup>* `` set vs"

lemma visits_step:
  assumes v: "v < length vis" "\<not> vis ! v" "v < length edges"
    and first: "visits edges (edges ! v) (vis[v := True]) vis1 new1"
    and rest: "visits edges vs vis1 vis2 new2"
  shows "visits edges (v # vs) vis vis2 (v # new1 @ new2)"
proof -
  have m0: "marked (vis[v := True]) = insert v (marked vis)" by (rule marked_update[OF v(1)])
  have v_new: "v \<notin> marked vis" using v by (simp add: marked_def)
  have m1: "marked vis1 = insert v (marked vis) \<union> set new1" "set new1 \<inter> insert v (marked vis) = {}"
    and m2: "marked vis2 = marked vis1 \<union> set new2" "set new2 \<inter> marked vis1 = {}"
    using first rest m0 by (auto simp: visits_def)
  have succ: "set (edges ! v) = edge_rel edges `` {v}" using v(3) by (auto simp: edge_rel_def)
  have "set new1 \<subseteq> (edge_rel edges)\<^sup>* `` (edge_rel edges `` {v})"
    using first unfolding visits_def succ by blast
  then have reach: "set new1 \<subseteq> (edge_rel edges)\<^sup>* `` {v}"
    by (auto intro: converse_rtrancl_into_rtrancl)
  have 1: "edge_rel edges `` set new1 \<subseteq> marked vis1" "edge_rel edges `` {v} \<subseteq> marked vis1" "distinct new1" "length vis1 = length vis"
    using first succ by (auto simp: visits_def)
  have 2: "edge_rel edges `` set new2 \<subseteq> marked vis2" "set vs \<subseteq> marked vis2" "distinct new2" "length vis2 = length vis1"
      "set new2 \<subseteq> (edge_rel edges)\<^sup>* `` set vs"
    using rest by (auto simp: visits_def)
  show ?thesis
    unfolding visits_def
  proof (intro conjI)
    show "distinct (v # new1 @ new2)" using 1(3) 2(3) m1 m2 by auto
    show "set (v # new1 @ new2) \<inter> marked vis = {}" using m1 m2 v_new by auto
    show "edge_rel edges `` set (v # new1 @ new2) \<subseteq> marked vis2"
    proof -
      have "set (v # new1 @ new2) = {v} \<union> set new1 \<union> set new2" by auto
      then show ?thesis using 1(1,2) 2(1) m2(1) by (simp only: Image_Un) blast
    qed
    show "set (v # new1 @ new2) \<subseteq> (edge_rel edges)\<^sup>* `` set (v # vs)" using reach 2(5) by auto
  qed (use m1 m2 1 2 in auto)
qed

lemma dump_list_visits:
  assumes "graph_ok edges" "length vis = length edges" "\<forall>v \<in> set vs. v < length edges"
  shows "\<exists>vis' new. dump_list edges vs (vis, dest) = Inr (vis', dest @ new) \<and> visits edges vs vis vis' new"
  using assms
proof (induction edges vs "(vis, dest)" arbitrary: vis dest rule: dump_list.induct)
  case (1 edges vis dest)
  then show ?case by (auto simp: visits_def)
next
  case (2 edges v vs vis dest)
  have v: "v < length vis" "v < length edges" using "2.prems" by auto
  show ?case
  proof (cases "vis ! v")
    case True
    then obtain vis' new where "dump_list edges vs (vis, dest) = Inr (vis', dest @ new)" "visits edges vs vis vis' new"
      using "2.hyps"(1) v "2.prems" by auto
    moreover have "v \<in> marked vis" using True v by (simp add: marked_def)
    ultimately show ?thesis using True v by (auto simp: visits_def)
  next
    case False
    have succ: "\<forall>w \<in> set (edges ! v). w < length edges"
      using "2.prems"(1) v(2) by (auto simp: graph_ok_def edge_rel_def)
    obtain vis1 new1 where f: "dump_list edges (edges ! v) (vis[v := True], dest @ [v]) = Inr (vis1, (dest @ [v]) @ new1)"
        "visits edges (edges ! v) (vis[v := True]) vis1 new1"
      using "2.hyps"(2) False v succ "2.prems" by auto
    then have "length vis1 = length edges" using "2.prems" by (simp add: visits_def)
    then obtain vis2 new2 where r: "dump_list edges vs (vis1, (dest @ [v]) @ new1) = Inr (vis2, ((dest @ [v]) @ new1) @ new2)"
        "visits edges vs vis1 vis2 new2"
      using "2.hyps"(3)[OF _ False f(1)] v "2.prems" by auto
    then show ?thesis
      using f False v visits_step[OF v(1) False v(2) f(2) r(2)] by auto
  qed
qed

section \<open>Clusters\<close>

definition component :: "graph_condenser \<Rightarrow> nat \<Rightarrow> nat set" where
  "component g v = (edge_rel (gc_edges g))\<^sup>* `` {v}"

lemma closed_rtrancl: "(x, y) \<in> r\<^sup>* \<Longrightarrow> r `` A \<subseteq> A \<Longrightarrow> x \<in> A \<Longrightarrow> y \<in> A"
  by (induction rule: rtrancl_induct) auto

text \<open>
  C30. Each call of \<open>dumpCluster\<close> appends one whole connected component, that of the first vertex not
  dumped before, without repetition; when all vertices were dumped it appends nothing. So the calls
  in a row partition the vertices into the components.
\<close>

theorem dumpCluster_component:
  assumes "condenser_ok g"
  shows "\<exists>g' cs. dumpCluster g dest = Inr (g', dest @ cs) \<and> condenser_ok g' \<and> gc_edges g' = gc_edges g
    \<and> gc_n g' = gc_n g \<and> marked (gc_vis g') = marked (gc_vis g) \<union> set cs \<and> distinct cs
    \<and> (if marked (gc_vis g) = {..<gc_n g} then cs = []
       else set cs = component g (LEAST v. v \<notin> marked (gc_vis g)) \<and> set cs \<inter> marked (gc_vis g) = {} \<and> cs \<noteq> [])"
proof -
  let ?E = "edge_rel (gc_edges g)"
  have n: "length (gc_edges g) = gc_n g" "length (gc_vis g) = gc_n g" and ok: "graph_ok (gc_edges g)"
    and closed: "?E `` marked (gc_vis g) \<subseteq> marked (gc_vis g)"
    using assms by (auto simp: condenser_ok_def)
  show ?thesis
  proof (cases "List.find (\<lambda>i. \<not> gc_vis g ! i) [0..<gc_n g]")
    case None
    then have "marked (gc_vis g) = {..<gc_n g}" using n by (auto simp: marked_def find_None_iff)
    then show ?thesis using None assms by (auto simp: dumpCluster_def)
  next
    case (Some v)
    then obtain i where i: "i < gc_n g" "\<not> gc_vis g ! i" "v = i" "\<forall>j < i. gc_vis g ! j"
      by (auto simp: find_Some_iff)
    then have v: "v < gc_n g" "v \<notin> marked (gc_vis g)" "\<And>w. w < v \<Longrightarrow> w \<in> marked (gc_vis g)"
      using n by (auto simp: marked_def)
    then have least: "(LEAST v. v \<notin> marked (gc_vis g)) = v"
      by (intro Least_equality) (use not_le_imp_less in blast)+
    have "\<exists>vis' new. dump_list (gc_edges g) [v] (gc_vis g, dest) = Inr (vis', dest @ new)
      \<and> visits (gc_edges g) [v] (gc_vis g) vis' new"
      by (rule dump_list_visits[OF ok]) (use n v in auto)
    then obtain vis' cs where d: "dump_list (gc_edges g) [v] (gc_vis g, dest) = Inr (vis', dest @ cs)"
        "visits (gc_edges g) [v] (gc_vis g) vis' cs" by blast
    have m: "marked vis' = marked (gc_vis g) \<union> set cs" "set cs \<inter> marked (gc_vis g) = {}" "v \<in> set cs"
        "?E `` set cs \<subseteq> marked vis'" "distinct cs" "length vis' = gc_n g" "set cs \<subseteq> ?E\<^sup>* `` {v}"
      using d(2) v(2) n(2) by (auto simp: visits_def)
    have closed': "?E `` marked vis' \<subseteq> marked vis'" using closed m(1,4) by auto
    have "w \<in> set cs" if "(v, w) \<in> ?E\<^sup>*" for w
    proof (rule ccontr)
      assume w: "w \<notin> set cs"
      have "w \<in> marked vis'" by (rule closed_rtrancl[OF that closed']) (use m in auto)
      then have "w \<in> marked (gc_vis g)" using w m(1) by auto
      moreover have "(w, v) \<in> ?E\<^sup>*"
        using that ok sym_rtrancl[of ?E] by (auto simp: graph_ok_def dest: symD)
      ultimately show False using closed_rtrancl[OF _ closed] v(2) by blast
    qed
    then have comp: "set cs = component g v" using m(7) by (auto simp: component_def)
    have "condenser_ok (g\<lparr>gc_vis := vis'\<rparr>)" using n ok closed' m(6) by (simp add: condenser_ok_def)
    moreover have "marked (gc_vis g) \<noteq> {..<gc_n g}" "cs \<noteq> []" using v m(3) by auto
    ultimately show ?thesis
      using Some d(1) m comp least n by (intro exI[of _ "g\<lparr>gc_vis := vis'\<rparr>"] exI[of _ cs]) (simp add: dumpCluster_def)
  qed
qed

definition wit_condenser :: graph_condenser where
  "wit_condenser = \<lparr>gc_n = 3, gc_edges = [[2], [], [0]], gc_vis = [False, False, False]\<rparr>"

theorem dumpCluster_component_witness:
  "\<exists>g' cs. dumpCluster wit_condenser [] = Inr (g', [] @ cs) \<and> condenser_ok g'
    \<and> distinct cs \<and> set cs = component wit_condenser (LEAST v. v \<notin> {}) \<and> cs \<noteq> []"
proof -
  have less3: "u < 3 \<longleftrightarrow> u = 0 \<or> u = 1 \<or> u = (2 :: nat)" for u by auto
  have rel: "edge_rel [[2], [], [0]] = {(0, 2), (2, 0)}"
    by (auto simp: edge_rel_def less_Suc_eq)
  have none: "marked [False, False, False] = {}" by (auto simp: marked_def less_Suc_eq nth_Cons split: nat.splits)
  have ok: "condenser_ok wit_condenser"
    using rel none by (auto simp: condenser_ok_def wit_condenser_def graph_ok_def sym_def)
  have "(0 :: nat) \<in> {..<3}" by simp
  then have "{..<3 :: nat} \<noteq> {}" by blast
  then have "marked (gc_vis wit_condenser) = {}" "marked (gc_vis wit_condenser) \<noteq> {..<gc_n wit_condenser}"
    using none by (simp_all add: wit_condenser_def)
  then show ?thesis using dumpCluster_component[OF ok, of "[]"] by (auto simp del: append_Nil)
qed

end
