(* ===== verification/FirstIds.thy ===== *)
theory FirstIds
  imports CStrings GitOid
begin

text \<open>
  \<open>gtpo/filedbfirstids.cpp\<close>: the table from template hashes to the first message ID and the number
  of messages, read from two text files.
\<close>

type_synonym first_ids_table = "(git_oid \<times> (int \<times> int)) list"

definition parse_first_id_line :: "(string \<Rightarrow> git_oid option) \<Rightarrow> string \<Rightarrow> (git_oid \<times> int) res" where
  "parse_first_id_line git_oid_fromstr line =
     (if length line < 42 then Inl (Throw (RuntimeError (''Line is too short: '' @ line)))
      else rassert (line ! 40 = CHR '' '')
        (rbind (oid_of_str git_oid_fromstr (take 40 line)) (\<lambda>oid. Inr (oid, atoi (List.drop 41 line)))))"

text \<open>
  The entries with the distance to the next first ID, sorted. \<open>std::pair\<close> is ordered
  lexicographically, and the IDs by \<open>GitOid::operator<\<close>.
\<close>

definition with_counts :: "(git_oid \<times> int) list \<Rightarrow> int \<Rightarrow> first_ids_table" where
  "with_counts entries next_id =
     (let first_ids = map snd entries @ [next_id] in
      map (\<lambda>i. (fst (entries ! i), (first_ids ! i, first_ids ! (i + 1) - first_ids ! i))) [0..<length entries])"

definition load_first_ids ::
    "(string \<Rightarrow> git_oid option) \<Rightarrow> string \<Rightarrow> string option \<Rightarrow> string option \<Rightarrow> first_ids_table res" where
  "load_first_ids git_oid_fromstr filename contents next_id_contents = (case contents of
      None \<Rightarrow> Inl (Throw (RuntimeError (''FiledbFirstIds: Failed to open file '' @ filename)))
    | Some text \<Rightarrow>
        rbind (rmap (parse_first_id_line git_oid_fromstr) (map c_str (fgets_lines 60 text))) (\<lambda>entries.
        (case next_id_contents of
           None \<Rightarrow> Inl AssertFail
         | Some next_text \<Rightarrow> (case fgets_lines 60 next_text of
             [] \<Rightarrow> Inl AssertFail
           | line # _ \<Rightarrow> Inr (sort (with_counts entries (atoi (c_str line))))))))"

text \<open>\<open>lower_bound\<close> is the first element that is not less than the value.\<close>

definition getFirstId :: "first_ids_table \<Rightarrow> git_oid \<Rightarrow> int \<times> int" where
  "getFirstId table tp_hash = (case dropWhile (\<lambda>e. e < (tp_hash, (0, - 1))) table of
      e # _ \<Rightarrow> if oid_eq tp_hash (fst e) then snd e else (0, - 1)
    | [] \<Rightarrow> (0, - 1))"

section \<open>Looking up\<close>

lemma dropWhile_sorted_first:
  assumes "sorted xs" "x \<in> set xs" "\<not> x < (v :: 'a::linorder)" "\<forall>y \<in> set xs. \<not> y < v \<longrightarrow> x \<le> y"
  shows "\<exists>ys. dropWhile (\<lambda>e. e < v) xs = x # ys"
  using assms
proof (induction xs)
  case Nil
  then show ?case by simp
next
  case (Cons a xs)
  then show ?case by (cases "a < v") (auto simp: antisym)
qed

lemma with_counts_nth:
  "length (with_counts es n) = length es"
  "i < length es \<Longrightarrow> with_counts es n ! i
    = (fst (es ! i), (snd (es ! i), (map snd es @ [n]) ! (i + 1) - snd (es ! i)))"
  by (simp_all add: with_counts_def Let_def nth_append)

lemma with_counts_fst: "map fst (with_counts es n) = map fst es"
  by (rule nth_equalityI) (simp_all add: with_counts_nth)

lemma getFirstId_found:
  assumes "distinct (map fst table)" "(h, (f, c)) \<in> set table" "0 < f" "oid_ok h"
  shows "getFirstId (sort table) h = (f, c)"
proof -
  have "\<exists>ys. dropWhile (\<lambda>e. e < (h, (0, - 1))) (sort table) = (h, (f, c)) # ys"
  proof (rule dropWhile_sorted_first)
    show "\<forall>y \<in> set (sort table). \<not> y < (h, 0, - 1) \<longrightarrow> (h, f, c) \<le> y"
    proof (intro ballI impI)
      fix y assume y: "y \<in> set (sort table)" "\<not> y < (h, 0, - 1)"
      show "(h, f, c) \<le> y"
      proof (cases "fst y = h")
        case True
        then have "y = (h, f, c)" using y(1) assms(1,2) by (metis eq_key_imp_eq_value prod.collapse set_sort)
        then show ?thesis by simp
      next
        case False
        then show ?thesis using y(2) by (cases y) (auto simp: less_prod_def' less_eq_prod_def)
      qed
    qed
  qed (use assms in \<open>auto simp: less_prod_def'\<close>)
  then show ?thesis using assms(4) by (auto simp: getFirstId_def)
qed

lemma getFirstId_absent:
  assumes "h \<notin> fst ` set table" "oid_ok h" "\<forall>e \<in> set table. oid_ok (fst e)"
  shows "getFirstId (sort table) h = (0, - 1)"
proof (cases "dropWhile (\<lambda>e. e < (h, (0, - 1))) (sort table)")
  case (Cons e es)
  then have "e \<in> set (sort table)" by (metis list.set_intros(1) set_dropWhileD)
  then have "oid_ok (fst e)" "h \<noteq> fst e" using assms by auto
  then show ?thesis using assms(2) unfolding getFirstId_def Cons by simp
next
  case Nil
  then show ?thesis unfolding getFirstId_def Nil by simp
qed

section \<open>A written table\<close>

text \<open>
  Printing an ID and reading it back is libgit2's; \<open>fmt\<close> and \<open>fromstr\<close> are such a pair.
\<close>

definition hex_codec :: "(git_oid \<Rightarrow> string) \<Rightarrow> (string \<Rightarrow> git_oid option) \<Rightarrow> bool" where
  "hex_codec fmt fromstr \<longleftrightarrow> (\<forall>h. oid_ok h \<longrightarrow> length (fmt h) = 40 \<and> fromstr (fmt h) = Some h
     \<and> CHR 0x00 \<notin> set (fmt h) \<and> CHR 0x0A \<notin> set (fmt h))"

definition first_id_line :: "(git_oid \<Rightarrow> string) \<Rightarrow> git_oid \<times> nat \<Rightarrow> string" where
  "first_id_line fmt e = fmt (fst e) @ '' '' @ nat_dec (snd e)"

lemma atoi_nat_dec:
  assumes "case s of [] \<Rightarrow> True | c # _ \<Rightarrow> \<not> is_digit c"
  shows "atoi (nat_dec n @ s) = int n"
proof -
  obtain c cs where n: "nat_dec n = c # cs" using nat_dec_not_Nil[of n] by (cases "nat_dec n") auto
  have c: "is_digit c" using nat_dec_digits[of n] n by simp
  then have first: "dropWhile is_space (nat_dec n @ s) = nat_dec n @ s"
    using digit_not n by simp
  have digits: "takeWhile is_digit (nat_dec n @ s) = nat_dec n"
  proof (subst takeWhile_append2)
    show "nat_dec n @ takeWhile is_digit s = nat_dec n" using assms by (cases s) auto
  qed (use nat_dec_digits in auto)
  show ?thesis
    using c digit_not[OF c] first digits n nat_dec_val[of n]
    by (simp add: atoi_def scan_d_def Let_def)
qed

lemma nat_dec_plain [simp]: "CHR 0x0A \<notin> set (nat_dec n)" "CHR 0x00 \<notin> set (nat_dec n)"
  using bspec[OF nat_dec_digits, of "CHR 0x0A" n] bspec[OF nat_dec_digits, of "CHR 0x00" n]
  by (auto simp: is_digit_def)

lemma parse_first_id_line_ok:
  assumes "hex_codec fmt fromstr" "oid_ok (fst e)"
  shows "parse_first_id_line fromstr (first_id_line fmt e @ [CHR 0x0A]) = Inr (fst e, int (snd e))"
proof -
  have f: "length (fmt (fst e)) = 40" "fromstr (fmt (fst e)) = Some (fst e)"
    using assms by (auto simp: hex_codec_def)
  have drop41: "List.drop 41 (fmt (fst e) @ CHR '' '' # r) = r" for r using f(1) by simp
  have nth40: "(fmt (fst e) @ CHR '' '' # r) ! 40 = CHR '' ''" for r using f(1) by (simp add: nth_append)
  have "length (nat_dec (snd e)) \<noteq> 0" using nat_dec_not_Nil by simp
  then show ?thesis
    using f drop41 nth40 atoi_nat_dec[of "[CHR 0x0A]" "snd e"]
    by (simp add: parse_first_id_line_def first_id_line_def oid_of_str_def is_digit_def)
qed

lemma first_id_line_chars:
  assumes "hex_codec fmt fromstr" "oid_ok (fst e)"
  shows "CHR 0x0A \<notin> set (first_id_line fmt e)" "CHR 0x00 \<notin> set (first_id_line fmt e)"
  using assms by (auto simp: hex_codec_def first_id_line_def)


text \<open>A codec of 40 characters: two letters for each byte.\<close>

definition hex_letters :: "byte \<Rightarrow> string" where
  "hex_letters b = [char_of (97 + unat b div 16), char_of (97 + unat b mod 16)]"

definition hex_fmt :: "git_oid \<Rightarrow> string" where
  "hex_fmt h = concat (map hex_letters h)"

fun hex_bytes :: "string \<Rightarrow> git_oid" where
  "hex_bytes (a # b # s) = of_nat ((of_char a - 97) * 16 + (of_char b - 97)) # hex_bytes s"
| "hex_bytes s = []"

lemma hex_codec_example: "hex_codec hex_fmt (\<lambda>s. Some (hex_bytes s))"
proof -
  have c: "of_char (char_of (97 + unat b div 16) :: char) = (97 + unat b div 16 :: nat)"
      "of_char (char_of (97 + unat b mod 16) :: char) = (97 + unat b mod 16 :: nat)" for b :: byte
  proof -
    have "unat b < 256" using unsigned_less[of b] by simp
    then have "97 + unat b div 16 < 256" "97 + unat b mod 16 < 256" by auto
    then show "of_char (char_of (97 + unat b div 16) :: char) = (97 + unat b div 16 :: nat)"
        "of_char (char_of (97 + unat b mod 16) :: char) = (97 + unat b mod 16 :: nat)" by simp_all
  qed
  have "of_nat ((of_char (char_of (97 + unat b div 16) :: char) - 97) * 16
      + (of_char (char_of (97 + unat b mod 16) :: char) - 97)) = b" for b :: byte
    unfolding c by simp
  then have "hex_bytes (hex_letters b @ s) = b # hex_bytes s" for b s
    by (simp only: hex_letters_def append_Cons append_Nil hex_bytes.simps)
  then have "hex_bytes (hex_fmt h) = h" for h
    by (induction h) (simp_all add: hex_fmt_def)
  moreover have "length (hex_fmt h) = 2 * length h" for h
    by (induction h) (auto simp: hex_fmt_def hex_letters_def)
  moreover have "x \<notin> set (hex_fmt h)" if "of_char x < (97 :: nat)" for x h
  proof
    assume "x \<in> set (hex_fmt h)"
    then obtain b where "x = char_of (97 + unat b div 16) \<or> x = char_of (97 + unat (b :: byte) mod 16)"
      by (auto simp: hex_fmt_def hex_letters_def)
    then show False using c[of b] that by auto
  qed
  ultimately show ?thesis by (auto simp: hex_codec_def oid_ok_def oid_size_def)
qed

definition wit_first_ids :: "(git_oid \<times> nat) list" where
  "wit_first_ids = [(replicate 20 1, 1), (replicate 20 0, 8)]"


end
