(* ===== verification/OidCache.thy ===== *)
theory OidCache
  imports GitOid CStrings
begin

text \<open>
  \<open>gtpo/oidmapcache.cpp\<close>: a map between object IDs that is kept in a file of 40-byte records, to
  which every new pair is appended, and the manager with one cache per identifier.

  The file system is a value: the contents of the files, and the directories that exist. A file
  can be opened for appending, and a directory can be made, when the directory it is in exists.
\<close>

record world =
  w_files :: "string \<rightharpoonup> byte list"
  w_dirs :: "string set"

definition parent_dir :: "string \<Rightarrow> string" where
  "parent_dir p = rev (tl (dropWhile (\<lambda>c. c \<noteq> CHR ''/'') (rev p)))"

definition dir_exists :: "world \<Rightarrow> string \<Rightarrow> bool" where
  "dir_exists w p \<longleftrightarrow> p = [] \<or> p \<in> w_dirs w"

definition can_append :: "world \<Rightarrow> string \<Rightarrow> bool" where
  "can_append w p \<longleftrightarrow> dir_exists w (parent_dir p) \<and> p \<notin> w_dirs w"

text \<open>\<open>fopen(p, "a+b")\<close> or \<open>"ab"\<close>: makes the file when it does not exist.\<close>

definition open_append :: "world \<Rightarrow> string \<Rightarrow> world option" where
  "open_append w p = (if can_append w p then
     Some (if w_files w p = None then w\<lparr>w_files := (w_files w)(p \<mapsto> [])\<rparr> else w) else None)"

section \<open>\<open>OidMapCache\<close>\<close>

record oid_map_cache =
  oc_filename :: string
  oc_fileExists :: bool
  oc_cache :: "(git_oid, git_oid) omap"

fun load_records :: "nat \<Rightarrow> byte list \<Rightarrow> (git_oid, git_oid) omap \<Rightarrow> (git_oid, git_oid) omap" where
  "load_records 0 bs m = m"
| "load_records (Suc n) bs m = load_records n (List.drop 40 bs) (om_set (take 20 bs) (take 20 (List.drop 20 bs)) m)"

definition loadCache :: "world \<Rightarrow> oid_map_cache \<Rightarrow> (oid_map_cache \<times> world) res" where
  "loadCache w c = rassert (oc_cache c = [])
     (case open_append w (oc_filename c) of
        None \<Rightarrow> Inr (c\<lparr>oc_fileExists := False\<rparr>, w)
      | Some w' \<Rightarrow> let bs = the (w_files w' (oc_filename c)) in
          rassert (length bs mod 40 = 0)
            (Inr (c\<lparr>oc_fileExists := True, oc_cache := load_records (length bs div 40) bs (oc_cache c)\<rparr>, w')))"

definition new_oid_map_cache :: "world \<Rightarrow> string \<Rightarrow> (oid_map_cache \<times> world) res" where
  "new_oid_map_cache w filename =
     loadCache w \<lparr>oc_filename = filename, oc_fileExists = False, oc_cache = []\<rparr>"

text \<open>\<open>opendir\<close> fails with \<open>ENOENT\<close> unless a file of that name is there.\<close>

definition createDir :: "world \<Rightarrow> string \<Rightarrow> world res" where
  "createDir w pathname =
     (if pathname \<in> w_dirs w then Inr w
      else if w_files w pathname = None then
        rassert (dir_exists w (parent_dir pathname)) (Inr (w\<lparr>w_dirs := insert pathname (w_dirs w)\<rparr>))
      else Inl AssertFail)"

text \<open>The prefixes that end before a slash, without the one before a slash at the start.\<close>

definition path_dirs :: "string \<Rightarrow> string list" where
  "path_dirs p = map (\<lambda>i. take i p) (filter (\<lambda>i. p ! i = CHR ''/'') [1..<length p])"

definition createPathDirectories :: "world \<Rightarrow> string \<Rightarrow> world res" where
  "createPathDirectories w filename =
     (if length filename < 3 then Inr w else rfold createDir w (path_dirs filename))"

definition getValue :: "oid_map_cache \<Rightarrow> git_oid \<Rightarrow> git_oid" where
  "getValue c oid = (case map_of (oc_cache c) oid of Some v \<Rightarrow> v | None \<Rightarrow> oid_zero)"

definition reverseGetValues :: "oid_map_cache \<Rightarrow> git_oid \<Rightarrow> git_oid list" where
  "reverseGetValues c oid = map fst (filter (\<lambda>pr. oid_eq (snd pr) oid) (oc_cache c))"

definition addPair :: "world \<Rightarrow> oid_map_cache \<Rightarrow> git_oid \<Rightarrow> git_oid \<Rightarrow> (oid_map_cache \<times> world) res" where
  "addPair w c oid tp_hash = rassert (oid_isNull (getValue c oid))
     (let c1 = c\<lparr>oc_cache := om_set oid tp_hash (oc_cache c)\<rparr> in
      rbind (if \<not> oc_fileExists c then createPathDirectories w (oc_filename c) else Inr w) (\<lambda>w1.
      (case open_append w1 (oc_filename c) of
         None \<Rightarrow> Inl AssertFail
       | Some w2 \<Rightarrow> Inr (c1, w2\<lparr>w_files :=
           (w_files w2)(oc_filename c \<mapsto> the (w_files w2 (oc_filename c)) @ oid @ tp_hash)\<rparr>))))"

section \<open>\<open>OidMapCacheManager\<close>\<close>

text \<open>The caches by their identifiers; \<open>home\<close> is \<open>getenv("HOME")\<close>. The file name has 4096 bytes.\<close>

definition cache_instance ::
    "string option \<Rightarrow> world \<Rightarrow> (string, oid_map_cache) omap \<Rightarrow> string \<Rightarrow> (oid_map_cache \<times> (string, oid_map_cache) omap \<times> world) res" where
  "cache_instance home w instances cache_id = (case map_of instances cache_id of
      Some c \<Rightarrow> Inr (c, instances, w)
    | None \<Rightarrow> (case home of
        None \<Rightarrow> Inl NullDeref
      | Some h \<Rightarrow>
          let filename = h @ ''/.stupids/oidmapcache-'' @ cache_id @ ''.dat'' in
          if length filename \<ge> 4096 then Inl OutOfBounds
          else rbind (new_oid_map_cache w filename) (\<lambda>(c, w'). Inr (c, om_set cache_id c instances, w'))))"

section \<open>The file and the map\<close>

text \<open>What the file holds, and the class invariant: the map is what a new cache would load.\<close>

definition records_of :: "byte list \<Rightarrow> (git_oid, git_oid) omap" where
  "records_of bs = load_records (length bs div 40) bs []"

definition cache_ok :: "world \<Rightarrow> oid_map_cache \<Rightarrow> bool" where
  "cache_ok w c \<longleftrightarrow> om_inv (oc_cache c) \<and> (case w_files w (oc_filename c) of
      None \<Rightarrow> oc_cache c = [] \<and> \<not> oc_fileExists c
    | Some bs \<Rightarrow> length bs mod 40 = 0 \<and> oc_cache c = records_of bs)"

lemma om_inv_load: "om_inv m \<Longrightarrow> om_inv (load_records n bs m)"
  by (induction n bs m rule: load_records.induct) (auto simp: om_inv_set)

lemma load_records_append:
  "length bs = 40 * n \<Longrightarrow> load_records (n + k) (bs @ cs) m = load_records k cs (load_records n bs m)"
proof (induction n arbitrary: bs m)
  case 0
  then show ?case by simp
next
  case (Suc n)
  then show ?case by simp
qed

lemma records_of_append:
  assumes "length bs mod 40 = 0" "oid_ok a" "oid_ok b"
  shows "records_of (bs @ a @ b) = om_set a b (records_of bs)"
proof -
  have n: "length bs = 40 * (length bs div 40)" using assms(1) by auto
  have l: "length a = 20" "length b = 20" using assms by (simp_all add: oid_ok_def oid_size_def)
  then have "length (bs @ a @ b) div 40 = length bs div 40 + 1" by simp
  then show ?thesis
    unfolding records_of_def using load_records_append[OF n, of 1 "a @ b" "[]"] l by simp
qed

lemma open_append_files:
  assumes "open_append w p = Some w'"
  shows "w_files w' p = Some (case w_files w p of None \<Rightarrow> [] | Some bs \<Rightarrow> bs)" "w_dirs w' = w_dirs w"
    "p' \<noteq> p \<Longrightarrow> w_files w' p' = w_files w p'"
  using assms by (auto simp: open_append_def split: if_splits option.splits)

lemma createDir_files: "createDir w p = Inr w' \<Longrightarrow> w_files w' = w_files w"
  by (auto simp: createDir_def res_simps split: if_splits)

lemma createPathDirectories_files: "createPathDirectories w p = Inr w' \<Longrightarrow> w_files w' = w_files w"
  unfolding createPathDirectories_def
  by (auto split: if_splits dest!: rfold_invariant[where P = "\<lambda>x. w_files x = w_files w"] createDir_files)

lemma load_ok:
  assumes "new_oid_map_cache w filename = Inr (c, w')" "can_append w filename"
  shows "cache_ok w' c" "oc_filename c = filename"
  using assms open_append_files[of w filename w']
  by (auto simp: new_oid_map_cache_def loadCache_def res_simps Let_def cache_ok_def records_of_def om_inv_load
      om_inv_Nil open_append_def split: option.splits if_splits)

text \<open>
  C28. \<open>addPair\<close> keeps the invariant that the map in memory is what the file holds: whenever it
  returns, the new pair is found, all others are as before, and a cache that is loaded from the file
  afterwards has the same map.
\<close>

theorem addPair_reload:
  assumes "cache_ok w c" "oid_ok oid" "oid_ok tp_hash" "addPair w c oid tp_hash = Inr (c', w')"
  shows "cache_ok w' c' \<and> getValue c' oid = tp_hash \<and> (\<forall>o'. o' \<noteq> oid \<longrightarrow> getValue c' o' = getValue c o')
    \<and> (\<exists>d w''. new_oid_map_cache w' (oc_filename c) = Inr (d, w'') \<and> oc_cache d = oc_cache c')"
proof -
  let ?f = "oc_filename c"
  obtain w1 w2 where dirs: "(if \<not> oc_fileExists c then createPathDirectories w ?f else Inr w) = Inr w1"
    and w2: "open_append w1 ?f = Some w2"
    and c': "c' = c\<lparr>oc_cache := om_set oid tp_hash (oc_cache c)\<rparr>"
    and w': "w' = w2\<lparr>w_files := (w_files w2)(?f \<mapsto> the (w_files w2 ?f) @ oid @ tp_hash)\<rparr>"
    using assms(4) by (auto simp: addPair_def res_simps Let_def split: option.splits)
  have w1: "w_files w1 = w_files w" using dirs createPathDirectories_files by (auto split: if_splits)
  define bs where "bs = (case w_files w ?f of None \<Rightarrow> [] | Some bs \<Rightarrow> bs)"
  have cont: "w_files w' ?f = Some (bs @ oid @ tp_hash)"
    using open_append_files(1)[OF w2] w1 by (simp add: w' bs_def)
  have old: "length bs mod 40 = 0" "oc_cache c = records_of bs" "om_inv (oc_cache c)"
    using assms(1) by (auto simp: cache_ok_def bs_def records_of_def split: option.splits)
  have len: "length (bs @ oid @ tp_hash) mod 40 = 0"
    using old(1) assms(2,3) by (simp add: oid_ok_def oid_size_def mod_add_left_eq[symmetric, of "length bs"])
  have recs: "oc_cache c' = records_of (bs @ oid @ tp_hash)"
    using records_of_append[OF old(1) assms(2,3)] old(2) c' by simp
  have ok: "cache_ok w' c'"
    using cont len recs om_inv_load[OF om_inv_Nil] c' by (simp add: cache_ok_def records_of_def)
  have "can_append w' ?f"
    using w2 by (auto simp: open_append_def can_append_def dir_exists_def w' split: if_splits)
  then have "open_append w' ?f = Some w'" using cont by (simp add: open_append_def)
  then have "new_oid_map_cache w' ?f = Inr (\<lparr>oc_filename = ?f, oc_fileExists = True, oc_cache = oc_cache c'\<rparr>, w')"
    using cont len recs by (simp add: new_oid_map_cache_def loadCache_def records_of_def)
  then show ?thesis
    using ok c' by (auto simp: getValue_def map_of_om_set)
qed

section \<open>Making the directories\<close>

lemma parent_dir_cases:
  obtains "parent_dir q = []" | j where "1 \<le> j" "j < length q" "q ! j = CHR ''/''" "parent_dir q = take j q"
proof (cases "dropWhile (\<lambda>c. c \<noteq> CHR ''/'') (rev q)")
  case Nil
  then have "parent_dir q = []" unfolding parent_dir_def Nil by simp
  then show ?thesis by (rule that(1))
next
  case (Cons c r)
  then have "c = CHR ''/''" using hd_dropWhile[of "\<lambda>c. c \<noteq> CHR ''/''" "rev q"] by auto
  moreover have "rev q = takeWhile (\<lambda>c. c \<noteq> CHR ''/'') (rev q) @ c # r"
    unfolding Cons[symmetric] by (rule takeWhile_dropWhile_id[symmetric])
  then obtain tw where "rev q = tw @ c # r" by blast
  then have "q = rev r @ c # rev tw" using rev_rev_ident[of q] by simp
  moreover have "parent_dir q = rev r" unfolding parent_dir_def Cons by simp
  ultimately have q: "length r < length q" "q ! length r = CHR ''/''" "parent_dir q = take (length r) q"
    by (simp_all add: nth_append)
  show ?thesis
  proof (cases "length r = 0")
    case True
    then show ?thesis using that(1) q(3) by simp
  next
    case False
    then have "1 \<le> length r" by linarith
    then show ?thesis by (rule that(2)[OF _ q])
  qed
qed

definition slashes :: "string \<Rightarrow> nat list" where
  "slashes p = filter (\<lambda>i. p ! i = CHR ''/'') [1..<length p]"

lemma createDir_all:
  assumes "\<forall>i \<in> set is. i \<in> set (slashes p) \<and> w_files w (take i p) = None"
    and "sorted_wrt (<) is" "\<forall>j \<in> set (slashes p). j \<in> set is \<or> take j p \<in> w_dirs w"
  shows "\<exists>w'. rfold createDir w (map (\<lambda>i. take i p) is) = Inr w' \<and> w_files w' = w_files w
    \<and> w_dirs w' = w_dirs w \<union> (\<lambda>i. take i p) ` set is"
  using assms
proof (induction "is" arbitrary: w)
  case Nil
  then show ?case by simp
next
  case (Cons i "is")
  let ?q = "take i p"
  have i: "i < length p" using Cons.prems(1) by (simp add: slashes_def)
  have "dir_exists w (parent_dir ?q)"
  proof (cases ?q rule: parent_dir_cases)
    case 1
    then show ?thesis by (simp add: dir_exists_def)
  next
    case (2 j)
    then have "j < i" "j \<in> set (slashes p)" "parent_dir ?q = take j p" using i by (auto simp: slashes_def min_def)
    moreover have "j \<notin> set (i # is)" using \<open>j < i\<close> Cons.prems(2) by auto
    ultimately show ?thesis using Cons.prems(3) by (auto simp: dir_exists_def)
  qed
  then have "\<exists>w1. createDir w ?q = Inr w1 \<and> w_files w1 = w_files w \<and> w_dirs w1 = insert ?q (w_dirs w)"
    using Cons.prems(1) by (cases "?q \<in> w_dirs w") (auto simp: createDir_def insert_absorb)
  then obtain w1 where w1: "createDir w ?q = Inr w1" "w_files w1 = w_files w" "w_dirs w1 = insert ?q (w_dirs w)"
    by blast
  have "\<exists>w'. rfold createDir w1 (map (\<lambda>i. take i p) is) = Inr w' \<and> w_files w' = w_files w1
    \<and> w_dirs w' = w_dirs w1 \<union> (\<lambda>i. take i p) ` set is"
    by (rule Cons.IH) (use Cons.prems w1 in auto)
  then show ?case using w1 by auto
qed

text \<open>
  A pair is stored even when no directory on the way to the file exists: with no cached value
  for the ID, and no file in the place of a directory, \<open>addPair\<close> returns. It makes the directories from
  the root down, and appends the record.
\<close>

theorem addPair_returns:
  assumes "oid_isNull (getValue c oid)" "\<not> oc_fileExists c" "3 \<le> length (oc_filename c)"
    and "oc_filename c \<notin> w_dirs w" "\<forall>d \<in> set (path_dirs (oc_filename c)). w_files w d = None"
  shows "\<exists>c' w'. addPair w c oid tp_hash = Inr (c', w') \<and> set (path_dirs (oc_filename c)) \<subseteq> w_dirs w'
    \<and> w_files w' (oc_filename c)
        = Some ((case w_files w (oc_filename c) of None \<Rightarrow> [] | Some bs \<Rightarrow> bs) @ oid @ tp_hash)"
proof -
  let ?f = "oc_filename c"
  have dirs: "path_dirs ?f = map (\<lambda>i. take i ?f) (slashes ?f)" by (simp add: path_dirs_def slashes_def)
  have "\<exists>w1. rfold createDir w (map (\<lambda>i. take i ?f) (slashes ?f)) = Inr w1 \<and> w_files w1 = w_files w
    \<and> w_dirs w1 = w_dirs w \<union> (\<lambda>i. take i ?f) ` set (slashes ?f)"
    by (rule createDir_all) (use assms(5) dirs in \<open>auto simp: slashes_def sorted_wrt_filter\<close>)
  then obtain w1 where w1: "createPathDirectories w ?f = Inr w1" "w_files w1 = w_files w"
      "w_dirs w1 = w_dirs w \<union> (\<lambda>i. take i ?f) ` set (slashes ?f)"
    using assms(3) dirs by (auto simp: createPathDirectories_def)
  have "?f \<noteq> take i ?f" if "i \<in> set (slashes ?f)" for i
  proof -
    have "length (take i ?f) < length ?f" using that by (simp add: slashes_def)
    then show ?thesis by (metis less_irrefl)
  qed
  then have "?f \<notin> w_dirs w1" using assms(4) w1(3) by blast
  moreover have "dir_exists w1 (parent_dir ?f)"
    by (cases ?f rule: parent_dir_cases) (auto simp: dir_exists_def w1(3) slashes_def)
  ultimately have "can_append w1 ?f" by (simp add: can_append_def)
  then obtain w2 where w2: "open_append w1 ?f = Some w2" by (simp add: open_append_def)
  show ?thesis
    using assms(1,2) w1 w2 open_append_files[OF w2] dirs by (auto simp: addPair_def)
qed

section \<open>Witnesses\<close>

definition wit_cache :: oid_map_cache where
  "wit_cache = \<lparr>oc_filename = ''/u/.s/c.dat'', oc_fileExists = False, oc_cache = []\<rparr>"

definition wit_world :: world where
  "wit_world = \<lparr>w_files = Map.empty, w_dirs = {''/u''}\<rparr>"

lemma wit_path: "path_dirs (oc_filename wit_cache) = [''/u'', ''/u/.s'']"
  by (simp add: path_dirs_def wit_cache_def upt_rec)

theorem addPair_returns_witness:
  "\<exists>c' w'. addPair wit_world wit_cache oid_zero oid_zero = Inr (c', w')
    \<and> set (path_dirs (oc_filename wit_cache)) \<subseteq> w_dirs w'
    \<and> w_files w' (oc_filename wit_cache)
        = Some ((case w_files wit_world (oc_filename wit_cache) of None \<Rightarrow> [] | Some bs \<Rightarrow> bs) @ oid_zero @ oid_zero)"
  by (rule addPair_returns) (simp_all add: wit_cache_def wit_world_def getValue_def oid_isNull_def)

definition wit_world2 :: world where
  "wit_world2 = \<lparr>w_files = Map.empty, w_dirs = {''/u'', ''/u/.s''}\<rparr>"

theorem addPair_reload_witness:
  "\<exists>c' w'. addPair wit_world2 wit_cache (replicate 20 1) (replicate 20 2) = Inr (c', w')
    \<and> getValue c' (replicate 20 1) = replicate 20 2
    \<and> (\<exists>d w''. new_oid_map_cache w' (oc_filename wit_cache) = Inr (d, w'') \<and> oc_cache d = oc_cache c')"
proof -
  have "createPathDirectories wit_world2 (oc_filename wit_cache) = Inr wit_world2"
    by (simp add: createPathDirectories_def wit_path createDir_def)
      (simp add: wit_world2_def wit_cache_def)
  moreover have "can_append wit_world2 (oc_filename wit_cache)"
    by (simp add: can_append_def wit_cache_def dir_exists_def parent_dir_def wit_world2_def)
  ultimately obtain c' w' where add: "addPair wit_world2 wit_cache (replicate 20 1) (replicate 20 2) = Inr (c', w')"
    by (simp add: addPair_def open_append_def getValue_def wit_cache_def oid_isNull_def)
  have "cache_ok wit_world2 wit_cache"
    by (simp add: cache_ok_def wit_world2_def wit_cache_def om_inv_Nil)
  then show ?thesis
    using addPair_reload[OF _ _ _ add] add by (auto simp: oid_ok_def oid_size_def)
qed

end
