(* ===== verification/PoFiles.thy ===== *)
theory PoFiles
  imports Content StateExn
begin

text \<open>
  Reading files with libgettext-po: the wrappers \<open>po_file_read\<close>, \<open>po_file_write\<close> and \<open>po_buffer_read\<close> of
  \<open>gtpo/gettextpo-helper.cpp\<close>, the exception that its error handlers throw
  (\<open>gtpo/gettextparserexception.cpp\<close>, \<open>exceptionmessageinfo.cpp\<close>), and the functions on a file name
  built on them.

  The library is a function from what it reads to an outcome: it calls one of the error handlers, or
  returns null, or a file. For \<open>po_buffer_read\<close>, which writes the buffer to a pipe from a child process
  and lets the library read standard input, the state is the process: its table of file descriptors,
  what was written to each pipe, and the children it has not waited for. The system calls follow
  POSIX: a new descriptor is the lowest free one.
\<close>

section \<open>The messages of the library\<close>

record message_info =
  mi_filename :: string
  mi_lineno :: nat
  mi_column :: nat
  mi_multilineP :: bool
  mi_messageText :: string

definition new_message_info :: message_info where
  "new_message_info = \<lparr>mi_filename = [], mi_lineno = 0, mi_column = 0, mi_multilineP = False,
     mi_messageText = ''<none>''\<rparr>"

definition message_info_toString :: "message_info \<Rightarrow> string" where
  "message_info_toString i = ''at '' @ mi_filename i @ ''[L'' @ nat_dec (mi_lineno i) @ '':C''
     @ nat_dec (mi_column i) @ ''] '' @ (if mi_multilineP i then ''<multiline>'' else ''<single line>'')
     @ '' Error: '' @ mi_messageText i"

record parser_exception =
  pe_severity :: int
  pe_twoMessages :: bool
  pe_msg1 :: message_info
  pe_msg2 :: message_info

definition parser_exception1 :: "int \<Rightarrow> message_info \<Rightarrow> parser_exception" where
  "parser_exception1 severity msg1 =
     \<lparr>pe_severity = severity, pe_twoMessages = False, pe_msg1 = msg1, pe_msg2 = new_message_info\<rparr>"

definition parser_exception2 :: "int \<Rightarrow> message_info \<Rightarrow> message_info \<Rightarrow> parser_exception" where
  "parser_exception2 severity msg1 msg2 =
     \<lparr>pe_severity = severity, pe_twoMessages = True, pe_msg1 = msg1, pe_msg2 = msg2\<rparr>"

definition buildWhatString :: "parser_exception \<Rightarrow> string" where
  "buildWhatString e = ''GettextParserException: severity = '' @ int_dec (pe_severity e) @ [CHR 0x0A]
     @ ''    message 1: '' @ message_info_toString (pe_msg1 e) @ [CHR 0x0A]
     @ (if pe_twoMessages e then ''    message 2: '' @ message_info_toString (pe_msg2 e) @ [CHR 0x0A] else [])"

section \<open>Reading and writing a file\<close>

text \<open>What the library passes to a handler: strings it may give as null pointers.\<close>

record po_report =
  r_filename :: "string option"
  r_lineno :: nat
  r_column :: nat
  r_multiline :: bool
  r_text :: "string option"

datatype 'po lib_outcome =
    Xerror int po_report
  | Xerror2 int po_report po_report
  | Null
  | Done 'po

record po_file =
  po_domains :: "string list"
  po_catalog :: catalog

definition info_of :: "po_report \<Rightarrow> message_info res" where
  "info_of r = (case (r_filename r, r_text r) of
      (Some f, Some t) \<Rightarrow> Inr \<lparr>mi_filename = f, mi_lineno = r_lineno r, mi_column = r_column r,
         mi_multilineP = r_multiline r, mi_messageText = t\<rparr>
    | _ \<Rightarrow> Inl NullDeref)"

definition xerror_handler :: "int \<Rightarrow> po_report \<Rightarrow> 'a res" where
  "xerror_handler severity r = rbind (info_of r) (\<lambda>msg1.
     Inl (Throw (GettextParserException (buildWhatString (parser_exception1 severity msg1)))))"

definition xerror2_handler :: "int \<Rightarrow> po_report \<Rightarrow> po_report \<Rightarrow> 'a res" where
  "xerror2_handler severity r1 r2 =
     (let r2' = (if r_filename r2 = None then r2\<lparr>r_filename := Some []\<rparr> else r2) in
     rbind (info_of r1) (\<lambda>msg1. rbind (info_of r2') (\<lambda>msg2.
     Inl (Throw (GettextParserException (buildWhatString (parser_exception2 severity msg1 msg2)))))))"

definition handled :: "'po lib_outcome \<Rightarrow> 'po option res" where
  "handled out = (case out of
      Xerror severity r \<Rightarrow> xerror_handler severity r
    | Xerror2 severity r1 r2 \<Rightarrow> xerror2_handler severity r1 r2
    | Null \<Rightarrow> Inr None
    | Done po \<Rightarrow> Inr (Some po))"

text \<open>\<open>domains\<close> ends with a null pointer.\<close>

definition po_file_read :: "po_file lib_outcome \<Rightarrow> po_file res" where
  "po_file_read out = rbind (handled out) (\<lambda>f. case f of
      None \<Rightarrow> Inl AssertFail
    | Some po \<Rightarrow> (case po_domains po of
          [] \<Rightarrow> Inl NullDeref
        | d # ds \<Rightarrow> rassert (d = ''messages'') (rassert (ds = []) (Inr po))))"

definition po_file_write :: "'po lib_outcome \<Rightarrow> 'po res" where
  "po_file_write out = rbind (handled out) (\<lambda>f. case f of None \<Rightarrow> Inl AssertFail | Some po \<Rightarrow> Inr po)"

section \<open>The process\<close>

datatype handle = PipeRead nat | PipeWrite nat | OpenFile "byte list"

record proc =
  fds :: "handle option list"
  pipes :: "byte list list"
  children :: "(int \<times> int) list"  \<comment> \<open>process ID and status\<close>

fun lowest_free :: "handle option list \<Rightarrow> nat option" where
  "lowest_free [] = None"
| "lowest_free (h # hs) = (if h = None then Some 0 else map_option Suc (lowest_free hs))"

definition fd_handle :: "proc \<Rightarrow> nat \<Rightarrow> handle option" where
  "fd_handle p fd = (if fd < length (fds p) then fds p ! fd else None)"

text \<open>\<open>pipe\<close>, \<open>dup\<close>, \<open>dup2\<close>, \<open>close\<close>; \<open>None\<close> is the result -1.\<close>

definition sys_pipe :: "(proc, (nat \<times> nat) option) sm" where
  "sys_pipe p = (case lowest_free (fds p) of
      None \<Rightarrow> (Inr None, p)
    | Some r \<Rightarrow> let n = length (pipes p); hs = (fds p)[r := Some (PipeRead n)] in
        (case lowest_free hs of
          None \<Rightarrow> (Inr None, p)
        | Some w \<Rightarrow> (Inr (Some (r, w)), p\<lparr>fds := hs[w := Some (PipeWrite n)], pipes := pipes p @ [[]]\<rparr>)))"

definition sys_dup :: "nat \<Rightarrow> (proc, nat option) sm" where
  "sys_dup fd p = (case (fd_handle p fd, lowest_free (fds p)) of
      (Some h, Some n) \<Rightarrow> (Inr (Some n), p\<lparr>fds := (fds p)[n := Some h]\<rparr>)
    | _ \<Rightarrow> (Inr None, p))"

definition sys_dup2 :: "nat \<Rightarrow> nat \<Rightarrow> (proc, bool) sm" where
  "sys_dup2 old new p = (case fd_handle p old of
      Some h \<Rightarrow> if new < length (fds p) then (Inr True, p\<lparr>fds := (fds p)[new := Some h]\<rparr>) else (Inr False, p)
    | None \<Rightarrow> (Inr False, p))"

definition sys_close :: "nat \<Rightarrow> (proc, unit) sm" where
  "sys_close fd = sm_update (\<lambda>p. p\<lparr>fds := (fds p)[fd := None]\<rparr>)"

text \<open>
  \<open>fork\<close>: \<open>child\<close> is what the child does to its copy of the process, up to its exit status. What it
  writes to a pipe is seen by the parent, its descriptors are not. The child ends at some time; the
  reader of the pipe waits for what it writes.
\<close>

definition sys_fork :: "int option \<Rightarrow> (proc \<Rightarrow> int \<times> proc) \<Rightarrow> (proc, int option) sm" where
  "sys_fork pid child p = (case pid of
      None \<Rightarrow> (Inr None, p)
    | Some i \<Rightarrow> (case child p of (status, q) \<Rightarrow>
        (Inr (Some i), p\<lparr>pipes := pipes q, children := children p @ [(i, status)]\<rparr>)))"

text \<open>\<open>write\<close> to a pipe writes \<open>n\<close> bytes at most, the number the system chooses.\<close>

definition sys_write :: "nat \<Rightarrow> nat \<Rightarrow> byte list \<Rightarrow> proc \<Rightarrow> int \<times> proc" where
  "sys_write n fd bs p = (case fd_handle p fd of
      Some (PipeWrite i) \<Rightarrow>
        (int (length (take n bs)), p\<lparr>pipes := (pipes p)[i := pipes p ! i @ take n bs]\<rparr>)
    | _ \<Rightarrow> (-1, p))"

definition sys_waitpid :: "int \<Rightarrow> (proc, int option) sm" where
  "sys_waitpid pid p = (case map_of (children p) pid of
      None \<Rightarrow> (Inr None, p)
    | Some status \<Rightarrow> (Inr (Some status), p\<lparr>children := filter (\<lambda>c. fst c \<noteq> pid) (children p)\<rparr>))"

text \<open>
  What reading descriptor 0 up to the end gives: the bytes in the pipe, but the end never comes
  while a descriptor of the process itself can write to it. \<open>None\<close> is a descriptor that is not open.
\<close>

definition read_stdin :: "proc \<Rightarrow> byte list option res" where
  "read_stdin p = (case fd_handle p 0 of
      None \<Rightarrow> Inr None
    | Some (OpenFile bs) \<Rightarrow> Inr (Some bs)
    | Some (PipeWrite n) \<Rightarrow> Inr None
    | Some (PipeRead n) \<Rightarrow> if Some (PipeWrite n) \<in> set (fds p) then Inl Hang else Inr (Some (pipes p ! n)))"

section \<open>Reading a buffer\<close>

text \<open>What the system decides: the process ID, if \<open>fork\<close> succeeds, and how much \<open>write\<close> writes.\<close>

record sys_env =
  env_pid :: "int option"
  env_written :: nat

definition status_abort :: int where "status_abort = 6"

definition write_child :: "nat \<Rightarrow> nat \<Rightarrow> byte list \<Rightarrow> proc \<Rightarrow> int \<times> proc" where
  "write_child n wfd buffer p =
     (case sys_write n wfd buffer (snd (sys_close 0 p)) of (r, q) \<Rightarrow>
        (if r = int (length buffer) then 0 else status_abort, q))"

definition po_buffer_read ::
    "(byte list option \<Rightarrow> po_file lib_outcome) \<Rightarrow> sys_env \<Rightarrow> byte list \<Rightarrow> (proc, po_file) sm" where
  "po_buffer_read lib env buffer =
     sm_bind sys_pipe (\<lambda>pipe_fd. sm_bind (sm_assert (pipe_fd \<noteq> None)) (\<lambda>_.
     let (rfd, wfd) = the pipe_fd in
     sm_bind (sys_dup 0) (\<lambda>d. sm_bind (sm_assert (d \<noteq> None)) (\<lambda>_.
     let stdin_fd = the d in
     sm_bind (sys_close 0) (\<lambda>_.
     sm_bind (sys_dup2 rfd 0) (\<lambda>ok. sm_bind (sm_assert ok) (\<lambda>_.
     sm_bind (sys_close rfd) (\<lambda>_.
     sm_bind (sys_fork (env_pid env) (write_child (env_written env) wfd buffer)) (\<lambda>pid.
     sm_bind (sm_assert (pid \<noteq> None)) (\<lambda>_.
     sm_bind (sys_close wfd) (\<lambda>_.
     sm_bind (sm_bind (sm_get read_stdin) sm_lift) (\<lambda>bs.
     sm_bind (sm_lift (po_file_read (lib bs))) (\<lambda>file.
     sm_bind (sys_close 0) (\<lambda>_.
     sm_bind (sys_dup2 stdin_fd 0) (\<lambda>ok. sm_bind (sm_assert ok) (\<lambda>_.
     sm_bind (sys_close stdin_fd) (\<lambda>_.
     sm_bind (sys_waitpid (the pid)) (\<lambda>status. sm_bind (sm_assert (status \<noteq> None)) (\<lambda>_.
     sm_bind (sm_assert (status = Some 0)) (\<lambda>_.
     sm_return file))))))))))))))))))))"

section \<open>What reading a buffer leaves behind\<close>

definition handle_ok :: "nat \<Rightarrow> handle \<Rightarrow> bool" where
  "handle_ok n h = (case h of PipeRead i \<Rightarrow> i < n | PipeWrite i \<Rightarrow> i < n | OpenFile bs \<Rightarrow> True)"

definition proc_ok :: "proc \<Rightarrow> bool" where
  "proc_ok p \<longleftrightarrow> (\<forall>h \<in> set (fds p). case h of None \<Rightarrow> True | Some h' \<Rightarrow> handle_ok (length (pipes p)) h')"

definition free_fds :: "proc \<Rightarrow> nat" where
  "free_fds p = length (filter (\<lambda>h. h = None) (fds p))"

lemma lowest_free_SomeD: "lowest_free hs = Some n \<Longrightarrow> n < length hs \<and> hs ! n = None"
  by (induction hs arbitrary: n) (auto split: if_splits)

lemma lowest_free_ex: "None \<in> set hs \<Longrightarrow> \<exists>n. lowest_free hs = Some n"
  by (induction hs) auto

lemma free_update: "n < length hs \<Longrightarrow> hs ! n = None \<Longrightarrow>
    Suc (length (filter (\<lambda>h. h = None) (hs[n := Some x]))) = length (filter (\<lambda>h. h = None) hs)"
  by (induction hs arbitrary: n) (auto split: nat.splits simp: nth_Cons')

lemma lowest_free_take:
  assumes "k < length (filter (\<lambda>h. h = None) hs)"
  obtains n where "lowest_free hs = Some n" "n < length hs" "hs ! n = None"
    "\<forall>x. k \<le> length (filter (\<lambda>h. h = None) (hs[n := Some x]))"
proof -
  have "None \<in> set hs" using assms by (metis (mono_tags, lifting) filter_False length_0_conv not_less_zero)
  then obtain n where n: "lowest_free hs = Some n" using lowest_free_ex by blast
  moreover from lowest_free_SomeD[OF n] have "n < length hs" "hs ! n = None" by auto
  moreover from free_update[OF this] assms
  have "k \<le> length (filter (\<lambda>h. h = None) (hs[n := Some x]))" for x by (metis less_Suc_eq_le)
  ultimately show thesis using that by blast
qed

lemma no_new_writer: "proc_ok p \<Longrightarrow> Some (PipeWrite (length (pipes p))) \<notin> set (fds p)"
  by (auto simp: proc_ok_def handle_ok_def)

lemma fds_after_fork:
  assumes "r < length hs" "w < length hs" "d < length hs" "hs ! r = None" "hs ! w = None" "0 < length hs"
    and "r \<noteq> w" "r \<noteq> d" "w \<noteq> d" "r \<noteq> 0" "w \<noteq> 0" "d \<noteq> 0"
  shows "hs[r := a, w := b, d := c, 0 := e, r := None, w := None] = hs[d := c, 0 := e]"
  using assms by (intro nth_equalityI) (auto simp: nth_list_update)

lemma fds_restored:
  assumes "d < length hs" "0 < length hs" "hs ! d = None" "hs ! 0 = h" "d \<noteq> 0"
  shows "hs[d := c, 0 := h, d := None] = hs"
  using assms by (intro nth_equalityI) (auto simp: nth_list_update)

lemmas sys_calls = sys_close_def sm_bind_def sm_simps fd_handle_def

text \<open>Three free descriptors are enough for the two ends of the pipe and the copy of standard input.\<close>

lemma three_free:
  assumes "3 \<le> length (filter (\<lambda>h. h = None) hs)"
  obtains r w d where "lowest_free hs = Some r" "lowest_free (hs[r := Some a]) = Some w"
    "lowest_free (hs[r := Some a, w := Some b]) = Some d"
    "r < length hs" "w < length hs" "d < length hs" "hs ! r = None" "hs ! w = None" "hs ! d = None"
    "w \<noteq> r" "d \<noteq> w" "d \<noteq> r"
proof -
  have "2 < length (filter (\<lambda>h. h = None) hs)" using assms by simp
  then obtain r where r: "lowest_free hs = Some r" "r < length hs" "hs ! r = None"
    and f1: "\<forall>x. 2 \<le> length (filter (\<lambda>h. h = None) (hs[r := Some x]))"
    by (rule lowest_free_take)
  have "1 < length (filter (\<lambda>h. h = None) (hs[r := Some a]))" using f1[rule_format, of a] by simp
  then obtain w where w: "lowest_free (hs[r := Some a]) = Some w" "w < length (hs[r := Some a])" "hs[r := Some a] ! w = None"
    and f2: "\<forall>x. 1 \<le> length (filter (\<lambda>h. h = None) (hs[r := Some a, w := Some x]))"
    by (rule lowest_free_take)
  have "0 < length (filter (\<lambda>h. h = None) (hs[r := Some a, w := Some b]))"
    using f2[rule_format, of b] by (simp only: One_nat_def Suc_le_eq)
  then obtain d where d: "lowest_free (hs[r := Some a, w := Some b]) = Some d"
      "d < length (hs[r := Some a, w := Some b])" "hs[r := Some a, w := Some b] ! d = None"
    by (rule lowest_free_take)
  have wr: "w \<noteq> r" "hs ! w = None" using w(2,3) r(2) by (auto simp: nth_list_update split: if_splits)
  have dr: "d \<noteq> w" "d \<noteq> r" "hs ! d = None" using d(2,3) w(2) r(2) wr(1) by (auto simp: nth_list_update split: if_splits)
  show thesis by (rule that[OF r(1) w(1) d(1) r(2) _ _ r(3) wr(2) dr(3) wr(1) dr(1,2)]) (use w(2) d(2) in auto)
qed

lemma no_writer_left:
  assumes "proc_ok p" "fd_handle p 0 = Some h"
  shows "Some (PipeWrite (length (pipes p))) \<notin> set ((fds p)[d := Some h, 0 := Some (PipeRead (length (pipes p)))])"
proof
  let ?n = "length (pipes p)"
  assume "Some (PipeWrite ?n) \<in> set ((fds p)[d := Some h, 0 := Some (PipeRead ?n)])"
  then have "Some (PipeWrite ?n) \<in> insert (Some (PipeRead ?n)) (insert (Some h) (set (fds p)))"
    using set_update_subset_insert[of "(fds p)[d := Some h]" 0 "Some (PipeRead ?n)"]
      set_update_subset_insert[of "fds p" d "Some h"] by blast
  moreover have "Some h \<in> set (fds p)"
    using assms(2) by (auto simp: fd_handle_def in_set_conv_nth split: if_splits)
  ultimately show False using no_new_writer[OF assms(1)] by auto
qed

lemma po_buffer_read_eval:
  assumes ok: "proc_ok p" and stdin: "fd_handle p 0 = Some h" and free: "3 \<le> free_fds p"
    and env: "env_pid env = Some i" "i \<notin> fst ` set (children p)" "length buffer \<le> env_written env"
  shows "\<exists>d. 0 < d \<and> fd_handle p d = None \<and> d < length (fds p) \<and>
    po_buffer_read lib env buffer p = (case po_file_read (lib (Some buffer)) of
      Inl e \<Rightarrow> (Inl e, \<lparr>fds = (fds p)[d := Some h, 0 := Some (PipeRead (length (pipes p)))],
        pipes = pipes p @ [buffer], children = children p @ [(i, 0)]\<rparr>)
    | Inr po \<Rightarrow> (Inr po, p\<lparr>pipes := pipes p @ [buffer]\<rparr>))"
proof -
  define n where "n = length (pipes p)"
  define hs where "hs = fds p"
  have len: "0 < length hs" and h0: "hs ! 0 = Some h"
    using stdin by (auto simp: fd_handle_def hs_def split: if_splits)
  obtain r w d where low: "lowest_free hs = Some r" "lowest_free (hs[r := Some (PipeRead n)]) = Some w"
      "lowest_free (hs[r := Some (PipeRead n), w := Some (PipeWrite n)]) = Some d"
    and lt: "r < length hs" "w < length hs" "d < length hs" and none: "hs ! r = None" "hs ! w = None" "hs ! d = None"
    and dist: "w \<noteq> r" "d \<noteq> w" "d \<noteq> r"
    by (rule three_free[of hs "PipeRead n" "PipeWrite n"]) (use free in \<open>simp_all add: free_fds_def hs_def\<close>)
  define h1 where "h1 = hs[r := Some (PipeRead n)]"
  define h2 where "h2 = h1[w := Some (PipeWrite n)]"
  note r = low(1) lt(1) none(1) and w = low(2)[folded h1_def] and d = low(3)[folded h1_def, folded h2_def]
  note wr = dist(1) none(2) and dr = dist(2,3) none(3)
  have z: "r \<noteq> 0" "w \<noteq> 0" "d \<noteq> 0" using h0 r(3) wr(2) dr(3) by (metis option.distinct(1))+
  have lens: "length h1 = length hs" "length h2 = length hs" by (simp_all add: h1_def h2_def)
  note bounds = lt len
  define h3 where "h3 = hs[d := Some h, 0 := Some (PipeRead n)]"
  have h3: "h2[d := Some h, 0 := Some (PipeRead n), r := None, w := None] = h3"
    unfolding h1_def h2_def h3_def using bounds r(3) wr dr z by (intro fds_after_fork) auto
  have nowr: "Some (PipeWrite n) \<notin> set h3"
    unfolding h3_def hs_def n_def by (rule no_writer_left[OF ok stdin])
  obtain c where p: "p = \<lparr>fds = hs, pipes = pipes p, children = c\<rparr>" by (cases p) (simp add: hs_def)
  have pipe: "sys_pipe p = (Inr (Some (r, w)), \<lparr>fds = h2, pipes = pipes p @ [[]], children = c\<rparr>)"
    using r(1) w by (subst p) (simp add: sys_pipe_def Let_def n_def[symmetric] h1_def[symmetric] h2_def)
  have dup: "sys_dup 0 \<lparr>fds = h2, pipes = pipes p @ [[]], children = c\<rparr>
      = (Inr (Some d), \<lparr>fds = h2[d := Some h], pipes = pipes p @ [[]], children = c\<rparr>)"
    using d h0 z bounds lens by (simp add: sys_dup_def fd_handle_def h2_def h1_def nth_list_update)
  have child: "write_child (env_written env) w buffer \<lparr>fds = h2[d := Some h, 0 := Some (PipeRead n), r := None],
        pipes = pipes p @ [[]], children = c\<rparr>
      = (0, \<lparr>fds = h2[d := Some h, 0 := Some (PipeRead n), r := None, 0 := None], pipes = pipes p @ [buffer], children = c\<rparr>)"
    using env(3) z wr dr bounds lens
    by (simp add: write_child_def sys_write_def sys_calls h2_def nth_list_update n_def list_update_append)
  show ?thesis
  proof (intro exI[of _ d] conjI)
    show "0 < d" "d < length (fds p)" "fd_handle p d = None"
      using z lt(3) dr by (auto simp: hs_def fd_handle_def)
    have d0: "h3 ! d = Some h" "d < length h3" using z bounds by (simp_all add: h3_def)
    have fd0: "h2 ! r = Some (PipeRead n)" using wr dr bounds lens by (simp add: h2_def h1_def nth_list_update)
    have rest: "h3[0 := Some h, d := None] = hs"
      unfolding h3_def list_update_overwrite using bounds dr h0 z by (intro fds_restored) auto
    have sr: "read_stdin \<lparr>fds = h3, pipes = pipes p @ [buffer], children = c\<rparr> = Inr (Some buffer)" for c
      using nowr bounds by (simp add: read_stdin_def fd_handle_def h3_def n_def nth_append)
    have cp: "children p = c" using p by (metis proc.select_convs(3))
    have pf: "(fds p)[d := Some h, 0 := Some (PipeRead (length (pipes p)))] = h3" by (simp add: h3_def hs_def n_def)
    have h3len: "length h3 = length hs" "h3 \<noteq> []" using len by (auto simp: h3_def)
    have pp: "p\<lparr>pipes := x\<rparr> = \<lparr>fds = hs, pipes = x, children = c\<rparr>" for x by (cases p) (auto simp: cp[symmetric] hs_def)
    have wait: "map_of (c @ [(i, 0)]) i = Some 0" "filter (\<lambda>x. fst x \<noteq> i) c = c"
      using env(2) by (auto simp: cp map_add_def filter_id_conv map_of_eq_None_iff[symmetric] split: option.split)
        (metis imageI fst_conv map_of_eq_None_iff)
    show "po_buffer_read lib env buffer p = (case po_file_read (lib (Some buffer)) of
      Inl e \<Rightarrow> (Inl e, \<lparr>fds = (fds p)[d := Some h, 0 := Some (PipeRead (length (pipes p)))],
        pipes = pipes p @ [buffer], children = children p @ [(i, 0)]\<rparr>)
    | Inr po \<Rightarrow> (Inr po, p\<lparr>pipes := pipes p @ [buffer]\<rparr>))"
      using env(1) len
      by (simp add: po_buffer_read_def sys_calls pipe dup sys_dup2_def sys_fork_def sys_waitpid_def child h3 sr rest
          lens bounds fd0 d0 wr dr z cp wait pf pp h3len del: map_of_append split: sum.split)
  qed
qed

text \<open>C14. \<open>po_buffer_read\<close> gives what the library makes of the buffer, and when that is a file the
  process has the same open files as before, standard input among them, and no child left. But an
  error that the library reports passes through the function as an exception: standard input stays
  the pipe, one descriptor more stays open, and nobody waits for the child.\<close>

theorem po_buffer_read_descriptors:
  assumes "proc_ok p" "fd_handle p 0 = Some h" "3 \<le> free_fds p" "env_pid env = Some i"
    "i \<notin> fst ` set (children p)" "length buffer \<le> env_written env"
  shows "case po_file_read (lib (Some buffer)) of
      Inr po \<Rightarrow> po_buffer_read lib env buffer p = (Inr po, p\<lparr>pipes := pipes p @ [buffer]\<rparr>)
    | Inl e \<Rightarrow> (case po_buffer_read lib env buffer p of (r, q) \<Rightarrow> r = Inl e
        \<and> fd_handle q 0 = Some (PipeRead (length (pipes p))) \<and> Suc (free_fds q) = free_fds p
        \<and> children q = children p @ [(i, 0)])"
proof -
  obtain d where d: "0 < d" "fd_handle p d = None" "d < length (fds p)"
    and run: "po_buffer_read lib env buffer p = (case po_file_read (lib (Some buffer)) of
      Inl e \<Rightarrow> (Inl e, \<lparr>fds = (fds p)[d := Some h, 0 := Some (PipeRead (length (pipes p)))],
        pipes = pipes p @ [buffer], children = children p @ [(i, 0)]\<rparr>)
    | Inr po \<Rightarrow> (Inr po, p\<lparr>pipes := pipes p @ [buffer]\<rparr>))"
    using po_buffer_read_eval[OF assms] by blast
  have z: "0 < length (fds p)" "fds p ! 0 = Some h" "fds p ! d = None"
    using assms(2) d(2,3) by (auto simp: fd_handle_def split: if_splits)
  have "length (filter (\<lambda>h. h = None) ((fds p)[d := Some h, 0 := x])) = length (filter (\<lambda>h. h = None) ((fds p)[d := Some h]))"
    if "x \<noteq> None" for x using z d(1) that by (cases "fds p"; cases d) auto
  with free_update[OF d(3) z(3), of h]
  show ?thesis using z(1) d(1) by (simp add: run fd_handle_def free_fds_def split: sum.split)
qed

definition wit_proc :: proc where
  "wit_proc = \<lparr>fds = [Some (OpenFile []), None, None, None], pipes = [], children = []\<rparr>"

definition wit_lib :: "byte list option \<Rightarrow> po_file lib_outcome" where
  "wit_lib bs = (if bs = Some [1]
     then Done \<lparr>po_domains = [''messages''], po_catalog = \<lparr>po_header_field = Map.empty, po_entries = []\<rparr>\<rparr>
     else Xerror 1 \<lparr>r_filename = Some ''-'', r_lineno = 1, r_column = 1, r_multiline = False, r_text = Some ''x''\<rparr>)"

lemma po_buffer_read_descriptors_witness:
  "snd (po_buffer_read wit_lib \<lparr>env_pid = Some 2, env_written = 1\<rparr> [1] wit_proc) = wit_proc\<lparr>pipes := [[1]]\<rparr>
   \<and> fd_handle (snd (po_buffer_read wit_lib \<lparr>env_pid = Some 2, env_written = 1\<rparr> [0] wit_proc)) 0 = Some (PipeRead 0)"
proof -
  have ok: "proc_ok wit_proc" "fd_handle wit_proc 0 = Some (OpenFile [])" "3 \<le> free_fds wit_proc"
    "2 \<notin> fst ` set (children wit_proc)"
    by (simp_all add: wit_proc_def proc_ok_def handle_ok_def fd_handle_def free_fds_def)
  have lib: "\<exists>po. po_file_read (wit_lib (Some [1])) = Inr po" "\<exists>e. po_file_read (wit_lib (Some [0])) = Inl e"
    by (simp_all add: wit_lib_def po_file_read_def handled_def xerror_handler_def info_of_def rassert_def)
  note run = po_buffer_read_descriptors[OF ok(1-3) _ ok(4),
      where env = "\<lparr>env_pid = Some 2, env_written = 1\<rparr>" and lib = wit_lib]
  from run[of "[1]"] run[of "[0]"] lib show ?thesis
    by (auto simp: wit_proc_def split: prod.splits)
qed

section \<open>Functions on a file name\<close>

text \<open>
  What \<open>what()\<close> of an exception returns. \<open>std_text\<close> is the text of the standard library for its own
  exceptions. \<open>ExceptionTpHashNotFound\<close> returns a pointer into a string that is gone.
\<close>

definition exn_what :: "(exn \<Rightarrow> string) \<Rightarrow> exn \<Rightarrow> string res" where
  "exn_what std_text e = (case e of
      RuntimeError s \<Rightarrow> Inr s
    | GettextParserException s \<Rightarrow> Inr s
    | ConnectionFailed \<Rightarrow> Inr ''ExceptionConnectionFailed (could not connect to stupids-server)''
    | NoConnection \<Rightarrow> Inr ''ExceptionNoConnection (connection has already been closed)''
    | RequestFailed \<Rightarrow> Inr ''ExceptionRequestFailed (stupids-server returned non-zero error code)''
    | Disconnected \<Rightarrow> Inr ''ExceptionDisconnected (connection has just been closed)''
    | RecvFailed \<Rightarrow> Inr ''ExceptionRecvFailed (failed to read from socket)''
    | NotPo \<Rightarrow> Inr ''ExceptionNotPo (file is not a correct .po/.pot file)''
    | PoHeaderIncomplete \<Rightarrow> Inr (''ExceptionPoHeaderIncomplete (important information ''
        @ ''is missing from the .po file's header)'')
    | TpHashNotFound \<Rightarrow> Inl Uninitialized
    | NullStringException \<Rightarrow> Inr (std_text e)
    | StdOutOfRange \<Rightarrow> Inr (std_text e))"

text \<open>The content of a file name: \<open>read_fs\<close> is what \<open>poFileRead\<close> of its \<open>FileContentFs\<close> gives.\<close>

definition content_of_fs :: "(string \<Rightarrow> po_file option res) \<Rightarrow> string \<Rightarrow> content" where
  "content_of_fs read_fs filename =
     new_content (rbind (read_fs filename) (\<lambda>f. Inr (map_option po_catalog f))) (Some filename)"

definition what_of :: "(exn \<Rightarrow> string) \<Rightarrow> string res \<Rightarrow> string res" where
  "what_of std_text r = (case r of
      Inl (Throw e) \<Rightarrow> exn_what std_text e
    | _ \<Rightarrow> r)"

definition file_template_as_json ::
    "(exn \<Rightarrow> string) \<Rightarrow> (json \<Rightarrow> string) \<Rightarrow> (string \<Rightarrow> po_file option res) \<Rightarrow> string \<Rightarrow> string res" where
  "file_template_as_json std_text json_text read_fs filename =
     what_of std_text (rbind (content_asJson (content_of_fs read_fs filename) False) (\<lambda>j. Inr (json_text j)))"

definition gettext_file_as_json ::
    "(exn \<Rightarrow> string) \<Rightarrow> (json \<Rightarrow> string) \<Rightarrow> (string \<Rightarrow> po_file option res) \<Rightarrow> string \<Rightarrow> string res" where
  "gettext_file_as_json std_text json_text read_fs filename =
     what_of std_text (rbind (content_asJson (content_of_fs read_fs filename) True) (\<lambda>j. Inr (json_text j)))"

definition calculate_tp_hash ::
    "(json \<Rightarrow> string) \<Rightarrow> (string \<Rightarrow> git_oid) \<Rightarrow> (git_oid \<Rightarrow> string) \<Rightarrow> (string \<Rightarrow> po_file option res) \<Rightarrow> string \<Rightarrow>
     string res" where
  "calculate_tp_hash json_text sha1 git_oid_fmt read_fs filename =
     rbind (calculateTpHash json_text sha1 (content_of_fs read_fs filename)) (\<lambda>tp_hash.
       if oid_isNull tp_hash then Inr [] else Inr (oid_toString git_oid_fmt tp_hash))"

definition read_po_file_messages :: "(string \<Rightarrow> po_file option res) \<Rightarrow> string \<Rightarrow> bool \<Rightarrow> message_group list res" where
  "read_po_file_messages read_fs filename loadObsolete = readMessages (content_of_fs read_fs filename)"

text \<open>
  A file that the library rejects: the hash of the file is not computed, the exception passes
  through; the functions that dump the file give its text in place of a dump.
\<close>

lemma parser_error_texts:
  assumes "read_fs filename = Inl (Throw (GettextParserException s))"
  shows "calculate_tp_hash json_text sha1 fmt read_fs filename = Inl (Throw (GettextParserException s))"
    "file_template_as_json std_text json_text read_fs filename = Inr s"
    "gettext_file_as_json std_text json_text read_fs filename = Inr s"
  using assms
  by (simp_all add: calculate_tp_hash_def file_template_as_json_def gettext_file_as_json_def calculateTpHash_def
      content_asJson_def content_of_fs_def new_content_def what_of_def exn_what_def)

end
