(* ===== verification/FileContents.thy ===== *)
theory FileContents
  imports OidCache PoFiles
begin

text \<open>
  \<open>gtpo/filecontentbase.cpp\<close>, \<open>filecontentfs.cpp\<close>, \<open>filecontentgit.cpp\<close> and \<open>filecontentbuffer.cpp\<close>: where
  the text of a translation file comes from, with its buffer and its cached Git blob hash.
  \<open>git_odb_hash\<close> is libgit2's, and \<open>lib_file\<close> and \<open>lib_stdin\<close> are what libgettext-po makes of a file and of
  the bytes of standard input: parameters. A Git loader is its \<open>blobLookup\<close>.
\<close>

datatype content_source =
    FileContentFs (fs_filename: string)
  | FileContentGit (git_loader: "(git_oid \<Rightarrow> byte list option) option")
  | FileContentBuffer

record file_content =
  fct_source :: content_source
  fct_buffer :: "byte list option"
  fct_bufferLen :: nat
  fct_oid :: "git_oid option"

definition new_content_fs :: "string \<Rightarrow> file_content" where
  "new_content_fs filename =
     \<lparr>fct_source = FileContentFs filename, fct_buffer = None, fct_bufferLen = 0, fct_oid = None\<rparr>"

definition new_content_git :: "(git_oid \<Rightarrow> byte list option) option \<Rightarrow> git_oid \<Rightarrow> file_content" where
  "new_content_git loader oid =
     \<lparr>fct_source = FileContentGit loader, fct_buffer = None, fct_bufferLen = 0, fct_oid = Some oid\<rparr>"

definition new_content_buffer :: "byte list \<Rightarrow> file_content" where
  "new_content_buffer buffer =
     \<lparr>fct_source = FileContentBuffer, fct_buffer = Some buffer, fct_bufferLen = length buffer, fct_oid = None\<rparr>"

definition git_loadToBuffer :: "(git_oid \<Rightarrow> byte list option) option \<Rightarrow> file_content \<Rightarrow> file_content res" where
  "git_loadToBuffer loader c = (case fct_buffer c of
      Some _ \<Rightarrow> Inr c
    | None \<Rightarrow> (case (loader, fct_oid c) of
        (Some blobLookup, Some oid) \<Rightarrow> (case blobLookup oid of
            None \<Rightarrow> Inr c
          | Some bs \<Rightarrow> rassert (length bs > 0) (Inr (c\<lparr>fct_buffer := Some bs, fct_bufferLen := length bs\<rparr>)))
      | _ \<Rightarrow> Inl AssertFail))"

definition loadToBuffer :: "file_content \<Rightarrow> file_content res" where
  "loadToBuffer c = (case fct_source c of
      FileContentFs filename \<Rightarrow> (case fct_buffer c of Some _ \<Rightarrow> Inr c | None \<Rightarrow> Inl AssertFail)
    | FileContentGit loader \<Rightarrow> git_loadToBuffer loader c
    | FileContentBuffer \<Rightarrow> (case fct_buffer c of Some _ \<Rightarrow> Inr c | None \<Rightarrow> Inl AssertFail))"

definition getDataBuffer :: "file_content \<Rightarrow> (byte list option \<times> file_content) res" where
  "getDataBuffer c = rbind (if fct_buffer c = None then loadToBuffer c else Inr c) (\<lambda>c'. Inr (fct_buffer c', c'))"

definition getDataBufferLength :: "file_content \<Rightarrow> (nat \<times> file_content) res" where
  "getDataBufferLength c = rbind (if fct_buffer c = None then loadToBuffer c else Inr c) (\<lambda>c'. Inr (fct_bufferLen c', c'))"

text \<open>Writing truncates the file; without a buffer the length is 0.\<close>

definition writeBufferToFile :: "world \<Rightarrow> file_content \<Rightarrow> string \<Rightarrow> (file_content \<times> world) res" where
  "writeBufferToFile w c filename = rbind (loadToBuffer c) (\<lambda>c'.
     rassert (can_append w filename)
       (Inr (c', w\<lparr>w_files := (w_files w)(filename \<mapsto> (case fct_buffer c' of None \<Rightarrow> [] | Some bs \<Rightarrow> bs))\<rparr>)))"

definition gitBlobHashImpl :: "(byte list \<Rightarrow> git_oid) \<Rightarrow> world \<Rightarrow> file_content \<Rightarrow> git_oid option res" where
  "gitBlobHashImpl git_odb_hash w c = (case fct_source c of
      FileContentFs filename \<Rightarrow> Inr (map_option git_odb_hash (w_files w filename))
    | FileContentGit _ \<Rightarrow> Inr (fct_oid c)
    | FileContentBuffer \<Rightarrow> Inr (fct_oid c))"

definition gitBlobHash :: "(byte list \<Rightarrow> git_oid) \<Rightarrow> world \<Rightarrow> file_content \<Rightarrow> (git_oid option \<times> file_content) res" where
  "gitBlobHash git_odb_hash w c =
     rbind (if fct_oid c = None then rbind (gitBlobHashImpl git_odb_hash w c) (\<lambda>h. Inr (c\<lparr>fct_oid := h\<rparr>)) else Inr c)
       (\<lambda>c'. Inr (fct_oid c', c'))"

definition poFileRead ::
    "(string \<Rightarrow> po_file lib_outcome) \<Rightarrow> (byte list option \<Rightarrow> po_file lib_outcome) \<Rightarrow> sys_env \<Rightarrow> file_content \<Rightarrow>
     (proc, po_file option) sm" where
  "poFileRead lib_file lib_stdin env c = (case fct_source c of
      FileContentFs filename \<Rightarrow> if filename = [] then sm_fail (Throw (RuntimeError ''filename is empty''))
        else sm_lift (rbind (po_file_read (lib_file filename)) (\<lambda>po. Inr (Some po)))
    | FileContentGit loader \<Rightarrow> (case (loader, fct_oid c) of
        (Some blobLookup, Some oid) \<Rightarrow> (case blobLookup oid of
            None \<Rightarrow> sm_return None
          | Some bs \<Rightarrow> sm_bind (po_buffer_read lib_stdin env bs) (\<lambda>po. sm_return (Some po)))
      | _ \<Rightarrow> sm_fail AssertFail)
    | FileContentBuffer \<Rightarrow> (case fct_buffer c of
        None \<Rightarrow> sm_fail AssertFail
      | Some bs \<Rightarrow> sm_bind (po_buffer_read lib_stdin env bs) (\<lambda>po. sm_return (Some po))))"

text \<open>
  The same bytes give the same file, whether they come from a blob or from a buffer: a process that
  can open the pipe reads what the library makes of them.
\<close>

lemma poFileRead_buffer_or_blob:
  assumes "proc_ok p" "fd_handle p 0 = Some h" "3 \<le> free_fds p" "env_pid env = Some i"
    "i \<notin> fst ` set (children p)" "length bs \<le> env_written env" "po_file_read (lib_stdin (Some bs)) = Inr po"
    "c = new_content_buffer bs \<or> (c = new_content_git (Some blobLookup) oid \<and> blobLookup oid = Some bs)"
  shows "poFileRead lib_file lib_stdin env c p = (Inr (Some po), p\<lparr>pipes := pipes p @ [bs]\<rparr>)"
  using assms(8) po_buffer_read_eval[OF assms(1-6), of lib_stdin]
  by (auto simp: poFileRead_def new_content_buffer_def new_content_git_def sm_bind_def sm_simps assms(7))

text \<open>
  The blob hash is kept: once it is known the file is not looked at again. For a buffer it is
  computed and thrown away, and the null pointer is returned.
\<close>

lemma gitBlobHash_cached: "fct_oid c = Some h \<Longrightarrow> gitBlobHash f w c = Inr (Some h, c)"
  by (simp add: gitBlobHash_def)

lemma gitBlobHash_fs:
  "gitBlobHash f w (new_content_fs name) = Inr (h, c) \<Longrightarrow> h = map_option f (w_files w name)
    \<and> (h \<noteq> None \<longrightarrow> gitBlobHash f w' c = Inr (h, c))"
  by (auto simp: gitBlobHash_def new_content_fs_def gitBlobHashImpl_def)

lemma gitBlobHash_buffer: "gitBlobHash f w (new_content_buffer bs) = Inr (None, new_content_buffer bs)"
  by (simp add: gitBlobHash_def gitBlobHashImpl_def new_content_buffer_def)

end
