(* ===== verification/Config.thy ===== *)
theory Config
  imports CStrings
begin

text \<open>
  \<open>gtpo/config.cpp\<close>: the configuration file of \<open>key = value\<close> lines. An environment variable that is not
  set is \<open>None\<close>.
\<close>

definition strip_string :: "string \<Rightarrow> string" where
  "strip_string str = rev (dropWhile is_space (rev (dropWhile is_space str)))"

type_synonym config = "(string, string) omap"

text \<open>
  The loop that cuts newline characters off the end looks at \<open>buffer[strlen(buffer) - 1]\<close>, which
  is before the buffer when nothing is left.
\<close>

function cut_newlines :: "string \<Rightarrow> string res" where
  "cut_newlines s =
     (if s = [] then Inl OutOfBounds
      else if last s = CHR 0x0D \<or> last s = CHR 0x0A then cut_newlines (butlast s) else Inr s)"
  by pat_completeness auto
termination by (relation "measure length") auto

declare cut_newlines.simps [simp del]

definition loadLine :: "config \<Rightarrow> string \<Rightarrow> config res" where
  "loadLine conf line = rbind (cut_newlines line) (\<lambda>buffer.
     if buffer \<noteq> [] \<and> hd buffer = CHR ''#'' \<or> buffer = [] then Inr conf
     else (case cut_at CHR ''='' buffer of
         None \<Rightarrow> Inl AssertFail
       | Some (key, value) \<Rightarrow> Inr (om_set (strip_string key) (strip_string value) conf)))"

definition loadConfig :: "config \<Rightarrow> string \<Rightarrow> string option \<Rightarrow> config res" where
  "loadConfig conf filename contents = (case contents of
      None \<Rightarrow> Inl (Throw (RuntimeError (''Failed to open config file '' @ filename)))
    | Some text \<Rightarrow> rfold loadLine conf (map c_str (fgets_lines 2000 text)))"

definition expand_path :: "string option \<Rightarrow> string \<Rightarrow> string res" where
  "expand_path home path =
     (if path = ''~'' then (case home of None \<Rightarrow> Inl NullDeref | Some h \<Rightarrow> Inr h)
      else if length path \<ge> 2 \<and> take 2 path = ''~/'' then
        (case home of None \<Rightarrow> Inl NullDeref | Some h \<Rightarrow> Inr (h @ List.drop 1 path))
      else Inr path)"

text \<open>\<open>s_instance\<close> is the one instance, if it was made.\<close>

definition defaultInstance ::
    "string option \<Rightarrow> (string \<Rightarrow> string option) \<Rightarrow> config option \<Rightarrow> config res" where
  "defaultInstance home read_file s_instance = (case s_instance of
      Some c \<Rightarrow> Inr c
    | None \<Rightarrow> rbind (expand_path home ''~/.stupids.conf'') (\<lambda>filename. loadConfig [] filename (read_file filename)))"

definition config_get :: "config \<Rightarrow> string \<Rightarrow> string \<times> config" where
  "config_get conf key =
     (case map_of conf key of Some v \<Rightarrow> v | None \<Rightarrow> [], om_touch key [] conf)"

section \<open>What is read\<close>

definition setting_line :: "string \<times> string \<Rightarrow> string" where
  "setting_line s = fst s @ '' = '' @ snd s"

definition plain_setting :: "string \<times> string \<Rightarrow> bool" where
  "plain_setting s \<longleftrightarrow> fst s \<noteq> [] \<and> snd s \<noteq> [] \<and> hd (fst s) \<noteq> CHR ''#'' \<and> CHR ''='' \<notin> set (fst s)
     \<and> (\<forall>c \<in> set (fst s @ snd s). \<not> is_space c \<and> c \<noteq> CHR 0x00) \<and> length (setting_line s) < 1999"

lemma strip_plain: "\<forall>c \<in> set s. \<not> is_space c \<Longrightarrow> strip_string s = s"
proof -
  have drop: "dropWhile is_space xs = xs" if "\<forall>c \<in> set xs. \<not> is_space c" for xs
    using that by (cases xs) auto
  assume "\<forall>c \<in> set s. \<not> is_space c"
  then show ?thesis by (simp add: strip_string_def drop)
qed

lemma space_chars: "is_space CHR '' ''" "is_space CHR 0x0A" "is_space CHR 0x0D"
  by (simp_all add: is_space_def)

lemma loadLine_setting:
  assumes "plain_setting s"
  shows "loadLine conf (setting_line s @ [CHR 0x0A]) = Inr (om_set (fst s) (snd s) conf)"
proof -
  let ?k = "fst s" and ?v = "snd s"
  have chars: "\<forall>c \<in> set ?k. \<not> is_space c" "\<forall>c \<in> set ?v. \<not> is_space c" "?k \<noteq> []" "?v \<noteq> []" "CHR ''='' \<notin> set ?k" "hd ?k \<noteq> CHR ''#''"
    using assms by (auto simp: plain_setting_def)
  have last_v: "last ?v \<noteq> CHR 0x0A" "last ?v \<noteq> CHR 0x0D"
    using chars(2,4) last_in_set space_chars by metis+
  have "cut_newlines (setting_line s) = Inr (setting_line s)"
    using chars(4) last_v by (subst cut_newlines.simps) (simp add: setting_line_def)
  then have cut: "cut_newlines (setting_line s @ [CHR 0x0A]) = Inr (setting_line s)"
    by (subst cut_newlines.simps) simp
  have "cut_at CHR ''='' ((?k @ '' '') @ CHR ''='' # CHR '' '' # ?v) = Some (?k @ '' '', CHR '' '' # ?v)"
    using chars(5) by (intro cut_at_append) auto
  then have at: "cut_at CHR ''='' (setting_line s) = Some (?k @ '' '', CHR '' '' # ?v)"
    by (simp add: setting_line_def)
  have "strip_string (?k @ '' '') = ?k" "strip_string (CHR '' '' # ?v) = ?v"
    using strip_plain[OF chars(1)] strip_plain[OF chars(2)] chars(1,3) space_chars
    by (auto simp: strip_string_def dropWhile_append)
  moreover have "setting_line s \<noteq> []" "hd (setting_line s) \<noteq> CHR ''#''"
    using chars(3,6) by (auto simp: setting_line_def)
  ultimately show ?thesis using cut at by (simp add: loadLine_def)
qed

text \<open>
  From a file of lines \<open>key = value\<close> the configuration has for every key the value of its last
  line, and the empty string for every other key.
\<close>

theorem loadConfig_lookup:
  assumes "\<forall>s \<in> set ss. plain_setting s"
  shows "\<exists>conf. loadConfig [] filename (Some (as_lines (map setting_line ss))) = Inr conf
    \<and> (\<forall>key. fst (config_get conf key) = (case map_of (rev ss) key of Some v \<Rightarrow> v | None \<Rightarrow> []))"
proof -
  have nl: "CHR 0x0A \<notin> set (setting_line s)" "CHR 0x00 \<notin> set (setting_line s)" if "plain_setting s" for s
    using that space_chars by (auto simp: plain_setting_def setting_line_def)
  have "fgets_lines 2000 (as_lines (map setting_line ss)) = map (\<lambda>l. l @ [CHR 0x0A]) (map setting_line ss)"
    by (rule fgets_as_lines) (use assms nl(1) in \<open>auto simp: plain_setting_def\<close>)
  then have lines: "map c_str (fgets_lines 2000 (as_lines (map setting_line ss))) = map (\<lambda>s. setting_line s @ [CHR 0x0A]) ss"
    using assms nl(2) by (auto intro!: c_str_id)
  have "\<exists>conf. rfold loadLine conf0 (map (\<lambda>s. setting_line s @ [CHR 0x0A]) ss) = Inr conf
    \<and> map_of conf = map_of conf0 ++ map_of (rev ss)" for conf0
    using assms
  proof (induction ss arbitrary: conf0)
    case Nil
    then show ?case by simp
  next
    case (Cons s ss)
    obtain conf where "rfold loadLine (om_set (fst s) (snd s) conf0) (map (\<lambda>s. setting_line s @ [CHR 0x0A]) ss) = Inr conf"
        "map_of conf = map_of (om_set (fst s) (snd s) conf0) ++ map_of (rev ss)"
      using Cons.IH[of "om_set (fst s) (snd s) conf0"] Cons.prems by auto
    then show ?case
      using loadLine_setting[of s conf0] Cons.prems
      by (auto simp: map_of_om_set map_add_def fun_eq_iff split: option.splits)
  qed
  from this[of "[]"] show ?thesis by (auto simp: loadConfig_def lines config_get_def)
qed

theorem loadConfig_lookup_witness:
  "\<exists>conf. loadConfig [] ''x'' (Some (as_lines (map setting_line [(''a'', ''1''), (''b'', ''2''), (''a'', ''3'')]))) = Inr conf
    \<and> (\<forall>key. fst (config_get conf key) = (case map_of (rev [(''a'', ''1''), (''b'', ''2''), (''a'', ''3'')]) key of Some v \<Rightarrow> v | None \<Rightarrow> []))"
  by (rule loadConfig_lookup) (simp add: plain_setting_def setting_line_def is_space_def)

text \<open>
  An empty line in the configuration file makes \<open>loadLine\<close> read before its buffer.
\<close>

theorem empty_line_out_of_bounds:
  "loadConfig conf filename (Some (CHR 0x0A # rest)) = Inl OutOfBounds"
  by (simp add: loadConfig_def fgets_lines.simps eval_nat_numeral c_str_def loadLine_def cut_newlines.simps)

end
