(* ===== verification/GitLoad.thy ===== *)
theory GitLoad
  imports Repository OidCache Client
begin

text \<open>
  \<open>gtpo/gitloader.cpp\<close>: several repositories as one, the search for the oldest file with a template
  hash, and the IDs of all messages of the current trees. The template hash of a file is computed
  by a function that the sources call and do not define: a parameter, from the ID of a blob.
\<close>

type_synonym disk = "string \<Rightarrow> git_dir option"

definition loader_addRepository :: "repository list \<Rightarrow> string \<Rightarrow> repository list" where
  "loader_addRepository repos git_dir = repos @ [new_repository git_dir]"

fun loader_blobLookup :: "disk \<Rightarrow> repository list \<Rightarrow> git_oid \<Rightarrow> (byte list option \<times> repository list) res" where
  "loader_blobLookup disk [] oid = Inr (None, [])"
| "loader_blobLookup disk (r # rs) oid = rbind (blobLookup disk r oid) (\<lambda>(b, r').
     case b of
       Some bs \<Rightarrow> Inr (Some bs, r' # rs)
     | None \<Rightarrow> rbind (loader_blobLookup disk rs oid) (\<lambda>(b', rs'). Inr (b', r' # rs')))"

section \<open>The oldest file with a template hash\<close>

text \<open>\<open>name.substr(name.size() - 3)\<close> throws for a shorter name: the position wraps around.\<close>

definition has_po_suffix :: "string \<Rightarrow> bool res" where
  "has_po_suffix name = (if length name < 3 then Inl (Throw StdOutOfRange)
     else Inr (List.drop (length name - 3) name = ''.po''))"

fun oldest_in_changes :: "(git_oid \<Rightarrow> git_oid res) \<Rightarrow> git_oid \<Rightarrow> file_change list \<Rightarrow> git_oid option res" where
  "oldest_in_changes getTpHash tp_hash [] = Inr None"
| "oldest_in_changes getTpHash tp_hash (ch # chs) = rbind (has_po_suffix (fc_name ch)) (\<lambda>po.
     if \<not> po then oldest_in_changes getTpHash tp_hash chs
     else (case tryOid2 ch of
         None \<Rightarrow> oldest_in_changes getTpHash tp_hash chs
       | Some oid \<Rightarrow> rbind (getTpHash oid) (\<lambda>h.
           if \<not> oid_isNull h \<and> oid_eq tp_hash h then Inr (Some oid)
           else oldest_in_changes getTpHash tp_hash chs)))"

fun oldest_in_commits :: "(git_oid \<Rightarrow> git_oid res) \<Rightarrow> git_oid \<Rightarrow> commit list \<Rightarrow> git_oid option res" where
  "oldest_in_commits getTpHash tp_hash [] = Inr None"
| "oldest_in_commits getTpHash tp_hash (c # cs) = rbind (oldest_in_changes getTpHash tp_hash (c_changes c)) (\<lambda>o1.
     case o1 of Some oid \<Rightarrow> Inr (Some oid) | None \<Rightarrow> oldest_in_commits getTpHash tp_hash cs)"

fun oldest_in_repos ::
    "disk \<Rightarrow> (git_oid \<Rightarrow> git_oid res) \<Rightarrow> git_oid \<Rightarrow> repository list \<Rightarrow> (git_oid option \<times> repository list) res" where
  "oldest_in_repos disk getTpHash tp_hash [] = Inr (None, [])"
| "oldest_in_repos disk getTpHash tp_hash (r # rs) = rbind (readRepositoryCommits disk r) (\<lambda>r'.
     rbind (oldest_in_commits getTpHash tp_hash (r_commits r')) (\<lambda>o1.
     case o1 of
       Some oid \<Rightarrow> Inr (Some oid, r' # rs)
     | None \<Rightarrow> rbind (oldest_in_repos disk getTpHash tp_hash rs) (\<lambda>(o2, rs'). Inr (o2, r' # rs'))))"

text \<open>The caches and the file system are the state besides the repositories.\<close>

record loader_state =
  ls_repos :: "repository list"
  ls_instances :: "(string, oid_map_cache) omap"
  ls_world :: world

definition oldest_cache :: string where
  "oldest_cache = ''lang_ru_oldest_oid''"

definition findOldestByTphash_oid ::
    "string option \<Rightarrow> disk \<Rightarrow> (git_oid \<Rightarrow> git_oid res) \<Rightarrow> loader_state \<Rightarrow> git_oid \<Rightarrow> (git_oid \<times> loader_state) res" where
  "findOldestByTphash_oid home disk getTpHash s tp_hash =
     rbind (cache_instance home (ls_world s) (ls_instances s) oldest_cache) (\<lambda>(cache, inst, w).
     let s1 = s\<lparr>ls_instances := inst, ls_world := w\<rparr>; cached_oid = getValue cache tp_hash in
     if \<not> oid_isNull cached_oid then Inr (cached_oid, s1)
     else rbind (oldest_in_repos disk getTpHash tp_hash (ls_repos s)) (\<lambda>(found, repos).
       case found of
         None \<Rightarrow> Inr (oid_zero, s1\<lparr>ls_repos := repos\<rparr>)
       | Some oid \<Rightarrow> rbind (addPair w cache tp_hash oid) (\<lambda>(cache', w').
           Inr (oid, \<lparr>ls_repos = repos, ls_instances = om_set oldest_cache cache' inst, ls_world = w'\<rparr>))))"

text \<open>The ID of the content that is made, if any.\<close>

definition findOldestByTphash ::
    "string option \<Rightarrow> disk \<Rightarrow> (git_oid \<Rightarrow> git_oid res) \<Rightarrow> loader_state \<Rightarrow> git_oid \<Rightarrow> (git_oid option \<times> loader_state) res" where
  "findOldestByTphash home disk getTpHash s tp_hash =
     rbind (findOldestByTphash_oid home disk getTpHash s tp_hash) (\<lambda>(oid, s').
       Inr (if oid_isNull oid then None else Some oid, s'))"

section \<open>The IDs of all current messages\<close>

fun current_oids :: "disk \<Rightarrow> repository list \<Rightarrow> (git_oid list \<times> repository list) res option" where
  "current_oids disk [] = Some (Inr ([], []))"
| "current_oids disk (r # rs) = (case getCurrentOids disk r of
      None \<Rightarrow> None
    | Some (Inl e) \<Rightarrow> Some (Inl e)
    | Some (Inr (oids, r')) \<Rightarrow> (case current_oids disk rs of
        None \<Rightarrow> None
      | Some (Inl e) \<Rightarrow> Some (Inl e)
      | Some (Inr (oids', rs')) \<Rightarrow> Some (Inr (oids @ oids', r' # rs'))))"

definition known_hash :: "(git_oid \<Rightarrow> git_oid res) \<Rightarrow> git_oid \<Rightarrow> git_oid res" where
  "known_hash getTpHash oid = rbind (getTpHash oid) (\<lambda>h. rassert (\<not> oid_isNull h) (Inr h))"

fun ids_of_pairs :: "(int \<times> int) list \<Rightarrow> int list res" where
  "ids_of_pairs [] = Inr []"
| "ids_of_pairs ((first_id, id_count) # ps) =
     (if first_id = 0 then ids_of_pairs ps
      else rassert (id_count \<ge> 0)
        (rbind (ids_of_pairs ps) (\<lambda>is. Inr ([first_id..first_id + id_count - 1] @ is))))"

definition getCurrentIdsVector ::
    "disk \<Rightarrow> (git_oid \<Rightarrow> git_oid res) \<Rightarrow> repository list \<Rightarrow> client \<Rightarrow> (int list res \<times> repository list \<times> client) option" where
  "getCurrentIdsVector disk getTpHash repos cl = (case current_oids disk repos of
      None \<Rightarrow> None
    | Some (Inl e) \<Rightarrow> Some (Inl e, repos, cl)
    | Some (Inr (oids, repos')) \<Rightarrow> (case rmap (known_hash getTpHash) oids of
        Inl e \<Rightarrow> Some (Inl e, repos', cl)
      | Inr tp_hashes \<Rightarrow> (case getFirstIdPairs tp_hashes cl of
          (Inl e, cl') \<Rightarrow> Some (Inl e, repos', cl')
        | (Inr first_ids, cl') \<Rightarrow> Some (ids_of_pairs first_ids, repos', cl'))))"

section \<open>Facts\<close>

text \<open>The first change, in the order of repositories, commits and changes, whose file has the hash.\<close>

definition po_oids :: "commit \<Rightarrow> git_oid list" where
  "po_oids c = List.map_filter (\<lambda>ch. if List.drop (length (fc_name ch) - 3) (fc_name ch) = ''.po'' then tryOid2 ch else None) (c_changes c)"

lemma oldest_in_changes_find:
  assumes "\<forall>ch \<in> set chs. 3 \<le> length (fc_name ch)" "\<And>oid. getTpHash oid = Inr (hash oid)"
    "\<And>oid. oid_ok (hash oid)" "oid_ok tp_hash" "tp_hash \<noteq> oid_zero"
  shows "oldest_in_changes getTpHash tp_hash chs
    = Inr (List.find (\<lambda>oid. hash oid = tp_hash) (List.map_filter
        (\<lambda>ch. if List.drop (length (fc_name ch) - 3) (fc_name ch) = ''.po'' then tryOid2 ch else None) chs))"
  using assms(1)
proof (induction chs)
  case Nil
  then show ?case by (simp add: map_filter_simps)
next
  case (Cons ch chs)
  have null: "oid_isNull (hash oid) \<longleftrightarrow> hash oid = oid_zero" "oid_eq tp_hash (hash oid) \<longleftrightarrow> tp_hash = hash oid" for oid
    using assms(3)[of oid] assms(4) by (simp_all add: oid_isNull_iff)
  show ?case
    using Cons assms(2,5) null by (auto simp: has_po_suffix_def map_filter_simps split: option.splits)
qed

lemma find_append: "List.find P (xs @ ys) = (case List.find P xs of Some x \<Rightarrow> Some x | None \<Rightarrow> List.find P ys)"
  by (induction xs) auto

lemma oldest_in_commits_find:
  assumes "\<forall>c \<in> set cs. \<forall>ch \<in> set (c_changes c). 3 \<le> length (fc_name ch)" "\<And>oid. getTpHash oid = Inr (hash oid)"
    "\<And>oid. oid_ok (hash oid)" "oid_ok tp_hash" "tp_hash \<noteq> oid_zero"
  shows "oldest_in_commits getTpHash tp_hash cs = Inr (List.find (\<lambda>oid. hash oid = tp_hash) (concat (map po_oids cs)))"
  using assms(1)
proof (induction cs)
  case Nil
  then show ?case by simp
next
  case (Cons c cs)
  have "oldest_in_changes getTpHash tp_hash (c_changes c) = Inr (List.find (\<lambda>oid. hash oid = tp_hash) (po_oids c))"
    unfolding po_oids_def by (rule oldest_in_changes_find) (use Cons.prems assms in auto)
  then show ?case using Cons by (auto simp: find_append split: option.splits)
qed

end
