(* ===== verification/TrDb.thy ===== *)
theory TrDb
  imports IdMap PoMessages CStrings
begin

text \<open>
  \<open>tools/impl/tryfilltr.cpp\<close>: a database of translations in two mapped files. The file of strings
  begins with its length; in it the messages of every ID are a linked list: a record has the offset
  of the next record (8 bytes), that of its commit (8), the fuzzy flag and the number of plural
  forms (1 each), the comments and the forms, as strings that end in NUL. The file of offsets has at
  8 times the ID the offset of the first record, or 0. \<open>trdb_offset\<close> is a 64-bit integer.
\<close>

section \<open>Values in a mapped file\<close>

type_synonym u64 = "64 word"

definition le64 :: "u64 \<Rightarrow> byte list" where
  "le64 w = le32 (ucast w) @ le32 (ucast (drop_bit 32 w))"

definition read_u32 :: "mapped_file \<Rightarrow> nat \<Rightarrow> u32" where
  "read_u32 f p = of_bytes (mf_data f (p + 3)) (mf_data f (p + 2)) (mf_data f (p + 1)) (mf_data f p)"

definition read_off :: "mapped_file \<Rightarrow> nat \<Rightarrow> u64" where
  "read_off f p = push_bit 32 (ucast (read_u32 f (p + 4))) OR ucast (read_u32 f p)"

text \<open>\<open>memcpy\<close> into the mapping.\<close>

definition write_bytes :: "mapped_file \<Rightarrow> nat \<Rightarrow> byte list \<Rightarrow> mapped_file" where
  "write_bytes f p bs = f\<lparr>mf_data := (\<lambda>i. if p \<le> i \<and> i < p + length bs then bs ! (i - p) else mf_data f i)\<rparr>"

text \<open>The C string at an address; running off the mapping is out of bounds.\<close>

function read_cstr :: "mapped_file \<Rightarrow> nat \<Rightarrow> string res" where
  "read_cstr f p =
     (if m_fileLength f \<le> p then Inl OutOfBounds
      else if mf_data f p = 0 then Inr []
      else rbind (read_cstr f (p + 1)) (\<lambda>s. Inr (char_of (unat (mf_data f p)) # s)))"
  by pat_completeness auto
termination by (relation "measure (\<lambda>(f, p). m_fileLength f - p)") auto

declare read_cstr.simps [simp del]

definition cstr_bytes :: "string \<Rightarrow> byte list" where
  "cstr_bytes s = map of_char (c_str s) @ [0]"

section \<open>\<open>TrDbOffsets\<close>\<close>

text \<open>\<open>sizeof(trdb_offset) * msg_id\<close> is computed in \<open>size_t\<close>.\<close>

definition offset_pos :: "int \<Rightarrow> nat" where
  "offset_pos msg_id = nat ((8 * msg_id) mod 2 ^ 64)"

definition writeOffset :: "mapped_file \<Rightarrow> int \<Rightarrow> u64 \<Rightarrow> mapped_file res" where
  "writeOffset f msg_id offset =
     rbind (mf_ptr f (offset_pos msg_id) 8) (\<lambda>f'. Inr (write_bytes f' (offset_pos msg_id) (le64 offset)))"

definition readOffset :: "mapped_file \<Rightarrow> int \<Rightarrow> u64 res" where
  "readOffset f msg_id =
     (if offset_pos (msg_id + 1) > m_fileLength f then Inr 0
      else rbind (mf_ptrConst f (offset_pos msg_id) 8) (\<lambda>p. Inr (read_off f p)))"

section \<open>\<open>TrDbStrings\<close>\<close>

definition open_strings :: "mapped_file \<Rightarrow> mapped_file res" where
  "open_strings f = rbind (mf_ptr f 0 8) (\<lambda>f1.
     if read_off f1 0 = 0 then rbind (mf_ptr f1 0 8) (\<lambda>f2. Inr (write_bytes f2 0 (le64 8))) else Inr f1)"

definition actualLength :: "mapped_file \<Rightarrow> u64 res" where
  "actualLength f = rbind (mf_ptrConst f 0 8) (\<lambda>p. Inr (read_off f p))"

definition strings_append :: "mapped_file \<Rightarrow> byte list \<Rightarrow> mapped_file res" where
  "strings_append f bs =
     rbind (actualLength f) (\<lambda>n.
     rbind (mf_ptr f (unat n) (length bs)) (\<lambda>f1.
     let f2 = write_bytes f1 (unat n) bs in
     rbind (mf_ptr f2 0 8) (\<lambda>f3. Inr (write_bytes f3 0 (le64 (read_off f3 0 + of_nat (length bs)))))))"

section \<open>\<open>CommitInfo\<close>\<close>

text \<open>\<open>m_dbOffset\<close> has no value before \<open>write\<close>.\<close>

record commit_info =
  ci_commitId :: string
  ci_author :: string
  ci_date :: u64
  ci_writtenToDb :: bool
  ci_dbOffset :: "u64 option"

definition new_commit_info :: "string \<Rightarrow> string \<Rightarrow> u64 \<Rightarrow> commit_info" where
  "new_commit_info commit_id author date =
     \<lparr>ci_commitId = commit_id, ci_author = author, ci_date = date, ci_writtenToDb = False, ci_dbOffset = None\<rparr>"

definition commit_write :: "commit_info \<Rightarrow> mapped_file \<Rightarrow> (commit_info \<times> mapped_file) res" where
  "commit_write ci f =
     rbind (actualLength f) (\<lambda>offset.
     rbind (strings_append f (le64 (ci_date ci))) (\<lambda>f1.
     rbind (strings_append f1 (cstr_bytes (ci_commitId ci))) (\<lambda>f2.
     rbind (strings_append f2 (cstr_bytes (ci_author ci))) (\<lambda>f3.
       Inr (ci\<lparr>ci_dbOffset := Some offset, ci_writtenToDb := True\<rparr>, f3)))))"

definition commit_dbOffset :: "commit_info \<Rightarrow> u64 res" where
  "commit_dbOffset ci = (case ci_dbOffset ci of Some x \<Rightarrow> Inr x | None \<Rightarrow> Inl Uninitialized)"

section \<open>\<open>TrDb\<close>\<close>

record trdb =
  td_offsets :: mapped_file
  td_strings :: mapped_file

text \<open>The file names are copied into buffers of 200 bytes; \<open>disk\<close> is what the files hold.\<close>

definition new_trdb :: "(string \<Rightarrow> mapped_file) \<Rightarrow> string \<Rightarrow> trdb res" where
  "new_trdb disk db_dir =
     (if length db_dir + length ''/offsets.mmapdb'' \<ge> 200 then Inl OutOfBounds
      else rbind (open_strings (disk (db_dir @ ''/strings.mmapdb''))) (\<lambda>strings.
        Inr \<lparr>td_offsets = disk (db_dir @ ''/offsets.mmapdb''), td_strings = strings\<rparr>))"

text \<open>A \<open>char\<close> is signed.\<close>

definition plurals_char :: "message \<Rightarrow> byte" where
  "plurals_char msg = (if isPlural msg then of_nat (numPlurals msg) else 0)"

definition writeMessage :: "mapped_file \<Rightarrow> commit_info \<Rightarrow> message \<Rightarrow> (u64 \<times> mapped_file) res" where
  "writeMessage f ci msg =
     rbind (actualLength f) (\<lambda>offset.
     rbind (commit_dbOffset ci) (\<lambda>commit_info_offset.
     rbind (strings_append f (le64 0)) (\<lambda>f1.
     rbind (strings_append f1 (le64 commit_info_offset)) (\<lambda>f2.
     rbind (strings_append f2 [if isFuzzy msg then 1 else 0]) (\<lambda>f3.
     rbind (strings_append f3 [plurals_char msg]) (\<lambda>f4.
     rbind (os_c_str (m_msgcomments msg)) (\<lambda>comments.
     rbind (strings_append f4 (cstr_bytes comments)) (\<lambda>f5.
     rbind (rfold (\<lambda>f i. rbind (msgstr msg i) (\<lambda>s. rbind (os_c_str s) (\<lambda>str.
         strings_append f (cstr_bytes str)))) f5 [0..<numPlurals msg]) (\<lambda>f6.
       Inr (offset, f6))))))))))"

definition listNext :: "mapped_file \<Rightarrow> u64 \<Rightarrow> u64 res" where
  "listNext f offset = rbind (mf_ptrConst f (unat offset) 8) (\<lambda>p. Inr (read_off f p))"

text \<open>A list with a cycle has no end.\<close>

partial_function (option) listLast :: "mapped_file \<Rightarrow> u64 \<Rightarrow> u64 res option" where
  "listLast f offset = (case listNext f offset of
      Inl e \<Rightarrow> Some (Inl e)
    | Inr next_offset \<Rightarrow> if next_offset \<noteq> 0 then listLast f next_offset else Some (Inr offset))"

definition listAppendMessage :: "mapped_file \<Rightarrow> u64 \<Rightarrow> commit_info \<Rightarrow> message \<Rightarrow> mapped_file res option" where
  "listAppendMessage f offset ci msg = (case writeMessage f ci msg of
      Inl e \<Rightarrow> Some (Inl e)
    | Inr (offset_new, f1) \<Rightarrow> (case listLast f1 offset of
        None \<Rightarrow> None
      | Some (Inl e) \<Rightarrow> Some (Inl e)
      | Some (Inr offset_last) \<Rightarrow> Some (rbind (mf_ptr f1 (unat offset_last) 8) (\<lambda>f2.
          Inr (write_bytes f2 (unat offset_last) (le64 offset_new))))))"

definition addIdMessage :: "trdb \<Rightarrow> int \<Rightarrow> commit_info \<Rightarrow> message \<Rightarrow> trdb res option" where
  "addIdMessage db msg_id ci msg = (case readOffset (td_offsets db) msg_id of
      Inl e \<Rightarrow> Some (Inl e)
    | Inr offset \<Rightarrow>
        if offset = 0 then
          Some (rbind (writeMessage (td_strings db) ci msg) (\<lambda>(offset, strings).
            rbind (writeOffset (td_offsets db) msg_id offset) (\<lambda>offsets.
              Inr (db\<lparr>td_offsets := offsets, td_strings := strings\<rparr>))))
        else (case listAppendMessage (td_strings db) offset ci msg of
            None \<Rightarrow> None
          | Some r \<Rightarrow> Some (rbind r (\<lambda>strings. Inr (db\<lparr>td_strings := strings\<rparr>)))))"

text \<open>One record; \<open>ptr\<close> may extend the file.\<close>

definition read_message :: "mapped_file \<Rightarrow> u64 \<Rightarrow> (message \<times> mapped_file) res" where
  "read_message f offset =
     rbind (mf_ptrConst f (unat (offset + 16)) 1) (\<lambda>p1.
     rbind (mf_ptrConst f (unat (offset + 17)) 1) (\<lambda>p2.
     rbind (mf_ptr f (unat (offset + 18)) 1) (\<lambda>f'.
     let p = unat (offset + 18) in
     rbind (read_cstr f' p) (\<lambda>comments.
     let msg = message_of_counts (mf_data f p1 = 1) (sint (mf_data f p2)) comments in
     rbind (rfold (\<lambda>(m, p) i. rbind (read_cstr f' p) (\<lambda>prev.
         let p' = p + length prev + 1 in
         rbind (read_cstr f' p') (\<lambda>s. rbind (setMsgstr m i (os_of_string s)) (\<lambda>m'. Inr (m', p')))))
       (msg, p) [0..<numPlurals msg]) (\<lambda>(m, p). Inr (m, f'))))))"

partial_function (option) messages_loop :: "mapped_file \<Rightarrow> u64 \<Rightarrow> message list \<Rightarrow> (message list \<times> mapped_file) res option" where
  "messages_loop f offset res = (if offset = 0 then Some (Inr (res, f)) else
     case read_message f offset of
       Inl e \<Rightarrow> Some (Inl e)
     | Inr (msg, f') \<Rightarrow> (case listNext f' offset of
         Inl e \<Rightarrow> Some (Inl e)
       | Inr next_offset \<Rightarrow> messages_loop f' next_offset (res @ [msg])))"

definition getMessages :: "trdb \<Rightarrow> int \<Rightarrow> (message list \<times> trdb) res option" where
  "getMessages db msg_id = (case readOffset (td_offsets db) msg_id of
      Inl e \<Rightarrow> Some (Inl e)
    | Inr offset \<Rightarrow> (case messages_loop (td_strings db) offset [] of
        None \<Rightarrow> None
      | Some r \<Rightarrow> Some (rbind r (\<lambda>(ms, strings). Inr (ms, db\<lparr>td_strings := strings\<rparr>)))))"

section \<open>The tool\<close>

text \<open>What it prints: comments, the form 0 and the flag of every message of ID 100.\<close>

definition tool_lines :: "message \<Rightarrow> (string \<times> string \<times> bool) res" where
  "tool_lines m = rbind (os_c_str (m_msgcomments m)) (\<lambda>c. rbind (msgstr m 0) (\<lambda>s. rbind (os_c_str s) (\<lambda>str.
     Inr (c, str, isFuzzy m))))"

definition try_fill_db :: "(string \<Rightarrow> mapped_file) \<Rightarrow> (trdb \<times> commit_info) res" where
  "try_fill_db disk = rbind (new_trdb disk ''.'') (\<lambda>db.
     rbind (commit_write (new_commit_info ''SVN r123'' ''me'' (- 1)) (td_strings db)) (\<lambda>(ci, strings).
       Inr (db\<lparr>td_strings := strings\<rparr>, ci)))"

definition toolTryFillTranslations :: "(string \<Rightarrow> mapped_file) \<Rightarrow> (string \<times> string \<times> bool) list res option" where
  "toolTryFillTranslations disk =
     (let comments = ''translators'' @ [CHR 0x27] @ ''-comments-for-message'' in
      case rbind (try_fill_db disk) (\<lambda>(db, ci).
          rbind (message_of_msgstr0 True comments ''translation-of-message'' 0) (\<lambda>m1.
          rbind (message_of_msgstr0 False comments ''translation-of-message'' 1) (\<lambda>m2. Inr (db, ci, m1, m2)))) of
        Inl e \<Rightarrow> Some (Inl e)
      | Inr (db, ci, m1, m2) \<Rightarrow> (case addIdMessage db 100 ci m1 of
          None \<Rightarrow> None
        | Some (Inl e) \<Rightarrow> Some (Inl e)
        | Some (Inr db1) \<Rightarrow> (case addIdMessage db1 100 ci m2 of
            None \<Rightarrow> None
          | Some (Inl e) \<Rightarrow> Some (Inl e)
          | Some (Inr db2) \<Rightarrow> (case getMessages db2 100 of
              None \<Rightarrow> None
            | Some r \<Rightarrow> Some (rbind r (\<lambda>(ms, db3). rmap tool_lines ms))))))"

end
