(* ===== verification/TrDbFacts.thy ===== *)
theory TrDbFacts
  imports TrDb
begin

text \<open>
  Messages that are added to the database of translations come back in the order they were added
  to their ID: the linked lists in the file of strings never share bytes, so that appending to one
  keeps the others.
\<close>

section \<open>Bytes\<close>

lemma le32_nth: "le32 w ! 0 = ucast w" "le32 w ! Suc 0 = ucast (drop_bit 8 w)"
  "le32 w ! 2 = ucast (drop_bit 16 w)" "le32 w ! 3 = ucast (drop_bit 24 w)"
  by (simp_all add: le32_def)

lemma length_le32 [simp]: "length (le32 w) = 4"
  by (simp add: le32_def)

lemma length_le64 [simp]: "length (le64 w) = 8"
  by (simp add: le64_def)

lemma le64_nth:
  "i < 4 \<Longrightarrow> le64 w ! i = le32 (ucast w) ! i" "i < 4 \<Longrightarrow> le64 w ! (4 + i) = le32 (ucast (drop_bit 32 w)) ! i"
  by (simp_all add: le64_def nth_append)

lemma join_64: "push_bit 32 (ucast (ucast (drop_bit 32 w) :: u32)) OR ucast (ucast w :: u32) = (w :: u64)"
proof (rule bit_word_eqI)
  fix n assume "n < LENGTH(64)"
  then consider "n < 32" | "32 \<le> n" "n < 64" by fastforce
  then show "bit (push_bit 32 (ucast (ucast (drop_bit 32 w) :: u32)) OR ucast (ucast w :: u32) :: u64) n = bit w n"
    by cases (auto simp: bit_simps)
qed

definition holds :: "mapped_file \<Rightarrow> nat \<Rightarrow> byte list \<Rightarrow> bool" where
  "holds f p bs \<longleftrightarrow> (\<forall>i < length bs. mf_data f (p + i) = bs ! i)"

lemma all_less_add: "(\<forall>i < a + b. P i) \<longleftrightarrow> (\<forall>i < a. P i) \<and> (\<forall>i < (b :: nat). P (a + i))"
proof (intro iffI conjI allI impI)
  fix i assume "(\<forall>i < a. P i) \<and> (\<forall>i < b. P (a + i))" "i < a + b"
  then show "P i" by (cases "i < a") (auto dest: spec[of _ "i - a"])
qed auto

lemma holds_append: "holds f p (xs @ ys) \<longleftrightarrow> holds f p xs \<and> holds f (p + length xs) ys"
  by (simp add: holds_def all_less_add nth_append add.assoc)

lemma holds_Cons: "holds f p (b # bs) \<longleftrightarrow> mf_data f p = b \<and> holds f (p + 1) bs"
  using holds_append[of f p "[b]" bs] by (simp add: holds_def)

lemma holds_same: "holds f p bs \<Longrightarrow> (\<And>i. p \<le> i \<Longrightarrow> i < p + length bs \<Longrightarrow> mf_data f' i = mf_data f i) \<Longrightarrow> holds f' p bs"
  by (simp add: holds_def)

lemma holds_write: "holds (write_bytes f p bs) p bs"
  by (simp add: holds_def write_bytes_def)

lemma holds_read: "holds f p (le64 w) \<Longrightarrow> read_off f p = w"
proof -
  assume h: "holds f p (le64 w)"
  have lo: "mf_data f (p + i) = le32 (ucast w) ! i" if "i < 4" for i
    using h that by (auto simp: holds_def le64_nth)
  have hi: "mf_data f (p + 4 + i) = le32 (ucast (drop_bit 32 w)) ! i" if "i < 4" for i
    using h that by (auto simp: holds_def le64_nth(2)[symmetric] add.assoc)
  have "read_u32 f p = ucast w"
    using lo[of 0] lo[of 1] lo[of 2] lo[of 3] by (simp add: read_u32_def le32_nth of_bytes_parts)
  moreover have "read_u32 f (p + 4) = ucast (drop_bit 32 w)"
    using hi[of 0] hi[of 1] hi[of 2] hi[of 3] by (simp add: read_u32_def le32_nth of_bytes_parts)
  ultimately show ?thesis by (simp add: read_off_def join_64)
qed

lemma read_same: "(\<And>i. p \<le> i \<Longrightarrow> i < p + 8 \<Longrightarrow> mf_data f' i = mf_data f i) \<Longrightarrow> read_off f' p = read_off f p"
  by (simp add: read_off_def read_u32_def)

lemma write_bytes_simps [simp]: "m_fileLength (write_bytes f p bs) = m_fileLength f"
  "i < p \<or> p + length bs \<le> i \<Longrightarrow> mf_data (write_bytes f p bs) i = mf_data f i"
  by (auto simp: write_bytes_def)

lemma mf_ptr_ok:
  assumes "1 \<le> n"
  shows "\<exists>f'. mf_ptr f p n = Inr f' \<and> p + n \<le> m_fileLength f' \<and> m_fileLength f \<le> m_fileLength f'
    \<and> (\<forall>i < m_fileLength f. mf_data f' i = mf_data f i)
    \<and> (\<forall>i. m_fileLength f \<le> i \<and> i < m_fileLength f' \<longrightarrow> mf_data f' i = 0)
    \<and> (m_fileLength f mod 8 = 0 \<longrightarrow> m_fileLength f' mod 8 = 0) \<and> (p + n \<le> m_fileLength f \<longrightarrow> f' = f)"
proof (cases "p + n > m_fileLength f")
  case True
  define s where "s = (p + n + 0xFFFFF) div 0x100000 * 0x100000"
  have "p + n + 0xFFFFF < s + 0x100000"
    unfolding s_def using div_mult_mod_eq[of "p + n + 0xFFFFF" "0x100000"] mod_less_divisor[of "0x100000" "p + n + 0xFFFFF"]
    by linarith
  then have le: "p + n \<le> s" by simp
  have "s = 8 * ((p + n + 0xFFFFF) div 0x100000 * 0x20000)" by (simp add: s_def)
  then have "s mod 8 = 0" by (metis mod_mult_self1_is_0)
  moreover have "mf_ptr f p n = Inr (mf_expand f s)"
    using True assms by (simp add: mf_ptr_def Let_def rassert_def s_def[symmetric] mf_expand_def)
      (use le in linarith)
  ultimately show ?thesis using True le by (simp add: mf_expand_def)
next
  case False
  then have "mf_ptr f p n = Inr f" using assms by (simp add: mf_ptr_def rassert_def)
  then show ?thesis using False by auto
qed

lemma read_cstr_holds:
  assumes "holds f p (cstr_bytes s)" "p + length (cstr_bytes s) \<le> m_fileLength f"
  shows "read_cstr f p = Inr (c_str s)"
proof -
  have nz: "CHR 0x00 \<notin> set (c_str s)" by (auto simp: c_str_def dest: set_takeWhileD)
  have "read_cstr f p = Inr t" if "CHR 0x00 \<notin> set t" "holds f p (map of_char t @ [0])" "p + length t < m_fileLength f" for t
    using that
  proof (induction t arbitrary: p)
    case Nil
    then show ?case by (subst read_cstr.simps) (simp add: holds_def)
  next
    case (Cons c t)
    have "holds f (p + 1) (map of_char t @ [0])"
      using Cons.prems(2) holds_append[of f p "[of_char c]" "map of_char t @ [0]"] by simp
    then have t: "read_cstr f (p + 1) = Inr t" using Cons by simp
    have c: "mf_data f p = of_char c" using Cons.prems(2) by (auto simp: holds_def)
    moreover have u: "unat (of_char c :: byte) = of_char c"
    proof -
      have "(of_char c :: byte) = of_nat (of_char c)" by (simp add: of_nat_of_char)
      then show ?thesis by (simp only: unat_of_nat) simp
    qed
    moreover have "(of_char c :: byte) \<noteq> 0"
    proof
      assume "(of_char c :: byte) = 0"
      then have "(of_char c :: nat) = 0" using u by simp
      then have "c = char_of (0 :: nat)" by (metis char_of_char)
      then show False using Cons.prems(1) by (simp add: char_of_def)
    qed
    ultimately show ?case using t Cons.prems(3) by (subst read_cstr.simps) simp
  qed
  from this[of "c_str s"] nz assms show ?thesis by (simp add: cstr_bytes_def)
qed

section \<open>Appending\<close>

definition db_length :: "mapped_file \<Rightarrow> nat" where
  "db_length f = unat (read_off f 0)"

definition strings_ok :: "mapped_file \<Rightarrow> bool" where
  "strings_ok f \<longleftrightarrow> 8 \<le> db_length f \<and> db_length f \<le> m_fileLength f"

text \<open>What is in the file stays, behind the length field.\<close>

definition keeps_data :: "mapped_file \<Rightarrow> mapped_file \<Rightarrow> bool" where
  "keeps_data f f' \<longleftrightarrow> db_length f \<le> db_length f' \<and> (\<forall>i. 8 \<le> i \<and> i < db_length f \<longrightarrow> mf_data f' i = mf_data f i)"

lemma keeps_data_refl [simp]: "keeps_data f f"
  by (simp add: keeps_data_def)

lemma keeps_data_trans: "keeps_data f g \<Longrightarrow> keeps_data g h \<Longrightarrow> keeps_data f h"
  by (simp add: keeps_data_def)

lemma keeps_holds:
  "keeps_data f f' \<Longrightarrow> 8 \<le> p \<Longrightarrow> p + length bs \<le> db_length f \<Longrightarrow> holds f p bs \<Longrightarrow> holds f' p bs"
  by (rule holds_same) (auto simp: keeps_data_def)

lemma keeps_read: "keeps_data f f' \<Longrightarrow> 8 \<le> p \<Longrightarrow> p + 8 \<le> db_length f \<Longrightarrow> read_off f' p = read_off f p"
  by (rule read_same) (auto simp: keeps_data_def)

lemma actualLength_ok: "strings_ok f \<Longrightarrow> actualLength f = Inr (read_off f 0)"
  by (auto simp: actualLength_def mf_ptrConst_def strings_ok_def)

lemma strings_append_ok:
  assumes ok: "strings_ok f" and bs: "bs \<noteq> []" "db_length f + length bs < 2 ^ 64"
  shows "\<exists>f'. strings_append f bs = Inr f' \<and> strings_ok f' \<and> db_length f' = db_length f + length bs
    \<and> keeps_data f f' \<and> holds f' (db_length f) bs"
proof -
  let ?n = "db_length f"
  have n: "8 \<le> ?n" "?n \<le> m_fileLength f" using ok by (simp_all add: strings_ok_def)
  obtain f1 where f1: "mf_ptr f ?n (length bs) = Inr f1" "?n + length bs \<le> m_fileLength f1"
      "m_fileLength f \<le> m_fileLength f1" "\<forall>i < m_fileLength f. mf_data f1 i = mf_data f i"
    using mf_ptr_ok[of "length bs" f ?n] bs(1) by (auto simp: Suc_le_eq)
  let ?f2 = "write_bytes f1 ?n bs"
  have small: "i < ?n \<Longrightarrow> mf_data ?f2 i = mf_data f i" for i using f1(4) n(2) by simp
  have r: "read_off ?f2 0 = read_off f 0" by (rule read_same) (use small n in simp)
  have p2: "mf_ptr ?f2 0 8 = Inr ?f2"
    using mf_ptr_ok[of 8 ?f2 0] f1(2) n(1) by auto
  let ?f3 = "write_bytes ?f2 0 (le64 (read_off f 0 + of_nat (length bs)))"
  have "read_off ?f3 0 = read_off f 0 + of_nat (length bs)" by (rule holds_read) (rule holds_write)
  moreover have "unat (read_off f 0 + of_nat (length bs)) = ?n + length bs"
    using bs(2) by (simp add: db_length_def unat_word_ariths unat_of_nat)
  ultimately have len: "db_length ?f3 = ?n + length bs" by (simp add: db_length_def)
  have "strings_append f bs = Inr ?f3"
    using f1(1) r p2 by (simp add: strings_append_def actualLength_ok[OF ok] db_length_def Let_def)
  moreover have "strings_ok ?f3" using len f1(2) n(1) by (simp add: strings_ok_def)
  moreover have "keeps_data f ?f3" using len small by (simp add: keeps_data_def)
  moreover have "holds ?f3 ?n bs"
    by (rule holds_same[OF holds_write[of f1]]) (use n(1) in simp)
  ultimately show ?thesis using len by blast
qed

text \<open>Several values, one after the other.\<close>

lemma strings_append_all:
  assumes "strings_ok f" "\<forall>bs \<in> set bss. bs \<noteq> []" "db_length f + length (concat bss) < 2 ^ 64"
  shows "\<exists>f'. rfold strings_append f bss = Inr f' \<and> strings_ok f' \<and> db_length f' = db_length f + length (concat bss)
    \<and> keeps_data f f' \<and> holds f' (db_length f) (concat bss)"
  using assms
proof (induction bss arbitrary: f)
  case Nil
  then show ?case by (simp add: holds_def)
next
  case (Cons bs bss)
  obtain f1 where f1: "strings_append f bs = Inr f1" "strings_ok f1" "db_length f1 = db_length f + length bs"
      "keeps_data f f1" "holds f1 (db_length f) bs"
    using strings_append_ok[OF Cons.prems(1), of bs] Cons.prems(2,3) by auto
  obtain f' where f': "rfold strings_append f1 bss = Inr f'" "strings_ok f'"
      "db_length f' = db_length f1 + length (concat bss)" "keeps_data f1 f'" "holds f' (db_length f1) (concat bss)"
    using Cons.IH[OF f1(2)] Cons.prems(2,3) f1(3) by auto
  have "8 \<le> db_length f" using Cons.prems(1) by (simp add: strings_ok_def)
  then have "holds f' (db_length f) bs" using keeps_holds[OF f'(4) _ _ f1(5)] f1(3) by simp
  then show ?case
    using f1 f' keeps_data_trans by (auto simp: holds_append)
qed

section \<open>Records\<close>

text \<open>A message with comments and without null forms; what a record holds behind its link.\<close>

definition storable :: "message \<Rightarrow> bool" where
  "storable m \<longleftrightarrow> os_view (m_msgcomments m) \<noteq> None \<and> None \<notin> set (mt_view m)"

definition field_bytes :: "u64 \<Rightarrow> message \<Rightarrow> byte list list" where
  "field_bytes co m = [le64 co, [if isFuzzy m then 1 else 0], [plurals_char m], cstr_bytes (the (os_view (m_msgcomments m)))]
     @ map (cstr_bytes \<circ> the) (mt_view m)"

definition body_bytes :: "u64 \<Rightarrow> message \<Rightarrow> byte list" where
  "body_bytes co m = concat (field_bytes co m)"

lemma rfold_map: "rfold g s (map k xs) = rfold (\<lambda>s x. g s (k x)) s xs"
proof (induction xs arbitrary: s)
  case (Cons x xs)
  then show ?case by (cases "g s (k x)") simp_all
qed simp

lemma form_appends:
  assumes "storable m"
  shows "rfold (\<lambda>f i. rbind (msgstr m i) (\<lambda>s. rbind (os_c_str s) (\<lambda>str. strings_append f (cstr_bytes str))))
      f [0..<numPlurals m] = rfold strings_append f (map (cstr_bytes \<circ> the) (mt_view m))"
proof -
  have "rbind (msgstr m i) (\<lambda>s. rbind (os_c_str s) (\<lambda>str. strings_append f (cstr_bytes str)))
      = strings_append f (cstr_bytes (the (mt_view m ! i)))" if "i < numPlurals m" for f i
  proof -
    have "mt_view m ! i = os_view (m_msgstr m ! i)" using that by (simp add: mt_view_def numPlurals_def)
    moreover have "mt_view m ! i \<noteq> None"
      using assms that nth_mem[of i "mt_view m"] by (metis storable_def mt_view_def numPlurals_def length_map)
    ultimately show ?thesis
      using that by (auto simp: msgstr_def numPlurals_def os_c_str_view)
  qed
  then have "rfold (\<lambda>f i. rbind (msgstr m i) (\<lambda>s. rbind (os_c_str s) (\<lambda>str. strings_append f (cstr_bytes str))))
      f [0..<numPlurals m] = rfold (\<lambda>f i. strings_append f (cstr_bytes (the (mt_view m ! i)))) f [0..<numPlurals m]"
    by (intro rfold_cong) simp
  moreover have "map (cstr_bytes \<circ> the) (mt_view m) = map (\<lambda>i. cstr_bytes (the (mt_view m ! i))) [0..<numPlurals m]"
    by (rule nth_equalityI) (simp_all add: mt_view_def numPlurals_def)
  ultimately show ?thesis by (simp add: rfold_map)
qed

lemma writeMessage_ok:
  assumes "strings_ok f" "ci_dbOffset ci = Some co" "storable m" "db_length f + 8 + length (body_bytes co m) < 2 ^ 64"
  shows "\<exists>f'. writeMessage f ci m = Inr (read_off f 0, f') \<and> strings_ok f' \<and> keeps_data f f'
    \<and> db_length f' = db_length f + 8 + length (body_bytes co m)
    \<and> read_off f' (db_length f) = 0 \<and> holds f' (db_length f + 8) (body_bytes co m)"
proof -
  have "\<forall>bs \<in> set (le64 0 # field_bytes co m). bs \<noteq> []"
    by (auto simp: field_bytes_def cstr_bytes_def le64_def le32_def)
  moreover have "db_length f + length (concat (le64 0 # field_bytes co m)) < 2 ^ 64"
    using assms(4) by (simp add: body_bytes_def)
  ultimately obtain f' where f': "rfold strings_append f (le64 0 # field_bytes co m) = Inr f'" "strings_ok f'"
      "db_length f' = db_length f + 8 + length (body_bytes co m)" "keeps_data f f'"
      "holds f' (db_length f) (le64 0 @ body_bytes co m)"
    using strings_append_all[OF assms(1), of "le64 0 # field_bytes co m"] by (auto simp: body_bytes_def)
  have "writeMessage f ci m = rbind (rfold strings_append f (le64 0 # field_bytes co m)) (\<lambda>f'. Inr (read_off f 0, f'))"
    using assms(3) form_appends[OF assms(3)]
    by (auto simp: writeMessage_def actualLength_ok[OF assms(1)] commit_dbOffset_def assms(2) field_bytes_def
        os_c_str_view storable_def rbind_assoc)
  then show ?thesis using f' holds_read by (auto simp: holds_append)
qed

section \<open>The log of what was added\<close>

record log_entry =
  le_id :: int
  le_pos :: nat
  le_commit :: u64
  le_msg :: message

definition entry_body :: "log_entry \<Rightarrow> byte list" where
  "entry_body e = body_bytes (le_commit e) (le_msg e)"

definition entry_end :: "log_entry \<Rightarrow> nat" where
  "entry_end e = le_pos e + 8 + length (entry_body e)"

definition positions_of :: "int \<Rightarrow> log_entry list \<Rightarrow> nat list" where
  "positions_of k L = map le_pos (filter (\<lambda>e. le_id e = k) L)"

text \<open>Every record points to the next one of its list, the last to nothing.\<close>

fun linked_at :: "mapped_file \<Rightarrow> nat list \<Rightarrow> bool" where
  "linked_at f [] \<longleftrightarrow> True"
| "linked_at f [p] \<longleftrightarrow> read_off f p = 0"
| "linked_at f (p # q # ps) \<longleftrightarrow> read_off f p = of_nat q \<and> linked_at f (q # ps)"

definition entry_stored :: "mapped_file \<Rightarrow> log_entry \<Rightarrow> bool" where
  "entry_stored f e \<longleftrightarrow> 8 \<le> le_pos e \<and> entry_end e \<le> db_length f \<and> storable (le_msg e)
     \<and> holds f (le_pos e + 8) (entry_body e)"

definition log_ok :: "mapped_file \<Rightarrow> log_entry list \<Rightarrow> bool" where
  "log_ok f L \<longleftrightarrow> strings_ok f \<and> db_length f < 2 ^ 63 \<and> sorted_wrt (\<lambda>e e'. entry_end e \<le> le_pos e') L
     \<and> (\<forall>e \<in> set L. entry_stored f e) \<and> (\<forall>k. linked_at f (positions_of k L))"

lemma linked_cong: "(\<And>p. p \<in> set ps \<Longrightarrow> read_off f' p = read_off f p) \<Longrightarrow> linked_at f' ps = linked_at f ps"
  by (induction f' ps rule: linked_at.induct) auto

lemma linked_snoc:
  assumes "linked_at f ps" "ps \<noteq> []" "distinct ps" "\<And>p. p \<in> set ps \<Longrightarrow> p \<noteq> last ps \<Longrightarrow> read_off f' p = read_off f p"
    and "read_off f' (last ps) = of_nat q" "read_off f' q = 0"
  shows "linked_at f' (ps @ [q])"
  using assms
proof (induction ps rule: induct_list012)
  case (3 p r ps)
  have "p \<noteq> last (r # ps)" using "3.prems"(3) by (metis distinct.simps(2) last_in_set list.distinct(1))
  then have "read_off f' p = read_off f p" using "3.prems"(4)[of p] by simp
  moreover have "linked_at f' ((r # ps) @ [q])" using "3.prems" by (intro "3.IH"(2)) auto
  ultimately show ?case using "3.prems"(1) by simp
qed simp_all

lemma sorted_apart:
  assumes "sorted_wrt (\<lambda>e e'. entry_end e \<le> le_pos e') L" "e \<in> set L" "e' \<in> set L"
  shows "e = e' \<or> entry_end e \<le> le_pos e' \<or> entry_end e' \<le> le_pos e"
  using assms by (induction L) auto

lemma entry_end_pos: "le_pos e + 8 \<le> entry_end e"
  by (simp add: entry_end_def)

lemma distinct_positions:
  "sorted_wrt (\<lambda>e e'. entry_end e \<le> le_pos e') L \<Longrightarrow> distinct (positions_of k L)"
proof (induction L)
  case (Cons e L)
  have "le_pos e \<noteq> le_pos e'" if "e' \<in> set L" for e'
    using Cons.prems that entry_end_pos[of e] by force
  then show ?case using Cons by (auto simp: positions_of_def)
qed (simp add: positions_of_def)

lemma stored_kept:
  assumes "keeps_data f f'" "entry_stored f e"
  shows "entry_stored f' e" "read_off f' (le_pos e) = read_off f (le_pos e)"
proof -
  show "entry_stored f' e"
    using assms keeps_holds[OF assms(1), of "le_pos e + 8" "entry_body e"]
    by (auto simp: entry_stored_def entry_end_def keeps_data_def)
  show "read_off f' (le_pos e) = read_off f (le_pos e)"
    using assms(2) entry_end_pos[of e] by (intro keeps_read[OF assms(1)]) (auto simp: entry_stored_def)
qed

lemma positions_in: "p \<in> set (positions_of k L) \<longleftrightarrow> (\<exists>e \<in> set L. le_id e = k \<and> le_pos e = p)"
  by (auto simp: positions_of_def)

text \<open>A record at the end of the file, not linked yet.\<close>

lemma log_append:
  assumes ok: "log_ok f L" and f': "strings_ok f'" "keeps_data f f'" "db_length f' < 2 ^ 63"
    and e: "le_pos e = db_length f" "entry_end e = db_length f'" "storable (le_msg e)" "holds f' (le_pos e + 8) (entry_body e)"
  shows "\<forall>e' \<in> set (L @ [e]). entry_stored f' e'" "sorted_wrt (\<lambda>e e'. entry_end e \<le> le_pos e') (L @ [e])"
    "\<And>k. linked_at f' (positions_of k L)"
proof -
  have len: "8 \<le> db_length f" using ok by (simp add: log_ok_def strings_ok_def)
  have stored: "entry_stored f e'" if "e' \<in> set L" for e' using ok that by (simp add: log_ok_def)
  then show "\<forall>e' \<in> set (L @ [e]). entry_stored f' e'"
    using stored_kept(1)[OF f'(2)] e len by (auto simp: entry_stored_def)
  show "sorted_wrt (\<lambda>e e'. entry_end e \<le> le_pos e') (L @ [e])"
    using ok stored e(1) by (auto simp: log_ok_def sorted_wrt_append entry_stored_def)
  show "linked_at f' (positions_of k L)" for k
    using ok stored_kept(2)[OF f'(2) stored] linked_cong[of "positions_of k L" f' f]
    by (auto simp: log_ok_def positions_in)
qed

section \<open>Following a list\<close>

lemma unat_off: "p < 2 ^ 63 \<Longrightarrow> unat (of_nat p :: u64) = p"
  by (simp add: unat_of_nat)

lemma off_neq_0: "8 \<le> p \<Longrightarrow> p < 2 ^ 63 \<Longrightarrow> (of_nat p :: u64) \<noteq> 0"
  using unat_off[of p] by (metis not_numeral_le_zero unat_0)

lemma listNext_ok:
  "p < 2 ^ 63 \<Longrightarrow> p + 8 \<le> m_fileLength f \<Longrightarrow> listNext f (of_nat p) = Inr (read_off f p)"
  by (simp add: listNext_def mf_ptrConst_def rassert_def unat_off)

lemma listLast_linked:
  assumes "linked_at f (p # ps)" "\<forall>q \<in> set (p # ps). 8 \<le> q \<and> q < 2 ^ 63 \<and> q + 8 \<le> m_fileLength f"
  shows "listLast f (of_nat p) = Some (Inr (of_nat (last (p # ps))))"
  using assms
proof (induction ps arbitrary: p)
  case Nil
  then show ?case by (subst listLast.simps) (simp add: listNext_ok)
next
  case (Cons q ps)
  then show ?case by (subst listLast.simps) (simp add: listNext_ok off_neq_0)
qed

text \<open>What a record gives back: no forms, since the new message has no place for any.\<close>

definition kept_message :: "message \<Rightarrow> message" where
  "kept_message m = message_of_counts (isFuzzy m) (sint (plurals_char m)) (c_str (the (os_view (m_msgcomments m))))"

lemma read_message_ok:
  assumes "entry_stored f e" "db_length f \<le> m_fileLength f" "db_length f < 2 ^ 63"
  shows "read_message f (of_nat (le_pos e)) = Inr (kept_message (le_msg e), f)"
proof -
  let ?p = "le_pos e" and ?m = "le_msg e"
  let ?cs = "cstr_bytes (the (os_view (m_msgcomments ?m)))"
  have body: "entry_body e = le64 (le_commit e) @ [if isFuzzy ?m then 1 else 0] @ [plurals_char ?m] @ ?cs
      @ concat (map (cstr_bytes \<circ> the) (mt_view ?m))"
    by (simp add: entry_body_def body_bytes_def field_bytes_def)
  have ends: "?p + 18 + length ?cs \<le> db_length f"
    using assms(1) by (simp add: entry_stored_def entry_end_def body)
  have h: "mf_data f (?p + 16) = (if isFuzzy ?m then 1 else 0)" "mf_data f (?p + 17) = plurals_char ?m" "holds f (?p + 18) ?cs"
    using assms(1) by (auto simp: entry_stored_def body holds_append holds_Cons ac_simps)
  have at: "unat (of_nat ?p + 16 :: u64) = ?p + 16" "unat (of_nat ?p + 17 :: u64) = ?p + 17" "unat (of_nat ?p + 18 :: u64) = ?p + 18"
    using ends assms(3) unat_off[of "?p + 16"] unat_off[of "?p + 17"] unat_off[of "?p + 18"] by simp_all
  have "length ?cs \<ge> 1" by (simp add: cstr_bytes_def)
  then have fits: "?p + 19 \<le> m_fileLength f" using ends assms(2) by linarith
  then have ptr: "mf_ptr f (?p + 18) 1 = Inr f"
    by (simp add: mf_ptr_def rassert_def)
  have "read_cstr f (?p + 18) = Inr (c_str (the (os_view (m_msgcomments ?m))))"
    by (rule read_cstr_holds[OF h(3)]) (use ends assms(2) in linarith)
  moreover have "mf_data f (?p + 16) = 1 \<longleftrightarrow> isFuzzy ?m" "mf_data f (?p + 17) = plurals_char ?m"
    using h(1,2) by simp_all
  moreover have "numPlurals (message_of_counts b n s) = 0" for b n s
    by (simp add: numPlurals_def message_of_counts_def message_of_base_def mtb_empty_def translation.defs)
  ultimately show ?thesis
    using fits ptr
    by (simp add: read_message_def at mf_ptrConst_def rassert_def Let_def kept_message_def)
qed

lemma messages_loop_linked:
  assumes "\<forall>e \<in> set es. entry_stored f e" "linked_at f (map le_pos es)" "db_length f \<le> m_fileLength f" "db_length f < 2 ^ 63"
  shows "messages_loop f (case es of [] \<Rightarrow> 0 | e # _ \<Rightarrow> of_nat (le_pos e)) ms
    = Some (Inr (ms @ map (\<lambda>e. kept_message (le_msg e)) es, f))"
  using assms(1,2)
proof (induction es arbitrary: ms)
  case Nil
  then show ?case by (subst messages_loop.simps) simp
next
  case (Cons e es)
  have e: "8 \<le> le_pos e" "le_pos e + 8 \<le> db_length f"
    using Cons.prems(1) entry_end_pos[of e] by (auto simp: entry_stored_def)
  then have nz: "(of_nat (le_pos e) :: u64) \<noteq> 0" using assms(4) by (intro off_neq_0) auto
  have nxt: "listNext f (of_nat (le_pos e)) = Inr (case es of [] \<Rightarrow> 0 | e # _ \<Rightarrow> of_nat (le_pos e))"
    using listNext_ok[of "le_pos e" f] e assms(3,4) Cons.prems(2) by (cases es) auto
  have "linked_at f (map le_pos es)" using Cons.prems(2) by (cases es) auto
  then have "messages_loop f (case es of [] \<Rightarrow> 0 | e # _ \<Rightarrow> of_nat (le_pos e)) (ms @ [kept_message (le_msg e)])
      = Some (Inr ((ms @ [kept_message (le_msg e)]) @ map (\<lambda>e. kept_message (le_msg e)) es, f))"
    using Cons.prems(1) by (intro Cons.IH) simp_all
  then show ?case
    using nz nxt read_message_ok[OF _ assms(3,4), of e] Cons.prems(1)
    by (subst messages_loop.simps) simp
qed

section \<open>Linking\<close>

lemma link_record:
  assumes stored: "\<forall>e' \<in> set (L @ [e]). entry_stored f e'"
    and sorted: "sorted_wrt (\<lambda>e e'. entry_end e \<le> le_pos e') (L @ [e])"
    and linked: "\<And>k. linked_at f (positions_of k L)" "read_off f (le_pos e) = 0"
    and ok: "strings_ok f" "db_length f < 2 ^ 63"
    and last: "positions_of (le_id e) L \<noteq> []"
  shows "log_ok (write_bytes f (last (positions_of (le_id e) L)) (le64 (of_nat (le_pos e)))) (L @ [e])"
proof -
  let ?ps = "positions_of (le_id e) L"
  let ?f = "write_bytes f (last ?ps) (le64 (of_nat (le_pos e)))"
  have "last ?ps \<in> set ?ps" using last by simp
  then obtain l where l: "l \<in> set L" "le_id l = le_id e" "le_pos l = last ?ps" by (auto simp: positions_in)
  have apart: "e' = l \<or> entry_end e' \<le> le_pos l \<or> entry_end l \<le> le_pos e'" if "e' \<in> set (L @ [e])" for e'
    using sorted_apart[OF sorted that, of l] l(1) by auto
  have l8: "8 \<le> le_pos l" using stored l(1) by (auto simp: entry_stored_def)
  have len: "db_length ?f = db_length f"
    unfolding db_length_def by (rule arg_cong[where f = unat], rule read_same) (use l8 l(3) in auto)
  have same: "read_off ?f (le_pos e') = read_off f (le_pos e')" if "e' \<in> set (L @ [e])" "le_pos e' \<noteq> le_pos l" for e'
    by (rule read_same) (use apart[OF that(1)] that(2) entry_end_pos[of e'] entry_end_pos[of l] l(3) in auto)
  have "entry_stored ?f e'" if e': "e' \<in> set (L @ [e])" for e'
  proof -
    have "holds f (le_pos e' + 8) (entry_body e')" using stored e' unfolding entry_stored_def by blast
    then have "holds ?f (le_pos e' + 8) (entry_body e')"
      by (rule holds_same) (use apart[OF e'] entry_end_pos[of l] l(3) in \<open>auto simp: entry_end_def\<close>)
    moreover have "entry_stored f e'" using stored e' by blast
    ultimately show ?thesis using len by (simp add: entry_stored_def)
  qed
  moreover have "linked_at ?f (positions_of k (L @ [e]))" for k
  proof (cases "k = le_id e")
    case True
    have dist: "distinct ?ps" using sorted by (intro distinct_positions) (simp add: sorted_wrt_append)
    have "le_pos e \<noteq> le_pos l" using apart[of e] entry_end_pos[of e] entry_end_pos[of l] distinct_positions[OF sorted, of "le_id e"] last l
      by (auto simp: positions_of_def)
    then have "read_off ?f (le_pos e) = 0" using same[of e] linked(2) by simp
    moreover have "read_off ?f (last ?ps) = of_nat (le_pos e)" by (rule holds_read) (rule holds_write)
    moreover have "read_off ?f p = read_off f p" if "p \<in> set ?ps" "p \<noteq> last ?ps" for p
      using that same l(3) by (auto simp: positions_in)
    ultimately have "linked_at ?f (?ps @ [le_pos e])"
      by (intro linked_snoc[OF linked(1) last dist]) auto
    then show ?thesis using True by (simp add: positions_of_def)
  next
    case False
    have "le_pos e' \<noteq> le_pos l" if "e' \<in> set L" "le_id e' = k" for e'
      using apart[of e'] that False l(2) entry_end_pos[of e'] entry_end_pos[of l] by auto
    then have "linked_at ?f (positions_of k L) = linked_at f (positions_of k L)"
      by (intro linked_cong) (auto simp: positions_in same)
    then show ?thesis using False linked(1) by (simp add: positions_of_def)
  qed
  ultimately show ?thesis
    using ok sorted len by (auto simp: log_ok_def strings_ok_def)
qed

section \<open>The file of offsets\<close>

definition off_of :: "mapped_file \<Rightarrow> int \<Rightarrow> u64" where
  "off_of f k = (if nat (8 * (k + 1)) > m_fileLength f then 0 else read_off f (nat (8 * k)))"

definition an_id :: "int \<Rightarrow> bool" where
  "an_id k \<longleftrightarrow> 0 \<le> k \<and> k < 2 ^ 31"

lemma offset_pos_ok: "an_id k \<Longrightarrow> offset_pos k = nat (8 * k)" "an_id k \<Longrightarrow> offset_pos (k + 1) = nat (8 * (k + 1))"
  by (simp_all add: offset_pos_def an_id_def)

lemma readOffset_ok: "an_id k \<Longrightarrow> readOffset f k = Inr (off_of f k)"
  by (auto simp: readOffset_def off_of_def offset_pos_ok mf_ptrConst_def rassert_def an_id_def)

lemma read_zero: "(\<And>i. p \<le> i \<Longrightarrow> i < p + 8 \<Longrightarrow> mf_data f i = 0) \<Longrightarrow> read_off f p = 0"
  by (simp add: read_off_def read_u32_def of_bytes_def)

lemma writeOffset_ok:
  assumes f: "m_fileLength f mod 8 = 0" and k: "an_id k"
  shows "\<exists>f'. writeOffset f k w = Inr f' \<and> m_fileLength f' mod 8 = 0
    \<and> (\<forall>j. an_id j \<longrightarrow> off_of f' j = (if j = k then w else off_of f j))"
proof -
  define q where "q = nat k"
  have q: "nat (8 * k) = 8 * q" "nat (8 * (k + 1)) = 8 * q + 8" using k by (simp_all add: q_def an_id_def nat_mult_distrib nat_add_distrib algebra_simps)
  obtain f1 where f1: "mf_ptr f (8 * q) 8 = Inr f1" "8 * q + 8 \<le> m_fileLength f1" "m_fileLength f \<le> m_fileLength f1"
      "\<forall>i < m_fileLength f. mf_data f1 i = mf_data f i" "m_fileLength f1 mod 8 = 0"
      "\<forall>i. m_fileLength f \<le> i \<and> i < m_fileLength f1 \<longrightarrow> mf_data f1 i = 0"
    using mf_ptr_ok[of 8 f "8 * q"] f by auto
  let ?f = "write_bytes f1 (8 * q) (le64 w)"
  have "off_of ?f j = (if j = k then w else off_of f j)" if "an_id j" for j
  proof (cases "j = k")
    case True
    then show ?thesis using f1(2) q holds_read[OF holds_write] by (simp add: off_of_def)
  next
    case False
    define r where "r = nat j"
    have r: "nat (8 * j) = 8 * r" "nat (8 * (j + 1)) = 8 * r + 8" using that by (simp_all add: r_def an_id_def nat_mult_distrib nat_add_distrib algebra_simps)
    have rq: "r \<noteq> q" using False that k by (simp add: r_def q_def an_id_def eq_nat_nat_iff)
    then have "8 * r + 8 \<le> 8 * q \<or> 8 * q + 8 \<le> 8 * r" by linarith
    then have w: "read_off ?f (8 * r) = read_off f1 (8 * r)" by (intro read_same) auto
    show ?thesis
    proof (cases "8 * r + 8 > m_fileLength f")
      case True
      then have "m_fileLength f \<le> 8 * r" using f by presburger
      then have "8 * r + 8 \<le> m_fileLength f1 \<Longrightarrow> read_off f1 (8 * r) = 0"
        using f1(6) by (intro read_zero) auto
      then show ?thesis using True False w r by (simp add: off_of_def)
    next
      case fits: False
      then have "read_off f1 (8 * r) = read_off f (8 * r)" using f1(4) by (intro read_same) auto
      then show ?thesis using fits False w r f1(3) by (simp add: off_of_def)
    qed
  qed
  then show ?thesis
    using f1(1,5) q by (simp add: writeOffset_def offset_pos_ok(1)[OF k])
qed

section \<open>The database\<close>

definition trdb_log :: "trdb \<Rightarrow> log_entry list \<Rightarrow> bool" where
  "trdb_log db L \<longleftrightarrow> log_ok (td_strings db) L \<and> m_fileLength (td_offsets db) mod 8 = 0
     \<and> (\<forall>k. an_id k \<longrightarrow> off_of (td_offsets db) k = (case positions_of k L of [] \<Rightarrow> 0 | p # _ \<Rightarrow> of_nat p))"

lemma positions_snoc: "positions_of k (L @ [e]) = positions_of k L @ (if le_id e = k then [le_pos e] else [])"
  by (simp add: positions_of_def)

lemma log_position:
  assumes "log_ok f L" "p \<in> set (positions_of k L)"
  shows "8 \<le> p" "p < 2 ^ 63" "p + 8 \<le> db_length f"
proof -
  obtain e where e: "e \<in> set L" "le_pos e = p" using assms(2) by (auto simp: positions_in)
  then have "entry_stored f e" using assms(1) by (simp add: log_ok_def)
  then show "8 \<le> p" "p + 8 \<le> db_length f" using e(2) entry_end_pos[of e] by (auto simp: entry_stored_def)
  then show "p < 2 ^ 63" using assms(1) by (simp add: log_ok_def)
qed

lemma addIdMessage_ok:
  assumes log: "trdb_log db L" and ci: "ci_dbOffset ci = Some co" and m: "storable m" and k: "an_id k"
    and size: "db_length (td_strings db) + 8 + length (body_bytes co m) < 2 ^ 63"
  shows "\<exists>db'. addIdMessage db k ci m = Some (Inr db')
    \<and> trdb_log db' (L @ [\<lparr>le_id = k, le_pos = db_length (td_strings db), le_commit = co, le_msg = m\<rparr>])
    \<and> db_length (td_strings db') = db_length (td_strings db) + 8 + length (body_bytes co m)"
proof -
  let ?f = "td_strings db"
  let ?e = "\<lparr>le_id = k, le_pos = db_length ?f, le_commit = co, le_msg = m\<rparr>"
  have ok: "log_ok ?f L" "strings_ok ?f" using log by (simp_all add: trdb_log_def log_ok_def)
  obtain f1 where f1: "writeMessage ?f ci m = Inr (read_off ?f 0, f1)" "strings_ok f1" "keeps_data ?f f1"
      "db_length f1 = db_length ?f + 8 + length (body_bytes co m)"
      "read_off f1 (db_length ?f) = 0" "holds f1 (db_length ?f + 8) (body_bytes co m)"
    using writeMessage_ok[OF ok(2) ci m] size by auto
  have off: "read_off ?f 0 = of_nat (db_length ?f)" by (simp add: db_length_def)
  have e: "le_pos ?e = db_length ?f" "entry_end ?e = db_length f1" "storable (le_msg ?e)"
      "holds f1 (le_pos ?e + 8) (entry_body ?e)"
    using f1(4,6) m by (simp_all add: entry_end_def entry_body_def)
  have small: "db_length f1 < 2 ^ 63" using f1(4) size by simp
  note app = log_append[OF ok(1) f1(2,3) small e]
  have first: "readOffset (td_offsets db) k = Inr (case positions_of k L of [] \<Rightarrow> 0 | p # _ \<Rightarrow> of_nat p)"
    using log k by (simp add: trdb_log_def readOffset_ok)
  show ?thesis
  proof (cases "positions_of k L")
    case Nil
    have "m_fileLength (td_offsets db) mod 8 = 0" using log by (simp add: trdb_log_def)
    from writeOffset_ok[OF this k, of "of_nat (db_length ?f)"]
    obtain o' where o': "writeOffset (td_offsets db) k (of_nat (db_length ?f)) = Inr o'" "m_fileLength o' mod 8 = 0"
        "\<forall>j. an_id j \<longrightarrow> off_of o' j = (if j = k then of_nat (db_length ?f) else off_of (td_offsets db) j)"
      by - (elim exE conjE, rule that)
    have "log_ok f1 (L @ [?e])"
      using f1(2,5) small app Nil by (auto simp: log_ok_def positions_snoc)
    then have "trdb_log (db\<lparr>td_offsets := o', td_strings := f1\<rparr>) (L @ [?e])"
      using log o'(2,3) Nil by (auto simp: trdb_log_def positions_snoc split: list.splits)
    then show ?thesis
      using f1(1,4) first Nil o'(1) off by (auto simp: addIdMessage_def)
  next
    case (Cons p ps)
    have pos: "8 \<le> q" "q < 2 ^ 63" "q + 8 \<le> m_fileLength f1" if "q \<in> set (p # ps)" for q
      using log_position[OF ok(1), of q k] that Cons f1(2,4) by (auto simp: strings_ok_def)
    have "listLast f1 (of_nat p) = Some (Inr (of_nat (last (p # ps))))"
      using app(3)[of k] pos Cons by (intro listLast_linked) auto
    moreover have "unat (of_nat (last (p # ps)) :: u64) = last (p # ps)" by (rule unat_off) (use pos in simp)
    moreover have "mf_ptr f1 (last (p # ps)) 8 = Inr f1"
      using mf_ptr_ok[of 8 f1 "last (p # ps)"] pos(3)[of "last (p # ps)"] by auto
    moreover have "(of_nat p :: u64) \<noteq> 0" using pos[of p] by (intro off_neq_0) auto
    ultimately have run: "addIdMessage db k ci m = Some (Inr (db\<lparr>td_strings :=
        write_bytes f1 (last (p # ps)) (le64 (of_nat (db_length ?f)))\<rparr>))"
      using first Cons f1(1) off by (simp add: addIdMessage_def listAppendMessage_def)
    have "log_ok (write_bytes f1 (last (p # ps)) (le64 (of_nat (db_length ?f)))) (L @ [?e])"
      using link_record[OF app(1,2,3) _ f1(2) small] f1(5) Cons by simp
    moreover have "db_length (write_bytes f1 (last (p # ps)) (le64 (of_nat (db_length ?f)))) = db_length f1"
      unfolding db_length_def by (rule arg_cong[where f = unat], rule read_same) (use pos(1)[of "last (p # ps)"] in auto)
    ultimately show ?thesis
      using run log Cons f1(4) by (auto simp: trdb_log_def positions_snoc split: list.splits)
  qed
qed

lemma getMessages_ok:
  assumes "trdb_log db L" "an_id k"
  shows "getMessages db k = Some (Inr (map (\<lambda>e. kept_message (le_msg e)) (filter (\<lambda>e. le_id e = k) L), db))"
proof -
  let ?f = "td_strings db" and ?es = "filter (\<lambda>e. le_id e = k) L"
  have log: "log_ok ?f L" using assms(1) by (simp add: trdb_log_def)
  have "positions_of k L = map le_pos ?es" by (simp add: positions_of_def)
  then have "readOffset (td_offsets db) k = Inr (case ?es of [] \<Rightarrow> 0 | e # _ \<Rightarrow> of_nat (le_pos e))"
    using assms by (auto simp: trdb_log_def readOffset_ok split: list.splits)
  moreover have "messages_loop ?f (case ?es of [] \<Rightarrow> 0 | e # _ \<Rightarrow> of_nat (le_pos e)) []
      = Some (Inr ([] @ map (\<lambda>e. kept_message (le_msg e)) ?es, ?f))"
    using log by (intro messages_loop_linked) (auto simp: log_ok_def strings_ok_def positions_of_def)
  ultimately show ?thesis by (simp add: getMessages_def)
qed

text \<open>Adding one message after the other.\<close>

fun add_all :: "trdb \<Rightarrow> commit_info \<Rightarrow> (int \<times> message) list \<Rightarrow> trdb res option" where
  "add_all db ci [] = Some (Inr db)"
| "add_all db ci ((k, m) # xs) = (case addIdMessage db k ci m of
      None \<Rightarrow> None
    | Some (Inl e) \<Rightarrow> Some (Inl e)
    | Some (Inr db') \<Rightarrow> add_all db' ci xs)"

definition added_size :: "u64 \<Rightarrow> (int \<times> message) list \<Rightarrow> nat" where
  "added_size co xs = (\<Sum>p \<leftarrow> xs. 8 + length (body_bytes co (snd p)))"

lemma add_all_ok:
  assumes "trdb_log db L" "ci_dbOffset ci = Some co" "\<forall>(k, m) \<in> set xs. an_id k \<and> storable m"
    and "db_length (td_strings db) + added_size co xs < 2 ^ 63"
  shows "\<exists>db' L'. add_all db ci xs = Some (Inr db') \<and> trdb_log db' (L @ L') \<and> map (\<lambda>e. (le_id e, le_msg e)) L' = xs"
  using assms
proof (induction xs arbitrary: db L)
  case Nil
  then show ?case by auto
next
  case (Cons x xs)
  obtain k m where x: "x = (k, m)" by (cases x)
  have size: "added_size co (x # xs) = 8 + length (body_bytes co m) + added_size co xs"
    by (simp add: x added_size_def)
  obtain db1 where db1: "addIdMessage db k ci m = Some (Inr db1)"
      "trdb_log db1 (L @ [\<lparr>le_id = k, le_pos = db_length (td_strings db), le_commit = co, le_msg = m\<rparr>])"
      "db_length (td_strings db1) = db_length (td_strings db) + 8 + length (body_bytes co m)"
    using addIdMessage_ok[OF Cons.prems(1,2), of m k] Cons.prems(3,4) size x by auto
  obtain db' L' where "add_all db1 ci xs = Some (Inr db')"
      "trdb_log db' ((L @ [\<lparr>le_id = k, le_pos = db_length (td_strings db), le_commit = co, le_msg = m\<rparr>]) @ L')"
      "map (\<lambda>e. (le_id e, le_msg e)) L' = xs"
    using Cons.IH[OF db1(2) Cons.prems(2)] Cons.prems(3,4) size db1(3) by auto
  then show ?case
    using db1(1) x
    by (intro exI[of _ db'] exI[of _ "\<lparr>le_id = k, le_pos = db_length (td_strings db), le_commit = co, le_msg = m\<rparr> # L'"]) simp
qed

lemma commit_write_ok:
  assumes "trdb_log db L" "db_length (td_strings db) + 10 + length (ci_commitId ci) + length (ci_author ci) < 2 ^ 63"
  shows "\<exists>ci' f co. commit_write ci (td_strings db) = Inr (ci', f) \<and> ci_dbOffset ci' = Some co
    \<and> trdb_log (db\<lparr>td_strings := f\<rparr>) L
    \<and> db_length f \<le> db_length (td_strings db) + 10 + length (ci_commitId ci) + length (ci_author ci)"
proof -
  let ?f = "td_strings db"
  let ?bss = "[le64 (ci_date ci), cstr_bytes (ci_commitId ci), cstr_bytes (ci_author ci)]"
  have ok: "strings_ok ?f" "log_ok ?f L" using assms(1) by (simp_all add: trdb_log_def log_ok_def)
  have short: "length (c_str s) \<le> length s" for s by (simp add: c_str_def length_takeWhile_le)
  have size: "length (concat ?bss) \<le> 10 + length (ci_commitId ci) + length (ci_author ci)"
    using short[of "ci_commitId ci"] short[of "ci_author ci"] by (simp add: cstr_bytes_def)
  have "\<forall>bs \<in> set ?bss. bs \<noteq> []" by (auto simp: cstr_bytes_def le64_def le32_def)
  then obtain f where f: "rfold strings_append ?f ?bss = Inr f" "strings_ok f"
      "db_length f = db_length ?f + length (concat ?bss)" "keeps_data ?f f"
    using strings_append_all[OF ok(1), of ?bss] assms(2) size by auto
  have stored: "entry_stored ?f e" if "e \<in> set L" for e using ok(2) that by (simp add: log_ok_def)
  have "linked_at f (positions_of k L)" for k
  proof -
    have "linked_at f (positions_of k L) = linked_at ?f (positions_of k L)"
      by (rule linked_cong) (auto simp: positions_in stored_kept(2)[OF f(4) stored])
    then show ?thesis using ok(2) by (simp add: log_ok_def)
  qed
  then have "log_ok f L"
    using ok(2) f(2,3) size assms(2) stored_kept(1)[OF f(4) stored] by (auto simp: log_ok_def)
  then have "trdb_log (db\<lparr>td_strings := f\<rparr>) L" using assms(1) by (simp add: trdb_log_def)
  moreover have "commit_write ci ?f = Inr (ci\<lparr>ci_dbOffset := Some (read_off ?f 0), ci_writtenToDb := True\<rparr>, f)"
    using f(1) by (auto simp: commit_write_def actualLength_ok[OF ok(1)] rbind_eq_Inr)
  ultimately show ?thesis using f(3) size by auto
qed

lemma new_trdb_ok:
  assumes "length dir < 183"
  shows "\<exists>db. new_trdb (\<lambda>_. empty_file) dir = Inr db \<and> trdb_log db [] \<and> db_length (td_strings db) = 8"
proof -
  obtain f1 where f1: "mf_ptr empty_file 0 8 = Inr f1" "8 \<le> m_fileLength f1"
      "\<forall>i. 0 \<le> i \<and> i < m_fileLength f1 \<longrightarrow> mf_data f1 i = 0"
    using mf_ptr_ok[of 8 empty_file 0] by (auto simp: empty_file_def)
  have zero: "read_off f1 0 = 0" using f1(2,3) by (intro read_zero) auto
  have ptr: "mf_ptr f1 0 8 = Inr f1" using mf_ptr_ok[of 8 f1 0] f1(2) by auto
  let ?f = "write_bytes f1 0 (le64 8)"
  have "read_off ?f 0 = 8" by (rule holds_read) (rule holds_write)
  then have len: "db_length ?f = 8" by (simp add: db_length_def)
  then have "log_ok ?f []" using f1(2) by (simp add: log_ok_def strings_ok_def positions_of_def)
  then have "trdb_log \<lparr>td_offsets = empty_file, td_strings = ?f\<rparr> []"
    by (auto simp: trdb_log_def positions_of_def empty_file_def off_of_def an_id_def)
  then show ?thesis
    using assms f1(1) zero ptr len by (simp add: new_trdb_def open_strings_def)
qed

lemma added_listed:
  assumes "length dir < 183" "\<forall>(k, m) \<in> set xs. an_id k \<and> storable m"
    and "added_size 8 xs + length (ci_commitId ci) + length (ci_author ci) + 18 < 2 ^ 63"
  shows "\<exists>db ci' f db'. new_trdb (\<lambda>_. empty_file) dir = Inr db \<and> commit_write ci (td_strings db) = Inr (ci', f)
    \<and> add_all (db\<lparr>td_strings := f\<rparr>) ci' xs = Some (Inr db')
    \<and> (\<forall>k. an_id k \<longrightarrow> getMessages db' k
          = Some (Inr (map (\<lambda>p. kept_message (snd p)) (filter (\<lambda>p. fst p = k) xs), db')))"
proof -
  obtain db where db: "new_trdb (\<lambda>_. empty_file) dir = Inr db" "trdb_log db []" "db_length (td_strings db) = 8"
    using new_trdb_ok[OF assms(1)] by blast
  obtain ci' f co where ci: "commit_write ci (td_strings db) = Inr (ci', f)" "ci_dbOffset ci' = Some co"
      "trdb_log (db\<lparr>td_strings := f\<rparr>) []" "db_length f \<le> 18 + length (ci_commitId ci) + length (ci_author ci)"
    using commit_write_ok[OF db(2), of ci] assms(3) db(3) by auto
  have "length (body_bytes co m) = length (body_bytes 8 m)" for m by (simp add: body_bytes_def field_bytes_def)
  then have size: "added_size co xs = added_size 8 xs" by (simp add: added_size_def)
  obtain db' L where all: "add_all (db\<lparr>td_strings := f\<rparr>) ci' xs = Some (Inr db')" "trdb_log db' L"
      "map (\<lambda>e. (le_id e, le_msg e)) L = xs"
    using add_all_ok[OF ci(3,2) assms(2)] ci(4) assms(3) size by auto
  have "map (\<lambda>e. kept_message (le_msg e)) (filter (\<lambda>e. le_id e = k) L)
      = map (\<lambda>p. kept_message (snd p)) (filter (\<lambda>p. fst p = k) xs)" for k
    unfolding all(3)[symmetric] by (simp add: filter_map comp_def)
  then show ?thesis using db(1) ci(1) all(1) getMessages_ok[OF all(2)] by metis
qed

text \<open>
  C34. In a new database with a written commit, adding messages always returns, and then \<open>getMessages\<close>
  returns for every ID what was added to it, in that order: comments, fuzzy flag and whether the
  message is plural. The translations themselves are in the file, but the messages that are read
  back have no forms to put them in.
\<close>

theorem added_messages_listed:
  assumes "length dir < 183" "\<forall>(k, m) \<in> set xs. an_id k \<and> storable m"
    and "added_size 8 xs + length (ci_commitId ci) + length (ci_author ci) + 18 < 2 ^ 63"
  shows "\<exists>db ci' f db'. new_trdb (\<lambda>_. empty_file) dir = Inr db \<and> commit_write ci (td_strings db) = Inr (ci', f)
    \<and> add_all (db\<lparr>td_strings := f\<rparr>) ci' xs = Some (Inr db')
    \<and> (\<forall>k. an_id k \<longrightarrow> getMessages db' k
          = Some (Inr (map (\<lambda>p. kept_message (snd p)) (filter (\<lambda>p. fst p = k) xs), db')))"
  by (rule added_listed[OF assms])

section \<open>The tool\<close>

definition wit_message :: "bool \<Rightarrow> int \<Rightarrow> string \<Rightarrow> message" where
  "wit_message fuzzy n comments = (message_of_base mtb_empty (-1) [] (os_of_string comments))
     \<lparr>m_fuzzy := fuzzy, m_plural := n > 0, m_msgstr := [os_of_string ''translation-of-message'']\<rparr>"

lemma wit_message_eq:
  "n = 0 \<or> n = 1 \<Longrightarrow> message_of_msgstr0 fuzzy comments ''translation-of-message'' n = Inr (wit_message fuzzy n comments)"
  by (auto simp: message_of_msgstr0_def wit_message_def setMsgcomments_def message_of_base_def mtb_empty_def
      os_defs translation.defs rassert_def)

lemma wit_message_storable: "storable (wit_message fuzzy n comments)"
  by (simp add: storable_def wit_message_def message_of_base_def translation.defs os_of_string_def mt_view_def os_view_def)

lemma wit_message_size: "length (body_bytes 8 (wit_message fuzzy n comments)) \<le> 34 + length comments"
proof -
  have short: "length (c_str s) \<le> length s" for s by (simp add: c_str_def length_takeWhile_le)
  show ?thesis
    using short[of comments] short[of "''translation-of-message''"]
    by (simp add: body_bytes_def field_bytes_def wit_message_def message_of_base_def translation.defs os_of_string_def
        mt_view_def os_view_def cstr_bytes_def)
qed

lemma kept_wit: "numPlurals (kept_message m) = 0"
  by (simp add: kept_message_def numPlurals_def message_of_counts_def message_of_base_def mtb_empty_def translation.defs)

text \<open>The tool stops with a failed assertion, whatever it wrote.\<close>

theorem try_fill_aborts: "toolTryFillTranslations (\<lambda>_. empty_file) = Some (Inl AssertFail)"
proof -
  let ?c = "''translators'' @ [CHR 0x27] @ ''-comments-for-message''"
  let ?m1 = "wit_message True 0 ?c" and ?m2 = "wit_message False 1 ?c"
  let ?ci = "new_commit_info ''SVN r123'' ''me'' (- 1)"
  have "length (body_bytes 8 ?m1) \<le> 100" "length (body_bytes 8 ?m2) \<le> 100"
    using wit_message_size[of True 0 ?c] wit_message_size[of False 1 ?c] by simp_all
  then have size: "added_size 8 [(100, ?m1), (100, ?m2)] + length (ci_commitId ?ci) + length (ci_author ?ci) + 18 < 2 ^ 63"
    by (simp add: added_size_def new_commit_info_def)
  have ids: "\<forall>(k, m) \<in> set [(100, ?m1), (100, ?m2)]. an_id k \<and> storable m"
    using wit_message_storable by (simp add: an_id_def)
  obtain db ci' f db' where db: "new_trdb (\<lambda>_. empty_file) ''.'' = Inr db" "commit_write ?ci (td_strings db) = Inr (ci', f)"
      "add_all (db\<lparr>td_strings := f\<rparr>) ci' [(100, ?m1), (100, ?m2)] = Some (Inr db')"
      "\<forall>k. an_id k \<longrightarrow> getMessages db' k
          = Some (Inr (map (\<lambda>p. kept_message (snd p)) (filter (\<lambda>p. fst p = k) [(100, ?m1), (100, ?m2)]), db'))"
    using added_listed[OF _ ids size, of "''.''"] by auto
  obtain db1 where db1: "addIdMessage (db\<lparr>td_strings := f\<rparr>) 100 ci' ?m1 = Some (Inr db1)"
      "addIdMessage db1 100 ci' ?m2 = Some (Inr db')"
    using db(3) by (auto split: option.splits sum.splits)
  have got: "getMessages db' 100 = Some (Inr ([kept_message ?m1, kept_message ?m2], db'))"
    using db(4) by (simp add: an_id_def)
  have "tool_lines (kept_message ?m1) = Inl AssertFail"
  proof -
    have "\<exists>c. os_c_str (m_msgcomments (kept_message ?m1)) = Inr c"
      by (simp add: kept_message_def message_of_counts_def message_of_base_def translation.defs os_defs)
    then show ?thesis using kept_wit[of ?m1] by (auto simp: tool_lines_def msgstr_def numPlurals_def)
  qed
  then show ?thesis
    using db(1,2) db1 got by (simp add: toolTryFillTranslations_def try_fill_db_def wit_message_eq Let_def)
qed

theorem added_messages_listed_witness:
  "\<exists>db ci' f db'. new_trdb (\<lambda>_. empty_file) ''.'' = Inr db
    \<and> commit_write (new_commit_info ''SVN r123'' ''me'' (- 1)) (td_strings db) = Inr (ci', f)
    \<and> add_all (db\<lparr>td_strings := f\<rparr>) ci' [(100, wit_message True 0 ''a''), (7, wit_message False 1 ''b''), (100, wit_message False 0 ''c'')]
        = Some (Inr db')
    \<and> getMessages db' 100 = Some (Inr ([kept_message (wit_message True 0 ''a''), kept_message (wit_message False 0 ''c'')], db'))
    \<and> getMessages db' 8 = Some (Inr ([], db'))"
proof -
  let ?xs = "[(100, wit_message True 0 ''a''), (7, wit_message False 1 ''b''), (100, wit_message False 0 ''c'')]"
  let ?ci = "new_commit_info ''SVN r123'' ''me'' (- 1)"
  have "added_size 8 ?xs \<le> 129"
    using wit_message_size[of True 0 "''a''"] wit_message_size[of False 1 "''b''"] wit_message_size[of False 0 "''c''"]
    by (simp add: added_size_def)
  then have size: "added_size 8 ?xs + length (ci_commitId ?ci) + length (ci_author ?ci) + 18 < 2 ^ 63"
    by (simp add: new_commit_info_def)
  have ids: "\<forall>(k, m) \<in> set ?xs. an_id k \<and> storable m" using wit_message_storable by (simp add: an_id_def)
  from added_messages_listed[OF _ ids size, of "''.''"] show ?thesis by (auto simp: an_id_def)
qed

end
