(* ===== verification/DirWalk.thy ===== *)
theory DirWalk
  imports IddiffApply GitTree
begin

text \<open>
  \<open>gtpo/translation-collector.cpp\<close>, lines 22-118: filling a collector from the files of a directory. A
  directory is what \<open>readdir\<close> lists, in its order; None for one that cannot be opened, whose null
  handle the loop then dereferences. \<open>read_po\<close> is what \<open>poFileRead\<close> gives for a file name.
\<close>

datatype dir_node =
    DT_REG
  | DT_DIR (opened: "(string \<times> dir_node) list option")
  | DT_other

text \<open>\<open>insertPo\<close> of a file name, and of a buffer.\<close>

definition insertPo_file :: "(string \<Rightarrow> catalog option res) \<Rightarrow> collector \<Rightarrow> string \<Rightarrow> collector" where
  "insertPo_file read_po co filename = insertPo co (new_content (read_po filename) (Some filename))"

definition insertPo_buffer :: "('b \<Rightarrow> catalog option res) \<Rightarrow> collector \<Rightarrow> 'b \<Rightarrow> string \<Rightarrow> collector" where
  "insertPo_buffer read_buffer co buffer filename =
     insertPo co (setDisplayFilename (new_content (read_buffer buffer) None) filename)"

text \<open>What \<open>insertPoDir\<close> inserts, as the list of file names.\<close>

function insertPoDir ::
    "(string \<Rightarrow> catalog option res) \<Rightarrow> string \<Rightarrow> (string \<times> dir_node) list option \<Rightarrow> collector \<Rightarrow> collector res" where
  "insertPoDir read_po directory_path None co = Inl NullDeref"
| "insertPoDir read_po directory_path (Some []) co = Inr co"
| "insertPoDir read_po directory_path (Some ((d_name, node) # entries)) co =
     rbind (let fullpath = directory_path @ ''/'' @ d_name in (case node of
         DT_REG \<Rightarrow> Inr (if ends_with d_name ''.po'' then insertPo_file read_po co fullpath else co)
       | DT_DIR sub \<Rightarrow> if \<not> is_dot_or_dotdot d_name then insertPoDir read_po fullpath sub co else Inr co
       | DT_other \<Rightarrow> Inr co))
     (\<lambda>co'. insertPoDir read_po directory_path (Some entries) co')"
  by pat_completeness auto
termination
  by (relation "measure (\<lambda>(_, _, d, _). size_option (size_list (size_prod (\<lambda>_. 0) size)) d)") auto

definition file_exists :: "(string \<Rightarrow> bool) \<Rightarrow> string \<Rightarrow> bool" where
  "file_exists can_open filename \<longleftrightarrow> can_open filename"

function insertPoDirOrTemplate ::
    "(string \<Rightarrow> catalog option res option) \<Rightarrow> string \<Rightarrow> string \<Rightarrow> (string \<times> dir_node) list option \<Rightarrow> collector \<Rightarrow>
     collector res" where
  "insertPoDirOrTemplate fs templates_path translations_path None co = Inl NullDeref"
| "insertPoDirOrTemplate fs templates_path translations_path (Some []) co = Inr co"
| "insertPoDirOrTemplate fs templates_path translations_path (Some ((d_name, node) # entries)) co =
     rbind (let templ_subpath = templates_path @ ''/'' @ d_name;
                trans_subpath = translations_path @ ''/'' @ d_name in (case node of
         DT_REG \<Rightarrow> if ends_with d_name ''.pot''
           then insertPoOrTemplate fs co templ_subpath (take (length trans_subpath - 1) trans_subpath) else Inr co
       | DT_DIR sub \<Rightarrow> if \<not> is_dot_or_dotdot d_name
           then insertPoDirOrTemplate fs templ_subpath trans_subpath sub co else Inr co
       | DT_other \<Rightarrow> Inr co))
     (\<lambda>co'. insertPoDirOrTemplate fs templates_path translations_path (Some entries) co')"
  by pat_completeness auto
termination
  by (relation "measure (\<lambda>(_, _, _, d, _). size_option (size_list (size_prod (\<lambda>_. 0) size)) d)") auto

section \<open>What is found\<close>

text \<open>
  The files below a directory with an extension, by their path from it; the directories \<open>.\<close> and \<open>..\<close>
  are not entered. A directory is unreadable if it, or one below it, cannot be opened.
\<close>

type_synonym dir = "(string \<times> dir_node) list option"

inductive file_below :: "string \<Rightarrow> dir \<Rightarrow> string \<Rightarrow> bool" for ext where
  here: "(name, DT_REG) \<in> set es \<Longrightarrow> ends_with name ext \<Longrightarrow> file_below ext (Some es) (''/'' @ name)"
| below: "(name, DT_DIR sub) \<in> set es \<Longrightarrow> \<not> is_dot_or_dotdot name \<Longrightarrow> file_below ext sub path
    \<Longrightarrow> file_below ext (Some es) (''/'' @ name @ path)"

inductive unreadable :: "dir \<Rightarrow> bool" where
  "unreadable None"
| "(name, DT_DIR sub) \<in> set es \<Longrightarrow> \<not> is_dot_or_dotdot name \<Longrightarrow> unreadable sub \<Longrightarrow> unreadable (Some es)"

inductive_simps file_below_Some: "file_below ext (Some es) path"
inductive_simps unreadable_None [simp]: "unreadable None"
inductive_simps unreadable_Some: "unreadable (Some es)"
inductive_cases file_belowE: "file_below ext d path"

definition files_below :: "string \<Rightarrow> dir \<Rightarrow> string set" where
  "files_below ext d = {path. file_below ext d path}"

definition node_files :: "string \<Rightarrow> string \<Rightarrow> dir_node \<Rightarrow> string set" where
  "node_files ext name node = (case node of
      DT_REG \<Rightarrow> if ends_with name ext then {''/'' @ name} else {}
    | DT_DIR sub \<Rightarrow> if is_dot_or_dotdot name then {} else (\<lambda>path. ''/'' @ name @ path) ` files_below ext sub
    | DT_other \<Rightarrow> {})"

lemma files_below_Some: "files_below ext (Some es) = (\<Union>(name, node) \<in> set es. node_files ext name node)"
proof (intro set_eqI iffI)
  fix path assume "path \<in> files_below ext (Some es)"
  then have "file_below ext (Some es) path" by (simp add: files_below_def)
  then show "path \<in> (\<Union>(name, node) \<in> set es. node_files ext name node)"
  proof (cases rule: file_below.cases)
    case (here name)
    then show ?thesis by (force simp: node_files_def)
  next
    case (below name sub path')
    then show ?thesis by (force simp: node_files_def files_below_def)
  qed
next
  fix path assume "path \<in> (\<Union>(name, node) \<in> set es. node_files ext name node)"
  then obtain name node where "(name, node) \<in> set es" "path \<in> node_files ext name node" by auto
  then have "file_below ext (Some es) path"
    by (auto simp: node_files_def files_below_def intro: here[simplified] below[simplified] split: dir_node.splits if_splits)
  then show "path \<in> files_below ext (Some es)" by (simp add: files_below_def)
qed

lemma files_below_simps [simp]:
  "files_below ext (Some []) = {}"
  "files_below ext (Some ((name, node) # es)) = node_files ext name node \<union> files_below ext (Some es)"
  by (simp_all add: files_below_Some)

lemma file_below_slash: "path \<in> files_below ext d \<Longrightarrow> path \<noteq> []"
  by (auto simp: files_below_def elim: file_belowE)

lemma unreadable_Nil [simp]: "\<not> unreadable (Some [])"
  by (simp add: unreadable_Some)

lemma unreadable_Cons [simp]:
  "unreadable (Some ((name, node) # es)) \<longleftrightarrow>
    (\<exists>sub. node = DT_DIR sub \<and> \<not> is_dot_or_dotdot name \<and> unreadable sub) \<or> unreadable (Some es)"
  unfolding unreadable_Some set_simps(2) insert_iff prod.inject by blast

text \<open>The content for a template and its translation.\<close>

definition content_or_template :: "(string \<Rightarrow> catalog option res option) \<Rightarrow> string \<Rightarrow> string \<Rightarrow> content" where
  "content_or_template fs template_path translation_path = (case fs translation_path of
      Some rd \<Rightarrow> new_content rd (Some translation_path)
    | None \<Rightarrow> setDisplayFilename (new_content (the (fs template_path)) (Some template_path)) translation_path)"

lemma insertPoOrTemplate_ok:
  "fs template_path \<noteq> None \<Longrightarrow> insertPoOrTemplate fs co template_path translation_path
    = Inr (insertPo co (content_or_template fs template_path translation_path))"
  by (auto simp: insertPoOrTemplate_def content_or_template_def split: option.splits)

lemma insertPo_contents: "insertPo co c = co\<lparr>m_contents := m_contents co @ [c]\<rparr>"
  by (simp add: insertPo_def)

lemma insertPoDir_ok:
  "\<not> unreadable d \<Longrightarrow> \<exists>cs. insertPoDir read_po dir d co = Inr (co\<lparr>m_contents := m_contents co @ cs\<rparr>)
    \<and> set cs = (\<lambda>path. new_content (read_po (dir @ path)) (Some (dir @ path))) ` files_below ''.po'' d"
proof (induction read_po dir d co rule: insertPoDir.induct)
  case (3 read_po dir name node es co)
  let ?c = "\<lambda>p. new_content (read_po p) (Some p)"
  have rest: "\<not> unreadable (Some es)" using 3(3) by simp
  have "\<exists>cs. (let fullpath = dir @ ''/'' @ name in (case node of
         DT_REG \<Rightarrow> Inr (if ends_with name ''.po'' then insertPo_file read_po co fullpath else co)
       | DT_DIR sub \<Rightarrow> if \<not> is_dot_or_dotdot name then insertPoDir read_po fullpath sub co else Inr co
       | DT_other \<Rightarrow> Inr co)) = Inr (co\<lparr>m_contents := m_contents co @ cs\<rparr>)
     \<and> set cs = (\<lambda>path. ?c (dir @ path)) ` node_files ''.po'' name node"
  proof (cases node)
    case DT_REG
    then show ?thesis
      by (cases "ends_with name ''.po''") (simp_all add: Let_def node_files_def insertPo_file_def insertPo_contents
          exI[of _ "[]"] exI[of _ "[x]" for x])
  next
    case (DT_DIR sub)
    then show ?thesis
    proof (cases "is_dot_or_dotdot name")
      case False
      then have "\<not> unreadable sub" using 3(3) DT_DIR by simp
      with 3(1)[OF refl DT_DIR False] False DT_DIR show ?thesis
        by (auto simp: Let_def node_files_def image_image)
    qed (auto simp: Let_def node_files_def intro: exI[of _ "[]"])
  qed (auto simp: Let_def node_files_def intro: exI[of _ "[]"])
  then obtain cs where cs: "(let fullpath = dir @ ''/'' @ name in (case node of
         DT_REG \<Rightarrow> Inr (if ends_with name ''.po'' then insertPo_file read_po co fullpath else co)
       | DT_DIR sub \<Rightarrow> if \<not> is_dot_or_dotdot name then insertPoDir read_po fullpath sub co else Inr co
       | DT_other \<Rightarrow> Inr co)) = Inr (co\<lparr>m_contents := m_contents co @ cs\<rparr>)"
     "set cs = (\<lambda>path. ?c (dir @ path)) ` node_files ''.po'' name node" by blast
  obtain cs' where "insertPoDir read_po dir (Some es) (co\<lparr>m_contents := m_contents co @ cs\<rparr>)
        = Inr (co\<lparr>m_contents := (m_contents co @ cs) @ cs'\<rparr>)"
      "set cs' = (\<lambda>path. ?c (dir @ path)) ` files_below ''.po'' (Some es)"
    using 3(2)[OF cs(1) rest] by auto
  then show ?case using cs by (intro exI[of _ "cs @ cs'"]) (simp add: image_Un)
qed (auto intro: exI[of _ "[]"])

text \<open>One entry of the directory of templates, when the directory below is handled right.\<close>

abbreviation template_entry ::
    "(string \<Rightarrow> catalog option res option) \<Rightarrow> string \<Rightarrow> string \<Rightarrow> string \<Rightarrow> dir_node \<Rightarrow> collector \<Rightarrow> collector res" where
  "template_entry fs templ transl name node co \<equiv>
     (let templ_subpath = templ @ ''/'' @ name; trans_subpath = transl @ ''/'' @ name in (case node of
         DT_REG \<Rightarrow> if ends_with name ''.pot''
           then insertPoOrTemplate fs co templ_subpath (take (length trans_subpath - 1) trans_subpath) else Inr co
       | DT_DIR sub \<Rightarrow> if \<not> is_dot_or_dotdot name
           then insertPoDirOrTemplate fs templ_subpath trans_subpath sub co else Inr co
       | DT_other \<Rightarrow> Inr co))"

lemma template_entry_contents:
  assumes own: "\<forall>path \<in> node_files ''.pot'' name node. fs (templ @ path) \<noteq> None"
    and below: "\<And>sub. node = DT_DIR sub \<Longrightarrow> \<not> is_dot_or_dotdot name
      \<Longrightarrow> \<exists>cs. insertPoDirOrTemplate fs (templ @ ''/'' @ name) (transl @ ''/'' @ name) sub co
            = Inr (co\<lparr>m_contents := m_contents co @ cs\<rparr>)
          \<and> set cs = (\<lambda>path. content_or_template fs ((templ @ ''/'' @ name) @ path) ((transl @ ''/'' @ name) @ butlast path))
              ` files_below ''.pot'' sub"
  shows "\<exists>cs. template_entry fs templ transl name node co = Inr (co\<lparr>m_contents := m_contents co @ cs\<rparr>)
    \<and> set cs = (\<lambda>path. content_or_template fs (templ @ path) (transl @ butlast path)) ` node_files ''.pot'' name node"
proof (cases node)
  case DT_REG
  show ?thesis
  proof (cases "ends_with name ''.pot''")
    case True
    then have "name \<noteq> []" by (auto simp: ends_with_def)
    then have "take (length (transl @ ''/'' @ name) - 1) (transl @ ''/'' @ name) = transl @ butlast (''/'' @ name)"
      by (simp add: butlast_conv_take)
    moreover have "fs (templ @ ''/'' @ name) \<noteq> None" using own True DT_REG by (simp add: node_files_def)
    ultimately show ?thesis
      using True DT_REG by (simp add: Let_def node_files_def insertPoOrTemplate_ok insertPo_contents exI[of _ "[x]" for x])
  qed (simp add: DT_REG Let_def node_files_def exI[of _ "[]"])
next
  case (DT_DIR sub)
  show ?thesis
  proof (cases "is_dot_or_dotdot name")
    case False
    obtain cs where cs: "insertPoDirOrTemplate fs (templ @ ''/'' @ name) (transl @ ''/'' @ name) sub co
          = Inr (co\<lparr>m_contents := m_contents co @ cs\<rparr>)"
        "set cs = (\<lambda>path. content_or_template fs ((templ @ ''/'' @ name) @ path) ((transl @ ''/'' @ name) @ butlast path))
            ` files_below ''.pot'' sub"
      using below[OF DT_DIR False] by blast
    have "butlast (''/'' @ name @ path) = ''/'' @ name @ butlast path" if "path \<in> files_below ''.pot'' sub" for path
      using file_below_slash[OF that] by (simp add: butlast_append)
    then have "(\<lambda>path. content_or_template fs (templ @ path) (transl @ butlast path)) ` node_files ''.pot'' name node = set cs"
      unfolding cs(2) using False DT_DIR by (simp add: node_files_def image_image)
    with cs(1) False DT_DIR show ?thesis by (intro exI[of _ cs]) (simp add: Let_def)
  qed (simp add: DT_DIR Let_def node_files_def exI[of _ "[]"])
qed (simp add: Let_def node_files_def exI[of _ "[]"])



end
