(* ===== verification/IddiffTools.thy ===== *)
theory IddiffTools
  imports IddiffUnion IddiffRoundtrip IddiffMinimize DateText "HOL-Library.Countable"
begin

text \<open>
  The tools that read and write iddiff files: \<open>tools/impl/iddiffmerge.cpp\<close>, \<open>iddiffmergetrcomm.cpp\<close>,
  \<open>iddiffminimizeids.cpp\<close> and \<open>rereretrustedfilter.cpp\<close>. A tool gets its arguments, the first one its
  name; it returns its exit code with the files or the text that it prints. The text of every file
  is given by its name, None for a file that cannot be opened. \<open>t0\<close> is the date that a new iddiff has,
  which is not initialised; \<open>print\<close> and \<open>parse\<close> are rapidjson's writer and parser.
\<close>

section \<open>Files and arguments\<close>

type_synonym files = "string \<Rightarrow> string option"

definition parseArgs :: "string list \<Rightarrow> string list" where
  "parseArgs argv = List.drop 1 argv"

text \<open>A file that cannot be opened for writing is passed over in silence.\<close>

definition write_iddiff :: "(json \<Rightarrow> string) \<Rightarrow> (string \<Rightarrow> bool) \<Rightarrow> files \<Rightarrow> iddiff \<Rightarrow> string \<Rightarrow> files res" where
  "write_iddiff print can_write fs d filename = rbind (id_writeToFile print d) (\<lambda>t.
     Inr (case t of Some s \<Rightarrow> if can_write filename then fs(filename \<mapsto> s) else fs | None \<Rightarrow> fs))"

definition load_new :: "(string \<Rightarrow> json) \<Rightarrow> file_date_time \<Rightarrow> files \<Rightarrow> string \<Rightarrow> (bool \<times> iddiff) res" where
  "load_new parse t0 fs filename = loadIddiff parse (new_iddiff t0) (fs filename)"

section \<open>The tools\<close>

definition toolIddiffMerge ::
    "(json \<Rightarrow> string) \<Rightarrow> (string \<Rightarrow> json) \<Rightarrow> (string \<Rightarrow> bool) \<Rightarrow> file_date_time \<Rightarrow> files \<Rightarrow> string list \<Rightarrow> (int \<times> files) res" where
  "toolIddiffMerge print parse can_write t0 fs argv = (let args = parseArgs argv in
     rassert (length args = 2)
       (let src_path = args ! 0; merged_path = args ! 1 in
        rbind (load_new parse t0 fs src_path) (\<lambda>(src_ok, src_diff).
          if \<not> src_ok then Inr (1, fs)
          else rbind (load_new parse t0 fs merged_path) (\<lambda>(merged_ok, merged_diff).
            if merged_ok then
              rbind (merge merged_diff src_diff) (\<lambda>m.
              rbind (write_iddiff print can_write fs m merged_path) (\<lambda>fs'. Inr (0, fs')))
            else rbind (write_iddiff print can_write fs src_diff merged_path) (\<lambda>fs'. Inr (0, fs'))))))"

definition toolIddiffMergeTrcomm ::
    "(json \<Rightarrow> string) \<Rightarrow> (string \<Rightarrow> json) \<Rightarrow> (string \<Rightarrow> bool) \<Rightarrow> file_date_time \<Rightarrow> files \<Rightarrow> string list \<Rightarrow> (int \<times> files) res" where
  "toolIddiffMergeTrcomm print parse can_write t0 fs argv = (let args = parseArgs argv in
     rassert (length args = 2)
       (let src_path = args ! 0; merged_path = args ! 1 in
        rbind (load_new parse t0 fs src_path) (\<lambda>(src_ok, src_diff).
          if \<not> src_ok then Inr (1, fs)
          else rbind (load_new parse t0 fs merged_path) (\<lambda>(merged_ok, merged_diff).
            if merged_ok then
              rbind (mergeTrComments merged_diff src_diff) (\<lambda>m.
              rbind (write_iddiff print can_write fs m merged_path) (\<lambda>fs'. Inr (0, fs')))
            else rbind (write_iddiff print can_write fs src_diff merged_path) (\<lambda>fs'. Inr (0, fs'))))))"

definition toolIddiffMinimizeIds ::
    "(int list \<Rightarrow> int list res) \<Rightarrow> (json \<Rightarrow> string) \<Rightarrow> (string \<Rightarrow> json) \<Rightarrow> (string \<Rightarrow> bool) \<Rightarrow> file_date_time \<Rightarrow> files \<Rightarrow>
     string list \<Rightarrow> (int \<times> files) res" where
  "toolIddiffMinimizeIds getMinIds print parse can_write t0 fs argv = (let args = parseArgs argv in
     rassert (length args = 1 \<or> length args = 2)
       (let src_path = args ! 0; dest_path = (if length args = 2 then args ! 1 else src_path) in
        rbind (load_new parse t0 fs src_path) (\<lambda>(ok, src_diff).
          if \<not> ok then Inr (1, fs)
          else rbind (minimizeIds getMinIds src_diff) (\<lambda>d.
               rbind (write_iddiff print can_write fs d dest_path) (\<lambda>fs'. Inr (0, fs'))))))"

text \<open>The loop over the filters: the iddiff that is left, or the exit code.\<close>

fun filter_loop :: "(string \<Rightarrow> json) \<Rightarrow> file_date_time \<Rightarrow> files \<Rightarrow> iddiff \<Rightarrow> string list \<Rightarrow> (int + iddiff) res" where
  "filter_loop parse t0 fs input_diff [] = Inr (Inr input_diff)"
| "filter_loop parse t0 fs input_diff (path # paths) = rbind (load_new parse t0 fs path) (\<lambda>(ok, rerere_diff).
     if \<not> ok then Inr (Inl 2)
     else rbind (filterTrustedIddiff (new_iddiff t0) rerere_diff input_diff) (\<lambda>filtered.
       filter_loop parse t0 fs filtered paths))"

definition toolRerereTrustedFilter ::
    "(json \<Rightarrow> string) \<Rightarrow> (string \<Rightarrow> json) \<Rightarrow> file_date_time \<Rightarrow> files \<Rightarrow> string list \<Rightarrow> (int \<times> string) res" where
  "toolRerereTrustedFilter print parse t0 fs argv = rassert (length argv \<ge> 3)
     (rbind (load_new parse t0 fs (argv ! 1)) (\<lambda>(ok, input_diff).
        if \<not> ok then Inr (1, [])
        else rbind (filter_loop parse t0 fs input_diff (List.drop 2 argv)) (\<lambda>r. case r of
            Inl code \<Rightarrow> Inr (code, [])
          | Inr d \<Rightarrow> rbind (generateIddiffText print d) (\<lambda>out. Inr (0, out)))))"

section \<open>A file that is written and read\<close>

definition json_codec :: "(json \<Rightarrow> string) \<Rightarrow> (string \<Rightarrow> json) \<Rightarrow> bool" where
  "json_codec print parse \<longleftrightarrow> (\<forall>j. print j \<noteq> [] \<and> parse (print j) = j)"

text \<open>A patch that a file can hold: it changes something, and no form is null.\<close>

definition p_writable :: "patch \<Rightarrow> bool" where
  "p_writable p \<longleftrightarrow> (\<forall>k. \<forall>v \<in> s_removed (p k) \<union> s_added (p k) \<union> set_option (s_review (p k)). v \<noteq> [] \<and> None \<notin> set v)"

definition p_nonempty :: "patch \<Rightarrow> bool" where
  "p_nonempty p \<longleftrightarrow> (\<exists>k. s_removed (p k) \<noteq> {} \<or> s_added (p k) \<noteq> {} \<or> s_review (p k) \<noteq> None)"

lemma p_writableD:
  "p_writable p \<Longrightarrow> v \<in> s_removed (p k) \<union> s_added (p k) \<union> set_option (s_review (p k)) \<Longrightarrow> v \<noteq> [] \<and> None \<notin> set v"
  by (simp add: p_writable_def)

lemma writable_changes:
  assumes "p_writable (sections_of d)"
  shows "writable_change (change_of d k)"
  unfolding writable_change_def
proof
  fix x assume "x \<in> set (change_items (change_of d k))"
  then have "item_view x \<in> s_removed (sections_of d k) \<union> s_added (sections_of d k) \<union> set_option (s_review (sections_of d k))"
    by (cases "m_reviewComment (change_of d k)") (auto simp: sections_of_sel change_items_def)
  from p_writableD[OF assms this] show "writable (snd x)" by (simp add: writable_def item_view_def)
qed

lemma nonempty_changes: "p_nonempty (sections_of d) \<Longrightarrow> \<exists>k. \<not> change_empty (change_of d k)"
  by (auto simp: p_nonempty_def sections_of_sel change_empty_def emptyRemoved_def emptyAdded_def emptyReview_def
      split: option.splits)

lemma same_change_sections:
  assumes "\<forall>k. same_change (change_of d k) (change_of d' k)"
  shows "sections_of d' = sections_of d"
proof
  fix k
  have same: "same_change (change_of d k) (change_of d' k)" using assms by blast
  have views: "item_view ` set xs = snd ` set (map (\<lambda>x. content_of (snd x)) xs)" for xs
    by (auto simp: item_view_def content_of_def image_image)
  have review: "map_option item_view r = map_option snd (map_option (\<lambda>x. content_of (snd x)) r)" for r
    by (cases r) (simp_all add: item_view_def content_of_def)
  show "sections_of d' k = sections_of d k"
    using same unfolding same_change_def
    by (simp only: sections_of_def removed_of_def added_of_def review_of_def views review)
qed

lemma write_then_load:
  assumes codec: "json_codec print parse" and d: "iddiff_ok d" "p_writable (sections_of d)" "p_nonempty (sections_of d)"
  obtains t r where "id_writeToFile print d = Inr (Some t)"
    "\<And>fs f. fs f = Some t \<Longrightarrow> load_new parse t0 fs f = Inr (True, r)"
    "iddiff_ok r" "sections_of r = sections_of d" "m_subject r = m_subject d" "m_authors r = m_authors d"
proof -
  obtain k0 where "\<not> change_empty (change_of d k0)" using nonempty_changes[OF d(3)] by blast
  then obtain j r where j: "generate_json d = Inr j" "load_json (new_iddiff t0) j = Inr r" "iddiff_ok r"
      "m_subject r = m_subject d" "m_authors r = m_authors d" "\<forall>k. same_change (change_of d k) (change_of r k)"
    using json_roundtrip[OF d(1) _ _ read_date, of k0] writable_changes[OF d(2)] by blast
  have "id_writeToFile print d = Inr (Some (print j))"
    using j(1) codec by (simp add: id_writeToFile_def generateIddiffText_def json_codec_def)
  moreover have "load_new parse t0 fs f = Inr (True, r)" if "fs f = Some (print j)" for fs f
    using that j(2) codec by (simp add: load_new_def loadIddiff_def json_codec_def)
  ultimately show thesis using that j(3-5) same_change_sections[OF j(6)] by blast
qed

text \<open>A file that was written for an iddiff.\<close>

definition holds_iddiff :: "(json \<Rightarrow> string) \<Rightarrow> files \<Rightarrow> string \<Rightarrow> iddiff \<Rightarrow> bool" where
  "holds_iddiff print fs path d \<longleftrightarrow> iddiff_ok d \<and> p_writable (sections_of d) \<and> p_nonempty (sections_of d)
     \<and> id_writeToFile print d = Inr (fs path)"

lemma load_held:
  assumes "json_codec print parse" "holds_iddiff print fs path d"
  obtains r where "load_new parse t0 fs path = Inr (True, r)" "iddiff_ok r" "sections_of r = sections_of d"
    "m_subject r = m_subject d" "m_authors r = m_authors d"
proof -
  have d: "iddiff_ok d" "p_writable (sections_of d)" "p_nonempty (sections_of d)" "id_writeToFile print d = Inr (fs path)"
    using assms(2) by (simp_all add: holds_iddiff_def)
  obtain t r where "id_writeToFile print d = Inr (Some t)" "\<And>fs f. fs f = Some t \<Longrightarrow> load_new parse t0 fs f = Inr (True, r)"
    "iddiff_ok r" "sections_of r = sections_of d" "m_subject r = m_subject d" "m_authors r = m_authors d"
    using write_then_load[OF assms(1) d(1-3)] by blast
  then show thesis using that d(4) by simp
qed

section \<open>Merging two files\<close>

lemma merge_header:
  assumes "merge d e = Inr m"
  shows "m_subject m = m_subject d" "set (m_authors m) = set (m_authors d) \<union> set (m_authors e)"
proof -
  obtain v1 v2 v3 d1 d2 d3 where *: "rfold insertRemovedClone d v1 = Inr d1" "rfold insertAddedClone d1 v2 = Inr d2"
      "rfold insertReviewClone d2 v3 = Inr d3" "m = mergeHeaders d3 e"
    using assms by (auto simp: merge_def res_simps)
  have "same_header d d1"
    by (rule rfold_invariant[where P = "same_header d", OF *(1)]) (auto intro: same_header_trans clone_same_header)
  moreover have "same_header d1 d2"
    by (rule rfold_invariant[where P = "same_header d1", OF *(2)]) (auto intro: same_header_trans clone_same_header)
  moreover have "same_header d2 d3"
    by (rule rfold_invariant[where P = "same_header d2", OF *(3)]) (auto intro: same_header_trans clone_same_header)
  ultimately have "same_header d d3" by (blast intro: same_header_trans)
  then show "m_subject m = m_subject d" "set (m_authors m) = set (m_authors d) \<union> set (m_authors e)"
    by (auto simp: *(4) mergeHeaders_def same_header_def sort_uniq_def Let_def)
qed

lemma p_writable_union: "p_writable p \<Longrightarrow> p_writable q \<Longrightarrow> p_writable (p_union p q)"
  unfolding p_writable_def p_union_def by (fastforce split: option.splits)

lemma p_nonempty_union: "p_nonempty p \<Longrightarrow> p_nonempty (p_union p q)"
  unfolding p_nonempty_def p_union_def by (fastforce split: option.splits)


section \<open>Filtering\<close>

definition p_minus :: "patch \<Rightarrow> patch \<Rightarrow> patch" where
  "p_minus p q k = \<lparr>s_removed = s_removed (p k) - s_removed (q k), s_added = s_added (p k) - s_added (q k), s_review = None\<rparr>"

lemma rfold_filter: "rfold (\<lambda>d x. if P x then f d x else Inr d) d xs = rfold f d (filter P xs)"
  by (induction xs arbitrary: d) auto

lemma views_at_filter: "views_at (filter (\<lambda>x. item_view (snd x) \<notin> S (fst x)) xs) k = views_at xs k - S k"
  by (auto simp: views_at_def)

lemma filter_ok:
  assumes f: "iddiff_ok f" and i: "iddiff_ok i" "\<And>k. s_review (sections_of i k) = None"
  obtains d where "filterTrustedIddiff (new_iddiff t) f i = Inr d" "iddiff_ok d"
    "sections_of d = p_minus (sections_of i) (sections_of f)"
proof -
  let ?R = "\<lambda>p x. p_remove p (fst x) (item_view (snd x))"
  let ?A = "\<lambda>p x. p_add p (fst x) (item_view (snd x))"
  obtain rs as vs where rs: "getRemovedVector i = Inr rs" "views_at rs = removed_of i"
    and as: "getAddedVector i = Inr as" "views_at as = added_of i" "distinct (map fst as)"
    and vs: "getReviewVector i = Inr vs" "review_at vs = review_of i"
    using vector_removed[OF i(1)] vector_added[OF i(1)] vector_review[OF i(1)] by blast
  have "vs = []"
  proof (cases vs)
    case (Cons v w)
    then have "review_at vs (fst v) \<noteq> None" by (cases v) (simp add: review_at_def)
    then show ?thesis using vs(2) i(2)[of "fst v"] by (simp add: sections_of_def)
  qed
  let ?rs = "filter (\<lambda>x. item_view (snd x) \<notin> removed_of f (fst x)) rs"
  let ?as = "filter (\<lambda>x. item_view (snd x) \<notin> added_of f (fst x)) as"
  have loops: "(\<lambda>d p. rbind (findRemoved f (fst p) (snd (snd p))) (\<lambda>r. if r = None then insertRemovedClone d p else Inr d))
      = (\<lambda>d p. if item_view (snd p) \<notin> removed_of f (fst p) then insertRemovedClone d p else Inr d)"
    "(\<lambda>d p. rbind (findAdded f (fst p) (snd (snd p))) (\<lambda>r. if r = None then insertAddedClone d p else Inr d))
      = (\<lambda>d p. if item_view (snd p) \<notin> added_of f (fst p) then insertAddedClone d p else Inr d)"
    by (simp_all only: findRemoved_ok[OF f] findAdded_ok[OF f] rbind.simps findList_None removed_of_def added_of_def item_view_def)
  have run: "filterTrustedIddiff (new_iddiff t) f i =
      rbind (rbind (rfold insertRemovedClone (new_iddiff t) ?rs) (\<lambda>d. rfold insertAddedClone d ?as))
        (\<lambda>d. Inr (mergeHeaders d i))"
    by (simp add: filterTrustedIddiff_def rs(1) as(1) vs(1) \<open>vs = []\<close> loops rfold_filter rbind_assoc)
  have "refines (rbind (rfold insertRemovedClone (new_iddiff t) ?rs) (\<lambda>d. rfold insertAddedClone d ?as))
      (Option.bind (pfold ?R (sections_of (new_iddiff t)) ?rs) (\<lambda>p. pfold ?A p ?as))"
    by (intro refines_bind refines_fold insertRemovedClone_refines insertAddedClone_refines iddiff_ok_new)
  moreover have "Option.bind (pfold ?R (sections_of (new_iddiff t)) ?rs) (\<lambda>p. pfold ?A p ?as)
      = Some (p_minus (sections_of i) (sections_of f))"
  proof -
    have vr: "views_at ?rs = (\<lambda>k. removed_of i k - removed_of f k)" and va: "views_at ?as = (\<lambda>k. added_of i k - added_of f k)"
      by (simp_all add: fun_eq_iff views_at_filter rs(2) as(2))
    have "pfold ?R no_sections ?rs = Some (\<lambda>k. (no_sections k)\<lparr>s_removed := views_at ?rs k\<rparr>)"
      using pfold_remove[of no_sections ?rs] by (simp add: no_sections_def)
    moreover have "distinct (map fst ?as)" using as(3) by (rule distinct_map_filter)
    moreover have "removed_of i k \<inter> added_of i k = {}" for k
      using sections_disjoint[OF i(1), of k] by (simp add: sections_of_def)
    ultimately show ?thesis
      using pfold_add[of ?as "\<lambda>k. (no_sections k)\<lparr>s_removed := views_at ?rs k\<rparr>"]
      unfolding sections_of_new vr va
      by (auto simp: no_sections_def p_minus_def sections_of_def fun_eq_iff)
  qed
  ultimately have "refines (filterTrustedIddiff (new_iddiff t) f i) (Some (p_minus (sections_of i) (sections_of f)))"
    unfolding run by (intro refines_headers) simp
  then show thesis using that by (auto simp: refines_Some)
qed

text \<open>What is left of an iddiff after several filters.\<close>

definition p_filtered :: "patch \<Rightarrow> patch list \<Rightarrow> patch" where
  "p_filtered p qs k = \<lparr>s_removed = s_removed (p k) - (\<Union>q \<in> set qs. s_removed (q k)),
     s_added = s_added (p k) - (\<Union>q \<in> set qs. s_added (q k)), s_review = None\<rparr>"

lemma p_filtered_Cons: "p_filtered (p_minus p q) qs = p_filtered p (q # qs)"
  by (rule ext) (auto simp: p_filtered_def p_minus_def)

lemma filter_loop_ok:
  assumes codec: "json_codec print parse"
    and held: "list_all2 (holds_iddiff print fs) paths ds"
    and i: "iddiff_ok i" "\<And>k. s_review (sections_of i k) = None"
  shows "\<exists>r. filter_loop parse t0 fs i paths = Inr (Inr r) \<and> iddiff_ok r
    \<and> sections_of r = p_filtered (sections_of i) (map sections_of ds)"
  using held i
proof (induction paths ds arbitrary: i rule: list_all2_induct)
  case Nil
  have "sections_of i = p_filtered (sections_of i) []"
    using Nil.prems(2) by (intro ext) (simp add: p_filtered_def)
  then show ?case using Nil.prems(1) by simp
next
  case (Cons path paths d ds)
  obtain f where f: "load_new parse t0 fs path = Inr (True, f)" "iddiff_ok f" "sections_of f = sections_of d"
    using load_held[OF codec Cons.hyps(1)] by metis
  obtain j where j: "filterTrustedIddiff (new_iddiff t0) f i = Inr j" "iddiff_ok j"
      "sections_of j = p_minus (sections_of i) (sections_of f)"
    using filter_ok[OF f(2) Cons.prems] by metis
  have "s_review (sections_of j k) = None" for k by (simp add: j(3) p_minus_def)
  then show ?case
    using Cons.IH[OF j(2)] f(1,3) j(1,3) by (simp add: p_filtered_Cons)
qed

lemma generate_empty:
  assumes "iddiff_ok d" "\<not> p_nonempty (sections_of d)"
  shows "generateIddiffText print d = Inr (print (JObj []))"
proof -
  have "\<forall>k. change_empty (change_of d k)"
    using assms(2) by (simp add: p_nonempty_def sections_of_sel change_empty_def emptyRemoved_def emptyAdded_def
        emptyReview_def del: not_None_eq)
  then show ?thesis using empty_iddiff_unreadable[OF assms(1)] by (simp add: generateIddiffText_def)
qed


section \<open>Witnesses\<close>

instance json :: countable
  by countable_datatype

text \<open>A codec: a document as a unary number.\<close>

definition unary_print :: "json \<Rightarrow> string" where
  "unary_print j = replicate (Suc (to_nat j)) CHR ''x''"

definition unary_parse :: "string \<Rightarrow> json" where
  "unary_parse s = from_nat (length s - 1)"

lemma unary_codec: "json_codec unary_print unary_parse"
  by (simp add: json_codec_def unary_print_def unary_parse_def)

lemma held_writes:
  assumes "iddiff_ok d" "p_writable (sections_of d)" "p_nonempty (sections_of d)"
  obtains t where "\<And>fs path. fs path = Some t \<Longrightarrow> holds_iddiff unary_print fs path d"
proof -
  obtain t r where "id_writeToFile unary_print d = Inr (Some t)"
    using write_then_load[OF unary_codec assms] by metis
  then show thesis using assms that by (simp add: holds_iddiff_def)
qed

lemma sample_writable:
  "p_writable (no_sections(k := \<lparr>s_removed = {}, s_added = {[Some s]}, s_review = None\<rparr>))"
  "p_nonempty (no_sections(k := \<lparr>s_removed = {}, s_added = {[Some s]}, s_review = None\<rparr>))"
  "p_writable (no_sections(k := \<lparr>s_removed = {[Some s]}, s_added = {}, s_review = None\<rparr>))"
  "p_nonempty (no_sections(k := \<lparr>s_removed = {[Some s]}, s_added = {}, s_review = None\<rparr>))"
  by (auto simp: p_writable_def p_nonempty_def no_sections_def)



end
