(* ===== verification/Coverage.thy ===== *)
theory Coverage
  imports DirWalk
begin

text \<open>
  \<open>GreedyIddiffCoverage\<close> of \<open>tools/impl/lokalizereviewiddiff.cpp\<close>: files that together have all messages
  of an iddiff, chosen greedily. What it needs of \<open>TranslationContent::getMinIds\<close> is the locale
  \<open>min_ids_source\<close>.
\<close>

section \<open>The class\<close>

record coverage =
  gc_invContents :: "content list"
  gc_ids :: "int list"

definition new_coverage ::
    "(int list \<Rightarrow> int list res) \<Rightarrow> (git_oid list \<Rightarrow> int list \<Rightarrow> int list res) \<Rightarrow> (content \<Rightarrow> git_oid) \<Rightarrow>
     collector \<Rightarrow> iddiff \<Rightarrow> (coverage \<times> iddiff) res" where
  "new_coverage minIds request getTpHash co diff = rbind (minimizeIds minIds diff) (\<lambda>d.
     let ids = involvedIds d in
     rbind (col_involvedByMinIds request getTpHash co ids) (\<lambda>is.
       Inr (\<lparr>gc_invContents = map (\<lambda>i. m_contents co ! i) is, gc_ids = fold ss_insert ids []\<rparr>, d)))"

text \<open>How many of the IDs are among those to cover, and the loop that looks for the most.\<close>

definition count_covered :: "int list \<Rightarrow> int list \<Rightarrow> nat" where
  "count_covered ids c_ids = length (filter (\<lambda>k. k \<in> set ids) c_ids)"

fun best_loop :: "(content \<Rightarrow> (int list \<times> content) res) \<Rightarrow> int list \<Rightarrow> nat \<Rightarrow> content list \<Rightarrow> int \<times> nat \<Rightarrow>
    ((int \<times> nat) \<times> content list) res" where
  "best_loop getMinIds ids i [] best = Inr (best, [])"
| "best_loop getMinIds ids i (content # contents) (best_index, best_covered) =
     rbind (getMinIds content) (\<lambda>(c_ids, content').
       let covered = count_covered ids c_ids;
           best = (if covered > best_covered then (int i, covered) else (best_index, best_covered))
       in rbind (best_loop getMinIds ids (i + 1) contents best) (\<lambda>(b, contents'). Inr (b, content' # contents')))"

definition nextContent :: "(content \<Rightarrow> (int list \<times> content) res) \<Rightarrow> coverage \<Rightarrow> (content option \<times> coverage) res" where
  "nextContent getMinIds g =
     rbind (best_loop getMinIds (gc_ids g) 0 (gc_invContents g) (- 1, 0)) (\<lambda>((best_index, best_covered), contents).
       if best_index = - 1 then Inr (None, g\<lparr>gc_invContents := contents\<rparr>)
       else rbind (nth_res contents (nat best_index)) (\<lambda>content.
            rbind (getMinIds content) (\<lambda>(c_ids, content').
              Inr (Some content', \<lparr>gc_invContents = take (nat best_index) contents @ List.drop (nat best_index + 1) contents,
                gc_ids = fold ss_erase c_ids (gc_ids g)\<rparr>))))"

text \<open>\<open>while ((content = cover.nextContent())) body\<close>\<close>

function cover_loop :: "(content \<Rightarrow> (int list \<times> content) res) \<Rightarrow> ('s \<Rightarrow> content \<Rightarrow> 's res) \<Rightarrow> coverage \<Rightarrow> 's \<Rightarrow> ('s \<times> coverage) res" where
  "cover_loop getMinIds body g s = (case nextContent getMinIds g of
      Inl e \<Rightarrow> Inl e
    | Inr (None, g') \<Rightarrow> Inr (s, g')
    | Inr (Some content, g') \<Rightarrow> rbind (body s content) (\<lambda>s'. cover_loop getMinIds body g' s'))"
  by pat_completeness auto
termination
proof (relation "measure (\<lambda>(_, _, g, _). length (gc_invContents g))")
  fix getMinIds :: "content \<Rightarrow> (int list \<times> content) res" and body :: "'s \<Rightarrow> content \<Rightarrow> 's res"
    and g g' s s' content p o'
  have len: "best_loop getMinIds ids i cs b = Inr (b', cs') \<Longrightarrow> length cs' = length cs" for ids i cs b b' cs'
  proof (induction cs arbitrary: i b b' cs')
    case (Cons c cs)
    obtain b1 b2 c' cs1 where "best_loop getMinIds ids (Suc i) cs b1 = Inr (b2, cs1)" "cs' = c' # cs1"
      using Cons.prems by (cases b) (auto simp: res_simps Let_def split: if_splits)
    then show ?case using Cons.IH by simp
  qed simp
  assume "nextContent getMinIds g = Inr p" "(o', g') = p" "o' = Some content"
  then show "((getMinIds, body, g', s'), getMinIds, body, g, s) \<in> measure (\<lambda>(_, _, g, _). length (gc_invContents g))"
    by (auto simp: nextContent_def res_simps split: if_splits dest!: len)
qed simp

declare cover_loop.simps [simp del]

section \<open>A source of minimum IDs\<close>

locale min_ids_source =
  fixes getMinIds :: "content \<Rightarrow> (int list \<times> content) res"
    and ids_of :: "content \<Rightarrow> int list" and known :: "content \<Rightarrow> bool"
  assumes get: "known c \<Longrightarrow> \<exists>c'. getMinIds c = Inr (ids_of c, c') \<and> known c' \<and> ids_of c' = ids_of c"
begin

definition covers :: "content \<Rightarrow> int list \<Rightarrow> nat" where
  "covers c ids = count_covered ids (ids_of c)"

lemma best_loop_best:
  assumes "\<forall>c \<in> set cs. known c"
  shows "\<exists>best n cs'. best_loop getMinIds ids i cs (b0, n0) = Inr ((best, n), cs') \<and> list_all2 (\<lambda>c c'. known c' \<and> ids_of c' = ids_of c) cs cs'
    \<and> n0 \<le> n \<and> (\<forall>c \<in> set cs. covers c ids \<le> n)
    \<and> (n = n0 \<and> best = b0 \<or> n0 < n \<and> (\<exists>j < length cs. best = int (i + j) \<and> covers (cs ! j) ids = n))"
  using assms
proof (induction cs arbitrary: i b0 n0)
  case (Cons c cs)
  obtain c' where c': "getMinIds c = Inr (ids_of c, c')" "known c'" "ids_of c' = ids_of c"
    using get[of c] Cons.prems by auto
  let ?m = "covers c ids"
  let ?b1 = "if ?m > n0 then int i else b0" and ?n1 = "if ?m > n0 then ?m else n0"
  obtain best n cs' where IH: "best_loop getMinIds ids (i + 1) cs (?b1, ?n1) = Inr ((best, n), cs')"
      "list_all2 (\<lambda>c c'. known c' \<and> ids_of c' = ids_of c) cs cs'" "?n1 \<le> n" "\<forall>c \<in> set cs. covers c ids \<le> n"
      "n = ?n1 \<and> best = ?b1 \<or> ?n1 < n \<and> (\<exists>j < length cs. best = int (i + 1 + j) \<and> covers (cs ! j) ids = n)"
    using Cons.IH[of "i + 1" ?b1 ?n1] Cons.prems by auto
  have pair: "(if ?m > n0 then (int i, ?m) else (b0, n0)) = (?b1, ?n1)" by simp
  have "best_loop getMinIds ids i (c # cs) (b0, n0) = Inr ((best, n), c' # cs')"
    using IH(1) pair unfolding covers_def by (simp add: c'(1) Let_def)
  moreover have "n = n0 \<and> best = b0 \<or> n0 < n \<and> (\<exists>j < length (c # cs). best = int (i + j) \<and> covers ((c # cs) ! j) ids = n)"
    using IH(5)
  proof (elim disjE conjE exE)
    fix j assume "?n1 < n" "j < length cs" "best = int (i + 1 + j)" "covers (cs ! j) ids = n"
    then show ?thesis by (intro disjI2 conjI exI[of _ "Suc j"]) (auto split: if_splits)
  next
    assume "n = ?n1" "best = ?b1"
    then show ?thesis by (auto intro: exI[of _ 0] split: if_splits)
  qed
  moreover have "n0 \<le> n \<and> (\<forall>c \<in> set (c # cs). covers c ids \<le> n)" using IH(3,4) by (auto split: if_splits)
  ultimately show ?case using IH(2) c'(2,3) by auto
qed simp

text \<open>One step: a content that covers the most, and something, or none when none covers anything.\<close>

lemma next_step:
  assumes "\<forall>c \<in> set (gc_invContents g). known c"
  obtains (none) g' where "nextContent getMinIds g = Inr (None, g')" "gc_ids g' = gc_ids g"
      "\<forall>c \<in> set (gc_invContents g). covers c (gc_ids g) = 0"
    | (some) c g' j where "nextContent getMinIds g = Inr (Some c, g')" "j < length (gc_invContents g)"
      "known c" "ids_of c = ids_of (gc_invContents g ! j)" "gc_ids g' = fold ss_erase (ids_of c) (gc_ids g)"
      "0 < covers c (gc_ids g)" "\<forall>c' \<in> set (gc_invContents g). covers c' (gc_ids g) \<le> covers c (gc_ids g)"
      "length (gc_invContents g') < length (gc_invContents g)"
      "list_all2 (\<lambda>c c'. known c' \<and> ids_of c' = ids_of c) (take j (gc_invContents g) @ List.drop (j + 1) (gc_invContents g)) (gc_invContents g')"
proof -
  let ?cs = "gc_invContents g" and ?ids = "gc_ids g"
  obtain best n cs' where b: "best_loop getMinIds ?ids 0 ?cs (- 1, 0) = Inr ((best, n), cs')"
      "list_all2 (\<lambda>c c'. known c' \<and> ids_of c' = ids_of c) ?cs cs'" "\<forall>c \<in> set ?cs. covers c ?ids \<le> n"
      "n = 0 \<and> best = - 1 \<or> 0 < n \<and> (\<exists>j < length ?cs. best = int j \<and> covers (?cs ! j) ?ids = n)"
    using best_loop_best[OF assms, of ?ids 0 "- 1" 0] by auto
  from b(4) show thesis
  proof (elim disjE conjE exE)
    assume "n = 0" "best = - 1"
    then show thesis using none b(1,3) by (simp add: nextContent_def)
  next
    fix j assume j: "0 < n" "j < length ?cs" "best = int j" "covers (?cs ! j) ?ids = n"
    have same: "known (cs' ! j)" "ids_of (cs' ! j) = ids_of (?cs ! j)" "length cs' = length ?cs"
      using b(2) j(2) by (auto simp: list_all2_conv_all_nth)
    obtain c where c: "getMinIds (cs' ! j) = Inr (ids_of (cs' ! j), c)" "known c" "ids_of c = ids_of (?cs ! j)"
      using get[OF same(1)] same(2) by auto
    have rest: "list_all2 (\<lambda>c c'. known c' \<and> ids_of c' = ids_of c) (take j ?cs @ List.drop (j + 1) ?cs) (take j cs' @ List.drop (j + 1) cs')"
      using b(2) by (intro list_all2_appendI list_all2_takeI list_all2_dropI)
    show thesis
      using j same c b(1,3) rest by (intro some[of c _ j]) (auto simp: nextContent_def covers_def)
  qed
qed

lemma covers_0: "covers c ids = 0 \<longleftrightarrow> set (ids_of c) \<inter> set ids = {}"
  by (auto simp: covers_def count_covered_def filter_empty_conv)

text \<open>The whole loop, with the contents that it chooses.\<close>

lemma cover_loop_all:
  assumes "\<forall>c \<in> set (gc_invContents g). known c" "sset (gc_ids g)"
  shows "\<exists>chosen g'. cover_loop getMinIds (\<lambda>cs c. Inr (cs @ [c])) g acc = Inr (acc @ chosen, g')
    \<and> set (gc_ids g') = set (gc_ids g) - (\<Union>c \<in> set (gc_invContents g). set (ids_of c))
    \<and> set (gc_ids g) - set (gc_ids g') \<subseteq> (\<Union>c \<in> set chosen. set (ids_of c))
    \<and> ids_of ` set chosen \<subseteq> ids_of ` set (gc_invContents g) \<and> length chosen + length (gc_ids g') \<le> length (gc_ids g)"
  using assms
proof (induction "length (gc_invContents g)" arbitrary: g acc rule: less_induct)
  case less
  let ?cs = "gc_invContents g"
  from less.prems(1) show ?case
  proof (cases rule: next_step)
    case (none g')
    have "cover_loop getMinIds (\<lambda>cs c. Inr (cs @ [c])) g acc = Inr (acc @ [], g')"
      by (subst cover_loop.simps) (simp add: none(1))
    moreover have "set (gc_ids g) - (\<Union>c \<in> set ?cs. set (ids_of c)) = set (gc_ids g)" using none(3) by (auto simp: covers_0)
    ultimately show ?thesis using none(2) by (intro exI[of _ "[]"] exI[of _ g']) simp
  next
    case (some c g' j)
    let ?rest = "take j ?cs @ List.drop (j + 1) ?cs"
    have known': "\<forall>c \<in> set (gc_invContents g'). known c"
      using some(9) by (auto simp: list_all2_conv_all_nth in_set_conv_nth)
    have sset': "sset (gc_ids g')" using less.prems(2) some(5) by (simp add: sset_fold_erase)
    have ids': "ids_of ` set (gc_invContents g') = ids_of ` set ?rest"
      using some(9) by (induction rule: list_all2_induct) auto
    have step: "cover_loop getMinIds (\<lambda>cs c. Inr (cs @ [c])) g acc = cover_loop getMinIds (\<lambda>cs c. Inr (cs @ [c])) g' (acc @ [c])"
      by (subst cover_loop.simps) (simp add: some(1))
    obtain chosen g'' where IH: "cover_loop getMinIds (\<lambda>cs c. Inr (cs @ [c])) g' (acc @ [c]) = Inr ((acc @ [c]) @ chosen, g'')"
        "set (gc_ids g'') = set (gc_ids g') - (\<Union>c \<in> set (gc_invContents g'). set (ids_of c))"
        "set (gc_ids g') - set (gc_ids g'') \<subseteq> (\<Union>c \<in> set chosen. set (ids_of c))"
        "ids_of ` set chosen \<subseteq> ids_of ` set (gc_invContents g')" "length chosen + length (gc_ids g'') \<le> length (gc_ids g')"
      using less.hyps[OF some(8) known' sset'] by blast
    have split: "?cs = take j ?cs @ ?cs ! j # List.drop (j + 1) ?cs" using some(2) by (simp add: id_take_nth_drop)
    have cs: "ids_of ` set ?cs = insert (ids_of c) (ids_of ` set ?rest)"
      by (subst split) (simp add: some(4))
    have erased: "set (gc_ids g') = set (gc_ids g) - set (ids_of c)" by (simp add: some(5) set_fold_erase)
    have "set (ids_of c) \<inter> set (gc_ids g) \<noteq> {}" using some(6) covers_0[of c "gc_ids g"] by simp
    then have "set (gc_ids g') \<subset> set (gc_ids g)" using erased by blast
    then have less: "length (gc_ids g') < length (gc_ids g)"
      using psubset_card_mono[of "set (gc_ids g)" "set (gc_ids g')"] less.prems(2) sset'
      by (simp add: sset_def strict_sorted_iff distinct_card)
    have union: "(\<Union>c \<in> set ?cs. set (ids_of c)) = set (ids_of c) \<union> (\<Union>c \<in> set (gc_invContents g'). set (ids_of c))"
      using arg_cong[OF cs, of "\<lambda>S. \<Union>(set ` S)"] arg_cong[OF ids', of "\<lambda>S. \<Union>(set ` S)"] by simp
    show ?thesis
      using IH less erased union cs ids' by (intro exI[of _ "c # chosen"] exI[of _ g'']) (auto simp: step)
  qed
qed

end

text \<open>\<open>TranslationContent::getMinIds\<close>: the IDs it has, or those that the server gives for its hash.\<close>

definition content_ids :: "(git_oid \<Rightarrow> int list res) \<Rightarrow> (content \<Rightarrow> git_oid) \<Rightarrow> content \<Rightarrow> int list" where
  "content_ids request getTpHash c = (if m_minIdsInit c then m_minIds c
     else (case request (getTpHash c) of Inr ids \<Rightarrow> ids | Inl e \<Rightarrow> []))"

definition ids_known :: "(git_oid \<Rightarrow> int list res) \<Rightarrow> (content \<Rightarrow> git_oid) \<Rightarrow> content \<Rightarrow> bool" where
  "ids_known request getTpHash c \<longleftrightarrow> m_minIdsInit c \<or>
     (\<exists>ids gs. request (getTpHash c) = Inr ids \<and> readMessages c = Inr gs \<and> length ids = length gs)"

lemma readMessages_ids [simp]: "readMessages (c\<lparr>m_minIds := ids, m_minIdsInit := b\<rparr>) = readMessages c"
  by (simp add: readMessages_def readMessagesInternal_def cong: option.case_cong)

interpretation cids: min_ids_source "content_getMinIds request getTpHash" "content_ids request getTpHash"
    "ids_known request getTpHash" for request getTpHash
proof
  fix c assume "ids_known request getTpHash c"
  then show "\<exists>c'. content_getMinIds request getTpHash c = Inr (content_ids request getTpHash c, c')
      \<and> ids_known request getTpHash c' \<and> content_ids request getTpHash c' = content_ids request getTpHash c"
    by (auto simp: content_getMinIds_def content_ids_def ids_known_def Let_def)
qed

section \<open>The cover\<close>

text \<open>
  C10. The loop over \<open>nextContent\<close> ends; every ID of the iddiff that is in any of the involved contents
  is in one of those it returned, what is left is in none, and it returns at most as many
  contents as there are IDs that it covers.
\<close>

theorem coverage_covers:
  assumes "\<forall>c \<in> set (gc_invContents g). ids_known request getTpHash c" "sset (gc_ids g)"
  shows "\<exists>chosen g'. cover_loop (content_getMinIds request getTpHash) (\<lambda>cs c. Inr (cs @ [c])) g [] = Inr (chosen, g')
    \<and> (\<forall>k \<in> set (gc_ids g). k \<in> set (gc_ids g') \<longleftrightarrow> (\<forall>c \<in> set (gc_invContents g). k \<notin> set (content_ids request getTpHash c)))
    \<and> (\<forall>k \<in> set (gc_ids g). k \<in> set (gc_ids g') \<longleftrightarrow> (\<forall>c \<in> set chosen. k \<notin> set (content_ids request getTpHash c)))
    \<and> length chosen \<le> length (gc_ids g) - length (gc_ids g')"
proof -
  let ?ids = "content_ids request getTpHash"
  obtain chosen g' where *: "cover_loop (content_getMinIds request getTpHash) (\<lambda>cs c. Inr (cs @ [c])) g [] = Inr (chosen, g')"
      "set (gc_ids g') = set (gc_ids g) - (\<Union>c \<in> set (gc_invContents g). set (?ids c))"
      "set (gc_ids g) - set (gc_ids g') \<subseteq> (\<Union>c \<in> set chosen. set (?ids c))"
      "?ids ` set chosen \<subseteq> ?ids ` set (gc_invContents g)" "length chosen + length (gc_ids g') \<le> length (gc_ids g)"
    using cids.cover_loop_all[OF assms, of "[]"] by auto
  have "\<exists>c' \<in> set (gc_invContents g). ?ids c' = ?ids c" if "c \<in> set chosen" for c
    using *(4) that by fastforce
  then have "k \<in> set (gc_ids g') \<longleftrightarrow> (\<forall>c \<in> set chosen. k \<notin> set (?ids c))" if "k \<in> set (gc_ids g)" for k
    using *(2,3) that by (fastforce simp: subset_iff)
  moreover have "k \<in> set (gc_ids g') \<longleftrightarrow> (\<forall>c \<in> set (gc_invContents g). k \<notin> set (?ids c))" if "k \<in> set (gc_ids g)" for k
    using *(2) that by blast
  ultimately show ?thesis using *(1,5) by (intro exI[of _ chosen] exI[of _ g']) simp
qed

text \<open>Three files with the IDs 1 2, 2 3 4 and 3: the second is chosen, then the first.\<close>

definition wit_content :: "int list \<Rightarrow> content" where
  "wit_content ids = (new_content (Inr None) None)\<lparr>m_minIds := ids, m_minIdsInit := True\<rparr>"

theorem coverage_covers_witness:
  "\<exists>chosen g'. cover_loop (content_getMinIds (\<lambda>_. Inl AssertFail) (\<lambda>_. oid_zero)) (\<lambda>cs c. Inr (cs @ [c]))
      \<lparr>gc_invContents = [wit_content [1, 2], wit_content [2, 3, 4], wit_content [3]], gc_ids = [1, 2, 3, 9]\<rparr> [] = Inr (chosen, g')
    \<and> (\<forall>k \<in> {1, 2, 3, 9}. k \<in> set (gc_ids g') \<longleftrightarrow> k = 9) \<and> length chosen \<le> 3"
proof -
  let ?g = "\<lparr>gc_invContents = [wit_content [1, 2], wit_content [2, 3, 4], wit_content [3]], gc_ids = [1, 2, 3, 9]\<rparr>"
  have "\<forall>c \<in> set (gc_invContents ?g). ids_known (\<lambda>_. Inl AssertFail) (\<lambda>_. oid_zero) c" "sset (gc_ids ?g)"
    by (simp_all add: ids_known_def wit_content_def sset_def)
  from coverage_covers[OF this] obtain chosen g' where
    run: "cover_loop (content_getMinIds (\<lambda>_. Inl AssertFail) (\<lambda>_. oid_zero)) (\<lambda>cs c. Inr (cs @ [c])) ?g [] = Inr (chosen, g')"
    and left: "\<forall>k \<in> set (gc_ids ?g). k \<in> set (gc_ids g') \<longleftrightarrow>
      (\<forall>c \<in> set (gc_invContents ?g). k \<notin> set (content_ids (\<lambda>_. Inl AssertFail) (\<lambda>_. oid_zero) c))"
    and len: "length chosen \<le> length (gc_ids ?g) - length (gc_ids g')" by blast
  have "\<forall>k \<in> {1, 2, 3, 9}. k \<in> set (gc_ids g') \<longleftrightarrow> k = 9"
    using left by (simp add: content_ids_def wit_content_def)
  moreover from this have "length (gc_ids g') \<noteq> 0" by auto
  then have "length chosen \<le> 3" using len by (cases "length (gc_ids g')") simp_all
  ultimately show ?thesis using run by blast
qed

end
