(* ===== verification/ReviewMail.thy ===== *)
theory ReviewMail
  imports IddiffApply IddiffTools
begin

text \<open>
  \<open>tools/impl/iddiffreviewformatmailbox.cpp\<close>: the text of a review for the translator, from an iddiff
  and the file it is about. \<open>reviewCommentText\<close> puts a null pointer into the iddiff for an ID that
  is not there, so that the iddiff is a state of the loop that prints.
\<close>

section \<open>Labels\<close>

text \<open>The labels are Russian; the bytes of their UTF-8 text.\<close>

definition label_line :: string where
  "label_line = map char_of [
    46 :: nat, 32, 208, 161, 209, 130, 209, 128, 208, 190, 208, 186, 208, 176, 32, 208, 191, 208, 181, 209,
    128, 208, 181, 208, 178, 208, 190, 208, 180, 208, 176, 32, 226, 132, 150]"

definition label_source :: string where
  "label_source = map char_of [
    32 :: nat, 32, 32, 208, 152, 209, 129, 209, 133, 208, 190, 208, 180, 208, 189, 208, 176, 209, 143, 32,
    209, 129, 209, 130, 209, 128, 208, 190, 208, 186, 208, 176, 58, 32]"

definition label_plural :: string where
  "label_plural = map char_of [
    32 :: nat, 32, 32, 208, 156, 208, 189, 208, 190, 208, 182, 208, 181, 209, 129, 209, 130, 208, 178, 208,
    181, 208, 189, 208, 189, 208, 190, 208, 181, 32, 209, 135, 208, 184, 209, 129, 208, 187, 208, 190, 58, 32]"

definition label_suggested :: string where
  "label_suggested = map char_of [
    32 :: nat, 32, 32, 208, 159, 209, 128, 208, 181, 208, 180, 208, 187, 208, 190, 208, 182, 208, 181, 208,
    189, 208, 189, 209, 139, 208, 185, 32, 208, 191, 208, 181, 209, 128, 208, 181, 208, 178, 208, 190, 208,
    180, 58, 32]"

definition label_corrected :: string where
  "label_corrected = map char_of [
    32 :: nat, 32, 32, 208, 152, 209, 129, 208, 191, 209, 128, 208, 176, 208, 178, 208, 187, 208, 181, 208,
    189, 208, 189, 209, 139, 208, 185, 32, 208, 191, 208, 181, 209, 128, 208, 181, 208, 178, 208, 190, 208,
    180, 58, 32]"

definition label_ready :: string where
  "label_ready = map char_of [
    61 :: nat, 61, 61, 61, 61, 32, 208, 161, 209, 130, 209, 128, 208, 190, 208, 186, 208, 184, 32, 209, 129,
    32, 208, 179, 208, 190, 209, 130, 208, 190, 208, 178, 209, 139, 208, 188, 208, 184, 32, 208, 184, 209,
    129, 208, 191, 209, 128, 208, 176, 208, 178, 208, 187, 208, 181, 208, 189, 208, 184, 209, 143, 208, 188,
    208, 184, 32, 208, 191, 208, 181, 209, 128, 208, 181, 208, 178, 208, 190, 208, 180, 208, 190, 208, 178,
    32, 61, 61, 61, 61, 61]"

section \<open>One entry\<close>

record mail_entry =
  me_index :: int
  me_group :: message_group
  me_minId :: int

definition hasCorrected :: "iddiff \<Rightarrow> mail_entry \<Rightarrow> bool res" where
  "hasCorrected d e = rbind (findAddedSingle d (me_minId e)) (\<lambda>added. Inr (added \<noteq> None))"

text \<open>\<open>operator<\<close>.\<close>

definition mail_less :: "iddiff \<Rightarrow> mail_entry \<Rightarrow> mail_entry \<Rightarrow> bool res" where
  "mail_less d a b = rbind (hasCorrected d a) (\<lambda>ca. rbind (hasCorrected d b) (\<lambda>cb.
     if ca = cb then Inr (me_index a < me_index b) else Inr (ca = False \<and> cb = True)))"

definition nl :: string where "nl = [CHR 0x0A]"

definition generateText :: "iddiff \<Rightarrow> mail_entry \<Rightarrow> nat \<Rightarrow> (string \<times> iddiff) res" where
  "generateText d e review_item_index =
     rbind (group_message (me_group e) 0) (\<lambda>m.
     rbind (findAddedSingle d (me_minId e)) (\<lambda>added.
     rbind (rbind (os_to_string (m_msgid (me_group e))) formatString) (\<lambda>source.
     rbind (get_msgidPlural (me_group e)) (\<lambda>plural.
     rbind (if os_isNull plural then Inr []
            else rbind (rbind (os_to_string plural) formatString) (\<lambda>p. Inr (label_plural @ p @ nl))) (\<lambda>plural_line.
     rbind (formatPoMessage m) (\<lambda>suggested.
     rbind (case added of None \<Rightarrow> Inr []
            | Some a \<Rightarrow> rbind (formatPoMessage (snd a)) (\<lambda>t. Inr (label_corrected @ t @ nl))) (\<lambda>corrected_line.
     rbind (reviewCommentText d (me_minId e)) (\<lambda>(comment, d1).
     rbind (if os_isNull comment then Inr ([], d1)
            else rbind (reviewCommentText d1 (me_minId e)) (\<lambda>(c, d2).
                 rbind (os_print c) (\<lambda>t. Inr (nl @ ''   '' @ t @ nl, d2)))) (\<lambda>(review, d3).
       Inr (nat_dec review_item_index @ label_line @ int_dec (me_index e + 1) @ nl
          @ label_source @ source @ nl @ plural_line
          @ label_suggested @ suggested @ nl @ corrected_line @ review, d3))))))))))"

section \<open>The tool\<close>

fun mail_entries :: "iddiff \<Rightarrow> int \<Rightarrow> int list \<Rightarrow> message_group list \<Rightarrow> mail_entry list res" where
  "mail_entries d i [] gs = Inr []"
| "mail_entries d i (k # ks) [] = Inl OutOfBounds"
| "mail_entries d i (k # ks) (g # gs) =
     rbind (group_message g 0) (\<lambda>m.
     rbind (canDropMessage d m k) (\<lambda>drops.
     rbind (mail_entries d (i + 1) ks gs) (\<lambda>es.
       Inr (if drops then \<lparr>me_index = i, me_group = g, me_minId = k\<rparr> # es else es))))"

text \<open>\<open>std::sort\<close> with \<open>operator<\<close>.\<close>

fun insert_by :: "('a \<Rightarrow> 'a \<Rightarrow> bool res) \<Rightarrow> 'a \<Rightarrow> 'a list \<Rightarrow> 'a list res" where
  "insert_by lt x [] = Inr [x]"
| "insert_by lt x (y # ys) = rbind (lt y x) (\<lambda>b.
     if b then rbind (insert_by lt x ys) (\<lambda>zs. Inr (y # zs)) else Inr (x # y # ys))"

fun sort_by :: "('a \<Rightarrow> 'a \<Rightarrow> bool res) \<Rightarrow> 'a list \<Rightarrow> 'a list res" where
  "sort_by lt [] = Inr []"
| "sort_by lt (x # xs) = rbind (sort_by lt xs) (insert_by lt x)"

text \<open>The loop that prints; \<open>prev\<close> is the entry before.\<close>

fun mail_loop :: "iddiff \<Rightarrow> nat \<Rightarrow> mail_entry option \<Rightarrow> mail_entry list \<Rightarrow> string \<Rightarrow> (string \<times> iddiff) res" where
  "mail_loop d i prev [] out = Inr (out, d)"
| "mail_loop d i prev (e # es) out =
     rbind (hasCorrected d e) (\<lambda>corrected.
     rbind (if \<not> corrected then Inr False
            else (case prev of None \<Rightarrow> Inr True | Some p \<Rightarrow> rbind (hasCorrected d p) (\<lambda>c. Inr (\<not> c)))) (\<lambda>header.
     rbind (generateText d e i) (\<lambda>(t, d').
       mail_loop d' (i + 1) (Some e) es (out @ (if header then label_ready @ nl else []) @ t @ nl))))"

definition toolIddiffReviewFormatMailbox ::
    "(int list \<Rightarrow> int list res) \<Rightarrow> (git_oid \<Rightarrow> int list res) \<Rightarrow> (content \<Rightarrow> git_oid) \<Rightarrow> (string \<Rightarrow> catalog option res) \<Rightarrow>
     (string \<Rightarrow> json) \<Rightarrow> file_date_time \<Rightarrow> files \<Rightarrow> (int \<times> string) res" where
  "toolIddiffReviewFormatMailbox minIds request getTpHash read_po parse t0 fs =
     (let iddiff_path = ''/home/sasha/.stupids/lokalize-review-test.iddiff'';
          input_translation_path = ''/home/sasha/docmessages/kdebase-workspace/kdm_theme-ref.po'' in
      rbind (load_new parse t0 fs iddiff_path) (\<lambda>(_, d0).
      rbind (minimizeIds minIds d0) (\<lambda>d.
      rbind (content_getMinIds request getTpHash (new_content (read_po input_translation_path) (Some input_translation_path)))
        (\<lambda>(min_ids, input_translation).
      rbind (readMessages input_translation) (\<lambda>messages.
      rbind (mail_entries d 0 min_ids messages) (\<lambda>es.
      rbind (sort_by (mail_less d) es) (\<lambda>sorted.
      rbind (mail_loop d 0 None sorted []) (\<lambda>(out, d'). Inr (0, out)))))))))"

section \<open>The order of the entries\<close>

definition corrected :: "iddiff \<Rightarrow> mail_entry \<Rightarrow> bool" where
  "corrected d e \<longleftrightarrow> added_of d (me_minId e) \<noteq> {}"

lemma hasCorrected_ok: "iddiff_ok d \<Longrightarrow> hasCorrected d e = Inr (corrected d e)"
  by (simp add: hasCorrected_def findAddedSingle_ok corrected_def added_of_def split: list.split)

lemma mail_less_ok:
  "iddiff_ok d \<Longrightarrow> mail_less d a b = Inr (if corrected d a = corrected d b then me_index a < me_index b
     else \<not> corrected d a \<and> corrected d b)"
  by (simp add: mail_less_def hasCorrected_ok)

lemma insert_mail:
  assumes ok: "iddiff_ok d" and "\<forall>y \<in> set us \<union> set cs. me_index x < me_index y"
    and "\<forall>y \<in> set us. \<not> corrected d y" "\<forall>y \<in> set cs. corrected d y"
  shows "insert_by (mail_less d) x (us @ cs) = Inr (if corrected d x then us @ x # cs else x # us @ cs)"
proof (cases "corrected d x")
  case True
  have "insert_by (mail_less d) x cs = Inr (x # cs)"
    using assms(2,4) True by (cases cs) (auto simp: mail_less_ok[OF ok])
  then have "insert_by (mail_less d) x (us @ cs) = Inr (us @ x # cs)"
    using assms(3) True by (induction us) (auto simp: mail_less_ok[OF ok])
  with True show ?thesis by simp
next
  case False
  then show ?thesis
    using assms by (cases us; cases cs) (auto simp: mail_less_ok[OF ok])
qed

text \<open>
  The entries of the mail are ordered with those first that have no corrected translation, and
  each of the two groups in the order of the file.
\<close>

theorem mail_sorted:
  assumes "iddiff_ok d" "sorted_wrt (\<lambda>a b. me_index a < me_index b) es"
  shows "sort_by (mail_less d) es = Inr (filter (\<lambda>e. \<not> corrected d e) es @ filter (corrected d) es)"
  using assms(2)
proof (induction es)
  case (Cons e es)
  have "insert_by (mail_less d) e (filter (\<lambda>e. \<not> corrected d e) es @ filter (corrected d) es)
      = Inr (if corrected d e then filter (\<lambda>e. \<not> corrected d e) es @ e # filter (corrected d) es
        else e # filter (\<lambda>e. \<not> corrected d e) es @ filter (corrected d) es)"
    using Cons.prems by (intro insert_mail[OF assms(1)]) auto
  then show ?case using Cons by simp
qed simp

lemma mail_entries_index:
  "mail_entries d i ks gs = Inr es \<Longrightarrow> sorted_wrt (\<lambda>a b. me_index a < me_index b) es \<and> (\<forall>e \<in> set es. i \<le> me_index e)"
proof (induction ks arbitrary: i gs es)
  case (Cons k ks)
  then obtain g gs' where gs: "gs = g # gs'" by (cases gs) auto
  then obtain drops es' where es: "mail_entries d (i + 1) ks gs' = Inr es'"
      "es = (if drops then \<lparr>me_index = i, me_group = g, me_minId = k\<rparr> # es' else es')"
    using Cons.prems by (simp add: res_simps) blast
  have "sorted_wrt (\<lambda>a b. me_index a < me_index b) es'" "\<forall>e \<in> set es'. i + 1 \<le> me_index e"
    using Cons.IH[OF es(1)] by simp_all
  then show ?case by (auto simp: es(2))
qed simp

section \<open>The null pointer\<close>

lemma reviewCommentText_absent:
  assumes "map_of (m_items d) k = None" "reviewCommentText d k = Inr (c, d')"
  shows "map_of (m_items d') k = Some None" "os_isNull c" "map_of (m_items d') j = (if j = k then Some None else map_of (m_items d) j)"
  using assms by (auto simp: reviewCommentText_def Let_def om_touch_def map_of_om_set os_nullptr_def os_isNull_def)

text \<open>
  A mail in which a message that the iddiff says nothing about (a fuzzy or untranslated one) comes
  directly before one with a corrected translation: printing the first leaves a null pointer in
  the iddiff, and the question whether it had a correction dereferences it.
\<close>

theorem mail_null_pointer:
  assumes "iddiff_ok d" "map_of (m_items d) (me_minId a) = None" "corrected d b"
    and printed: "generateText d a i = Inr (t, d')"
  shows "mail_loop d i prev (a # b # es) out = Inl NullDeref"
proof -
  have ab: "me_minId b \<noteq> me_minId a"
    using assms(2,3) by (auto simp: corrected_def added_of_def change_of_def new_change_def)
  obtain c d1 where c: "reviewCommentText d (me_minId a) = Inr (c, d1)"
    using printed by (auto simp: generateText_def res_simps)
  then have "os_isNull c" using reviewCommentText_absent[OF assms(2)] by blast
  then have d': "d' = d1" using printed c by (auto simp: generateText_def res_simps split: if_splits)
  note m = reviewCommentText_absent[OF assms(2) c]
  have "hasCorrected d' b = Inr True"
    using hasCorrected_ok[OF assms(1), of b] assms(3) m(3)[of "me_minId b"] ab
    by (simp add: hasCorrected_def findAddedSingle_def findAddedAll_def find_change_def d')
  moreover have "hasCorrected d' a = Inl NullDeref"
    using m(1) by (simp add: hasCorrected_def findAddedSingle_def findAddedAll_def find_change_def d')
  moreover have "\<not> corrected d a" using assms(2) by (simp add: corrected_def added_of_def change_of_def new_change_def)
  ultimately show ?thesis using printed by (simp add: hasCorrected_ok[OF assms(1)])
qed

section \<open>Witnesses\<close>

definition wit_entry :: "int \<Rightarrow> int \<Rightarrow> mail_entry" where
  "wit_entry i k = \<lparr>me_index = i, me_group = orig_text.extend
     \<lparr>m_msgid = os_of_string ''Open'', m_msgidPlural = os_nullptr, m_msgctxt = os_nullptr\<rparr>
     \<lparr>m_messages = [message_of_base \<lparr>m_plural = False, m_fuzzy = False, m_msgstr = [os_of_string []]\<rparr> i ''a.po'' os_nullptr]\<rparr>,
     me_minId = k\<rparr>"

lemma ex_iddiff_items: "map_of (m_items ex_iddiff) k = (if k = 7 then Some (Some
    (new_change\<lparr>m_addedItems := [(0, \<lparr>m_plural = False, m_fuzzy = False, m_msgstr = [os_of_string ''x'']\<rparr>)]\<rparr>)) else None)"
  by (simp add: ex_iddiff_def put_change_def new_iddiff_def)

lemma wit_corrected: "corrected ex_iddiff (wit_entry i k) \<longleftrightarrow> k = 7"
  by (simp add: corrected_def added_of_def change_of_def ex_iddiff_items wit_entry_def new_change_def)

theorem mail_sorted_witness:
  "sort_by (mail_less ex_iddiff) [wit_entry 0 7, wit_entry 1 3, wit_entry 2 7] = Inr [wit_entry 1 3, wit_entry 0 7, wit_entry 2 7]"
  using mail_sorted[OF ex_iddiff_ok, of "[wit_entry 0 7, wit_entry 1 3, wit_entry 2 7]"]
  by (simp add: wit_corrected) (simp add: wit_entry_def)

theorem mail_null_pointer_witness:
  "mail_loop ex_iddiff 0 None [wit_entry 0 3, wit_entry 1 7] [] = Inl NullDeref"
proof -
  have "findAddedSingle ex_iddiff 3 = Inr None"
    by (simp add: findAddedSingle_ok[OF ex_iddiff_ok] change_of_def ex_iddiff_items new_change_def)
  then have "\<exists>t d'. generateText ex_iddiff (wit_entry 0 3) 0 = Inr (t, d')"
    by (simp add: generateText_def wit_entry_def orig_text.defs group_message_def group_size_def os_defs get_msgidPlural_def
        formatString_def formatPoMessage_def format_form_def numPlurals_def message_of_base_def translation.defs msgstr_def
        isFuzzy_def reviewCommentText_def om_touch_def map_of_om_set ex_iddiff_items Let_def)
  then obtain t d' where "generateText ex_iddiff (wit_entry 0 3) 0 = Inr (t, d')" by blast
  moreover have "map_of (m_items ex_iddiff) (me_minId (wit_entry 0 3)) = None" by (simp add: ex_iddiff_items wit_entry_def)
  moreover have "corrected ex_iddiff (wit_entry 1 7)" by (simp add: wit_corrected)
  ultimately show ?thesis using mail_null_pointer[OF ex_iddiff_ok] by blast
qed

end
