(* ===== verification/Lokalize.thy ===== *)
theory Lokalize
  imports Coverage IddiffDiffFacts IddiffTools GitLoad
begin

text \<open>
  \<open>dbuslokalize/dbuslokalize.cpp\<close> and the two tools that show a review in the editor Lokalize,
  \<open>tools/impl/lokalizereviewiddiff.cpp\<close> and \<open>tools/impl/lokalizereviewfile.cpp\<close>. The D-Bus is a parameter:
  what it replies to a call, given all calls so far, None for a call that fails. The calls are kept
  in the state.
\<close>

section \<open>The interface of Lokalize\<close>

datatype dbus_arg = DInt int | DBool bool | DStr string | DStrs "string list"

text \<open>Service, path and interface.\<close>

type_synonym proxy = "string \<times> string \<times> string"
type_synonym dbus_call = "proxy \<times> string \<times> dbus_arg list"
type_synonym bus = "dbus_call list \<Rightarrow> dbus_arg list option"

record lokalize =
  lk_instance :: string
  lk_connection :: bool
  lk_proxy :: "proxy option"
  lk_calls :: "dbus_call list"

definition new_lokalize :: lokalize where
  "new_lokalize = \<lparr>lk_instance = [], lk_connection = False, lk_proxy = None, lk_calls = []\<rparr>"

definition strstartswith :: "string \<Rightarrow> string \<Rightarrow> bool" where
  "strstartswith str pattern \<longleftrightarrow> is_prefix pattern str"

definition proxy_call :: "bus \<Rightarrow> proxy \<Rightarrow> string \<Rightarrow> dbus_arg list \<Rightarrow> lokalize \<Rightarrow> (dbus_arg list \<times> lokalize) res" where
  "proxy_call bus p meth args s = (let calls = lk_calls s @ [(p, meth, args)] in
     case bus calls of None \<Rightarrow> Inl AssertFail | Some r \<Rightarrow> Inr (r, s\<lparr>lk_calls := calls\<rparr>))"

text \<open>The values in a reply.\<close>

fun reply_int :: "dbus_arg list \<Rightarrow> int res" where
  "reply_int [DInt i] = Inr i"
| "reply_int _ = Inl AssertFail"

fun reply_strings :: "dbus_arg list \<Rightarrow> string list res" where
  "reply_strings [DStrs ss] = Inr ss"
| "reply_strings _ = Inl AssertFail"

text \<open>No bus: it does not even reply to no call.\<close>

definition lk_connect :: "bus \<Rightarrow> lokalize \<Rightarrow> lokalize res" where
  "lk_connect bus s =
     (if lk_connection s then Inr s
      else rassert (lk_proxy s = None) (rassert (lk_instance s = []) (rassert (bus [] \<noteq> None)
        (rbind (proxy_call bus (''org.freedesktop.DBus'', ''/org/freedesktop/DBus'', ''org.freedesktop.DBus'') ''ListNames'' []
            (s\<lparr>lk_connection := True\<rparr>)) (\<lambda>(r, s1).
         rbind (reply_strings r) (\<lambda>name_list.
           let inst = (case List.find (\<lambda>n. strstartswith n ''org.kde.lokalize'') name_list of Some n \<Rightarrow> n | None \<Rightarrow> lk_instance s1)
           in Inr (s1\<lparr>lk_instance := inst, lk_proxy := Some (inst, ''/ThisIsWhatYouWant'', ''org.kde.Lokalize.MainWindow'')\<rparr>)))))))"

definition lk_disconnect :: "lokalize \<Rightarrow> lokalize res" where
  "lk_disconnect s =
     (if \<not> lk_connection s then Inr s
      else rassert (lk_proxy s \<noteq> None) (rassert (lk_instance s \<noteq> [])
        (Inr (s\<lparr>lk_instance := [], lk_proxy := None, lk_connection := False\<rparr>))))"

definition createEditorProxy :: "lokalize \<Rightarrow> int \<Rightarrow> proxy res" where
  "createEditorProxy s index = rassert (index \<ge> 0)
     (Inr (lk_instance s, ''/ThisIsWhatYouWant/Editor/'' @ int_dec index, ''org.kde.Lokalize.Editor''))"

text \<open>A call of the main window that answers with a number.\<close>

definition window_call :: "bus \<Rightarrow> string \<Rightarrow> dbus_arg list \<Rightarrow> lokalize \<Rightarrow> (int \<times> lokalize) res" where
  "window_call bus meth args s = rbind (lk_connect bus s) (\<lambda>s1. case lk_proxy s1 of
      None \<Rightarrow> Inl AssertFail
    | Some p \<Rightarrow> rbind (proxy_call bus p meth args s1) (\<lambda>(r, s2). rbind (reply_int r) (\<lambda>i. Inr (i, s2))))"

definition lk_getPid :: "bus \<Rightarrow> lokalize \<Rightarrow> (int \<times> lokalize) res" where
  "lk_getPid bus s = window_call bus ''pid'' [] s"

definition openFileInEditor :: "bus \<Rightarrow> string \<Rightarrow> lokalize \<Rightarrow> (proxy \<times> lokalize) res" where
  "openFileInEditor bus filename s = rbind (window_call bus ''openFileInEditor'' [DStr filename] s) (\<lambda>(index, s').
     rbind (createEditorProxy s' index) (\<lambda>p. Inr (p, s')))"

definition editor_call :: "bus \<Rightarrow> proxy \<Rightarrow> string \<Rightarrow> dbus_arg list \<Rightarrow> lokalize \<Rightarrow> lokalize res" where
  "editor_call bus p meth args s = rbind (proxy_call bus p meth args s) (\<lambda>(r, s'). Inr s')"

definition setEntriesFilteredOut :: "bus \<Rightarrow> proxy \<Rightarrow> bool \<Rightarrow> lokalize \<Rightarrow> lokalize res" where
  "setEntriesFilteredOut bus p filteredOut = editor_call bus p ''setEntriesFilteredOut'' [DBool filteredOut]"

definition setEntryFilteredOut :: "bus \<Rightarrow> proxy \<Rightarrow> int \<Rightarrow> bool \<Rightarrow> lokalize \<Rightarrow> lokalize res" where
  "setEntryFilteredOut bus p entry filteredOut = editor_call bus p ''setEntryFilteredOut'' [DInt entry, DBool filteredOut]"

definition gotoEntry :: "bus \<Rightarrow> proxy \<Rightarrow> int \<Rightarrow> lokalize \<Rightarrow> lokalize res" where
  "gotoEntry bus p entry = editor_call bus p ''gotoEntry'' [DInt entry]"

definition addTemporaryEntryNote :: "bus \<Rightarrow> proxy \<Rightarrow> int \<Rightarrow> string \<Rightarrow> lokalize \<Rightarrow> lokalize res" where
  "addTemporaryEntryNote bus p entry note = editor_call bus p ''addTemporaryEntryNote'' [DInt entry, DStr note]"

definition clearTemporaryEntryNotes :: "bus \<Rightarrow> proxy \<Rightarrow> int \<Rightarrow> lokalize \<Rightarrow> lokalize res" where
  "clearTemporaryEntryNotes bus p entry = editor_call bus p ''clearTemporaryEntryNotes'' [DInt entry]"

definition openSyncSource :: "bus \<Rightarrow> proxy \<Rightarrow> string \<Rightarrow> lokalize \<Rightarrow> lokalize res" where
  "openSyncSource bus p filename = editor_call bus p ''openSyncSource'' [DStr filename]"

section \<open>Reviewing an iddiff\<close>

text \<open>The editor, the directories that were made and what was written, in order.\<close>

record review =
  rv_lokalize :: lokalize
  rv_dirs :: "string list"
  rv_written :: "(string \<times> catalog option) list"

text \<open>The loop over the messages; \<open>called\<close> is \<open>gotoEntryCalled\<close>.\<close>

fun show_edited :: "bus \<Rightarrow> proxy \<Rightarrow> message_group list \<Rightarrow> nat \<Rightarrow> bool \<Rightarrow> lokalize \<Rightarrow> lokalize res" where
  "show_edited bus p [] i called s = Inr s"
| "show_edited bus p (g # gs) i called s = rbind (group_message g 0) (\<lambda>m.
     if isEdited m then
       rbind (setEntryFilteredOut bus p (int i) False s) (\<lambda>s1.
       rbind (if \<not> called then gotoEntry bus p (int i) s1 else Inr s1) (\<lambda>s2.
         show_edited bus p gs (i + 1) True s2))
     else show_edited bus p gs (i + 1) called s)"

definition review_content ::
    "bus \<Rightarrow> (nat \<Rightarrow> int) \<Rightarrow> (string \<Rightarrow> bool) \<Rightarrow> (content \<Rightarrow> git_oid option) \<Rightarrow> (git_oid \<Rightarrow> string) \<Rightarrow>
     (git_oid \<Rightarrow> int list res) \<Rightarrow> (content \<Rightarrow> git_oid) \<Rightarrow> iddiff \<Rightarrow> review \<Rightarrow> content \<Rightarrow> review res" where
  "review_content bus clock can_mkdir blobHash fmt request getTpHash diff s content =
     (case blobHash content of
        None \<Rightarrow> Inl NullDeref
      | Some oid \<Rightarrow>
          let tempdir = ''/tmp/lk-iddiff-'' @ int_dec (clock (length (rv_dirs s))) @ ''_'' @ oid_toString fmt oid;
              file_a = tempdir @ ''/'' @ path_to_basename (m_displayFilename content);
              file_b = tempdir @ ''/merge_from.po'' in
          rassert (can_mkdir tempdir \<and> tempdir \<notin> set (rv_dirs s))
            (rbind (content_writeToFile content True) (\<lambda>a.
             rbind (applyToContent request getTpHash diff content) (\<lambda>(edited, content1).
             rbind (content_writeToFile content1 True) (\<lambda>b.
             rbind (openFileInEditor bus file_a (rv_lokalize s)) (\<lambda>(editor, l1).
             rbind (openSyncSource bus editor file_b l1) (\<lambda>l2.
             rbind (setEntriesFilteredOut bus editor True l2) (\<lambda>l3.
             rbind (readMessages content1) (\<lambda>messages.
             rbind (show_edited bus editor messages 0 False l3) (\<lambda>l4.
               Inr \<lparr>rv_lokalize = l4, rv_dirs = rv_dirs s @ [tempdir],
                 rv_written = rv_written s @ [(file_a, a), (file_b, b)]\<rparr>))))))))))"

definition toolLokalizeReviewIddiff ::
    "bus \<Rightarrow> (nat \<Rightarrow> int) \<Rightarrow> (string \<Rightarrow> bool) \<Rightarrow> (content \<Rightarrow> git_oid option) \<Rightarrow> (git_oid \<Rightarrow> string) \<Rightarrow>
     (int list \<Rightarrow> int list res) \<Rightarrow> (git_oid list \<Rightarrow> int list \<Rightarrow> int list res) \<Rightarrow> (git_oid \<Rightarrow> int list res) \<Rightarrow>
     (content \<Rightarrow> git_oid) \<Rightarrow> (string \<Rightarrow> catalog option res option) \<Rightarrow> (string \<Rightarrow> dir) \<Rightarrow>
     (string \<Rightarrow> json) \<Rightarrow> file_date_time \<Rightarrow> files \<Rightarrow> string list \<Rightarrow> review res" where
  "toolLokalizeReviewIddiff bus clock can_mkdir blobHash fmt minIds involved request getTpHash po_fs dirs parse t0 fs argv =
     rassert (length argv = 2)
       (rbind (insertPoDirOrTemplate po_fs ''/home/sasha/kde-ru/xx-numbering/templates'' ''/home/sasha/kde-ru/kde-ru-trunk.git''
            (dirs ''/home/sasha/kde-ru/xx-numbering/templates'') new_collector) (\<lambda>co1.
        rbind (insertPoDirOrTemplate po_fs ''/home/sasha/kde-ru/xx-numbering/stable-templates'' ''/home/sasha/kde-ru/kde-l10n-ru-stable''
            (dirs ''/home/sasha/kde-ru/xx-numbering/stable-templates'') co1) (\<lambda>co2.
        rbind (load_new parse t0 fs (argv ! 1)) (\<lambda>(_, diff0).
        rbind (new_coverage minIds involved getTpHash co2 diff0) (\<lambda>(cover, diff).
        rbind (cover_loop (content_getMinIds request getTpHash)
            (review_content bus clock can_mkdir blobHash fmt request getTpHash diff) cover
            \<lparr>rv_lokalize = new_lokalize, rv_dirs = [], rv_written = []\<rparr>) (\<lambda>(s, _).
          Inr s))))))"

section \<open>Reviewing a file\<close>

text \<open>One message: whether it is to be shown, and the note on the old translation.\<close>

definition translation_changed :: "message \<Rightarrow> message \<Rightarrow> bool res" where
  "translation_changed old_msg new_msg = rbind (equalTranslationsComments old_msg new_msg) (\<lambda>eq.
     Inr (\<not> eq \<and> (msg_isTranslated old_msg \<or> msg_isTranslated new_msg)))"

definition previous_note :: "message \<Rightarrow> string res" where
  "previous_note old_msg =
     rbind (rfold (\<lambda>t j. rbind (msgstr old_msg j) (\<lambda>x. Inr (addMsgstr t x))) mtb_empty [0..<numPlurals old_msg]) (\<lambda>iddiff_msg.
     rbind (formatPoMessage iddiff_msg) (\<lambda>t.
       Inr (''Previous translation'' @ (if isFuzzy old_msg then '' [FUZZY]'' else []) @ '': '' @ t)))"

fun show_changed :: "bus \<Rightarrow> proxy \<Rightarrow> message_group list \<Rightarrow> message_group list \<Rightarrow> nat \<Rightarrow> bool \<Rightarrow> lokalize \<Rightarrow> lokalize res" where
  "show_changed bus p (a # as) (b # bs) i called s =
     rbind (group_message a 0) (\<lambda>old_msg. rbind (group_message b 0) (\<lambda>new_msg.
     rbind (translation_changed old_msg new_msg) (\<lambda>changed.
       if changed then
         rbind (if \<not> called then gotoEntry bus p (int i) s else Inr s) (\<lambda>s1.
         rbind (setEntryFilteredOut bus p (int i) False s1) (\<lambda>s2.
         rbind (clearTemporaryEntryNotes bus p (int i) s2) (\<lambda>s3.
         rbind (previous_note old_msg) (\<lambda>note.
         rbind (addTemporaryEntryNote bus p (int i) note s3) (\<lambda>s4.
           show_changed bus p as bs (i + 1) True s4)))))
       else show_changed bus p as bs (i + 1) called s)))"
| "show_changed bus p _ _ i called s = Inr s"

text \<open>The absolute name; \<open>cwd\<close> is \<open>getcwd\<close> with a buffer of 500 bytes. An absolute name of 1000 bytes or more overflows.\<close>

definition absolute_name :: "string option \<Rightarrow> string \<Rightarrow> string res" where
  "absolute_name cwd name =
     (if name \<noteq> [] \<and> hd name = CHR ''/'' then (if length name < 1000 then Inr name else Inl OutOfBounds)
      else rassert (length name < 495) (case cwd of
          None \<Rightarrow> Inl AssertFail
        | Some d \<Rightarrow> rassert (length d < 500) (Inr (d @ ''/'' @ name))))"

definition toolLokalizeReviewfile ::
    "bus \<Rightarrow> string option \<Rightarrow> (string \<Rightarrow> catalog option res) \<Rightarrow> (content \<Rightarrow> git_oid) \<Rightarrow> (git_oid \<Rightarrow> content option res) \<Rightarrow>
     (content \<Rightarrow> string \<Rightarrow> unit res) \<Rightarrow> string list \<Rightarrow> lokalize res" where
  "toolLokalizeReviewfile bus cwd read_po getTpHash findOldest write_buffer argv = rassert (length argv = 2)
     (rbind (absolute_name cwd (argv ! 1)) (\<lambda>input_filename.
      let new_c = new_content (read_po input_filename) (Some input_filename);
          tp_hash = getTpHash new_c in
      rassert (\<not> oid_isNull tp_hash)
        (rbind (findOldest tp_hash) (\<lambda>found.
         let old = map_option (\<lambda>c. setDisplayFilename c ''[sync]'') found in
         rbind (case old of None \<Rightarrow> Inr () | Some c \<Rightarrow> write_buffer c ''/tmp/lokalize-sync-file.tmp'') (\<lambda>_.
         rbind (openFileInEditor bus input_filename new_lokalize) (\<lambda>(editor, s1).
         case old of
           None \<Rightarrow> Inr s1
         | Some old_content \<Rightarrow>
             rbind (openSyncSource bus editor ''/tmp/lokalize-sync-file.tmp'' s1) (\<lambda>s2.
             rbind (readMessages old_content) (\<lambda>old_messages.
             rbind (readMessages new_c) (\<lambda>new_messages.
             rassert (length old_messages = length new_messages)
               (rbind (setEntriesFilteredOut bus editor True s2) (\<lambda>s3.
                show_changed bus editor old_messages new_messages 0 False s3)))))))))))"

section \<open>What is shown\<close>

text \<open>No entry was made visible and none was gone to.\<close>

definition nothing_shown :: "lokalize \<Rightarrow> bool" where
  "nothing_shown s \<longleftrightarrow> (\<forall>(p, meth, args) \<in> set (lk_calls s). meth \<noteq> ''setEntryFilteredOut'' \<and> meth \<noteq> ''gotoEntry'')"

lemma fresh_messages:
  assumes "readMessages c = Inr gs" "g \<in> set gs"
  shows "\<exists>m. group_message g 0 = Inr m \<and> \<not> isEdited m"
proof -
  obtain cat where cat: "c_read c = Inr (Some cat)"
    using assms(1) by (auto simp: readMessages_def readMessagesInternal_def res_simps split: option.splits)
  obtain i where i: "i < length gs" "g = gs ! i" using assms(2) by (auto simp: in_set_conv_nth)
  show ?thesis
    unfolding i(2) readMessages_groups(2)[OF assms(1) cat i(1)]
    using group_read_message by (auto simp: isEdited_def)
qed

lemma show_edited_none:
  "\<forall>g \<in> set gs. \<exists>m. group_message g 0 = Inr m \<and> \<not> isEdited m \<Longrightarrow> show_edited bus p gs i called s = Inr s"
  by (induction gs arbitrary: i) auto

lemma proxy_call_quiet:
  "proxy_call bus p meth args s = Inr (r, s') \<Longrightarrow> nothing_shown s \<Longrightarrow>
    meth \<noteq> ''setEntryFilteredOut'' \<Longrightarrow> meth \<noteq> ''gotoEntry'' \<Longrightarrow> nothing_shown s'"
  by (auto simp: proxy_call_def nothing_shown_def Let_def split: option.splits)

lemma connect_quiet:
  assumes "lk_connect bus s = Inr s'" "nothing_shown s"
  shows "nothing_shown s'"
proof (cases "lk_connection s")
  case True
  then show ?thesis using assms by (simp add: lk_connect_def)
next
  case False
  then obtain p r s1 i q where "proxy_call bus p ''ListNames'' [] (s\<lparr>lk_connection := True\<rparr>) = Inr (r, s1)"
      "s' = s1\<lparr>lk_instance := i, lk_proxy := q\<rparr>"
    using assms(1) by (auto simp: lk_connect_def res_simps Let_def)
  then show ?thesis using proxy_call_quiet[of bus p "''ListNames''"] assms(2) by (simp add: nothing_shown_def)
qed

lemma open_quiet:
  assumes "openFileInEditor bus f s = Inr (p, s')" "nothing_shown s"
  shows "nothing_shown s'"
proof -
  obtain i where w: "window_call bus ''openFileInEditor'' [DStr f] s = Inr (i, s')"
    using assms(1) by (auto simp: openFileInEditor_def res_simps)
  then obtain s1 q r where *: "lk_connect bus s = Inr s1" "proxy_call bus q ''openFileInEditor'' [DStr f] s1 = Inr (r, s')"
    by (auto simp: window_call_def res_simps split: option.splits)
  show ?thesis using proxy_call_quiet[OF *(2) connect_quiet[OF *(1) assms(2)]] by simp
qed

lemma content_same:
  assumes "applyToContent request getTpHash d c = Inr (gs, c')"
  shows "c_read c' = c_read c" "readMessages c' = readMessages c" "content_writeToFile c' b = content_writeToFile c b"
proof -
  obtain ids where "content_getMinIds request getTpHash c = Inr (ids, c')"
    using assms by (auto simp: applyToContent_def res_simps)
  then have c': "c' = c \<or> c' = c\<lparr>m_minIds := ids, m_minIdsInit := True\<rparr>"
    by (auto simp: content_getMinIds_def res_simps Let_def split: if_splits)
  then show 1: "c_read c' = c_read c" "readMessages c' = readMessages c" by auto
  show "content_writeToFile c' b = content_writeToFile c b" by (simp only: content_writeToFile_def 1)
qed

text \<open>
  The review of an iddiff in the editor shows nothing: \<open>applyToContent\<close> changes messages that
  are read anew afterwards, so that the file to merge from is written the same as the original,
  and no entry counts as edited.
\<close>

theorem review_shows_nothing:
  assumes "review_content bus clock can_mkdir blobHash fmt request getTpHash diff s content = Inr s'"
    and "nothing_shown (rv_lokalize s)"
  shows "nothing_shown (rv_lokalize s') \<and> (\<exists>file_a file_b cat. rv_written s' = rv_written s @ [(file_a, cat), (file_b, cat)])"
proof -
  obtain a edited content1 b file_a file_b editor l1 l2 l3 messages l4 where *:
    "content_writeToFile content True = Inr a" "applyToContent request getTpHash diff content = Inr (edited, content1)"
    "content_writeToFile content1 True = Inr b" "openFileInEditor bus file_a (rv_lokalize s) = Inr (editor, l1)"
    "openSyncSource bus editor file_b l1 = Inr l2" "setEntriesFilteredOut bus editor True l2 = Inr l3"
    "readMessages content1 = Inr messages" "show_edited bus editor messages 0 False l3 = Inr l4"
    "rv_lokalize s' = l4" "rv_written s' = rv_written s @ [(file_a, a), (file_b, b)]"
    using assms(1) by (auto simp: review_content_def res_simps Let_def split: option.splits)
  have "a = b" using *(1,3) content_same(3)[OF *(2), of True] by simp
  have "l4 = l3" using *(8) show_edited_none fresh_messages[OF *(7)] by fastforce
  have "nothing_shown l1" by (rule open_quiet[OF *(4) assms(2)])
  then have "nothing_shown l2"
    using *(5) by (auto simp: openSyncSource_def editor_call_def res_simps dest: proxy_call_quiet)
  then have "nothing_shown l3"
    using *(6) by (auto simp: setEntriesFilteredOut_def editor_call_def res_simps dest: proxy_call_quiet)
  then show ?thesis using *(9,10) \<open>a = b\<close> \<open>l4 = l3\<close> by blast
qed

section \<open>Witnesses\<close>

definition wit_bus :: bus where
  "wit_bus calls = (if calls = [] then Some []
     else case last calls of (p, meth, args) \<Rightarrow>
       if meth = ''ListNames'' then Some [DStrs [''org.kde.konsole'', ''org.kde.lokalize-1'']]
       else if meth = ''openFileInEditor'' then Some [DInt 0] else Some [])"

text \<open>A file whose first message has the ID 7 and no translation yet; the iddiff has one for it.\<close>

definition wit_untranslated :: content where
  "wit_untranslated = (ex_content [] ''Sair'')\<lparr>m_minIds := [7, 8], m_minIdsInit := True\<rparr>"

lemma wit_untranslated_read:
  "readMessages wit_untranslated = Inr [group_read (ex_entry ''Open'' []) 0 ''a.po'', group_read (ex_entry ''Quit'' ''Sair'') 1 ''a.po'']"
  unfolding wit_untranslated_def readMessages_ids by (rule ex_content_groups)

lemma wit_applied: "\<exists>gs. applyToContent (\<lambda>_. Inl AssertFail) (\<lambda>_. oid_zero) ex_iddiff wit_untranslated = Inr (gs, wit_untranslated)"
proof -
  let ?g0 = "group_read (ex_entry ''Open'' []) 0 ''a.po''" and ?g1 = "group_read (ex_entry ''Quit'' ''Sair'') 1 ''a.po''"
  have e: "po_message_is_untranslated (ex_entry ''Open'' [])" "po_plural_forms (ex_entry ''Open'' []) = []"
      "po_msgstr (ex_entry ''Open'' []) = []"
    by (simp_all add: ex_entry_def po_message_is_untranslated_def po_message_msgstr_plural_def)
  obtain m where m: "m_messages ?g0 = [m]" "msg_isUntranslated m" "mt_view m = [Some []]"
    using group_read_simps(2)[of "ex_entry ''Open'' []" 0 "''a.po''"] by (auto simp: e)
  have "s_added (sections_of ex_iddiff 7) = {[Some ''x'']}"
    by (simp add: sections_of_sel change_of_def ex_iddiff_def put_change_def new_iddiff_def item_view_def mt_view_def)
  moreover have "numPlurals m = 1" using arg_cong[OF m(3), of length] by (simp add: mt_view_def numPlurals_def)
  ultimately obtain m' where "applyToMessage ex_iddiff ?g0 7 = Inr (with_message ?g0 m')"
    using applyToMessage_ok[OF ex_iddiff_ok m(1), of 7] m(2,3) by auto
  moreover have "involvedIds ex_iddiff = [7]"
    by (simp add: involvedIds_def ex_iddiff_def put_change_def new_iddiff_def om_keys_def sort_uniq_def)
  ultimately have "apply_groups ex_iddiff (involvedIds ex_iddiff) [?g0, ?g1] [7, 8] = Inr [with_message ?g0 m', ?g1]" by simp
  then show ?thesis
    by (simp add: applyToContent_def wit_untranslated_read content_getMinIds_def) (simp add: wit_untranslated_def)
qed

theorem review_shows_nothing_witness:
  "\<exists>s'. review_content wit_bus (\<lambda>_. 0) (\<lambda>_. True) (\<lambda>_. Some oid_zero) (\<lambda>_. ''00'') (\<lambda>_. Inl AssertFail) (\<lambda>_. oid_zero) ex_iddiff
      \<lparr>rv_lokalize = new_lokalize, rv_dirs = [], rv_written = []\<rparr> wit_untranslated = Inr s' \<and> nothing_shown (rv_lokalize s')"
proof -
  obtain gs where gs: "applyToContent (\<lambda>_. Inl AssertFail) (\<lambda>_. oid_zero) ex_iddiff wit_untranslated = Inr (gs, wit_untranslated)"
    using wit_applied by blast
  have shown: "show_edited bus p [group_read (ex_entry ''Open'' []) 0 ''a.po'', group_read (ex_entry ''Quit'' ''Sair'') 1 ''a.po''] 0 False l = Inr l" for bus p l
    by (rule show_edited_none) (use fresh_messages[OF wit_untranslated_read] in auto)
  obtain out where "content_writeToFile (ex_content [] ''Sair'') True = Inr out"
  proof -
    obtain m1 m2 where "group_message (group_read (ex_entry ''Open'' []) 0 ''a.po'') 0 = Inr m1" "\<not> m_edited m1"
        "group_message (group_read (ex_entry ''Quit'' ''Sair'') 1 ''a.po'') 0 = Inr m2" "\<not> m_edited m2"
      using group_read_message by meson
    then show thesis
      using that by (simp add: content_writeToFile_def ex_content_read ex_content_groups ex_catalog_def isEdited_def
          group_read_simps(1))
  qed
  then have written: "content_writeToFile wit_untranslated True = Inr out"
    by (simp add: content_writeToFile_def wit_untranslated_def cong: option.case_cong list.case_cong)
  let ?dir = "''/tmp/lk-iddiff-'' @ int_dec 0 @ ''_'' @ oid_toString (\<lambda>_. ''00'') oid_zero"
  obtain p l1 where l1: "openFileInEditor wit_bus (?dir @ ''/'' @ path_to_basename (m_displayFilename wit_untranslated)) new_lokalize = Inr (p, l1)"
    by (simp add: openFileInEditor_def window_call_def lk_connect_def new_lokalize_def wit_bus_def proxy_call_def
        createEditorProxy_def strstartswith_def Let_def)
  obtain l2 where l2: "openSyncSource wit_bus p (?dir @ ''/merge_from.po'') l1 = Inr l2"
    by (simp add: openSyncSource_def editor_call_def proxy_call_def wit_bus_def Let_def)
  obtain l3 where l3: "setEntriesFilteredOut wit_bus p True l2 = Inr l3"
    by (simp add: setEntriesFilteredOut_def editor_call_def proxy_call_def wit_bus_def Let_def)
  have "\<exists>s'. review_content wit_bus (\<lambda>_. 0) (\<lambda>_. True) (\<lambda>_. Some oid_zero) (\<lambda>_. ''00'') (\<lambda>_. Inl AssertFail) (\<lambda>_. oid_zero)
      ex_iddiff \<lparr>rv_lokalize = new_lokalize, rv_dirs = [], rv_written = []\<rparr> wit_untranslated = Inr s'"
    by (simp only: review_content_def Let_def option.case review.simps rassert_def list.set(1) empty_iff simp_thms if_True
        written gs rbind.simps prod.case l1 l2 l3 wit_untranslated_read shown sum.inject ex_simps)
  then obtain s' where s': "review_content wit_bus (\<lambda>_. 0) (\<lambda>_. True) (\<lambda>_. Some oid_zero) (\<lambda>_. ''00'') (\<lambda>_. Inl AssertFail)
      (\<lambda>_. oid_zero) ex_iddiff \<lparr>rv_lokalize = new_lokalize, rv_dirs = [], rv_written = []\<rparr> wit_untranslated = Inr s'" by blast
  have "nothing_shown new_lokalize" by (simp add: nothing_shown_def new_lokalize_def)
  with review_shows_nothing[OF s'] s' show ?thesis by (intro exI[of _ s']) simp
qed

end
