(* ===== verification/Tools.thy ===== *)
theory Tools
  imports DirWalk IddiffTools GitLoad Config
begin

text \<open>
  The other command-line tools (\<open>tools/main.cpp\<close>, \<open>tools/impl/iddiff.cpp\<close>, \<open>iddiffgit.cpp\<close>, \<open>iddiffrepo.cpp\<close>,
  \<open>idpatch.cpp\<close>, \<open>reversetphash.cpp\<close>, \<open>findbestmatchingtranslated.cpp\<close>). A tool returns its exit code with
  what it prints or writes. \<open>read_po\<close> and \<open>read_blob\<close> are what \<open>poFileRead\<close> gives for a file and for a
  blob; \<open>getTpHash\<close> and the requests to the server are parameters.
\<close>

section \<open>The choice of the tool\<close>

definition tool_names :: "string list" where
  "tool_names = [''iddiff'', ''iddiff-git'', ''iddiff-merge'', ''iddiff-merge-trcomm'', ''iddiff-minimize-ids'',
     ''iddiff-review-format-mailbox'', ''idpatch'', ''lokalize-reviewfile'', ''lokalize-review-iddiff'',
     ''rerere-trusted-filter'', ''reverse-tphash'', ''try-fill-tr'']"

definition tools_main :: "(string \<Rightarrow> string list \<Rightarrow> int res) \<Rightarrow> string list \<Rightarrow> int res" where
  "tools_main run argv = (if length argv \<le> 1 then Inr 1
     else let cmd = argv ! 1 in if cmd \<notin> set tool_names then Inr 1 else run cmd (List.drop 1 argv))"

section \<open>\<open>iddiff\<close>\<close>

definition fs_content :: "(string \<Rightarrow> catalog option res) \<Rightarrow> string \<Rightarrow> content" where
  "fs_content read_po name = new_content (read_po name) (Some name)"

definition toolIddiff ::
    "(git_oid \<Rightarrow> int res) \<Rightarrow> (content \<Rightarrow> git_oid) \<Rightarrow> (string \<Rightarrow> catalog option res) \<Rightarrow> (json \<Rightarrow> string) \<Rightarrow> (string \<Rightarrow> bool) \<Rightarrow>
     file_date_time \<Rightarrow> files \<Rightarrow> string list \<Rightarrow> (string \<times> files) res" where
  "toolIddiff getFirstId getTpHash read_po print can_write t0 fs argv = (let args = parseArgs argv in
     rbind (if length args = 1 then
              (let content = fs_content read_po (args ! 0) in
               rbind (diffAgainstEmpty getFirstId getTpHash (new_iddiff t0) content) (\<lambda>diff.
               rbind (diffTrCommentsAgainstEmpty getFirstId getTpHash (new_iddiff t0) content) (\<lambda>trc. Inr (diff, trc))))
            else if length args = 2 then
              (let content_a = fs_content read_po (args ! 0); content_b = fs_content read_po (args ! 1) in
               rbind (diffFiles getFirstId getTpHash (new_iddiff t0) content_a content_b) (\<lambda>diff.
               rbind (diffTrCommentsFiles getFirstId getTpHash (new_iddiff t0) content_a content_b) (\<lambda>trc. Inr (diff, trc))))
            else Inl AssertFail) (\<lambda>(diff, diff_trcomments).
     rbind (generateIddiffText print diff) (\<lambda>out.
     rbind (write_iddiff print can_write fs diff_trcomments ''/tmp/11235.iddiff-tr-comments'') (\<lambda>fs'. Inr (out, fs')))))"

section \<open>\<open>iddiff-git\<close>\<close>

text \<open>A \<open>FileContentGit\<close>: it gives the content no display name.\<close>

definition git_content :: "(git_oid \<Rightarrow> catalog option res) \<Rightarrow> git_oid \<Rightarrow> content" where
  "git_content read_blob oid = new_content (read_blob oid) None"

fun merge_changes ::
    "(git_oid \<Rightarrow> int res) \<Rightarrow> (content \<Rightarrow> git_oid) \<Rightarrow> (git_oid \<Rightarrow> catalog option res) \<Rightarrow> file_date_time \<Rightarrow> iddiff \<Rightarrow>
     file_change list \<Rightarrow> iddiff res" where
  "merge_changes getFirstId getTpHash read_blob t0 merged_diff [] = Inr merged_diff"
| "merge_changes getFirstId getTpHash read_blob t0 merged_diff (ch # chs) =
     (if fc_type ch = DEL then merge_changes getFirstId getTpHash read_blob t0 merged_diff chs
      else rbind (change_oid2 ch) (\<lambda>oid2.
        let content = git_content read_blob oid2 in
        rbind (if fc_type ch = ADD then diffAgainstEmpty getFirstId getTpHash (new_iddiff t0) content
               else if fc_type ch = MOD then rbind (change_oid1 ch) (\<lambda>oid1.
                 diffFiles getFirstId getTpHash (new_iddiff t0) (git_content read_blob oid1) content)
               else Inl AssertFail) (\<lambda>diff.
        rbind (merge merged_diff diff) (\<lambda>merged.
          merge_changes getFirstId getTpHash read_blob t0 merged chs))))"

definition toolIddiffGit ::
    "disk \<Rightarrow> (string \<Rightarrow> git_oid option) \<Rightarrow> (git_oid \<Rightarrow> int res) \<Rightarrow> (content \<Rightarrow> git_oid) \<Rightarrow> (git_oid \<Rightarrow> catalog option res) \<Rightarrow>
     (json \<Rightarrow> string) \<Rightarrow> file_date_time \<Rightarrow> string list \<Rightarrow> (int \<times> string) res" where
  "toolIddiffGit disk git_oid_fromstr getFirstId getTpHash read_blob print t0 argv = (let args = parseArgs argv in
     if length args \<noteq> 2 then Inr (1, [])
     else rbind (readRepositoryCommits disk (new_repository (args ! 0))) (\<lambda>repo.
       case git_oid_fromstr (args ! 1) of
         None \<Rightarrow> Inl AssertFail
       | Some input_oid \<Rightarrow> rbind (commitIndexByOid repo input_oid) (\<lambda>commit_index. rassert (commit_index \<ge> 0)
           (rbind (repo_commit repo commit_index) (\<lambda>c.
            rbind (merge_changes getFirstId getTpHash read_blob t0 (new_iddiff t0) (c_changes c)) (\<lambda>merged_diff.
            rbind (generateIddiffText print merged_diff) (\<lambda>out. Inr (0, out))))))))"

section \<open>\<open>iddiff-repo\<close>\<close>

text \<open>
  \<open>branch\<close> is the global option. \<open>relevantPot\<close> is \<open>findRelevantPot\<close> of the repository of templates, \<open>findOldest\<close>
  the search of the loader; \<open>copyTranslationsFrom\<close> and \<open>setAuthor\<close> of \<open>TranslationContent\<close> are called
  but commented out in the class, \<open>fill\<close> is the two together.
\<close>

definition processFile ::
    "(string \<Rightarrow> catalog option res) \<Rightarrow> (git_oid \<Rightarrow> catalog option res) \<Rightarrow> (git_oid \<Rightarrow> int res) \<Rightarrow> (content \<Rightarrow> git_oid) \<Rightarrow>
     (string \<Rightarrow> file_date_time \<Rightarrow> git_oid option res) \<Rightarrow> (git_oid \<Rightarrow> content option res) \<Rightarrow> (content \<Rightarrow> content \<Rightarrow> content res) \<Rightarrow>
     file_date_time \<Rightarrow> string option \<times> iddiff \<Rightarrow> string \<Rightarrow> (string option \<times> iddiff) res" where
  "processFile read_po read_blob getFirstId getTpHash relevantPot findOldest fill t0 s filename =
     (let (branch, merged_diff) = s; input_content = fs_content read_po filename; tp_hash = getTpHash input_content;
          finish = (\<lambda>input tp_hash. rbind (findOldest tp_hash) (\<lambda>old. case old of
              None \<Rightarrow> Inl NullDeref
            | Some old_content \<Rightarrow>
                rbind (diffFiles getFirstId getTpHash (new_iddiff t0) (setDisplayFilename old_content filename) input) (\<lambda>diff.
                rbind (merge merged_diff diff) (\<lambda>m. Inr (branch, m))))) in
      if oid_isNull tp_hash then Inr s
      else rbind (getFirstId tp_hash) (\<lambda>first_id. rassert (first_id \<noteq> - 1)
        (if first_id \<noteq> 0 then finish input_content tp_hash
         else (case branch of
             None \<Rightarrow> Inr s
           | Some b \<Rightarrow>
               if b \<noteq> ''trunk'' \<and> b \<noteq> ''stable'' then Inl NullDeref
               else rassert (b = ''stable'')
                 (rbind (content_potDate input_content) (\<lambda>date.
                  rbind (relevantPot (path_to_basename filename @ ''t'') date) (\<lambda>best. case best of
                      None \<Rightarrow> Inl AssertFail
                    | Some best_pot_oid \<Rightarrow>
                        let pot_content = setDisplayFilename (git_content read_blob best_pot_oid) filename;
                            pot_hash = getTpHash pot_content in
                        rbind (getFirstId pot_hash) (\<lambda>id. rassert (id \<noteq> - 1) (rassert (id \<noteq> 0)
                          (rbind (fill pot_content input_content) (\<lambda>input. finish input pot_hash)))))))))))"

text \<open>\<open>branch\<close> and \<open>inputFiles\<close> are what \<open>getopt\<close> leaves.\<close>

definition toolIddiffRepo ::
    "(string \<Rightarrow> catalog option res) \<Rightarrow> (git_oid \<Rightarrow> catalog option res) \<Rightarrow> (git_oid \<Rightarrow> int res) \<Rightarrow> (content \<Rightarrow> git_oid) \<Rightarrow>
     (string \<Rightarrow> file_date_time \<Rightarrow> git_oid option res) \<Rightarrow> (git_oid \<Rightarrow> content option res) \<Rightarrow> (content \<Rightarrow> content \<Rightarrow> content res) \<Rightarrow>
     file_date_time \<Rightarrow> (json \<Rightarrow> string) \<Rightarrow> string option \<Rightarrow> string list \<Rightarrow> (int \<times> string) res" where
  "toolIddiffRepo read_po read_blob getFirstId getTpHash relevantPot findOldest fill t0 print branch inputFiles =
     (if length inputFiles = 0 then Inr (1, [])
      else rbind (rfold (processFile read_po read_blob getFirstId getTpHash relevantPot findOldest fill t0)
             (branch, new_iddiff t0) inputFiles) (\<lambda>(_, merged_diff).
           rbind (generateIddiffText print merged_diff) (\<lambda>out. Inr (0, out))))"

section \<open>\<open>idpatch\<close>\<close>

definition conf_path :: "string option \<Rightarrow> config \<Rightarrow> string \<Rightarrow> (string \<times> config) res" where
  "conf_path home conf key = (let (v, conf') = config_get conf key in rbind (expand_path home v) (\<lambda>p. Inr (p, conf')))"

definition insert_branch ::
    "string option \<Rightarrow> (string \<Rightarrow> catalog option res option) \<Rightarrow> (string \<Rightarrow> dir) \<Rightarrow> string \<Rightarrow> config \<times> collector \<Rightarrow> (config \<times> collector) res" where
  "insert_branch home po_fs dirs branch s = (let (conf, co) = s in
     rbind (conf_path home conf (''apply.templates_path.'' @ branch)) (\<lambda>(templates, conf1).
     rbind (conf_path home conf1 (''apply.translations_path.'' @ branch)) (\<lambda>(translations, conf2).
     rbind (insertPoDirOrTemplate po_fs templates translations (dirs templates) co) (\<lambda>co'. Inr (conf2, co')))))"

text \<open>The exit code, what is printed, and what is written to the files.\<close>

definition toolIdpatch ::
    "(int list \<Rightarrow> int list res) \<Rightarrow> (git_oid list \<Rightarrow> int list \<Rightarrow> int list res) \<Rightarrow> (content \<Rightarrow> git_oid) \<Rightarrow>
     (content \<Rightarrow> (int list \<times> content) res) \<Rightarrow> (json \<Rightarrow> string) \<Rightarrow> (string \<Rightarrow> json) \<Rightarrow> file_date_time \<Rightarrow> files \<Rightarrow> string option \<Rightarrow>
     (string \<Rightarrow> catalog option res option) \<Rightarrow> (string \<Rightarrow> dir) \<Rightarrow> string list \<Rightarrow>
     (int \<times> string \<times> (string \<times> catalog option) list) res" where
  "toolIdpatch minIds involved getTpHash getMinIds print parse t0 fs home po_fs dirs argv = rassert (length argv = 3)
     (if argv ! 1 \<noteq> ''messages'' \<and> argv ! 1 \<noteq> ''comments'' then Inr (1, [], [])
      else let comments = (argv ! 1 = ''comments'') in
        rbind (load_new parse t0 fs (argv ! 1)) (\<lambda>(_, d0).
        rbind (minimizeIds minIds d0) (\<lambda>differ.
        rbind (generateIddiffText print differ) (\<lambda>out.
        rbind (defaultInstance home fs None) (\<lambda>conf.
        rbind (insert_branch home po_fs dirs ''trunk'' (conf, new_collector)) (\<lambda>s1.
        rbind (insert_branch home po_fs dirs ''stable'' s1) (\<lambda>(_, co).
        rbind (IddiffApply.applyIddiff involved getTpHash getMinIds differ co comments) (\<lambda>(edited, written, co').
          Inr (0, out, written)))))))))"

section \<open>\<open>reverse-tphash\<close> and the best matching file\<close>

text \<open>\<open>cache\<close> is the global \<open>TphashCache\<close>.\<close>

definition toolReverseTpHash ::
    "(string \<Rightarrow> git_oid option) \<Rightarrow> (git_oid \<Rightarrow> string) \<Rightarrow> oid_map_cache \<Rightarrow> string list \<Rightarrow> string res" where
  "toolReverseTpHash git_oid_fromstr fmt cache argv = (let args = parseArgs argv in rassert (length args = 1)
     (rbind (oid_of_str git_oid_fromstr (args ! 0)) (\<lambda>tp_hash.
        Inr (concat (map (\<lambda>oid. oid_toString fmt oid @ [CHR 0x0A]) (reverseGetValues cache tp_hash))))))"

fun max_loop :: "('a \<Rightarrow> 'v::linorder res) \<Rightarrow> 'a \<Rightarrow> 'v \<Rightarrow> 'a list \<Rightarrow> 'a res" where
  "max_loop func maxIt maxValue [] = Inr maxIt"
| "max_loop func maxIt maxValue (x # xs) = rbind (func x) (\<lambda>v.
     if v > maxValue then max_loop func x v xs else max_loop func maxIt maxValue xs)"

text \<open>None is \<open>last\<close>, the end of the range.\<close>

definition max_element_by_score :: "('a \<Rightarrow> 'v::linorder res) \<Rightarrow> 'a list \<Rightarrow> 'a option res" where
  "max_element_by_score func xs = (case xs of
      [] \<Rightarrow> Inr None
    | x # xs \<Rightarrow> rbind (func x) (\<lambda>v. rbind (max_loop func x v xs) (\<lambda>m. Inr (Some m))))"

text \<open>\<open>fill\<close> is \<open>copyTranslationsFrom\<close>.\<close>

definition toolFindBestMatchingTranslated ::
    "(string \<Rightarrow> catalog option res) \<Rightarrow> (content \<Rightarrow> content \<Rightarrow> content res) \<Rightarrow> string list \<Rightarrow> string res" where
  "toolFindBestMatchingTranslated read_po fill argv = (let args = parseArgs argv in rassert (length args \<ge> 2)
     (let target = fs_content read_po (args ! 0) in
      rbind (readMessages target) (\<lambda>_.
      rbind (translatedCount target) (\<lambda>baseTranslated.
      rbind (max_element_by_score (\<lambda>name.
          let content = fs_content read_po name in
          rbind (readMessages content) (\<lambda>_.
          rbind (fill target content) (\<lambda>tmp.
          rbind (content_writeToFile tmp True) (\<lambda>_.
          rbind (translatedCount tmp) (\<lambda>n. Inr (int n - int baseTranslated)))))) (List.drop 1 args)) (\<lambda>best.
        case best of None \<Rightarrow> Inl OutOfBounds | Some name \<Rightarrow> Inr name)))))"

section \<open>Facts\<close>

lemma max_loop_max:
  assumes "\<And>x. func x = Inr (f x)"
  shows "\<exists>m. max_loop func a (f a) xs = Inr m \<and> m \<in> set (a # xs) \<and> (\<forall>x \<in> set (a # xs). f x \<le> f m)
    \<and> List.find (\<lambda>x. f m \<le> f x) (a # xs) = Some m"
proof (induction xs arbitrary: a)
  case (Cons x xs)
  show ?case
  proof (cases "f x > f a")
    case True
    then show ?thesis using Cons.IH[of x] by (fastforce simp: assms)
  next
    case False
    obtain m where m: "max_loop func a (f a) xs = Inr m" "m \<in> set (a # xs)" "\<forall>x \<in> set (a # xs). f x \<le> f m"
        "List.find (\<lambda>x. f m \<le> f x) (a # xs) = Some m"
      using Cons.IH[of a] by blast
    have "\<not> f m \<le> f a \<Longrightarrow> \<not> f m \<le> f x" using False by (meson leI order_trans)
    then have "List.find (\<lambda>x. f m \<le> f x) (a # x # xs) = Some m"
      using m(4) by (cases "f m \<le> f a") simp_all
    moreover have "max_loop func a (f a) (x # xs) = Inr m" using m(1) False by (simp add: assms)
    moreover have "f x \<le> f m" using m(3) False by (auto intro: order_trans)
    ultimately show ?thesis using m(2,3) by (intro exI[of _ m]) auto
  qed
qed simp

text \<open>\<open>max_element_by_score\<close> returns the first of the elements with the largest score.\<close>

theorem max_element_first_largest:
  assumes "\<And>x. func x = Inr (f x)" "xs \<noteq> []"
  shows "\<exists>m. max_element_by_score func xs = Inr (Some m) \<and> m \<in> set xs \<and> (\<forall>x \<in> set xs. f x \<le> f m)
    \<and> List.find (\<lambda>x. f m \<le> f x) xs = Some m"
  using assms max_loop_max[of func f "hd xs" "tl xs"] by (cases xs) (auto simp: max_element_by_score_def)

text \<open>A content from Git has no display name, which reading it asserts.\<close>

lemma git_content_unreadable:
  "readMessages (git_content read_blob oid) = Inl AssertFail" "content_date (git_content read_blob oid) = Inl AssertFail"
  by (simp_all add: readMessages_def content_date_def readMessagesInternal_def git_content_def new_content_def)

lemma git_header_fails: "diff_header d (git_content read_blob oid) = Inl AssertFail"
  by (simp add: diff_header_def git_content_unreadable)

lemma git_diffs_fail:
  "diffAgainstEmpty getFirstId getTpHash d (git_content read_blob oid) \<noteq> Inr d'"
  "diffFiles getFirstId getTpHash d c (git_content read_blob oid) \<noteq> Inr d'"
  by (simp_all only: diffAgainstEmpty_def diffFiles_def git_header_fails rbind.simps) (simp_all add: res_simps)

lemma merge_changes_fails:
  "\<exists>ch \<in> set chs. fc_type ch \<noteq> DEL \<Longrightarrow> merge_changes getFirstId getTpHash read_blob t0 d chs \<noteq> Inr d'"
proof (induction chs arbitrary: d)
  case (Cons ch chs)
  show ?case
  proof (cases "fc_type ch = DEL")
    case True
    then show ?thesis using Cons by simp
  next
    case False
    have "(if fc_type ch = ADD then diffAgainstEmpty getFirstId getTpHash (new_iddiff t0) (git_content read_blob oid2)
        else if fc_type ch = MOD then rbind (change_oid1 ch) (\<lambda>oid1.
          diffFiles getFirstId getTpHash (new_iddiff t0) (git_content read_blob oid1) (git_content read_blob oid2))
        else Inl AssertFail) \<noteq> Inr diff" for oid2 diff
      using git_diffs_fail by (simp add: rbind_eq_Inr)
    then show ?thesis by (simp add: False Let_def rbind_eq_Inr)
  qed
qed simp

text \<open>
  \<open>iddiff-git\<close> prints nothing for a commit that adds or modifies a file: the contents it makes have no
  display name, and reading them fails.
\<close>

theorem toolIddiffGit_fails:
  assumes "readRepositoryCommits disk (new_repository git_dir) = Inr repo" "git_oid_fromstr oid_str = Some oid"
    and "commitIndexByOid repo oid = Inr (int i)" "repo_commit repo (int i) = Inr c" "\<exists>ch \<in> set (c_changes c). fc_type ch \<noteq> DEL"
  shows "\<exists>e. toolIddiffGit disk git_oid_fromstr getFirstId getTpHash read_blob print t0 [name, git_dir, oid_str] = Inl e"
proof -
  obtain e where "merge_changes getFirstId getTpHash read_blob t0 (new_iddiff t0) (c_changes c) = Inl e"
    using merge_changes_fails[OF assms(5)] by (cases "merge_changes getFirstId getTpHash read_blob t0 (new_iddiff t0) (c_changes c)") blast+
  then show ?thesis using assms(1-4) by (simp add: toolIddiffGit_def parseArgs_def)
qed

text \<open>\<open>iddiff-repo\<close> stops at a file that has no older version: it sets the display name of the null pointer.\<close>

theorem processFile_new_file:
  assumes "\<not> oid_isNull (getTpHash (fs_content read_po filename))" "getFirstId (getTpHash (fs_content read_po filename)) = Inr first_id"
    and "first_id > 0" "findOldest (getTpHash (fs_content read_po filename)) = Inr None"
  shows "processFile read_po read_blob getFirstId getTpHash relevantPot findOldest fill t0 s filename = Inl NullDeref"
  using assms by (simp add: processFile_def Let_def split: prod.split)

text \<open>
  \<open>idpatch\<close> opens a file named like its mode and not the iddiff: what it does is the same whatever
  path is on the command line.
\<close>

theorem toolIdpatch_ignores_path:
  "toolIdpatch minIds involved getTpHash getMinIds print parse t0 fs home po_fs dirs [name, mode, path]
    = toolIdpatch minIds involved getTpHash getMinIds print parse t0 fs home po_fs dirs [name, mode, path']"
  by (simp add: toolIdpatch_def)

end
