(* ===== verification/ServerStart.thy ===== *)
theory ServerStart
  imports Protocol
begin

text \<open>
  \<open>TcpCommandServer::start\<close> and the handler of \<open>SIGCHLD\<close> (\<open>stupids-server/tcpcommandserver.cpp\<close>,
  \<open>main.cpp\<close>): the process that accepts connections and forks a child for each of them. A child
  runs the loop of \<open>sessionOpened\<close> on its own copy of the server object, one command at a time; the
  children and the parent take their steps in any order. A child that has ended is a zombie with its
  status until the handler waits for it. Each child is kept with what its client sends.
\<close>

section \<open>The processes\<close>

datatype child = Running server_conn | Exited int server_conn

type_synonym child_entry = "int \<times> sock_event list \<times> child"

record server_proc =
  sp_children :: "child_entry list"
  sp_reaped :: "child_entry list"

text \<open>Setting up: the results of \<open>setsockopt\<close>, \<open>bind\<close>, \<open>listen\<close> and \<open>signal\<close>.\<close>

definition start_setup :: "int \<Rightarrow> int \<Rightarrow> int \<Rightarrow> bool \<Rightarrow> server_proc res" where
  "start_setup setsockopt bound listening handler_set =
     (if setsockopt < 0 then Inl AssertFail
      else if bound \<noteq> 0 then Inl AssertFail
      else rassert (listening = 0) (rassert handler_set (Inr \<lparr>sp_children = [], sp_reaped = []\<rparr>)))"

text \<open>
  One turn of the loop: the accepted connection, if \<open>accept\<close> succeeds, and what \<open>fork\<close> returns. The
  parent closes its copy of the connection before it looks whether \<open>fork\<close> failed.
\<close>

definition accept_connection :: "sock_event list option \<Rightarrow> int \<Rightarrow> server_proc \<Rightarrow> server_proc res" where
  "accept_connection connfd childpid sp = (case connfd of
      None \<Rightarrow> Inl AssertFail
    | Some evs \<Rightarrow> rassert (childpid > 0)
        (Inr (sp\<lparr>sp_children := sp_children sp @ [(childpid, evs, Running (new_conn evs))]\<rparr>)))"

text \<open>
  The status of a process that ended: \<open>exit(0)\<close>, or the signal that an assertion or an uncaught
  exception (\<open>SIGABRT\<close>) or a bad access (\<open>SIGSEGV\<close>) raise. \<open>WEXITSTATUS\<close> is its second byte.
\<close>

fun wait_status :: "unit res \<Rightarrow> int" where
  "wait_status (Inr _) = 0"
| "wait_status (Inl AssertFail) = 6"
| "wait_status (Inl (Throw e)) = 6"
| "wait_status (Inl _) = 11"

definition WEXITSTATUS :: "int \<Rightarrow> int" where
  "WEXITSTATUS status = status div 256 mod 256"

text \<open>
  \<open>waitpid\<close> with \<open>WNOHANG\<close> gives one child after the other that has ended, and 0 or -1 when there is
  none any more. The result is what children are left and which were waited for.
\<close>

fun wait_children :: "child_entry list \<Rightarrow> (child_entry list \<times> child_entry list) res" where
  "wait_children [] = Inr ([], [])"
| "wait_children ((pid, evs, Running c) # cs) =
     rbind (wait_children cs) (\<lambda>(alive, waited). Inr ((pid, evs, Running c) # alive, waited))"
| "wait_children ((pid, evs, Exited status c) # cs) =
     (let code = WEXITSTATUS status in
      rassert (code = 0 \<or> code = 1)
        (rbind (wait_children cs) (\<lambda>(alive, waited). Inr (alive, (pid, evs, Exited status c) # waited))))"

definition sigchild_handler :: "server_proc \<Rightarrow> server_proc res" where
  "sigchild_handler sp = rbind (wait_children (sp_children sp)) (\<lambda>(alive, waited).
     Inr \<lparr>sp_children = alive, sp_reaped = sp_reaped sp @ waited\<rparr>)"

text \<open>One turn of a child's loop, or its end.\<close>

definition child_step :: "mapped_file \<Rightarrow> first_ids \<Rightarrow> server_conn \<Rightarrow> child" where
  "child_step db fid c =
     (if m_closeConnection c then Exited (wait_status (Inr ())) c
      else case commandHandler db fid c of
          (Inl e, t) \<Rightarrow> Exited (wait_status (Inl e)) t
        | (Inr _, t) \<Rightarrow> Running t)"

inductive server_step :: "mapped_file \<Rightarrow> first_ids \<Rightarrow> server_proc \<Rightarrow> server_proc \<Rightarrow> bool"
  for db fid where
  accepted: "accept_connection connfd childpid sp = Inr sp' \<Longrightarrow> server_step db fid sp sp'"
| child: "i < length (sp_children sp) \<Longrightarrow> sp_children sp ! i = (pid, evs, Running c) \<Longrightarrow>
    server_step db fid sp (sp\<lparr>sp_children := (sp_children sp)[i := (pid, evs, child_step db fid c)]\<rparr>)"
| signal: "sigchild_handler sp = Inr sp' \<Longrightarrow> server_step db fid sp sp'"

inductive_cases server_stepE: "server_step db fid sp sp'"

section \<open>Every client is served as if it were alone\<close>

lemma session_step_opened: "session_step db fid s t \<Longrightarrow> sessionOpened db fid s = sessionOpened db fid t"
  by (elim session_stepE) (subst sessionOpened.simps, simp)

lemma session_steps_opened: "(session_step db fid)\<^sup>*\<^sup>* s t \<Longrightarrow> sessionOpened db fid s = sessionOpened db fid t"
  by (induction rule: rtranclp_induct) (auto dest: session_step_opened)

text \<open>What a child is in the middle of, or came to, is what the session alone goes through.\<close>

definition child_alone :: "mapped_file \<Rightarrow> first_ids \<Rightarrow> child_entry \<Rightarrow> bool" where
  "child_alone db fid e = (case e of (pid, evs, ch) \<Rightarrow> (case ch of
      Running c \<Rightarrow> (session_step db fid)\<^sup>*\<^sup>* (new_conn evs) c
    | Exited status c \<Rightarrow> \<exists>r. sessionOpened db fid (new_conn evs) = (r, c) \<and> status = wait_status r))"

lemma child_alone_simps [simp]:
  "child_alone db fid (pid, evs, Running c) \<longleftrightarrow> (session_step db fid)\<^sup>*\<^sup>* (new_conn evs) c"
  "child_alone db fid (pid, evs, Exited status c) \<longleftrightarrow>
     (\<exists>r. sessionOpened db fid (new_conn evs) = (r, c) \<and> status = wait_status r)"
  by (simp_all add: child_alone_def)

lemma child_step_alone:
  assumes "(session_step db fid)\<^sup>*\<^sup>* (new_conn evs) c"
  shows "child_alone db fid (pid, evs, child_step db fid c)"
proof (cases "m_closeConnection c")
  case True
  have "sessionOpened db fid c = (Inr (), c)" using True by (subst sessionOpened.simps) simp
  then show ?thesis using True session_steps_opened[OF assms] by (auto simp: child_step_def)
next
  case False
  obtain r t where h: "commandHandler db fid c = (r, t)" by fastforce
  show ?thesis
  proof (cases r)
    case (Inl e)
    have "sessionOpened db fid c = (Inl e, t)" using False h Inl by (subst sessionOpened.simps) simp
    then show ?thesis using False h Inl session_steps_opened[OF assms] by (auto simp: child_step_def)
  next
    case (Inr u)
    then have "session_step db fid c t" using False h by (auto intro: session_step.command)
    with assms show ?thesis using False h Inr by (simp add: child_step_def)
  qed
qed

lemma wait_children_Inr:
  assumes "wait_children cs = Inr (alive, waited)"
  shows "set alive \<union> set waited = set cs \<and> (\<forall>e \<in> set alive. \<exists>c. snd (snd e) = Running c)"
  using assms
proof (induction cs arbitrary: alive waited rule: wait_children.induct)
  case (2 pid evs c cs)
  then show ?case by (cases "wait_children cs") fastforce+
next
  case (3 pid evs status c cs)
  then show ?case by (cases "wait_children cs") (fastforce simp: rassert_def Let_def split: if_splits)+
qed simp

lemma exit_code_zero: "WEXITSTATUS (wait_status r) = 0"
  by (cases r rule: wait_status.cases) (simp_all add: WEXITSTATUS_def)

lemma wait_children_ok:
  assumes "\<forall>e \<in> set cs. child_alone db fid e"
  shows "\<exists>alive waited. wait_children cs = Inr (alive, waited)"
  using assms
  by (induction cs rule: wait_children.induct) (auto simp: rassert_def Let_def exit_code_zero)

lemma server_step_alone:
  assumes "server_step db fid sp sp'" "\<forall>e \<in> set (sp_children sp @ sp_reaped sp). child_alone db fid e"
  shows "\<forall>e \<in> set (sp_children sp' @ sp_reaped sp'). child_alone db fid e"
  using assms(1)
proof (cases rule: server_step.cases)
  case (accepted connfd childpid)
  then show ?thesis using assms(2)
    by (auto simp: accept_connection_def rassert_def split: option.splits if_splits)
next
  case (child i pid evs c)
  then have "child_alone db fid (pid, evs, Running c)" using assms(2) by (metis UnCI nth_mem set_append)
  then have "child_alone db fid (pid, evs, child_step db fid c)" by (simp add: child_step_alone)
  with child assms(2) show ?thesis by (auto dest!: set_update_subset_insert[THEN subsetD])
next
  case signal
  then show ?thesis using assms(2) wait_children_Inr
    by (cases "wait_children (sp_children sp)") (fastforce simp: sigchild_handler_def)+
qed

lemma server_steps_alone:
  "(server_step db fid)\<^sup>*\<^sup>* sp sp' \<Longrightarrow> \<forall>e \<in> set (sp_children sp @ sp_reaped sp). child_alone db fid e \<Longrightarrow>
    \<forall>e \<in> set (sp_children sp' @ sp_reaped sp'). child_alone db fid e"
  by (induction rule: rtranclp_induct) (blast dest: server_step_alone)+

lemma start_setup_empty: "start_setup so bound listening hs = Inr sp \<Longrightarrow> sp = \<lparr>sp_children = [], sp_reaped = []\<rparr>"
  by (auto simp: start_setup_def rassert_def split: if_splits)


text \<open>A child ends, whatever its client does, if it gets its turns.\<close>

lemma child_finishes:
  assumes "i < length (sp_children sp)" "sp_children sp ! i = (pid, evs, Running c)"
  shows "\<exists>sp' r t. (server_step db fid)\<^sup>*\<^sup>* sp sp' \<and> sessionOpened db fid c = (r, t)
    \<and> sp_children sp' ! i = (pid, evs, Exited (wait_status r) t)"
  using assms
proof (induction db fid c arbitrary: sp rule: sessionOpened.induct)
  case (1 db fid c)
  let ?sp = "sp\<lparr>sp_children := (sp_children sp)[i := (pid, evs, child_step db fid c)]\<rparr>"
  have step: "(server_step db fid)\<^sup>*\<^sup>* sp ?sp" using "1.prems" by (auto intro: server_step.child)
  have at: "sp_children ?sp ! i = (pid, evs, child_step db fid c)" "i < length (sp_children ?sp)"
    using "1.prems"(1) by simp_all
  obtain r t where h: "commandHandler db fid c = (r, t)" by fastforce
  show ?case
  proof (cases "m_closeConnection c")
    case True
    then have "sessionOpened db fid c = (Inr (), c)" by (subst sessionOpened.simps) simp
    then show ?thesis using step at True by (intro exI[of _ ?sp]) (auto simp: child_step_def)
  next
    case False
    show ?thesis
    proof (cases r)
      case (Inl e)
      then have "sessionOpened db fid c = (Inl e, t)" using False h by (subst sessionOpened.simps) simp
      then show ?thesis using step at False h Inl by (intro exI[of _ ?sp]) (auto simp: child_step_def)
    next
      case (Inr u)
      then have "sp_children ?sp ! i = (pid, evs, Running t)" using at False h by (simp add: child_step_def)
      from "1.IH"[OF False h[symmetric] Inr at(2) this] obtain sp' r' t' where
        "(server_step db fid)\<^sup>*\<^sup>* ?sp sp'" "sessionOpened db fid t = (r', t')"
        "sp_children sp' ! i = (pid, evs, Exited (wait_status r') t')" by blast
      moreover from this have "sessionOpened db fid c = (r', t')"
        using False h Inr by (subst sessionOpened.simps) simp
      ultimately show ?thesis using step by (metis rtranclp_trans)
    qed
  qed
qed

text \<open>But a failing \<open>fork\<close>, or \<open>accept\<close>, stops the server for all clients.\<close>

lemma fork_failure_stops_server:
  "accept_connection (Some evs) (-1) sp = Inl AssertFail" "accept_connection None i sp = Inl AssertFail"
  by (simp_all add: accept_connection_def rassert_def)


end
