(* ===== verification/Conflicts.thy ===== *)
theory Conflicts
  imports DirWalk IddiffDiffFacts
begin

text \<open>
  The conflicts between translations of one message in several files: what
  \<open>StupIdTranslationCollector::listConflicting\<close> and \<open>listVariants\<close> give, the tool that prints them
  (\<open>globalize/conflicting-translations/main.cpp\<close>) and the collector it fills
  (\<open>globalize/lib/qtranslationcollector.cpp\<close>).
\<close>

section \<open>\<open>TranslationCollector\<close>\<close>

text \<open>Opening, and reading as many bytes as the size says; \<open>None\<close> for a file that cannot be opened.\<close>

definition qt_insertPo :: "(byte list \<Rightarrow> catalog option res) \<Rightarrow> (string \<Rightarrow> byte list option) \<Rightarrow> collector \<Rightarrow> string \<Rightarrow>
    collector res" where
  "qt_insertPo read_buffer disk_file co path = (case disk_file path of
      None \<Rightarrow> Inl AssertFail
    | Some buffer \<Rightarrow> rassert (length buffer < 2 ^ 31) (Inr (insertPo_buffer read_buffer co buffer path)))"

text \<open>\<open>QFileInfo::completeSuffix\<close>: what follows the first dot of the file name.\<close>

definition completeSuffix :: "string \<Rightarrow> string" where
  "completeSuffix path = tl (dropWhile (\<lambda>c. c \<noteq> CHR ''.'') (path_to_basename path))"

text \<open>The directory iterator lists the regular files below a directory; the loop inserts some of them.\<close>

definition qt_insertPoDir ::
    "(byte list \<Rightarrow> catalog option res) \<Rightarrow> (string \<Rightarrow> byte list option) \<Rightarrow> collector \<Rightarrow> string list \<Rightarrow> collector res" where
  "qt_insertPoDir read_buffer disk_file co walked =
     rfold (\<lambda>co path. if completeSuffix path = ''po'' then qt_insertPo read_buffer disk_file co path else Inr co)
       co walked"

section \<open>The tool\<close>

definition variant_text :: "nat \<Rightarrow> message \<Rightarrow> string res" where
  "variant_text i msg =
     rbind (os_c_str (m_msgcomments msg)) (\<lambda>comments.
     rbind (msgstr msg 0) (\<lambda>s0. rbind (os_c_str s0) (\<lambda>str.
       Inr (''Variant '' @ nat_dec (i + 1) @ '': (from '' @ m_filename msg @ '', #'' @ int_dec (m_index msg + 1)
         @ '')'' @ [CHR 0x0A] @ (if isFuzzy msg then CHR 0x09 # ''fuzzy'' @ [CHR 0x0A] else [])
         @ CHR 0x09 # ''msgcomments: '' @ comments @ [CHR 0x0A]
         @ CHR 0x09 # ''msgstr: '' @ str @ [CHR 0x0A]))))"

definition variants_text :: "int \<Rightarrow> message_group \<Rightarrow> string res" where
  "variants_text k variants =
     rbind (os_c_str (m_msgid variants)) (\<lambda>msgid.
     rbind (get_msgidPlural variants) (\<lambda>p. rbind (os_c_str p) (\<lambda>plural.
     rbind (get_msgctxt variants) (\<lambda>c. rbind (os_c_str c) (\<lambda>ctxt.
     rbind (rmap (\<lambda>i. rbind (group_message variants i) (variant_text i)) [0..<group_size variants]) (\<lambda>texts.
       Inr (int_dec k @ ''      msgid = ['' @ msgid @ ''], msgid_plural = ['' @ plural @ ''], msgctxt = ['' @ ctxt
         @ '']'' @ [CHR 0x0A] @ concat texts @ ''----------------'' @ [CHR 0x0A])))))))"

text \<open>\<open>printf\<close> with the pointers of \<open>c_str()\<close>; a null string throws. \<open>walked\<close> are the two directories.\<close>

definition conflicting_main ::
    "(content \<Rightarrow> (int list \<times> content) res) \<Rightarrow> (byte list \<Rightarrow> catalog option res) \<Rightarrow> (string \<Rightarrow> byte list option) \<Rightarrow>
     string list \<Rightarrow> string list \<Rightarrow> string res" where
  "conflicting_main getMinIds read_buffer disk_file walked_trunk walked_stable =
     rbind (qt_insertPoDir read_buffer disk_file new_collector walked_trunk) (\<lambda>co1.
     rbind (qt_insertPoDir read_buffer disk_file co1 walked_stable) (\<lambda>collector.
     rbind (listConflicting getMinIds collector) (\<lambda>(ids, co).
     rbind (rmap (\<lambda>k. rbind (listVariants getMinIds co k) (\<lambda>(variants, _). variants_text k variants)) ids) (\<lambda>texts.
       Inr (concat texts)))))"

text \<open>A message in conflict that has no plural, or no context, ends the tool with an exception.\<close>

lemma variants_text_throws:
  assumes "os_view (m_msgid variants) \<noteq> None" "os_view (m_msgidPlural variants) = None \<or> os_view (m_msgctxt variants) = None"
  shows "variants_text k variants = Inl (Throw NullStringException)"
  using assms
  by (auto simp: variants_text_def os_c_str_def os_to_string_def get_msgidPlural_def get_msgctxt_def rassert_def
      os_view_def split: if_splits)

section \<open>What the collector gathers\<close>

text \<open>The messages that the contents have for an ID, in the order of the contents.\<close>

fun group_variants :: "int \<Rightarrow> message_group list \<Rightarrow> int list \<Rightarrow> message list" where
  "group_variants k (g # gs) (i # ids) = (if i = k then m_messages g else []) @ group_variants k gs ids"
| "group_variants k _ _ = []"

definition content_variants :: "(content \<Rightarrow> (int list \<times> content) res) \<Rightarrow> int \<Rightarrow> content \<Rightarrow> message list" where
  "content_variants getMinIds k c = (case getMinIds c of
      Inl e \<Rightarrow> []
    | Inr (ids, c') \<Rightarrow> (case readMessages c' of Inl e \<Rightarrow> [] | Inr gs \<Rightarrow> group_variants k gs ids))"

definition content_readable :: "(content \<Rightarrow> (int list \<times> content) res) \<Rightarrow> content \<Rightarrow> bool" where
  "content_readable getMinIds c \<longleftrightarrow> (\<exists>ids c' gs. getMinIds c = Inr (ids, c') \<and> readMessages c' = Inr gs
     \<and> length gs = length ids \<and> (\<forall>g \<in> set gs. m_messages g \<noteq> []))"

text \<open>The state of the map of translations: \<open>got k\<close> are the messages it has for an ID.\<close>

definition trans_have :: "(int, message_group) omap \<Rightarrow> (int \<Rightarrow> message list) \<Rightarrow> bool" where
  "trans_have tr got \<longleftrightarrow> om_inv tr \<and> (\<forall>k. (case map_of tr k of None \<Rightarrow> [] | Some g \<Rightarrow> m_messages g) = got k)
     \<and> (\<forall>k g. map_of tr k = Some g \<longrightarrow> m_messages g \<noteq> [])"

lemma trans_have_got: "trans_have tr got \<Longrightarrow> got k = (case map_of tr k of None \<Rightarrow> [] | Some g \<Rightarrow> m_messages g)"
  by (simp add: trans_have_def)

lemma trans_have_add:
  assumes "trans_have tr got" "m_messages g \<noteq> []"
  shows "\<exists>tr'. (case map_of tr k of
      None \<Rightarrow> trans_add (om_set k g tr) gs ks
    | Some h \<Rightarrow> rbind (mergeMessageGroup h g) (\<lambda>h'. trans_add (om_set k h' tr) gs ks)) = trans_add tr' gs ks
    \<and> trans_have tr' (got(k := got k @ m_messages g))"
proof (cases "map_of tr k")
  case None
  then have "got k = []" using trans_have_got[OF assms(1)] by simp
  then show ?thesis using assms None
    by (intro exI[of _ "om_set k g tr"]) (auto simp: trans_have_def om_inv_set map_of_om_set)
next
  case (Some h)
  then have "got k = m_messages h" using trans_have_got[OF assms(1)] by simp
  then show ?thesis using assms Some
    by (intro exI[of _ "om_set k (h\<lparr>m_messages := m_messages h @ m_messages g\<rparr>) tr"])
      (auto simp: trans_have_def om_inv_set map_of_om_set mergeMessageGroup_eq)
qed

lemma trans_add_have:
  assumes "trans_have tr got" "length gs = length ks" "\<forall>g \<in> set gs. m_messages g \<noteq> []"
  shows "\<exists>tr'. trans_add tr gs ks = Inr tr' \<and> trans_have tr' (\<lambda>k. got k @ group_variants k gs ks)"
  using assms
proof (induction gs ks arbitrary: got tr rule: list_induct2')
  case (4 g gs k ks)
  then obtain tr1 where 1: "trans_add tr (g # gs) (k # ks) = trans_add tr1 gs ks"
      "trans_have tr1 (got(k := got k @ m_messages g))"
    using trans_have_add[of tr got g k gs ks] by (auto simp del: map_of_eq_None_iff)
  from "4.IH"[OF 1(2)] "4.prems" obtain tr' where "trans_add tr1 gs ks = Inr tr'"
      "trans_have tr' (\<lambda>j. (got(k := got k @ m_messages g)) j @ group_variants j gs ks)" by auto
  moreover have "(\<lambda>j. (got(k := got k @ m_messages g)) j @ group_variants j gs ks)
      = (\<lambda>j. got j @ group_variants j (g # gs) (k # ks))" by auto
  ultimately show ?case using 1(1) by metis
qed auto

lemma trans_contents_have:
  assumes "trans_have tr got" "\<forall>c \<in> set cs. content_readable getMinIds c"
  shows "\<exists>tr' cs'. trans_contents getMinIds tr cs = Inr (tr', cs') \<and> length cs' = length cs
    \<and> trans_have tr' (\<lambda>k. got k @ concat (map (content_variants getMinIds k) cs))"
  using assms
proof (induction cs arbitrary: tr got)
  case (Cons c cs)
  then obtain ids c' gs where c: "getMinIds c = Inr (ids, c')" "readMessages c' = Inr gs"
      "length gs = length ids" "\<forall>g \<in> set gs. m_messages g \<noteq> []"
    by (auto simp: content_readable_def)
  from trans_add_have[OF Cons.prems(1) c(3,4)] obtain tr1 where tr1: "trans_add tr gs ids = Inr tr1"
      "trans_have tr1 (\<lambda>k. got k @ group_variants k gs ids)" by blast
  from Cons.IH[OF tr1(2)] Cons.prems(2) obtain tr' cs' where "trans_contents getMinIds tr1 cs = Inr (tr', cs')"
      "length cs' = length cs"
      "trans_have tr' (\<lambda>k. (got k @ group_variants k gs ids) @ concat (map (content_variants getMinIds k) cs))"
    by auto
  moreover have "content_variants getMinIds k c = group_variants k gs ids" for k
    using c(1,2) by (simp add: content_variants_def)
  ultimately show ?case using c(1,2,3) tr1(1) by (simp add: rassert_def)
qed simp

section \<open>Which IDs are in conflict\<close>

definition variant_view :: "message \<Rightarrow> string option list \<times> bool \<times> string option" where
  "variant_view m = (mt_view m, m_fuzzy m, os_view (m_msgcomments m))"

definition all_variants :: "(content \<Rightarrow> (int list \<times> content) res) \<Rightarrow> collector \<Rightarrow> int \<Rightarrow> message list" where
  "all_variants getMinIds co k = concat (map (content_variants getMinIds k) (m_contents co))"

lemma equalTranslationsComments_iff:
  "m_plural m = m_plural m' \<Longrightarrow> equalTranslationsComments m m' = Inr (variant_view m = variant_view m')"
  by (auto simp: equalTranslationsComments_def rassert_def isPlural_def equalTranslations_def variant_view_def)

lemma some_differs_iff:
  "\<forall>m' \<in> set ms. m_plural m = m_plural m' \<Longrightarrow>
     some_differs m ms = Inr (\<exists>m' \<in> set ms. variant_view m \<noteq> variant_view m')"
  by (induction ms) (auto simp: equalTranslationsComments_iff)

lemma list_conflicting_filter:
  assumes "\<forall>k \<in> set ks. conflictingTrans getMinIds co k = Inr (P k, co)"
  shows "list_conflicting getMinIds co ks = Inr (filter P ks)"
  using assms by (induction ks) auto

lemma differs_from_first:
  "(\<exists>a \<in> set (m # ms). \<exists>b \<in> set (m # ms). f a \<noteq> f b) \<longleftrightarrow> (\<exists>b \<in> set ms. f m \<noteq> f b)"
proof (cases "\<exists>b \<in> set ms. f m \<noteq> f b")
  case False
  then have "\<forall>b \<in> set (m # ms). f b = f m" by auto
  with False show ?thesis by metis
qed auto

lemma conflictingTrans_iff:
  assumes "m_transInit co" "trans_have (m_trans co) got" "got k \<noteq> []"
    "\<forall>m \<in> set (got k). \<forall>m' \<in> set (got k). m_plural m = m_plural m'"
  shows "conflictingTrans getMinIds co k
    = Inr (\<exists>m \<in> set (got k). \<exists>m' \<in> set (got k). variant_view m \<noteq> variant_view m', co)"
proof -
  obtain g where g: "map_of (m_trans co) k = Some g" "m_messages g = got k"
    using trans_have_got[OF assms(2), of k] assms(3) by (auto split: option.splits)
  obtain m ms where ms: "got k = m # ms" using assms(3) by (cases "got k") auto
  have "some_differs m ms = Inr (\<exists>m' \<in> set ms. variant_view m \<noteq> variant_view m')"
  proof (rule some_differs_iff)
    have "m \<in> set (got k)" "set ms \<subseteq> set (got k)" using ms by auto
    then show "\<forall>m' \<in> set ms. m_plural m = m_plural m'" using assms(4) by blast
  qed
  then have "some_differs m ms = Inr (\<exists>a \<in> set (got k). \<exists>b \<in> set (got k). variant_view a \<noteq> variant_view b)"
    by (simp only: ms differs_from_first[where f = variant_view])
  then show ?thesis using assms(1) g ms
    by (simp del: list.set add: conflictingTrans_def initTransConfl_def rassert_def group_size_def group_message_def)
qed



end
