(* ===== verification/Globalize.thy ===== *)
theory Globalize
  imports Conflicts IddiffApply
begin

text \<open>
  The window of \<open>globalize\<close> (\<open>globalize/mainwindow.cpp\<close>, \<open>messageeditorwidget.cpp\<close>,
  \<open>messageheaderwidget.cpp\<close>, \<open>messagetranslationoption.cpp\<close>): a list of editors, one for a message, each
  with the translations to choose from. What the widgets show and which option is selected is their
  state; Qt's painting and layout are not modelled. Options of an editor are known by their position.
\<close>

section \<open>An editor\<close>

record option_widget =
  ow_msgstr :: string
  ow_comments :: string
  ow_fuzzy :: bool
  ow_highlighted :: bool

record editor_widget =
  ew_msgid :: string
  ew_msgctxt :: string
  ew_trans :: "option_widget list"
  ew_selection :: "nat option"

definition new_option :: "message \<Rightarrow> option_widget res" where
  "new_option msg =
     rbind (msgstr msg 0) (\<lambda>s0. rbind (os_to_string s0) (\<lambda>str.
     rbind (os_to_string (m_msgcomments msg)) (\<lambda>comments.
       Inr \<lparr>ow_msgstr = str, ow_comments = comments, ow_fuzzy = isFuzzy msg, ow_highlighted = False\<rparr>)))"

definition new_editor :: "message_group \<Rightarrow> editor_widget res" where
  "new_editor messageGroup =
     rbind (os_to_string (m_msgid messageGroup)) (\<lambda>msgid.
     rbind (get_msgctxt messageGroup) (\<lambda>c. rbind (os_to_string c) (\<lambda>ctxt.
       Inr \<lparr>ew_msgid = msgid, ew_msgctxt = ctxt, ew_trans = [], ew_selection = None\<rparr>)))"

definition addTranslationOption :: "editor_widget \<Rightarrow> message \<Rightarrow> editor_widget res" where
  "addTranslationOption ed msg = rbind (new_option msg) (\<lambda>trans. Inr (ed\<lparr>ew_trans := ew_trans ed @ [trans]\<rparr>))"

definition setHighlight :: "editor_widget \<Rightarrow> nat \<Rightarrow> bool \<Rightarrow> editor_widget" where
  "setHighlight ed i highlighted =
     (if highlighted = ow_highlighted (ew_trans ed ! i) then ed
      else ed\<lparr>ew_trans := (ew_trans ed)[i := (ew_trans ed ! i)\<lparr>ow_highlighted := highlighted\<rparr>]\<rparr>)"

definition selectTranslationOption :: "editor_widget \<Rightarrow> nat option \<Rightarrow> editor_widget" where
  "selectTranslationOption ed opt =
     (if ew_selection ed = opt then ed
      else let ed1 = (case ew_selection ed of Some j \<Rightarrow> setHighlight ed j False | None \<Rightarrow> ed);
               ed2 = ed1\<lparr>ew_selection := opt\<rparr>
           in case opt of Some i \<Rightarrow> setHighlight ed2 i True | None \<Rightarrow> ed2)"

definition isHighlighted :: "editor_widget \<Rightarrow> nat \<Rightarrow> bool" where
  "isHighlighted ed i \<longleftrightarrow> ew_selection ed = Some i"

definition mousePressEvent :: "editor_widget \<Rightarrow> nat \<Rightarrow> editor_widget" where
  "mousePressEvent ed i = selectTranslationOption ed (if isHighlighted ed i then None else Some i)"

section \<open>The window\<close>

text \<open>A message with the forms of a change: made without forms, so that \<open>setMsgstr\<close> has none to set.\<close>

definition message_of_change :: "message_group \<Rightarrow> im_ptr \<Rightarrow> message res" where
  "message_of_change g item =
     rbind (rfold (\<lambda>msg j. setMsgstr msg j (os_of_string [])) (message_of_counts False (int (group_size g)) [])
       [0..<group_size g]) (\<lambda>msg. copyTranslationsToMessage (snd item) msg)"

text \<open>The editor for one ID; \<open>None\<close> where no file has it. The inner loop reuses the name \<open>i\<close>: it asks
  the \<open>i\<close>th group for its \<open>i\<close>th message.\<close>

definition editor_for_id :: "iddiff \<Rightarrow> (int, message_group list) omap \<Rightarrow> int \<Rightarrow> editor_widget option res" where
  "editor_for_id diff inv_messages k =
     (let messages = (case map_of inv_messages k of Some gs \<Rightarrow> gs | None \<Rightarrow> []) in
      case messages of [] \<Rightarrow> Inr None
    | g # _ \<Rightarrow>
       rbind (new_editor g) (\<lambda>editor.
       rbind (rfold (\<lambda>ed i. rassert (group_size (messages ! i) = 1)
           (rbind (group_message (messages ! i) i) (addTranslationOption ed))) editor [0..<length messages]) (\<lambda>editor1.
       rbind (findRemovedAll diff k) (\<lambda>removed.
       rbind (rfold (\<lambda>ed item. rbind (message_of_change g item) (addTranslationOption ed)) editor1 removed) (\<lambda>editor2.
       rbind (findAddedSingle diff k) (\<lambda>added.
       rbind (case added of None \<Rightarrow> Inr editor2
              | Some item \<Rightarrow> rbind (message_of_change g item) (addTranslationOption editor2)) (\<lambda>editor3.
         Inr (Some editor3))))))))"

text \<open>\<open>walked\<close> are the files of the directory, \<open>loaded\<close> the iddiff as \<open>loadIddiff\<close> left it.\<close>

definition main_window ::
    "(byte list \<Rightarrow> catalog option res) \<Rightarrow> (string \<Rightarrow> byte list option) \<Rightarrow> string list \<Rightarrow> (int list \<Rightarrow> int list res) \<Rightarrow> (git_oid list \<Rightarrow> int list \<Rightarrow> int list res) \<Rightarrow> (content \<Rightarrow> git_oid) \<Rightarrow>
     (content \<Rightarrow> (int list \<times> content) res) \<Rightarrow> iddiff \<Rightarrow> editor_widget list res" where
  "main_window read_buffer disk_file walked minIds request getTpHash getMinIds loaded =
     rbind (qt_insertPoDir read_buffer disk_file new_collector walked) (\<lambda>collector.
     rbind (minimizeIds minIds loaded) (\<lambda>diff.
     let ids = involvedIds diff in
     rbind (getMessagesByIds request getTpHash getMinIds collector ids) (\<lambda>(inv_messages, _, _).
     rbind (rmap (editor_for_id diff inv_messages) ids) (\<lambda>editors.
       Inr (map the (filter (\<lambda>e. e \<noteq> None) editors))))))"

text \<open>\<open>loadConflicting\<close>: an editor for each ID in conflict, with all its variants.\<close>

definition conflict_editor :: "message_group \<Rightarrow> editor_widget res" where
  "conflict_editor variants = rbind (new_editor variants) (\<lambda>ed.
     rfold (\<lambda>ed i. rbind (group_message variants i) (addTranslationOption ed)) ed [0..<group_size variants])"

definition loadConflicting ::
    "(byte list \<Rightarrow> catalog option res) \<Rightarrow> (string \<Rightarrow> byte list option) \<Rightarrow> string list \<Rightarrow> string list \<Rightarrow>
     (content \<Rightarrow> (int list \<times> content) res) \<Rightarrow> editor_widget list res" where
  "loadConflicting read_buffer disk_file walked_trunk walked_stable getMinIds =
     rbind (qt_insertPoDir read_buffer disk_file new_collector walked_trunk) (\<lambda>co1.
     rbind (qt_insertPoDir read_buffer disk_file co1 walked_stable) (\<lambda>collector.
     rbind (listConflicting getMinIds collector) (\<lambda>(ids, co).
     rmap (\<lambda>k. rbind (listVariants getMinIds co k) (\<lambda>(variants, _). conflict_editor variants)) ids)))"

section \<open>The selection\<close>

text \<open>The option that is selected, and no other, is highlighted.\<close>

definition editor_ok :: "editor_widget \<Rightarrow> bool" where
  "editor_ok ed \<longleftrightarrow> (\<forall>i < length (ew_trans ed). ow_highlighted (ew_trans ed ! i) \<longleftrightarrow> ew_selection ed = Some i)
     \<and> (\<forall>i. ew_selection ed = Some i \<longrightarrow> i < length (ew_trans ed))"

lemma setHighlight_simps [simp]:
  "length (ew_trans (setHighlight ed i b)) = length (ew_trans ed)"
  "ew_selection (setHighlight ed i b) = ew_selection ed"
  "i < length (ew_trans ed) \<Longrightarrow> j < length (ew_trans ed) \<Longrightarrow>
    ow_highlighted (ew_trans (setHighlight ed i b) ! j) = (if i = j then b else ow_highlighted (ew_trans ed ! j))"
  by (auto simp: setHighlight_def nth_list_update)

lemma new_editor_ok: "new_editor g = Inr ed \<Longrightarrow> editor_ok ed"
  by (cases "os_to_string (m_msgid g)"; cases "get_msgctxt g"; cases "os_to_string (projr (get_msgctxt g))")
    (auto simp: new_editor_def editor_ok_def)

lemma new_option_plain: "new_option msg = Inr t \<Longrightarrow> \<not> ow_highlighted t"
  by (auto simp: new_option_def rbind_eq_Inr)

lemma addTranslationOption_ok: "addTranslationOption ed msg = Inr ed' \<Longrightarrow> editor_ok ed \<Longrightarrow> editor_ok ed'"
  by (auto simp: addTranslationOption_def rbind_eq_Inr editor_ok_def nth_append less_Suc_eq)
    (blast dest: new_option_plain)

lemma mousePress_ok:
  assumes "editor_ok ed" "i < length (ew_trans ed)"
  shows "editor_ok (mousePressEvent ed i)"
    "ew_selection (mousePressEvent ed i) = (if ew_selection ed = Some i then None else Some i)"
    "length (ew_trans (mousePressEvent ed i)) = length (ew_trans ed)"
proof -
  have sel: "editor_ok (selectTranslationOption ed opt) \<and> ew_selection (selectTranslationOption ed opt) = opt
      \<and> length (ew_trans (selectTranslationOption ed opt)) = length (ew_trans ed)"
    if "\<forall>j. opt = Some j \<longrightarrow> j < length (ew_trans ed)" for opt
  proof (cases "ew_selection ed = opt")
    case True
    then show ?thesis using assms(1) by (simp add: selectTranslationOption_def)
  next
    case False
    define ed1 where "ed1 = (case ew_selection ed of Some j \<Rightarrow> setHighlight ed j False | None \<Rightarrow> ed)"
    have "length (ew_trans ed1) = length (ew_trans ed)" "\<forall>j < length (ew_trans ed). \<not> ow_highlighted (ew_trans ed1 ! j)"
      using assms(1) by (auto simp: ed1_def editor_ok_def split: option.splits)
    then show ?thesis using False that
      by (auto simp: selectTranslationOption_def Let_def ed1_def[symmetric] editor_ok_def split: option.splits)
  qed
  show "editor_ok (mousePressEvent ed i)"
    "ew_selection (mousePressEvent ed i) = (if ew_selection ed = Some i then None else Some i)"
    "length (ew_trans (mousePressEvent ed i)) = length (ew_trans ed)"
    using sel[of "if isHighlighted ed i then None else Some i"] assms(2)
    by (auto simp: mousePressEvent_def isHighlighted_def)
qed

lemma add_loop_ok:
  "rfold (\<lambda>ed x. rbind (f x) (addTranslationOption ed)) ed xs = Inr ed' \<Longrightarrow> editor_ok ed \<Longrightarrow> editor_ok ed'"
  by (induction xs arbitrary: ed) (auto simp: rbind_eq_Inr dest: addTranslationOption_ok)

text \<open>An editor shows the variants of a message that is in conflict, and whatever options are
  clicked, in whatever order, exactly the selected option is highlighted; a second click takes the
  selection back.\<close>

theorem conflict_editor_selection:
  assumes "conflict_editor variants = Inr ed" "\<forall>i \<in> set clicks. i < length (ew_trans ed)"
  shows "let ed' = foldl mousePressEvent ed clicks in
      (\<forall>i < length (ew_trans ed'). ow_highlighted (ew_trans ed' ! i) \<longleftrightarrow> ew_selection ed' = Some i)
    \<and> length (ew_trans ed') = group_size variants
    \<and> (clicks \<noteq> [] \<longrightarrow> ew_selection ed' =
        (if ew_selection (foldl mousePressEvent ed (butlast clicks)) = Some (last clicks) then None else Some (last clicks)))"
proof -
  have count: "rfold (\<lambda>ed i. rbind (group_message variants i) (addTranslationOption ed)) e is = Inr e' \<Longrightarrow>
      length (ew_trans e') = length (ew_trans e) + length is" for e e' "is"
    by (induction "is" arbitrary: e) (fastforce simp: rbind_eq_Inr addTranslationOption_def)+
  obtain ed0 where ed0: "new_editor variants = Inr ed0"
      "rfold (\<lambda>ed i. rbind (group_message variants i) (addTranslationOption ed)) ed0 [0..<group_size variants] = Inr ed"
    using assms(1) by (auto simp: conflict_editor_def rbind_eq_Inr)
  have "ew_trans ed0 = []" using ed0(1) by (auto simp: new_editor_def rbind_eq_Inr)
  with count[OF ed0(2)] have len: "length (ew_trans ed) = group_size variants" by simp
  have ok: "editor_ok ed" using add_loop_ok[OF ed0(2)] new_editor_ok[OF ed0(1)] by blast
  have run: "editor_ok (foldl mousePressEvent ed cs) \<and> length (ew_trans (foldl mousePressEvent ed cs)) = group_size variants"
    if "\<forall>i \<in> set cs. i < group_size variants" for cs
    using that by (induction cs rule: rev_induct) (simp_all add: ok len mousePress_ok)
  have "ew_selection (foldl mousePressEvent ed clicks) =
      (if ew_selection (foldl mousePressEvent ed (butlast clicks)) = Some (last clicks) then None else Some (last clicks))"
    if "clicks \<noteq> []"
  proof -
    have c: "clicks = butlast clicks @ [last clicks]" using that by simp
    then have "\<forall>i \<in> set (butlast clicks). i < group_size variants" "last clicks < group_size variants"
      using assms(2) len by (metis in_set_butlastD, metis last_in_set that)
    with run[of "butlast clicks"] have "ew_selection (mousePressEvent (foldl mousePressEvent ed (butlast clicks)) (last clicks)) =
      (if ew_selection (foldl mousePressEvent ed (butlast clicks)) = Some (last clicks) then None else Some (last clicks))"
      by (intro mousePress_ok(2)) simp_all
    moreover have "foldl mousePressEvent ed clicks = mousePressEvent (foldl mousePressEvent ed (butlast clicks)) (last clicks)"
      by (subst c) simp
    ultimately show ?thesis by simp
  qed
  then show ?thesis using run[of clicks] assms(2) len by (simp add: Let_def editor_ok_def)
qed

lemma rfold_each: "rfold f s xs = Inr y \<Longrightarrow> x \<in> set xs \<Longrightarrow> \<exists>a b. f a x = Inr b"
  by (induction xs arbitrary: s) (auto simp: rbind_eq_Inr)

text \<open>The window for a review gets to an end only if no change is to be reviewed: for an ID of one of
  the files it stops where two files have it, or where the iddiff removes or adds a translation.\<close>

lemma window_shows_no_change:
  assumes "editor_for_id diff inv_messages k = Inr (Some ed)"
  shows "\<exists>g. map_of inv_messages k = Some [g] \<and> findRemovedAll diff k = Inr [] \<and> findAddedSingle diff k = Inr None"
proof -
  define gs where "gs = (case map_of inv_messages k of Some gs \<Rightarrow> gs | None \<Rightarrow> [])"
  obtain g rest where gs: "gs = g # rest"
    using assms by (cases gs) (auto simp: editor_for_id_def gs_def[symmetric])
  obtain editor editor1 editor2 editor3 removed added where
    loop: "rfold (\<lambda>ed i. rassert (group_size (gs ! i) = 1)
      (rbind (group_message (gs ! i) i) (addTranslationOption ed))) editor [0..<length gs] = Inr editor1"
    and removed: "findRemovedAll diff k = Inr removed"
      "rfold (\<lambda>ed item. rbind (message_of_change g item) (addTranslationOption ed)) editor1 removed = Inr editor2"
    and added: "findAddedSingle diff k = Inr added"
      "(case added of None \<Rightarrow> Inr editor2
        | Some item \<Rightarrow> rbind (message_of_change g item) (addTranslationOption editor2)) = Inr editor3"
    using assms unfolding editor_for_id_def gs_def[symmetric] Let_def gs list.case rbind_eq_Inr by blast
  have size: "group_size (gs ! i) = 1 \<and> i < 1" if "i < length gs" for i
    using rfold_each[OF loop, of i] that by (auto simp: rbind_eq_Inr rassert_eq_Inr group_message_def)
  then have one: "rest = []" "group_size g = 1" using gs size[of 1] size[of 0] by auto
  then have none: "message_of_change g item = Inl AssertFail" for item
    by (simp add: message_of_change_def message_of_counts_def message_of_base_def mtb_empty_def translation.extend_def
        setMsgstr_def rassert_def)
  have "removed = []" using rfold_each[OF removed(2)] none by (cases removed) auto
  moreover have "added = None" using added(2) none by (cases added) auto
  moreover have "map_of inv_messages k = Some [g]" using gs one(1) by (auto simp: gs_def split: option.splits)
  ultimately show ?thesis using removed(1) added(1) by blast
qed

end
