(* ===== verification/StupidsDb.thy ===== *)
theory StupidsDb
  imports FirstIds Protocol
begin

text \<open>
  \<open>stupids-server/stupidsdatabase.cpp\<close>: the database behind the server, asked over HTTP. The HTTP client
  is a parameter that gives the body of the answer for an address; the address and the reading of
  the body are the code's.
\<close>

definition database_url :: "(git_oid \<Rightarrow> string) \<Rightarrow> git_oid \<Rightarrow> string" where
  "database_url git_oid_fmt tp_hash = ''http://127.0.0.1:1235/tphash?tphash='' @ oid_toString git_oid_fmt tp_hash"

text \<open>The text of a \<open>sscanf\<close> format between two conversions: white space matches any amount of it.\<close>

fun scan_text :: "string \<Rightarrow> string \<Rightarrow> string option" where
  "scan_text [] s = Some s"
| "scan_text (c # cs) s =
     (if is_space c then scan_text cs (dropWhile is_space s)
      else Option.bind (scan_lit c s) (scan_text cs))"

text \<open>
  \<open>sscanf(body, "{\"id_count\": %d, \"first_id\": %d}", ...)\<close>: 2 when both numbers are read, whatever follows.
  A number that does not fit is undefined in C.
\<close>

definition quoted :: "string \<Rightarrow> string" where
  "quoted s = CHR 0x22 # s @ [CHR 0x22]"

definition scan_answer :: "string \<Rightarrow> (int \<times> int) option" where
  "scan_answer body =
     Option.bind (scan_text (''{'' @ quoted ''id_count'' @ '': '') body) (\<lambda>s1.
     Option.bind (scan_d s1) (\<lambda>(id_count, s2).
     Option.bind (scan_text ('', '' @ quoted ''first_id'' @ '': '') s2) (\<lambda>s3.
     Option.bind (scan_d s3) (\<lambda>(first_id, _). Some (id_count, first_id)))))"

definition db_getFirstId :: "(git_oid \<Rightarrow> string) \<Rightarrow> (string \<Rightarrow> string res) \<Rightarrow> git_oid \<Rightarrow> (int \<times> int) res" where
  "db_getFirstId git_oid_fmt http_get tp_hash =
     rbind (http_get (database_url git_oid_fmt tp_hash)) (\<lambda>body. case scan_answer (c_str body) of
        None \<Rightarrow> Inl AssertFail
      | Some (id_count, first_id) \<Rightarrow>
          if is_int32 id_count \<and> is_int32 first_id then Inr (first_id, id_count) else Inl Uninitialized)"

section \<open>A service that answers\<close>

definition answer_body :: "int \<times> int \<Rightarrow> string" where
  "answer_body r = ''{'' @ quoted ''id_count'' @ '': '' @ int_dec (snd r) @ '', '' @ quoted ''first_id'' @ '': ''
     @ int_dec (fst r) @ ''}''"

lemma int_dec_chars: "\<forall>c \<in> set (int_dec i). c \<noteq> CHR 0x00 \<and> \<not> is_space c"
proof -
  have "Ball (set (nat_dec n)) is_digit" for n by simp
  then have "\<forall>c \<in> set (nat_dec n). c \<noteq> CHR 0x00 \<and> \<not> is_space c" for n using digit_not by blast
  then show ?thesis by (simp add: int_dec_def is_space_def)
qed

lemma int_dec_no_space: "dropWhile is_space (int_dec i @ r) = int_dec i @ r"
proof -
  have "int_dec i \<noteq> []" by (simp add: int_dec_def)
  then show ?thesis using int_dec_chars[of i] by (cases "int_dec i") auto
qed

lemma scan_answer_body: "scan_answer (answer_body (a, n)) = Some (n, a)"
proof -
  define rest where "rest = '', '' @ quoted ''first_id'' @ '': '' @ int_dec a @ ''}''"
  have "scan_text (''{'' @ quoted ''id_count'' @ '': '') (answer_body (a, n)) = Some (int_dec n @ rest)"
    by (simp add: answer_body_def quoted_def scan_lit_def is_space_def rest_def) (simp add: int_dec_no_space[simplified is_space_def])
  moreover have "scan_d (int_dec n @ rest) = Some (n, rest)"
    by (rule scan_int_dec) (simp add: rest_def no_digit_def is_digit_def)
  moreover have "scan_text ('', '' @ quoted ''first_id'' @ '': '') rest = Some (int_dec a @ ''}'')"
    by (simp add: quoted_def scan_lit_def is_space_def rest_def) (simp add: int_dec_no_space[simplified is_space_def])
  moreover have "scan_d (int_dec a @ ''}'') = Some (a, ''}'')"
    by (rule scan_int_dec) (simp add: no_digit_def is_digit_def)
  ultimately show ?thesis by (simp add: scan_answer_def)
qed

text \<open>With a web service that knows a table of first IDs and counts, the server has this table.\<close>

lemma db_answers:
  assumes "http_get (database_url fmt h) = Inr (answer_body (table h))"
    "is_int32 (fst (table h))" "is_int32 (snd (table h))"
  shows "db_getFirstId fmt http_get h = Inr (table h)"
proof -
  have "CHR 0x00 \<notin> set (answer_body (table h))"
    using int_dec_chars by (auto simp: answer_body_def quoted_def)
  then show ?thesis using assms scan_answer_body[of "fst (table h)" "snd (table h)"]
    by (simp add: db_getFirstId_def c_str_id)
qed



end
