(* ===== verification/MappedFiles.thy ===== *)
theory MappedFiles
  imports IdMap OidCache
begin

text \<open>
  \<open>MappedFile\<close> of \<open>gtpo/mappedfile.cpp\<close> over the file system. The mapping is shared (\<open>MAP_SHARED\<close>), so that
  the memory behind \<open>data\<close> is the file itself: an object is the name, the length and whether the file is
  mapped, and reading and writing through \<open>ptr\<close> go to the bytes of the file. \<open>mm_view\<close> is the mapping as
  \<open>IdMap\<close> has it, and the operations on the file refine those of \<open>IdMap\<close>. The name is not that of a
  directory, and no other process writes the file.
\<close>

record mapped_object =
  mp_filename :: string
  mp_fileLength :: nat
  mp_mapped :: bool

definition detectFileSize :: "world \<Rightarrow> string \<Rightarrow> nat" where
  "detectFileSize w filename = (case w_files w filename of None \<Rightarrow> 0 | Some bs \<Rightarrow> length bs)"

definition mapFile :: "mapped_object \<Rightarrow> mapped_object" where
  "mapFile m = (if mp_fileLength m > 0 then m\<lparr>mp_mapped := True\<rparr> else m)"

definition unmapFile :: "mapped_object \<Rightarrow> mapped_object" where
  "unmapFile m = (if mp_fileLength m > 0 then m\<lparr>mp_mapped := False\<rparr> else m)"

definition MappedFile_new :: "world \<Rightarrow> string \<Rightarrow> mapped_object" where
  "MappedFile_new w filename =
     mapFile \<lparr>mp_filename = filename, mp_fileLength = detectFileSize w filename, mp_mapped = False\<rparr>"

text \<open>\<open>ptr\<close>: the file grows by zeros that are appended to it, and is mapped anew.\<close>

definition mm_ptr :: "world \<Rightarrow> mapped_object \<Rightarrow> nat \<Rightarrow> nat \<Rightarrow> (world \<times> mapped_object) res" where
  "mm_ptr w m offset len = rassert (len \<ge> 1) (rbind
     (if offset + len > mp_fileLength m
      then let m1 = unmapFile m;
               newSize = (offset + len + 0xFFFFF) div 0x100000 * 0x100000;
               sizeDiff = newSize - mp_fileLength m1
           in rassert (sizeDiff > 0) (case open_append w (mp_filename m1) of
                None \<Rightarrow> Inl NullDeref
              | Some w1 \<Rightarrow> Inr
                  (w1\<lparr>w_files := (w_files w1)(mp_filename m1 \<mapsto> the (w_files w1 (mp_filename m1)) @ replicate sizeDiff 0)\<rparr>,
                   mapFile (m1\<lparr>mp_fileLength := mp_fileLength m1 + sizeDiff\<rparr>)))
      else Inr (w, m))
     (\<lambda>(w', m'). rassert (offset + len - 1 < mp_fileLength m') (Inr (w', m'))))"

text \<open>Writing an \<open>int\<close> through the pointer.\<close>

definition mm_bytes :: "world \<Rightarrow> mapped_object \<Rightarrow> byte list" where
  "mm_bytes w m = (case w_files w (mp_filename m) of None \<Rightarrow> [] | Some bs \<Rightarrow> bs)"

definition mm_write_int :: "world \<Rightarrow> mapped_object \<Rightarrow> nat \<Rightarrow> int \<Rightarrow> world res" where
  "mm_write_int w m p v =
     (if mp_mapped m \<and> p + 4 \<le> mp_fileLength m
      then let bs = le32 (u32_of_int v) in Inr (w\<lparr>w_files := (w_files w)(mp_filename m \<mapsto>
        (mm_bytes w m)[p := bs ! 0, p + 1 := bs ! 1, p + 2 := bs ! 2, p + 3 := bs ! 3])\<rparr>)
      else Inl OutOfBounds)"

definition mm_view :: "world \<Rightarrow> mapped_object \<Rightarrow> mapped_file" where
  "mm_view w m = \<lparr>m_fileLength = mp_fileLength m,
     mf_data = (\<lambda>i. if i < length (mm_bytes w m) then mm_bytes w m ! i else 0)\<rparr>"

definition mm_writeRow :: "world \<Rightarrow> mapped_object \<Rightarrow> int \<Rightarrow> int \<Rightarrow> (world \<times> mapped_object) res" where
  "mm_writeRow w m msg_id min_id = rassert (100 \<le> msg_id \<and> msg_id < 100 * 1000 * 1000)
     (rbind (mm_ptr w m (row_offset msg_id) 4) (\<lambda>(w', m').
      rbind (mm_write_int w' m' (row_offset msg_id) min_id) (\<lambda>w''. Inr (w'', m'))))"

definition mm_addRow :: "world \<Rightarrow> mapped_object \<Rightarrow> int \<Rightarrow> int \<Rightarrow> (world \<times> mapped_object) res" where
  "mm_addRow w m msg_id min_id = rassert (msg_id \<noteq> min_id)
     (rbind (getRecursiveMinId (mm_view w m) msg_id) (\<lambda>a. rbind (getRecursiveMinId (mm_view w m) min_id) (\<lambda>b.
        let global_min = min a b in
        rbind (if msg_id \<noteq> global_min then mm_writeRow w m msg_id global_min else Inr (w, m)) (\<lambda>(w1, m1).
          if min_id \<noteq> global_min then mm_writeRow w1 m1 min_id global_min else Inr (w1, m1)))))"

section \<open>Refinement\<close>

text \<open>An object as the constructor and \<open>ptr\<close> leave it: its length is that of the file.\<close>

definition mm_ok :: "world \<Rightarrow> mapped_object \<Rightarrow> bool" where
  "mm_ok w m \<longleftrightarrow> mp_fileLength m = length (mm_bytes w m) \<and> (mp_mapped m \<longleftrightarrow> mp_fileLength m > 0)
     \<and> can_append w (mp_filename m)"

text \<open>A step on the file gives what a step of \<open>IdMap\<close> gives, and touches no other file.\<close>

definition implements :: "world \<Rightarrow> mapped_object \<Rightarrow> (world \<times> mapped_object) res \<Rightarrow> mapped_file res \<Rightarrow> bool" where
  "implements w m r s \<longleftrightarrow> (case s of
      Inl e \<Rightarrow> r = Inl e
    | Inr f \<Rightarrow> (\<exists>w' m'. r = Inr (w', m') \<and> mm_view w' m' = f \<and> mm_ok w' m' \<and> mp_filename m' = mp_filename m
        \<and> w_dirs w' = w_dirs w \<and> (\<forall>n. n \<noteq> mp_filename m \<longrightarrow> w_files w' n = w_files w n)))"

lemma implements_refl: "mm_ok w m \<Longrightarrow> implements w m (Inr (w, m)) (Inr (mm_view w m))"
  by (simp add: implements_def)

lemma implements_bind:
  assumes "implements w m r s"
    and "\<And>w' m'. r = Inr (w', m') \<Longrightarrow> mm_ok w' m' \<Longrightarrow> implements w' m' (g w' m') (h (mm_view w' m'))"
  shows "implements w m (rbind r (\<lambda>(w', m'). g w' m')) (rbind s h)"
proof (cases s)
  case (Inl e)
  with assms(1) show ?thesis by (simp add: implements_def)
next
  case (Inr f)
  with assms(1) obtain w' m' where step: "r = Inr (w', m')" "mm_view w' m' = f" "mm_ok w' m'"
      "mp_filename m' = mp_filename m" "w_dirs w' = w_dirs w" "\<And>n. n \<noteq> mp_filename m \<Longrightarrow> w_files w' n = w_files w n"
    by (auto simp: implements_def)
  have "implements w' m' (g w' m') (h f)" using assms(2)[OF step(1,3)] step(2) by simp
  with Inr step show ?thesis by (auto simp: implements_def split: sum.splits)
qed

lemma implements_assert: "(b \<Longrightarrow> implements w m r s) \<Longrightarrow> implements w m (rassert b r) (rassert b s)"
  by (cases b) (simp_all add: implements_def)

lemma mm_view_length [simp]: "m_fileLength (mm_view w m) = mp_fileLength m"
  by (simp add: mm_view_def)

lemma unmapFile_simps: "mp_fileLength (unmapFile m) = mp_fileLength m" "mp_filename (unmapFile m) = mp_filename m"
  by (simp_all add: unmapFile_def)

lemma grow_file:
  assumes "can_append w (mp_filename m)"
  shows "rassert (n - mp_fileLength m > 0) (case open_append w (mp_filename m) of None \<Rightarrow> Inl NullDeref
    | Some w1 \<Rightarrow> Inr
        (w1\<lparr>w_files := (w_files w1)(mp_filename m \<mapsto> the (w_files w1 (mp_filename m)) @ replicate (n - mp_fileLength m) 0)\<rparr>,
         mapFile (unmapFile m\<lparr>mp_fileLength := mp_fileLength m + (n - mp_fileLength m)\<rparr>)))
   = rassert (n - mp_fileLength m > 0) (Inr
        (w\<lparr>w_files := (w_files w)(mp_filename m \<mapsto> mm_bytes w m @ replicate (n - mp_fileLength m) 0)\<rparr>,
         m\<lparr>mp_fileLength := n, mp_mapped := True\<rparr>))"
proof (cases "n - mp_fileLength m > 0")
  case True
  then have "mapFile (unmapFile m\<lparr>mp_fileLength := mp_fileLength m + (n - mp_fileLength m)\<rparr>)
      = m\<lparr>mp_fileLength := n, mp_mapped := True\<rparr>"
    by (simp add: mapFile_def unmapFile_def)
  then show ?thesis using assms by (auto simp: open_append_def mm_bytes_def)
qed simp

lemma ptr_implements:
  assumes ok: "mm_ok w m"
  shows "implements w m (mm_ptr w m offset len) (mf_ptr (mm_view w m) offset len)"
proof -
  define n where "n = (offset + len + 0xFFFFF) div 0x100000 * 0x100000"
  let ?L = "mp_fileLength m" and ?f = "mp_filename m"
  let ?w = "w\<lparr>w_files := (w_files w)(?f \<mapsto> mm_bytes w m @ replicate (n - ?L) 0)\<rparr>"
  let ?m = "m\<lparr>mp_fileLength := n, mp_mapped := True\<rparr>"
  have "implements w m
     (if offset + len > ?L then rassert (n - ?L > 0) (Inr (?w, ?m)) else Inr (w, m))
     (if offset + len > ?L then rassert (n - ?L > 0) (Inr (mf_expand (mm_view w m) n)) else Inr (mm_view w m))"
  proof (cases "offset + len > ?L \<and> n - ?L > 0")
    case True
    have len: "length (mm_bytes w m) = ?L" using ok by (simp add: mm_ok_def)
    then have bytes: "mm_bytes ?w ?m = mm_bytes w m @ replicate (n - ?L) 0" "length (mm_bytes ?w ?m) = n"
      using True by (simp_all add: mm_bytes_def)
    have "mm_view ?w ?m = mf_expand (mm_view w m) n"
      using bytes len True by (auto simp: mm_view_def mf_expand_def nth_append)
    moreover have "mm_ok ?w ?m" using ok True bytes(2) by (simp add: mm_ok_def can_append_def dir_exists_def)
    ultimately show ?thesis using True by (simp add: implements_def)
  next
    case False
    then show ?thesis using implements_refl[OF ok] by (auto simp: implements_def)
  qed
  moreover have "mm_ptr w m offset len = rassert (len \<ge> 1) (rbind
     (if offset + len > ?L then rassert (n - ?L > 0) (Inr (?w, ?m)) else Inr (w, m))
     (\<lambda>(w', m'). rassert (offset + len - 1 < mp_fileLength m') (Inr (w', m'))))"
    using grow_file[of w m n] ok unfolding mm_ptr_def Let_def unmapFile_simps n_def[symmetric] mm_ok_def by simp
  ultimately show ?thesis
    unfolding mf_ptr_def Let_def mm_view_length n_def[symmetric]
    by (auto intro!: implements_assert implements_bind implements_refl simp: ok)
qed

text \<open>Writing through the pointer, where the range is mapped.\<close>

lemma nth_four:
  assumes "p + 4 \<le> length bs"
  shows "bs[p := b0, p + 1 := b1, p + 2 := b2, p + 3 := b3] ! i
    = (((!) bs)(p := b0, p + 1 := b1, p + 2 := b2, p + 3 := b3)) i"
  using assms by (simp add: nth_list_update)

lemma write_int_implements:
  assumes ok: "mm_ok w m" and p: "p + 4 \<le> mp_fileLength m"
  shows "implements w m (rbind (mm_write_int w m p v) (\<lambda>w'. Inr (w', m))) (Inr (write_int (mm_view w m) p v))"
proof -
  let ?bs = "le32 (u32_of_int v)"
  let ?new = "(mm_bytes w m)[p := ?bs ! 0, p + 1 := ?bs ! 1, p + 2 := ?bs ! 2, p + 3 := ?bs ! 3]"
  let ?w = "w\<lparr>w_files := (w_files w)(mp_filename m \<mapsto> ?new)\<rparr>"
  have len: "length (mm_bytes w m) = mp_fileLength m" using ok by (simp add: mm_ok_def)
  have bytes: "mm_bytes ?w m = ?new" by (simp add: mm_bytes_def)
  have "mm_ok ?w m" using ok unfolding mm_ok_def bytes by (simp add: can_append_def dir_exists_def)
  moreover have "mm_view ?w m = write_int (mm_view w m) p v"
    using nth_four[of p "mm_bytes w m"] len p
    unfolding mm_view_def bytes by (simp add: write_int_def Let_def fun_eq_iff)
  moreover have "mp_mapped m" using ok p by (simp add: mm_ok_def)
  ultimately show ?thesis using p by (simp add: mm_write_int_def Let_def implements_def)
qed

lemma ptr_accessible: "mf_ptr f offset len = Inr f' \<Longrightarrow> offset + len \<le> m_fileLength f'"
  by (auto simp: mf_ptr_def res_simps)

lemma writeRow_implements:
  assumes ok: "mm_ok w m"
  shows "implements w m (mm_writeRow w m msg_id min_id) (writeRow (mm_view w m) msg_id min_id)"
  unfolding mm_writeRow_def writeRow_def getRow_def
proof (intro implements_assert implements_bind[OF ptr_implements[OF ok]])
  fix w' m' assume step: "mm_ptr w m (row_offset msg_id) 4 = Inr (w', m')" "mm_ok w' m'"
  obtain f where "mf_ptr (mm_view w m) (row_offset msg_id) 4 = Inr f" "mm_view w' m' = f"
    using ptr_implements[OF ok, of "row_offset msg_id" 4] step(1) by (auto simp: implements_def split: sum.splits)
  then have "row_offset msg_id + 4 \<le> mp_fileLength m'" using ptr_accessible by fastforce
  then show "implements w' m' (rbind (mm_write_int w' m' (row_offset msg_id) min_id) (\<lambda>w''. Inr (w'', m')))
      (Inr (write_int (mm_view w' m') (row_offset msg_id) min_id))"
    by (rule write_int_implements[OF step(2)])
qed

lemma addRow_implements:
  assumes ok: "mm_ok w m"
  shows "implements w m (mm_addRow w m a b) (addRow (mm_view w m) a b)"
proof -
  have pure: "implements w m (rbind r f) (rbind r g)" if "\<And>x. r = Inr x \<Longrightarrow> implements w m (f x) (g x)"
    for r :: "int res" and f g
    using that by (cases r) (auto simp: implements_def)
  show ?thesis
    unfolding mm_addRow_def addRow_def Let_def
    by (intro implements_assert pure implements_bind)
      (use ok in \<open>auto intro!: writeRow_implements implements_refl\<close>)
qed

section \<open>Reopening\<close>

lemma new_object_ok:
  assumes "can_append w fn"
  shows "mm_ok w (MappedFile_new w fn)" "mp_filename (MappedFile_new w fn) = fn"
  using assms by (simp_all add: mm_ok_def MappedFile_new_def mapFile_def detectFileSize_def mm_bytes_def split: option.splits)

lemma reopened_view:
  assumes "mm_ok w m"
  shows "mm_view w (MappedFile_new w (mp_filename m)) = mm_view w m"
proof -
  have "mm_ok w (MappedFile_new w (mp_filename m))" "mp_filename (MappedFile_new w (mp_filename m)) = mp_filename m"
    using new_object_ok assms by (simp_all add: mm_ok_def)
  moreover from this(2) have "mm_bytes w (MappedFile_new w (mp_filename m)) = mm_bytes w m"
    by (simp add: mm_bytes_def)
  ultimately show ?thesis using assms by (auto simp: mm_ok_def mm_view_def)
qed

text \<open>C5. A collapse is in the file: when a database is opened and two IDs are collapsed, the file is
  created or grows as needed, the result is that of \<open>addRow\<close> on the mapping, an object that opens the file
  afterwards sees the same database, in which both IDs have the smaller of their two minimum IDs, and
  no other file has changed.\<close>

theorem collapse_survives:
  assumes db: "can_append w fn" "mm_view w (MappedFile_new w fn) = db" "idmap_ok db"
    and ids: "100 \<le> a" "a < 100 * 1000 * 1000" "100 \<le> b" "b < 100 * 1000 * 1000" "a \<noteq> b"
  shows "\<exists>w' m' db'. mm_addRow w (MappedFile_new w fn) a b = Inr (w', m') \<and> addRow db a b = Inr db'
    \<and> mm_view w' (MappedFile_new w' fn) = db' \<and> idmap_ok db' \<and> can_append w' fn
    \<and> getRecursiveMinId db' a = Inr (min (root db a) (root db b))
    \<and> getRecursiveMinId db' b = Inr (min (root db a) (root db b))
    \<and> (\<forall>n. n \<noteq> fn \<longrightarrow> w_files w' n = w_files w n)"
proof -
  note new = new_object_ok[OF db(1)]
  obtain db' where db': "addRow db a b = Inr db'" "idmap_ok db'"
      "root db' a = min (root db a) (root db b)" "root db' b = min (root db a) (root db b)"
    using addRow_joins[OF db(3) ids] by blast
  have "is_int32 a" "is_int32 b" using ids by (simp_all add: is_int32_def)
  then have mins: "getRecursiveMinId db' a = Inr (min (root db a) (root db b))"
      "getRecursiveMinId db' b = Inr (min (root db a) (root db b))"
    using recursive_total[OF db'(2)] db'(3,4) by simp_all
  obtain w' m' where w': "mm_addRow w (MappedFile_new w fn) a b = Inr (w', m')" "mm_view w' m' = db'" "mm_ok w' m'"
      "mp_filename m' = fn" "\<And>n. n \<noteq> fn \<Longrightarrow> w_files w' n = w_files w n"
    using addRow_implements[OF new(1), of a b] db'(1) db(2) new(2) by (auto simp: implements_def)
  have "mm_view w' (MappedFile_new w' fn) = db'" "can_append w' fn"
    using reopened_view[OF w'(3)] w'(2,3,4) by (simp_all add: mm_ok_def)
  then show ?thesis using w'(1,5) db'(1,2) mins by blast
qed

theorem collapse_survives_witness:
  "\<exists>w' m'. mm_addRow \<lparr>w_files = Map.empty, w_dirs = {}\<rparr> (MappedFile_new \<lparr>w_files = Map.empty, w_dirs = {}\<rparr> ''ids.mmapdb'') 250 130
      = Inr (w', m')
    \<and> getRecursiveMinId (mm_view w' (MappedFile_new w' ''ids.mmapdb'')) 250 = Inr 130"
proof -
  let ?w = "\<lparr>w_files = Map.empty, w_dirs = {}\<rparr>"
  have "mm_view ?w (MappedFile_new ?w ''ids.mmapdb'') = empty_file"
    by (simp add: mm_view_def mm_bytes_def MappedFile_new_def mapFile_def detectFileSize_def empty_file_def)
  moreover have "can_append ?w ''ids.mmapdb''" by (simp add: can_append_def dir_exists_def parent_dir_def)
  moreover have "root empty_file i = i" for i by (simp add: root_def recursive_empty)
  ultimately show ?thesis
    using collapse_survives[of ?w "''ids.mmapdb''" empty_file 250 130] idmap_ok_empty by auto
qed

end
