(* ===== verification/RubyApi.thy ===== *)
theory RubyApi
  imports PoFiles DetectorWitness OidCache FirstIds GitLoad Config MappedFiles
begin

text \<open>
  The Ruby bindings (\<open>gettextpo-helper/ruby-ext\<close>): methods of Ruby classes that convert their arguments,
  call the library and convert the result. A Ruby value is a datatype; a Ruby error is a failure of
  its own, a C++ exception that leaves a method ends the interpreter. Objects of the wrapped classes
  are the models of their C++ classes.
\<close>

section \<open>Ruby values\<close>

datatype rb = RNil | RTrue | RFalse | RInt int | RStr string | RArr "rb list"

datatype rb_fail = TypeError | RangeError | ArgumentError | CppError error

type_synonym 'a rbres = "rb_fail + 'a"

definition rb_bind :: "'a rbres \<Rightarrow> ('a \<Rightarrow> 'b rbres) \<Rightarrow> 'b rbres" where
  "rb_bind m f = (case m of Inl e \<Rightarrow> Inl e | Inr x \<Rightarrow> f x)"

definition from_cpp :: "'a res \<Rightarrow> 'a rbres" where
  "from_cpp r = (case r of Inl e \<Rightarrow> Inl (CppError e) | Inr x \<Rightarrow> Inr x)"

text \<open>The C API: \<open>StringValuePtr\<close> as a C string, \<open>FIX2INT\<close>, \<open>rb_ary_entry\<close>, \<open>rb_str_new2\<close>.\<close>

definition StringValuePtr :: "rb \<Rightarrow> string rbres" where
  "StringValuePtr v = (case v of RStr s \<Rightarrow> Inr (c_str s) | _ \<Rightarrow> Inl TypeError)"

definition FIX2INT :: "rb \<Rightarrow> int rbres" where
  "FIX2INT v = (case v of RInt i \<Rightarrow> if is_int32 i then Inr i else Inl RangeError | _ \<Rightarrow> Inl TypeError)"

definition rb_elements :: "rb \<Rightarrow> rb list rbres" where
  "rb_elements v = (case v of RArr vs \<Rightarrow> Inr vs | _ \<Rightarrow> Inl TypeError)"

definition rb_ary_entry :: "rb \<Rightarrow> nat \<Rightarrow> rb rbres" where
  "rb_ary_entry v i = rb_bind (rb_elements v) (\<lambda>vs. Inr (if i < length vs then vs ! i else RNil))"

definition rb_str_new2 :: "string \<Rightarrow> rb" where
  "rb_str_new2 s = RStr (c_str s)"

definition rb_bool :: "bool \<Rightarrow> rb" where
  "rb_bool b = (if b then RTrue else RFalse)"

section \<open>\<open>globals.cpp\<close>\<close>

text \<open>\<open>try\<close> with the two \<open>catch\<close> clauses: a file that is not correct gives the empty string.\<close>

definition or_empty :: "string res \<Rightarrow> rb rbres" where
  "or_empty r = (case r of
      Inr s \<Rightarrow> Inr (rb_str_new2 s)
    | Inl (Throw NotPo) \<Rightarrow> Inr (rb_str_new2 [])
    | Inl (Throw (GettextParserException s)) \<Rightarrow> Inr (rb_str_new2 [])
    | Inl e \<Rightarrow> Inl (CppError e))"

definition wrap_calculate_tp_hash ::
    "(json \<Rightarrow> string) \<Rightarrow> (string \<Rightarrow> git_oid) \<Rightarrow> (git_oid \<Rightarrow> string) \<Rightarrow> (string \<Rightarrow> po_file option res) \<Rightarrow> rb \<Rightarrow> rb rbres" where
  "wrap_calculate_tp_hash json_text sha1 git_oid_fmt read_fs filename =
     rb_bind (StringValuePtr filename) (\<lambda>fn. or_empty (calculate_tp_hash json_text sha1 git_oid_fmt read_fs fn))"

definition wrap_get_pot_length :: "(string \<Rightarrow> po_file lib_outcome) \<Rightarrow> rb \<Rightarrow> rb rbres" where
  "wrap_get_pot_length lib filename = rb_bind (StringValuePtr filename) (\<lambda>fn.
     rb_bind (from_cpp (rbind (po_file_read (lib fn)) (\<lambda>po. get_pot_length (po_catalog po)))) (\<lambda>n. Inr (RInt (int n))))"

definition wrap_file_template_as_json ::
    "(exn \<Rightarrow> string) \<Rightarrow> (json \<Rightarrow> string) \<Rightarrow> (string \<Rightarrow> po_file option res) \<Rightarrow> rb \<Rightarrow> rb rbres" where
  "wrap_file_template_as_json std_text json_text read_fs filename = rb_bind (StringValuePtr filename) (\<lambda>fn.
     or_empty (file_template_as_json std_text json_text read_fs fn))"

definition wrap_gettext_file_as_json ::
    "(exn \<Rightarrow> string) \<Rightarrow> (json \<Rightarrow> string) \<Rightarrow> (string \<Rightarrow> po_file option res) \<Rightarrow> rb \<Rightarrow> rb rbres" where
  "wrap_gettext_file_as_json std_text json_text read_fs filename = rb_bind (StringValuePtr filename) (\<lambda>fn.
     or_empty (gettext_file_as_json std_text json_text read_fs fn))"

definition wrap_dump_equal_messages_to_mmapdb ::
    "content \<Rightarrow> rb \<Rightarrow> content \<Rightarrow> rb \<Rightarrow> mapped_file \<Rightarrow> (rb \<times> mapped_file) rbres" where
  "wrap_dump_equal_messages_to_mmapdb file_a first_id_a file_b first_id_b mmapdb =
     rb_bind (FIX2INT first_id_a) (\<lambda>a. rb_bind (FIX2INT first_id_b) (\<lambda>b.
     rb_bind (from_cpp (dump_equal_messages_to_mmapdb file_a a file_b b mmapdb)) (\<lambda>(n, db). Inr (RInt n, db))))"

definition rb_git_oid_fmt :: "(git_oid \<Rightarrow> string) \<Rightarrow> git_oid \<Rightarrow> rb" where
  "rb_git_oid_fmt git_oid_fmt oid = RStr (git_oid_fmt oid)"

definition rb_pair :: "(git_oid \<Rightarrow> string) \<Rightarrow> oid_pair \<Rightarrow> rb" where
  "rb_pair git_oid_fmt p = RArr [rb_git_oid_fmt git_oid_fmt (fst p), rb_git_oid_fmt git_oid_fmt (snd p)]"

text \<open>The file of commands is text, the file of processed pairs bytes, both in the file system.\<close>

definition text_of :: "byte list \<Rightarrow> string" where
  "text_of bs = map (\<lambda>b. char_of (unat b)) bs"

definition wrap_detect_transitions_inc ::
    "(git_oid \<Rightarrow> string) \<Rightarrow> disk \<Rightarrow> world \<Rightarrow> rb \<Rightarrow> rb \<Rightarrow> rb \<Rightarrow> rb \<Rightarrow> rb rbres" where
  "wrap_detect_transitions_inc git_oid_fmt git_disk w path_trunk path_stable path_proorph file_processed =
     rb_bind (StringValuePtr path_trunk) (\<lambda>trunk. rb_bind (StringValuePtr path_stable) (\<lambda>branch.
     rb_bind (StringValuePtr path_proorph) (\<lambda>proorph.
     rb_bind (from_cpp (detectTransitions git_disk [] trunk branch proorph (map_option text_of (w_files w proorph)))) (\<lambda>allPairs.
     rb_bind (StringValuePtr file_processed) (\<lambda>processed.
     rb_bind (from_cpp (filterProcessedTransitions processed (w_files w processed) allPairs [])) (\<lambda>pairs.
       Inr (RArr (map (rb_pair git_oid_fmt) pairs))))))))"

text \<open>The records for the pairs in the array, to append to the file.\<close>

fun pair_records :: "(string \<Rightarrow> git_oid option) \<Rightarrow> rb list \<Rightarrow> byte list rbres" where
  "pair_records git_oid_fromstr [] = Inr []"
| "pair_records git_oid_fromstr (pair # pairs) =
     rb_bind (rb_ary_entry pair 0) (\<lambda>p0. rb_bind (rb_ary_entry pair 1) (\<lambda>p1.
     rb_bind (StringValuePtr p0) (\<lambda>oid1_str. rb_bind (StringValuePtr p1) (\<lambda>oid2_str.
     (case (git_oid_fromstr oid1_str, git_oid_fromstr oid2_str) of
        (Some oid1, Some oid2) \<Rightarrow> rb_bind (pair_records git_oid_fromstr pairs) (\<lambda>bs. Inr (oid1 @ oid2 @ bs))
      | _ \<Rightarrow> Inl (CppError AssertFail))))))"

definition wrap_append_processed_pairs ::
    "(string \<Rightarrow> git_oid option) \<Rightarrow> world \<Rightarrow> rb \<Rightarrow> rb \<Rightarrow> (rb \<times> world) rbres" where
  "wrap_append_processed_pairs git_oid_fromstr w file_processed pairs =
     rb_bind (StringValuePtr file_processed) (\<lambda>fn. (case open_append w fn of
        None \<Rightarrow> Inl (CppError AssertFail)
      | Some w1 \<Rightarrow>
          rb_bind (rb_elements pairs) (\<lambda>ps. rb_bind (pair_records git_oid_fromstr ps) (\<lambda>bs.
            Inr (RNil, w1\<lparr>w_files := (w_files w1)(fn \<mapsto> the (w_files w1 fn) @ bs)\<rparr>)))))"

text \<open>A message in Ruby is the message of the library.\<close>

definition wrap_read_po_file_messages :: "(string \<Rightarrow> po_file option res) \<Rightarrow> rb \<Rightarrow> message list rbres" where
  "wrap_read_po_file_messages read_fs filename = rb_bind (StringValuePtr filename) (\<lambda>fn.
     from_cpp (rbind (read_po_file_messages read_fs fn False) (\<lambda>gs. rmap (\<lambda>g. group_message g 0) gs)))"

definition wrap_stupids_conf ::
    "string option \<Rightarrow> (string \<Rightarrow> string option) \<Rightarrow> config option \<Rightarrow> rb \<Rightarrow> (rb \<times> config) rbres" where
  "wrap_stupids_conf home read_file conf key = rb_bind (StringValuePtr key) (\<lambda>k.
     rb_bind (from_cpp (defaultInstance home read_file conf)) (\<lambda>c.
     case config_get c k of (v, c') \<Rightarrow> Inr (rb_str_new2 v, c')))"

definition wrap_stupids_conf_path ::
    "string option \<Rightarrow> (string \<Rightarrow> string option) \<Rightarrow> config option \<Rightarrow> rb \<Rightarrow> (rb \<times> config) rbres" where
  "wrap_stupids_conf_path home read_file conf key = rb_bind (StringValuePtr key) (\<lambda>k.
     rb_bind (from_cpp (defaultInstance home read_file conf)) (\<lambda>c.
     case config_get c k of (v, c') \<Rightarrow>
       rb_bind (from_cpp (expand_path home v)) (\<lambda>p. Inr (rb_str_new2 p, c'))))"

section \<open>The classes\<close>

text \<open>\<open>IdMapDb\<close>\<close>

definition IdMapDb_new :: "world \<Rightarrow> rb \<Rightarrow> mapped_object rbres" where
  "IdMapDb_new w filename = rb_bind (StringValuePtr filename) (\<lambda>fn. Inr (MappedFile_new w fn))"

definition IdMapDb_create :: "mapped_file \<Rightarrow> rb \<Rightarrow> (rb \<times> mapped_file) rbres" where
  "IdMapDb_create mapped_file ary = rb_bind (rb_elements ary) (\<lambda>items.
     rb_bind (foldl (\<lambda>r item. rb_bind r (\<lambda>db.
         rb_bind (rb_ary_entry item 0) (\<lambda>v0. rb_bind (FIX2INT v0) (\<lambda>msg_id.
         rb_bind (rb_ary_entry item 1) (\<lambda>v1. rb_bind (FIX2INT v1) (\<lambda>min_id.
           from_cpp (addRow db msg_id min_id))))))) (Inr mapped_file) items) (\<lambda>db. Inr (RNil, db)))"

definition IdMapDb_normalize_database :: "mapped_file \<Rightarrow> (rb \<times> mapped_file) rbres" where
  "IdMapDb_normalize_database mapped_file = rb_bind (from_cpp (normalizeDatabase mapped_file)) (\<lambda>db. Inr (RNil, db))"

definition IdMapDb_get_min_id :: "mapped_file \<Rightarrow> rb \<Rightarrow> rb rbres" where
  "IdMapDb_get_min_id mapped_file msg_id = rb_bind (FIX2INT msg_id) (\<lambda>k.
     rb_bind (from_cpp (getRecursiveMinId mapped_file k)) (\<lambda>m. Inr (RInt m)))"

definition IdMapDb_get_min_id_array :: "mapped_file \<Rightarrow> rb \<Rightarrow> rb \<Rightarrow> rb rbres" where
  "IdMapDb_get_min_id_array mapped_file first_msg_id num =
     rb_bind (FIX2INT first_msg_id) (\<lambda>first. rb_bind (FIX2INT num) (\<lambda>n.
     rb_bind (from_cpp (getMinIdArray mapped_file first n)) (\<lambda>res_int. Inr (RArr (map RInt res_int)))))"

text \<open>\<open>Message\<close>\<close>

definition Message_num_plurals :: "message \<Rightarrow> rb" where
  "Message_num_plurals msg = RInt (int (numPlurals msg))"

definition Message_equal_translations :: "message \<Rightarrow> message \<Rightarrow> rb rbres" where
  "Message_equal_translations msg other = rb_bind (from_cpp (equalTranslationsComments msg other)) (\<lambda>b. Inr (rb_bool b))"

definition Message_is_fuzzy :: "message \<Rightarrow> rb" where
  "Message_is_fuzzy msg = rb_bool (isFuzzy msg)"

definition Message_is_plural :: "message \<Rightarrow> rb" where
  "Message_is_plural msg = rb_bool (isPlural msg)"

definition Message_is_untranslated :: "message \<Rightarrow> rb" where
  "Message_is_untranslated msg = rb_bool (msg_isUntranslated msg)"

text \<open>A negative form number becomes a large \<open>size_t\<close>, which the assertion of \<open>msgstr\<close> rejects.\<close>

definition Message_msgstr :: "message \<Rightarrow> rb \<Rightarrow> rb rbres" where
  "Message_msgstr msg plural_form = rb_bind (FIX2INT plural_form) (\<lambda>i.
     rb_bind (from_cpp (if i < 0 then Inl AssertFail else rbind (msgstr msg (nat i)) os_c_str)) (\<lambda>s.
       Inr (rb_str_new2 s)))"

definition Message_msgcomments :: "message \<Rightarrow> rb rbres" where
  "Message_msgcomments msg = rb_bind (from_cpp (os_c_str (m_msgcomments msg))) (\<lambda>s. Inr (rb_str_new2 s))"

text \<open>\<open>FiledbFirstIds\<close> on the contents of its two files, \<open>GitLoader\<close>, \<open>TranslationContent\<close>\<close>

definition FiledbFirstIds_new :: "(string \<Rightarrow> git_oid option) \<Rightarrow> (string \<Rightarrow> string option) \<Rightarrow> rb \<Rightarrow> rb \<Rightarrow> first_ids_table rbres" where
  "FiledbFirstIds_new git_oid_fromstr text_file filename filename_next_id =
     rb_bind (StringValuePtr filename) (\<lambda>fn. rb_bind (StringValuePtr filename_next_id) (\<lambda>fn2.
       from_cpp (load_first_ids git_oid_fromstr fn (text_file fn) (text_file fn2))))"

definition FiledbFirstIds_get_first_id :: "(string \<Rightarrow> git_oid option) \<Rightarrow> first_ids_table \<Rightarrow> rb \<Rightarrow> rb rbres" where
  "FiledbFirstIds_get_first_id git_oid_fromstr table tp_hash = rb_bind (StringValuePtr tp_hash) (\<lambda>s.
     rb_bind (from_cpp (oid_of_str git_oid_fromstr s)) (\<lambda>h.
     case getFirstId table h of (a, n) \<Rightarrow> Inr (RArr [RInt a, RInt n])))"

definition GitLoader_new :: "repository list" where
  "GitLoader_new = []"

definition GitLoader_add_repository :: "repository list \<Rightarrow> rb \<Rightarrow> (rb \<times> repository list) rbres" where
  "GitLoader_add_repository git_loader git_dir = rb_bind (StringValuePtr git_dir) (\<lambda>d.
     Inr (RNil, loader_addRepository git_loader d))"

definition TranslationContent_new_file :: "(string \<Rightarrow> po_file option res) \<Rightarrow> rb \<Rightarrow> content rbres" where
  "TranslationContent_new_file read_fs filename = rb_bind (StringValuePtr filename) (\<lambda>fn.
     Inr (content_of_fs read_fs fn))"

definition TranslationContent_new_git ::
    "(string \<Rightarrow> git_oid option) \<Rightarrow> (git_oid \<Rightarrow> catalog option res) \<Rightarrow> rb \<Rightarrow> content rbres" where
  "TranslationContent_new_git git_oid_fromstr read_blob oid_str = rb_bind (StringValuePtr oid_str) (\<lambda>s.
     case git_oid_fromstr s of
       None \<Rightarrow> Inl (CppError AssertFail)
     | Some oid \<Rightarrow> Inr (setDisplayFilename (new_content (read_blob oid) None) ''/[git]''))"

section \<open>The method tables\<close>

text \<open>
  What the \<open>init\<close> functions define: the name of a method, the function, and how many arguments it
  takes. Defining a name again replaces the method.
\<close>

type_synonym methods = "(string \<times> string \<times> nat) list"

definition init_globals :: methods where
  "init_globals =
     [(''calculate_tp_hash'', ''wrap_calculate_tp_hash'', 1), (''get_pot_length'', ''wrap_get_pot_length'', 1),
      (''file_template_as_json'', ''wrap_file_template_as_json'', 1),
      (''gettext_file_as_json'', ''wrap_gettext_file_as_json'', 1),
      (''dump_equal_messages_to_mmapdb'', ''wrap_dump_equal_messages_to_mmapdb'', 5),
      (''detect_transitions_inc'', ''wrap_detect_transitions_inc'', 4),
      (''append_processed_pairs'', ''wrap_append_processed_pairs'', 2),
      (''read_po_file_messages'', ''wrap_read_po_file_messages'', 1), (''stupids_conf'', ''wrap_stupids_conf'', 1),
      (''stupids_conf_path'', ''wrap_stupids_conf_path'', 1)]"

definition init_IdMapDb :: methods where
  "init_IdMapDb = [(''new'', ''cIdMapDb_new'', 1), (''create'', ''cIdMapDb_create'', 1),
     (''normalize_database'', ''cIdMapDb_normalize_database'', 0), (''get_min_id'', ''cIdMapDb_get_min_id'', 1),
     (''get_min_id_array'', ''cIdMapDb_get_min_id_array'', 2)]"

definition init_Message :: methods where
  "init_Message = [(''num_plurals'', ''cMessage_num_plurals'', 0), (''equal_translations'', ''cMessage_equal_translations'', 1),
     (''is_fuzzy'', ''cMessage_is_fuzzy'', 0), (''is_plural'', ''cMessage_is_plural'', 0),
     (''is_untranslated'', ''cMessage_is_untranslated'', 0), (''msgstr'', ''cMessage_msgstr'', 1),
     (''msgcomments'', ''cMessage_msgcomments'', 0)]"

definition init_TranslationContent :: methods where
  "init_TranslationContent =
     [(''new'', ''cTranslationContent_new_file'', 1), (''new'', ''cTranslationContent_new_git'', 2)]"

definition init_FiledbFirstIds :: methods where
  "init_FiledbFirstIds = [(''new'', ''cFiledbFirstIds_new'', 2), (''get_first_id'', ''cFiledbFirstIds_get_first_id'', 1)]"

definition init_GitLoader :: methods where
  "init_GitLoader = [(''new'', ''cGitLoader_new'', 0), (''add_repository'', ''cGitLoader_add_repository'', 1)]"

definition rb_dispatch :: "methods \<Rightarrow> string \<Rightarrow> nat \<Rightarrow> string rbres" where
  "rb_dispatch ms name argc = (case map_of (rev ms) name of
      None \<Rightarrow> Inl ArgumentError
    | Some (f, n) \<Rightarrow> if argc = n then Inr f else Inl ArgumentError)"

text \<open>A content cannot be made from a file name: the second definition of \<open>new\<close> hides the first.\<close>

lemma new_file_hidden: "rb_dispatch init_TranslationContent ''new'' 1 = Inl ArgumentError"
  by (simp add: rb_dispatch_def init_TranslationContent_def)

text \<open>
  A file that the parser rejects has the empty string as its hash, but as its dump the text of the
  error: the dump functions catch the exception before the binding can.
\<close>

lemma rejected_file:
  assumes "read_fs fn = Inl (Throw (GettextParserException s))" "c_str fn = fn"
  shows "wrap_calculate_tp_hash json_text sha1 fmt read_fs (RStr fn) = Inr (RStr [])"
    "wrap_file_template_as_json std_text json_text read_fs (RStr fn) = Inr (RStr (c_str s))"
    "wrap_gettext_file_as_json std_text json_text read_fs (RStr fn) = Inr (RStr (c_str s))"
  using parser_error_texts[where read_fs = read_fs and filename = fn, OF assms(1)]
  by (simp_all add: wrap_calculate_tp_hash_def wrap_file_template_as_json_def wrap_gettext_file_as_json_def
      StringValuePtr_def rb_bind_def or_empty_def rb_str_new2_def assms(2)) (simp add: c_str_def)

section \<open>Incremental detection\<close>

lemma rb_bind_simps [simp]: "rb_bind (Inr x) f = f x" "rb_bind (Inl e) f = Inl e" "from_cpp (Inr y) = Inr y" "from_cpp (Inl e') = Inl (CppError e')"
  by (simp_all add: rb_bind_def from_cpp_def)

lemma pair_records_written:
  assumes "hex_codec fmt fromstr" "\<forall>p \<in> set ps. pair_ok p"
  shows "pair_records fromstr (map (rb_pair fmt) ps) = Inr (writePairToFile ps)"
  using assms(2)
proof (induction ps)
  case (Cons p ps)
  have "fromstr (fmt h) = Some h" "c_str (fmt h) = fmt h" if "oid_ok h" for h
    using assms(1) that by (simp_all add: hex_codec_def c_str_id)
  moreover have "oid_ok (fst p)" "oid_ok (snd p)" using Cons.prems by (simp_all add: pair_ok_def)
  ultimately show ?case using Cons
    by (simp add: rb_pair_def rb_git_oid_fmt_def rb_ary_entry_def rb_elements_def StringValuePtr_def writePairToFile_def)
qed (simp add: writePairToFile_def)

text \<open>C33. Pairs that were appended to the file of processed pairs are not detected again: after
  \<open>append_processed_pairs\<close>, \<open>detect_transitions_inc\<close> returns pairs of IDs that are neither among the
  appended ones nor among those the file had, and every file modified in the two histories has its
  pair among the new, the appended or the earlier ones.\<close>

theorem processed_not_detected_again:
  assumes repos: "readable git_disk odb trunk head1" "readable git_disk odb branch head2"
    and orphans: "read_orphans proorph (map_option text_of (w_files w proorph)) = Inr transitions"
    and kept: "w_files w processed = Some (writePairToFile old) \<or> w_files w processed = None \<and> old = []"
      "can_append w processed" "proorph \<noteq> processed"
    and pairs: "\<forall>p \<in> set old \<union> set ps. pair_ok p" and codec: "hex_codec fmt fromstr"
    and names: "\<forall>s \<in> {trunk, branch, proorph, processed}. CHR 0x00 \<notin> set s"
  shows "\<exists>w' found. wrap_append_processed_pairs fromstr w (RStr processed) (RArr (map (rb_pair fmt) ps)) = Inr (RNil, w')
    \<and> wrap_detect_transitions_inc fmt git_disk w' (RStr trunk) (RStr branch) (RStr proorph) (RStr processed)
        = Inr (RArr (map (rb_pair fmt) found))
    \<and> set found \<inter> (set old \<union> set ps) = {}
    \<and> modified_pairs head1 \<union> modified_pairs head2 \<subseteq> set found \<union> set old \<union> set ps"
proof -
  have str: "StringValuePtr (RStr s) = Inr s" if "s \<in> {trunk, branch, proorph, processed}" for s
    using names that by (auto simp: StringValuePtr_def c_str_id)
  define w' where "w' = (the (open_append w processed))\<lparr>w_files := (w_files w)(processed \<mapsto> writePairToFile (old @ ps))\<rparr>"
  have files: "w_files w' processed = Some (writePairToFile (old @ ps))" "w_files w' proorph = w_files w proorph"
    using kept(3) by (simp_all add: w'_def)
  have "wrap_append_processed_pairs fromstr w (RStr processed) (RArr (map (rb_pair fmt) ps)) = Inr (RNil, w')"
    using kept(1,2) str pair_records_written[OF codec, of ps] pairs
    by (auto simp: wrap_append_processed_pairs_def rb_elements_def open_append_def w'_def writePairToFile_def)
  moreover obtain all where all: "detectTransitions git_disk [] trunk branch proorph (map_option text_of (w_files w proorph)) = Inr all"
      "\<forall>p \<in> set all. pair_ok p" "modified_pairs head1 \<union> modified_pairs head2 \<subseteq> set all"
    using detectTransitions_ok[OF repos orphans, of "[]"] by auto
  define found where "found = filter (\<lambda>p. p \<notin> set (old @ ps)) all"
  have "filterProcessedTransitions processed (Some (writePairToFile (old @ ps))) all [] = Inr found"
    using filter_written_pairs[of "old @ ps" all processed "[]"] pairs all(2) by (simp add: found_def)
  then have "wrap_detect_transitions_inc fmt git_disk w' (RStr trunk) (RStr branch) (RStr proorph) (RStr processed)
      = Inr (RArr (map (rb_pair fmt) found))"
    using all(1) str by (simp add: wrap_detect_transitions_inc_def files)
  moreover have "set found \<inter> (set old \<union> set ps) = {}" "modified_pairs head1 \<union> modified_pairs head2 \<subseteq> set found \<union> set old \<union> set ps"
    using all(3) by (auto simp: found_def)
  ultimately show ?thesis by blast
qed

lemma processed_not_detected_again_witness:
  "\<exists>w' found. wrap_append_processed_pairs (\<lambda>s. Some (hex_bytes s))
      \<lparr>w_files = [''orphans.txt'' \<mapsto> []], w_dirs = {}\<rparr> (RStr ''pairs.dat'')
      (RArr (map (rb_pair hex_fmt) [(replicate 20 1, replicate 20 2)])) = Inr (RNil, w')
    \<and> wrap_detect_transitions_inc hex_fmt wit_disk w' (RStr ''repo'') (RStr ''repo'') (RStr ''orphans.txt'') (RStr ''pairs.dat'')
        = Inr (RArr (map (rb_pair hex_fmt) found)) \<and> (replicate 20 1, replicate 20 2) \<notin> set found"
proof -
  let ?w = "\<lparr>w_files = [''orphans.txt'' \<mapsto> []], w_dirs = {}\<rparr>" and ?p = "(replicate 20 1, replicate 20 2) :: oid_pair"
  have "read_orphans ''orphans.txt'' (map_option text_of (w_files ?w ''orphans.txt'')) = Inr []"
    by (simp add: read_orphans_def text_of_def fgets_lines.simps)
  moreover have "can_append ?w ''pairs.dat''" by (simp add: can_append_def dir_exists_def parent_dir_def)
  moreover have less: "replicate 20 a < replicate 20 b" if "a < b" for a b :: byte
    using that by (simp add: eval_nat_numeral)
  have "replicate 20 1 < (replicate 20 2 :: git_oid)" by (rule less) (simp add: word_less_nat_alt)
  then have "\<forall>p \<in> set [] \<union> set [?p]. pair_ok p" by (simp add: pair_ok_def oid_ok_def oid_size_def)
  moreover have "\<forall>s \<in> {''repo'', ''repo'', ''orphans.txt'', ''pairs.dat''}. CHR 0x00 \<notin> set s" by simp
  moreover have "w_files ?w ''pairs.dat'' = Some (writePairToFile []) \<or> w_files ?w ''pairs.dat'' = None \<and> [] = []" by simp
  moreover have "''orphans.txt'' \<noteq> ''pairs.dat''" by simp
  ultimately show ?thesis
    using processed_not_detected_again[OF wit_readable wit_readable _ _ _ _ _ hex_codec_example,
        of "''orphans.txt''" ?w "[]" "''pairs.dat''" "[]" "[?p]"] by fastforce
qed

end
