(* ===== verification/Collapse.thy ===== *)
theory Collapse
  imports ContentFacts
begin

text \<open>
  Collapsing the IDs of two files (\<open>dump_equal_messages_to_mmapdb\<close> of \<open>gettextpo-helper.cpp\<close>): the pairs of
  equal messages go one by one through \<open>addRow\<close>. What a single \<open>addRow\<close> may lose (\<open>addRow_loses_collapse\<close>)
  is not lost here, because the pairs of two files have no ID in common.
\<close>

section \<open>Chains of rows\<close>

text \<open>Two IDs whose rows lead directly to one ID stay together when only other rows are written.\<close>

definition together :: "mapped_file \<Rightarrow> int \<times> int \<Rightarrow> bool" where
  "together f p \<longleftrightarrow> (\<exists>g. is_int32 g \<and> g \<noteq> 0 \<and> (fst p = g \<or> row f (fst p) = g) \<and> (snd p = g \<or> row f (snd p) = g))"

lemma root_direct:
  assumes "idmap_ok f" "is_int32 i" "i = g \<or> row f i = g" "g \<noteq> 0"
  shows "root f i = root f g"
  using assms root_step[OF assms(1,2)] by auto

lemma together_root:
  assumes "idmap_ok f" "together f p" "is_int32 (fst p)" "is_int32 (snd p)"
  shows "root f (fst p) = root f (snd p)"
proof -
  obtain g where "g \<noteq> 0" "fst p = g \<or> row f (fst p) = g" "snd p = g \<or> row f (snd p) = g"
    using assms(2) unfolding together_def by blast
  then show ?thesis using root_direct[OF assms(1,3)] root_direct[OF assms(1,4)] by metis
qed

lemma together_rows:
  "together f p \<Longrightarrow> row f' (fst p) = row f (fst p) \<Longrightarrow> row f' (snd p) = row f (snd p) \<Longrightarrow> together f' p"
  by (auto simp: together_def)

section \<open>A sequence of collapses\<close>

text \<open>IDs that the database accepts; pairs that share no ID.\<close>

definition collapsible :: "int \<times> int \<Rightarrow> bool" where
  "collapsible p \<longleftrightarrow> 100 \<le> fst p \<and> fst p < 100 * 1000 * 1000 \<and> 100 \<le> snd p \<and> snd p < 100 * 1000 * 1000
     \<and> fst p \<noteq> snd p"

definition apart :: "int \<times> int \<Rightarrow> int \<times> int \<Rightarrow> bool" where
  "apart p q \<longleftrightarrow> {fst p, snd p} \<inter> {fst q, snd q} = {}"

text \<open>The IDs that have to end together: those that were, and the two of every pair.\<close>

definition linked_ids :: "mapped_file \<Rightarrow> (int \<times> int) set \<Rightarrow> (int \<times> int) set" where
  "linked_ids f ps = (let r = {(i, root f i) | i. is_int32 i} \<union> ps in (r \<union> r\<inverse>)\<^sup>*)"

lemma linked_root: "is_int32 i \<Longrightarrow> (i, root f i) \<in> linked_ids f ps"
  by (auto simp: linked_ids_def Let_def)

lemma linked_pair: "p \<in> ps \<Longrightarrow> p \<in> linked_ids f ps"
  by (cases p) (auto simp: linked_ids_def Let_def)

lemma linked_sym: "(i, j) \<in> linked_ids f ps \<Longrightarrow> (j, i) \<in> linked_ids f ps"
  by (metis (no_types, lifting) Un_commute converse_Un converse_converse linked_ids_def rtrancl_converseD rtrancl_converseI)

lemma linked_trans: "(i, j) \<in> linked_ids f ps \<Longrightarrow> (j, k) \<in> linked_ids f ps \<Longrightarrow> (i, k) \<in> linked_ids f ps"
  by (auto simp: linked_ids_def Let_def)

lemma linked_subset:
  assumes "\<And>i. is_int32 i \<Longrightarrow> (i, root f' i) \<in> linked_ids f ps" "ps' \<subseteq> linked_ids f ps"
  shows "linked_ids f' ps' \<subseteq> linked_ids f ps"
proof -
  let ?r = "{(i, root f' i) | i. is_int32 i} \<union> ps'"
  have "?r \<union> ?r\<inverse> \<subseteq> linked_ids f ps" using assms linked_sym by fastforce
  then have "(?r \<union> ?r\<inverse>)\<^sup>* \<subseteq> (linked_ids f ps)\<^sup>*" by (rule rtrancl_mono)
  then show ?thesis by (simp add: linked_ids_def Let_def)
qed

text \<open>One collapse: the two are together, no other row changes, and no other IDs become linked.\<close>

lemma collapse_one:
  assumes ok: "idmap_ok f" and p: "collapsible p"
  shows "\<exists>f'. addRow f (fst p) (snd p) = Inr f' \<and> idmap_ok f' \<and> together f' p
    \<and> (\<forall>q. together f q \<longrightarrow> apart p q \<longrightarrow> is_int32 (fst q) \<longrightarrow> is_int32 (snd q) \<longrightarrow> together f' q)
    \<and> (\<forall>j. is_int32 j \<longrightarrow> root f' j \<le> root f j \<and> (j, root f' j) \<in> linked_ids f {p})"
proof -
  let ?a = "fst p" and ?b = "snd p"
  let ?g = "min (root f ?a) (root f ?b)"
  have ab: "is_int32 ?a" "is_int32 ?b" using p by (simp_all add: collapsible_def is_int32_def)
  have g: "is_int32 ?g" "row f ?g = 0" "0 < ?g"
    using root_facts[OF ok ab(1)] root_facts[OF ok ab(2)] p by (auto simp: min_def collapsible_def)
  obtain f' where f': "addRow f ?a ?b = Inr f'" "idmap_ok f'"
      and rows: "\<And>j. is_int32 j \<Longrightarrow> row f' j = (if j = ?g then 0 else if j = ?a \<or> j = ?b then ?g else row f j)"
    using addRow_rows[OF ok, of ?a ?b] p by (auto simp: collapsible_def)
  have "together f' p"
    unfolding together_def using g(1,3) rows[OF ab(1)] rows[OF ab(2)] by (intro exI[of _ ?g]) auto
  moreover have "together f' q" if "together f q" "apart p q" "is_int32 (fst q)" "is_int32 (snd q)" for q
    using together_rows[OF that(1)] rows[OF that(3)] rows[OF that(4)] that(2) g(2) by (auto simp: apart_def)
  moreover have "root f' j \<le> root f j \<and> (j, root f' j) \<in> linked_ids f {p}" if "is_int32 j" for j
    using that
  proof (induction "nat j" arbitrary: j rule: less_induct)
    case less
    note step = root_step[OF ok less.prems] and step' = root_step[OF f'(2) less.prems]
    have root_g: "root f' ?g = ?g" using root_step[OF f'(2) g(1)] rows[OF g(1)] by simp
    have p_in: "(?a, ?b) \<in> linked_ids f {p}" using linked_pair[of p "{p}"] by simp
    have to_g: "(?a, ?g) \<in> linked_ids f {p}" "(?b, ?g) \<in> linked_ids f {p}"
      using p_in linked_root[OF ab(1), of f "{p}"] linked_root[OF ab(2), of f "{p}"] linked_trans linked_sym
      by (metis min_def)+
    consider "j = ?g" | "j \<noteq> ?g" "j = ?a \<or> j = ?b" | "j \<noteq> ?g" "j \<noteq> ?a" "j \<noteq> ?b" by blast
    then show ?case
    proof cases
      case 1
      then have "root f j = j" "root f' j = j" using step g(2) root_g by simp_all
      then show ?thesis using linked_root[OF less.prems, of f "{p}"] by simp
    next
      case 2
      then have "root f' j = ?g" using step' rows[OF less.prems] root_g g(3) by auto
      then show ?thesis using 2(2) to_g by auto
    next
      case 3
      then have same: "row f' j = row f j" using rows[OF less.prems] by simp
      show ?thesis
      proof (cases "row f j = 0")
        case True
        then have "root f j = j" "root f' j = j" using step step' same by simp_all
        then show ?thesis using linked_root[OF less.prems, of f "{p}"] by simp
      next
        case False
        then have IH: "root f' (row f j) \<le> root f (row f j)" "(row f j, root f' (row f j)) \<in> linked_ids f {p}"
          using less.hyps[of "row f j"] idmap_ok_row[OF ok less.prems] by simp_all
        have "(j, row f j) \<in> linked_ids f {p}"
          using linked_trans[OF linked_root[of j f "{p}", OF less.prems], of "row f j"]
            linked_sym[OF linked_root[of "row f j" f "{p}", OF row_int32]] step False by simp
        then show ?thesis using IH step step' same False linked_trans[OF _ IH(2)] by simp
      qed
    qed
  qed
  ultimately show ?thesis using f' by blast
qed

lemma collapse_all:
  assumes "idmap_ok f" "\<forall>p \<in> set l. collapsible p" "\<forall>p \<in> set l. \<forall>q \<in> set l. p = q \<or> apart p q"
    and "\<forall>p \<in> set done_pairs. collapsible p \<and> together f p" "\<forall>p \<in> set l. \<forall>q \<in> set done_pairs. p = q \<or> apart p q"
  shows "\<exists>f'. rfold (\<lambda>db p. addRow db (fst p) (snd p)) f l = Inr f' \<and> idmap_ok f'
    \<and> (\<forall>p \<in> set (done_pairs @ l). together f' p)
    \<and> (\<forall>j. is_int32 j \<longrightarrow> root f' j \<le> root f j \<and> (j, root f' j) \<in> linked_ids f (set l))"
  using assms
proof (induction l arbitrary: f done_pairs)
  case Nil
  then show ?case using linked_root by auto
next
  case (Cons p l)
  have i32: "is_int32 (fst q) \<and> is_int32 (snd q)" if "collapsible q" for q
    using that by (simp add: collapsible_def is_int32_def)
  obtain f1 where f1: "addRow f (fst p) (snd p) = Inr f1" "idmap_ok f1" "together f1 p"
      "\<And>q. together f q \<Longrightarrow> apart p q \<Longrightarrow> is_int32 (fst q) \<Longrightarrow> is_int32 (snd q) \<Longrightarrow> together f1 q"
      "\<And>j. is_int32 j \<Longrightarrow> root f1 j \<le> root f j \<and> (j, root f1 j) \<in> linked_ids f {p}"
    using collapse_one[OF Cons.prems(1), of p] Cons.prems(2) by auto
  have done1: "\<forall>q \<in> set (done_pairs @ [p]). collapsible q \<and> together f1 q"
    using Cons.prems(2,4,5) f1(3,4) i32 by fastforce
  have apart1: "\<forall>r \<in> set l. \<forall>q \<in> set (done_pairs @ [p]). r = q \<or> apart r q"
    using Cons.prems(3,5) by auto
  obtain f' where f': "rfold (\<lambda>db p. addRow db (fst p) (snd p)) f1 l = Inr f'" "idmap_ok f'"
      "\<forall>q \<in> set ((done_pairs @ [p]) @ l). together f' q"
      "\<And>j. is_int32 j \<Longrightarrow> root f' j \<le> root f1 j \<and> (j, root f' j) \<in> linked_ids f1 (set l)"
    using Cons.IH[OF f1(2) _ _ done1 apart1] Cons.prems(2,3) by auto
  have "linked_ids f {p} \<subseteq> linked_ids f (set (p # l))"
    by (rule linked_subset) (auto intro: linked_root linked_pair)
  then have "linked_ids f1 (set l) \<subseteq> linked_ids f (set (p # l))"
    by (intro linked_subset) (use f1(5) in \<open>auto intro: linked_pair\<close>)
  then have "root f' j \<le> root f j \<and> (j, root f' j) \<in> linked_ids f (set (p # l))" if "is_int32 j" for j
    using f'(4)[OF that] f1(5)[OF that] by fastforce
  then show ?case using f1(1) f' by (intro exI[of _ f']) auto
qed

section \<open>The IDs of two files\<close>

definition id_pairs :: "message_group list \<Rightarrow> int \<Rightarrow> message_group list \<Rightarrow> int \<Rightarrow> (int \<times> int) set" where
  "id_pairs ga ia gb ib = {(ia + int i, ib + int j) | i j. i < length ga \<and> j < length gb
     \<and> equalOrigText (ga ! i) (gb ! j)}"

text \<open>A file has no message twice, so that the pairs of two files are apart.\<close>

lemma id_pairs_apart:
  assumes d: "distinct (map orig_key ga)" "distinct (map orig_key gb)"
    and ranges: "ia + int (length ga) \<le> ib \<or> ib + int (length gb) \<le> ia"
    and pq: "p \<in> id_pairs ga ia gb ib" "q \<in> id_pairs ga ia gb ib"
  shows "p = q \<or> apart p q"
proof -
  obtain i j where p: "p = (ia + int i, ib + int j)" "i < length ga" "j < length gb" "orig_key (ga ! i) = orig_key (gb ! j)"
    using pq(1) by (auto simp: id_pairs_def equalOrigText_def orig_eq_iff)
  obtain i' j' where q: "q = (ia + int i', ib + int j')" "i' < length ga" "j' < length gb" "orig_key (ga ! i') = orig_key (gb ! j')"
    using pq(2) by (auto simp: id_pairs_def equalOrigText_def orig_eq_iff)
  have "i = i' \<longleftrightarrow> orig_key (ga ! i) = orig_key (ga ! i')" "j = j' \<longleftrightarrow> orig_key (gb ! j) = orig_key (gb ! j')"
    using nth_eq_iff_index_eq[OF d(1)] nth_eq_iff_index_eq[OF d(2)] p(2,3) q(2,3) by auto
  then have "i = i' \<longleftrightarrow> j = j'" using p(4) q(4) by simp
  then show ?thesis using p(1-3) q(1-3) ranges by (auto simp: apart_def)
qed

lemma id_pairs_collapsible:
  assumes "100 \<le> ia" "ia + int (length ga) \<le> 100 * 1000 * 1000" "100 \<le> ib" "ib + int (length gb) \<le> 100 * 1000 * 1000"
    and "ia + int (length ga) \<le> ib \<or> ib + int (length gb) \<le> ia" "p \<in> id_pairs ga ia gb ib"
  shows "collapsible p"
  using assms by (auto simp: id_pairs_def collapsible_def)

lemma dump_collapses:
  assumes files: "readMessages a = Inr ga" "readMessages b = Inr gb"
      "distinct (map orig_key ga)" "distinct (map orig_key gb)"
    and db: "idmap_ok db"
    and ids: "100 \<le> ia" "ia + int (length ga) \<le> 100 * 1000 * 1000" "100 \<le> ib" "ib + int (length gb) \<le> 100 * 1000 * 1000"
      "ia + int (length ga) \<le> ib \<or> ib + int (length gb) \<le> ia"
  shows "\<exists>n db1 db2. dump_equal_messages_to_mmapdb a ia b ib db = Inr (n, db1) \<and> normalizeDatabase db1 = Inr db2
    \<and> (\<forall>i < length ga. \<forall>j < length gb. equalOrigText (ga ! i) (gb ! j) \<longrightarrow>
        (\<exists>m. getRecursiveMinId db1 (ia + int i) = Inr m \<and> getRecursiveMinId db1 (ib + int j) = Inr m
          \<and> getPlainMinId db2 (ia + int i) = Inr m \<and> getPlainMinId db2 (ib + int j) = Inr m))
    \<and> (\<forall>k. is_int32 k \<longrightarrow> (\<exists>m. getRecursiveMinId db1 k = Inr m \<and> m \<le> root db k
          \<and> (k, m) \<in> linked_ids db (id_pairs ga ia gb ib)))"
proof -
  obtain l where l: "list_equal_messages_ids_2 a ia b ib = Inr l" "set l = id_pairs ga ia gb ib"
    using equal_messages_pairs[OF files, of ia ib] by (auto simp: id_pairs_def)
  have coll: "\<forall>p \<in> set l. collapsible p" using id_pairs_collapsible[OF ids] l(2) by simp
  have "\<forall>p \<in> set l. \<forall>q \<in> set l. p = q \<or> apart p q" using id_pairs_apart[OF files(3,4) ids(5)] l(2) by simp
  then obtain db1 where db1: "rfold (\<lambda>db p. addRow db (fst p) (snd p)) db l = Inr db1" "idmap_ok db1"
      "\<forall>p \<in> set l. together db1 p"
      "\<And>j. is_int32 j \<Longrightarrow> root db1 j \<le> root db j \<and> (j, root db1 j) \<in> linked_ids db (set l)"
    using collapse_all[OF db coll, of "[]"] by auto
  obtain db2 where db2: "normalizeDatabase db1 = Inr db2"
      "\<And>j. is_int32 j \<Longrightarrow> getPlainMinId db2 j = Inr (root db1 j)"
    using normalizeDatabase_roots[OF db1(2)] by blast
  have "root db1 (ia + int i) = root db1 (ib + int j) \<and> is_int32 (ia + int i) \<and> is_int32 (ib + int j)"
    if "i < length ga" "j < length gb" "equalOrigText (ga ! i) (gb ! j)" for i j
  proof -
    have "(ia + int i, ib + int j) \<in> set l" using that l(2) by (auto simp: id_pairs_def)
    moreover from this coll have "is_int32 (ia + int i)" "is_int32 (ib + int j)"
      by (auto simp: collapsible_def is_int32_def)
    ultimately show ?thesis using together_root[OF db1(2), of "(ia + int i, ib + int j)"] db1(3) by simp
  qed
  then show ?thesis
    using l db1(1,4) db2 recursive_total[OF db1(2)] by (auto simp: dump_equal_messages_to_mmapdb_def)
qed

text \<open>C18. Collapsing the IDs of two files: \<open>dump_equal_messages_to_mmapdb\<close> returns for every database; then
  any two messages with the same original text have the same minimum ID, also in the plain rows that
  the server reads once the database is normalized. No minimum ID grows, and an ID gets together only with
  IDs that it was together with, or is linked to through equal messages.\<close>

theorem equal_messages_collapsed:
  assumes files: "readMessages a = Inr ga" "readMessages b = Inr gb"
      "distinct (map orig_key ga)" "distinct (map orig_key gb)"
    and db: "idmap_ok db"
    and ids: "100 \<le> ia" "ia + int (length ga) \<le> 100 * 1000 * 1000" "100 \<le> ib" "ib + int (length gb) \<le> 100 * 1000 * 1000"
      "ia + int (length ga) \<le> ib \<or> ib + int (length gb) \<le> ia"
  shows "\<exists>n db1 db2. dump_equal_messages_to_mmapdb a ia b ib db = Inr (n, db1) \<and> normalizeDatabase db1 = Inr db2
    \<and> (\<forall>i < length ga. \<forall>j < length gb. equalOrigText (ga ! i) (gb ! j) \<longrightarrow>
        (\<exists>m. getRecursiveMinId db1 (ia + int i) = Inr m \<and> getRecursiveMinId db1 (ib + int j) = Inr m
          \<and> getPlainMinId db2 (ia + int i) = Inr m \<and> getPlainMinId db2 (ib + int j) = Inr m))
    \<and> (\<forall>k. is_int32 k \<longrightarrow> (\<exists>m. getRecursiveMinId db1 k = Inr m \<and> m \<le> root db k
          \<and> (k, m) \<in> linked_ids db (id_pairs ga ia gb ib)))"
  using assms by (rule dump_collapses)

theorem equal_messages_collapsed_witness:
  "\<exists>n db1 m. dump_equal_messages_to_mmapdb (ex_content [] []) 1000 (ex_content ''Abrir'' ''Sair'') 2000 empty_file = Inr (n, db1)
    \<and> getRecursiveMinId db1 1001 = Inr m \<and> getRecursiveMinId db1 2001 = Inr m"
proof -
  let ?g = "\<lambda>t1 t2. [group_read (ex_entry ''Open'' t1) 0 ''a.po'', group_read (ex_entry ''Quit'' t2) 1 ''a.po'']"
  have "equalOrigText (?g [] [] ! 1) (?g ''Abrir'' ''Sair'' ! 1)"
    by (simp add: equalOrigText_def orig_eq_iff group_read_simps(3), simp add: ex_entry_def)
  then show ?thesis
    using equal_messages_collapsed[where ia = 1000 and ib = 2000,
        OF ex_content_groups[of "[]" "[]"] ex_content_groups[of "''Abrir''" "''Sair''"] ex_content_keys ex_content_keys idmap_ok_empty]
    by (auto dest!: spec[of _ "1::nat"])
qed

end
