(* ===== verification/Pipeline.thy ===== *)
theory Pipeline
  imports Collapse MappedFiles Protocol Config
begin

text \<open>
  From the scripts to the clients: a script collapses the IDs of two files and another one normalizes
  the database, both through a file mapped into memory; a server started afterwards (\<open>Server::Server\<close> of
  \<open>stupids-server/server.cpp\<close>) opens the file that its configuration names and answers the clients from it.
\<close>

section \<open>The operations on the file\<close>

definition mm_normalize_row :: "world \<Rightarrow> mapped_object \<Rightarrow> int \<Rightarrow> (world \<times> mapped_object) res" where
  "mm_normalize_row w m msg_id = rbind (mm_ptr w m (row_offset msg_id) 4) (\<lambda>(w', m').
     rbind (getRecursiveMinId (mm_view w' m') msg_id) (\<lambda>recurs_min_id.
       let p = row_offset msg_id; min_id = read_int (mm_view w' m') p
       in if min_id \<noteq> 0 \<and> min_id \<noteq> recurs_min_id
          then rbind (mm_write_int w' m' p recurs_min_id) (\<lambda>w''. Inr (w'', m')) else Inr (w', m')))"

definition mm_normalizeDatabase :: "world \<Rightarrow> mapped_object \<Rightarrow> (world \<times> mapped_object) res" where
  "mm_normalizeDatabase w m =
     (let row_count = int_of_u32 (of_nat (mp_fileLength m div 4))
      in rfold (\<lambda>(w, m) i. mm_normalize_row w m i) (w, m) [100..row_count - 1])"

definition mm_dump_equal_messages ::
    "content \<Rightarrow> int \<Rightarrow> content \<Rightarrow> int \<Rightarrow> world \<Rightarrow> mapped_object \<Rightarrow> (int \<times> world \<times> mapped_object) res" where
  "mm_dump_equal_messages a ia b ib w m = rbind (list_equal_messages_ids_2 a ia b ib) (\<lambda>l.
     rbind (rfold (\<lambda>(w, m) p. mm_addRow w m (fst p) (snd p)) (w, m) l) (\<lambda>(w', m').
       Inr (int (length l), w', m')))"

text \<open>\<open>Server::Server\<close> opens the database that the configuration names.\<close>

definition Server_new :: "string option \<Rightarrow> config \<Rightarrow> world \<Rightarrow> mapped_object res" where
  "Server_new home conf w =
     rbind (expand_path home (fst (config_get conf ''server.idmapdb''))) (\<lambda>fn. Inr (MappedFile_new w fn))"

section \<open>They implement those on the mapping\<close>

lemma implements_rfold:
  assumes "\<And>w m x. mm_ok w m \<Longrightarrow> implements w m (g w m x) (h (mm_view w m) x)" "mm_ok w m"
  shows "implements w m (rfold (\<lambda>(w, m) x. g w m x) (w, m) xs) (rfold h (mm_view w m) xs)"
  using assms(2)
proof (induction xs arbitrary: w m)
  case Nil
  then show ?case by (simp add: implements_refl)
next
  case (Cons x xs)
  have "implements w m (rbind (g w m x) (\<lambda>(w', m'). rfold (\<lambda>(w, m) x. g w m x) (w', m') xs))
      (rbind (h (mm_view w m) x) (\<lambda>f. rfold h f xs))"
    by (rule implements_bind[OF assms(1)[OF Cons.prems]]) (rule Cons.IH)
  then show ?case by (simp add: case_prod_unfold)
qed

lemma normalize_row_implements:
  assumes ok: "mm_ok w m"
  shows "implements w m (mm_normalize_row w m i) (normalize_row (mm_view w m) i)"
  unfolding mm_normalize_row_def normalize_row_def getRow_def
proof (rule implements_bind[OF ptr_implements[OF ok]])
  fix w' m' assume step: "mm_ptr w m (row_offset i) 4 = Inr (w', m')" "mm_ok w' m'"
  obtain f where "mf_ptr (mm_view w m) (row_offset i) 4 = Inr f" "mm_view w' m' = f"
    using ptr_implements[OF ok, of "row_offset i" 4] step(1) by (auto simp: implements_def split: sum.splits)
  then have p: "row_offset i + 4 \<le> mp_fileLength m'" using ptr_accessible by fastforce
  show "implements w' m' (rbind (getRecursiveMinId (mm_view w' m') i) (\<lambda>r. let p = row_offset i; min_id = read_int (mm_view w' m') p
         in if min_id \<noteq> 0 \<and> min_id \<noteq> r then rbind (mm_write_int w' m' p r) (\<lambda>w''. Inr (w'', m')) else Inr (w', m')))
      (rbind (getRecursiveMinId (mm_view w' m') i) (\<lambda>r. let p = row_offset i
         in Inr (if read_int (mm_view w' m') p \<noteq> 0 \<and> read_int (mm_view w' m') p \<noteq> r then write_int (mm_view w' m') p r
                 else mm_view w' m')))"
    using write_int_implements[OF step(2) p] implements_refl[OF step(2)]
    by (cases "getRecursiveMinId (mm_view w' m') i") (auto simp: Let_def implements_def[of _ _ "Inl _"])
qed

lemma normalizeDatabase_implements:
  "mm_ok w m \<Longrightarrow> implements w m (mm_normalizeDatabase w m) (normalizeDatabase (mm_view w m))"
  unfolding mm_normalizeDatabase_def normalizeDatabase_def Let_def mm_view_length
  by (intro implements_rfold normalize_row_implements)

lemma implementsD:
  assumes "implements w m r (Inr f)"
  obtains w' m' where "r = Inr (w', m')" "mm_view w' m' = f" "mm_ok w' m'" "mp_filename m' = mp_filename m"
  using assms by (auto simp: implements_def)

lemma dump_implements:
  assumes ok: "mm_ok w m" and step: "dump_equal_messages_to_mmapdb a ia b ib (mm_view w m) = Inr (n, db)"
  obtains w' m' where "mm_dump_equal_messages a ia b ib w m = Inr (n, w', m')" "mm_view w' m' = db" "mm_ok w' m'"
    "mp_filename m' = mp_filename m"
proof -
  obtain l where l: "list_equal_messages_ids_2 a ia b ib = Inr l" "n = int (length l)"
      "rfold (\<lambda>db p. addRow db (fst p) (snd p)) (mm_view w m) l = Inr db"
    using step by (auto simp: dump_equal_messages_to_mmapdb_def res_simps)
  have "implements w m (rfold (\<lambda>(w, m) p. mm_addRow w m (fst p) (snd p)) (w, m) l) (Inr db)"
    unfolding l(3)[symmetric] by (rule implements_rfold[OF addRow_implements ok])
  then show thesis using that l(1,2) by (auto simp: mm_dump_equal_messages_def elim!: implementsD)
qed

section \<open>All of it\<close>

text \<open>C19. Collapsed IDs reach the clients: a script collapses the IDs of two files in a database file, another
  opens the file and normalizes it, and a server is started whose configuration names the file. Then a
  client that asks for the minimum IDs of two messages with the same original text, one of each file,
  gets the same number twice.\<close>

theorem collapsed_ids_served:
  assumes files: "readMessages a = Inr ga" "readMessages b = Inr gb"
      "distinct (map orig_key ga)" "distinct (map orig_key gb)"
    and db: "can_append w fn" "idmap_ok (mm_view w (MappedFile_new w fn))"
    and ids: "100 \<le> ia" "ia + int (length ga) \<le> 100 * 1000 * 1000" "100 \<le> ib" "ib + int (length gb) \<le> 100 * 1000 * 1000"
      "ia + int (length ga) \<le> ib \<or> ib + int (length gb) \<le> ia"
    and same: "i < length ga" "j < length gb" "equalOrigText (ga ! i) (gb ! j)"
    and conf: "expand_path home (fst (config_get conf ''server.idmapdb'')) = Inr fn"
    and request: "srv_ready s (req_min_ids [ia + int i, ib + int j] @ rest) []"
  shows "\<exists>n w1 m1 w2 m2 obj s' ans k. mm_dump_equal_messages a ia b ib w (MappedFile_new w fn) = Inr (n, w1, m1)
    \<and> mm_normalizeDatabase w1 (MappedFile_new w1 fn) = Inr (w2, m2) \<and> Server_new home conf w2 = Inr obj
    \<and> commandHandler (mm_view w2 obj) fid s = (Inr (), s') \<and> srv_out s' = srv_out s @ ans
    \<and> (\<forall>c. cl_ready c ans \<longrightarrow> (\<exists>c'. cl_getMinIds [ia + int i, ib + int j] c = (Inr [k, k], c')))"
proof -
  let ?ids = "[ia + int i, ib + int j]"
  note new = new_object_ok[OF db(1)]
  obtain n db1 db2 where steps: "dump_equal_messages_to_mmapdb a ia b ib (mm_view w (MappedFile_new w fn)) = Inr (n, db1)"
      "normalizeDatabase db1 = Inr db2"
      "\<exists>k. getPlainMinId db2 (ia + int i) = Inr k \<and> getPlainMinId db2 (ib + int j) = Inr k"
    using dump_collapses[OF files db(2) ids] same by blast
  then obtain k where k: "getPlainMinId db2 (ia + int i) = Inr k" "getPlainMinId db2 (ib + int j) = Inr k" by blast
  obtain w1 m1 where w1: "mm_dump_equal_messages a ia b ib w (MappedFile_new w fn) = Inr (n, w1, m1)"
      "mm_view w1 m1 = db1" "mm_ok w1 m1" "mp_filename m1 = fn"
    using dump_implements[OF new(1) steps(1)] new(2) by metis
  then have o1: "mm_ok w1 (MappedFile_new w1 fn)" "mm_view w1 (MappedFile_new w1 fn) = db1"
      "mp_filename (MappedFile_new w1 fn) = fn"
    using new_object_ok[of w1 fn] reopened_view[OF w1(3)] by (auto simp: mm_ok_def)
  have "implements w1 (MappedFile_new w1 fn) (mm_normalizeDatabase w1 (MappedFile_new w1 fn)) (Inr db2)"
    using normalizeDatabase_implements[OF o1(1)] o1(2) steps(2) by simp
  then obtain w2 m2 where w2: "mm_normalizeDatabase w1 (MappedFile_new w1 fn) = Inr (w2, m2)"
      "mm_view w2 m2 = db2" "mm_ok w2 m2" "mp_filename m2 = fn"
    using o1(3) by (elim implementsD) simp
  have obj: "Server_new home conf w2 = Inr (MappedFile_new w2 fn)" "mm_view w2 (MappedFile_new w2 fn) = db2"
    using conf reopened_view[OF w2(3)] w2(2,4) by (simp_all add: Server_new_def)
  have range: "\<forall>x \<in> set ?ids. is_int32 x \<and> getPlainMinId db2 x = Inr ((\<lambda>_. k) x)"
    using k ids(1-4) same(1,2) by (simp add: is_int32_def)
  show ?thesis
    using min_ids_served[OF request range, of fid] w1(1) w2(1) obj by fastforce
qed

theorem collapsed_ids_served_witness:
  "\<exists>n w1 m1 w2 m2 obj s' ans k c'. mm_dump_equal_messages (ex_content [] []) 1000 (ex_content ''Abrir'' ''Sair'') 2000
      \<lparr>w_files = Map.empty, w_dirs = {}\<rparr> (MappedFile_new \<lparr>w_files = Map.empty, w_dirs = {}\<rparr> ''ids.mmapdb'') = Inr (n, w1, m1)
    \<and> mm_normalizeDatabase w1 (MappedFile_new w1 ''ids.mmapdb'') = Inr (w2, m2)
    \<and> Server_new None [(''server.idmapdb'', ''ids.mmapdb'')] w2 = Inr obj
    \<and> commandHandler (mm_view w2 obj) (\<lambda>_. Inr (0, 0)) (in_bytes (req_min_ids [1001, 2001])) = (Inr (), s')
    \<and> srv_out s' = ans \<and> cl_getMinIds [1001, 2001] (reading ans) = (Inr [k, k], c')"
proof -
  let ?w = "\<lparr>w_files = Map.empty, w_dirs = {}\<rparr>"
  let ?g = "\<lambda>t1 t2. [group_read (ex_entry ''Open'' t1) 0 ''a.po'', group_read (ex_entry ''Quit'' t2) 1 ''a.po'']"
  have same: "equalOrigText (?g [] [] ! 1) (?g ''Abrir'' ''Sair'' ! 1)"
    by (simp add: equalOrigText_def orig_eq_iff group_read_simps(3), simp add: ex_entry_def)
  have view: "mm_view ?w (MappedFile_new ?w ''ids.mmapdb'') = empty_file"
    by (simp add: mm_view_def mm_bytes_def MappedFile_new_def mapFile_def detectFileSize_def empty_file_def)
  have cand: "can_append ?w ''ids.mmapdb''" by (simp add: can_append_def dir_exists_def parent_dir_def)
  have conf: "expand_path None (fst (config_get [(''server.idmapdb'', ''ids.mmapdb'')] ''server.idmapdb'')) = Inr ''ids.mmapdb''"
    by (simp add: config_get_def expand_path_def)
  have req: "srv_ready (in_bytes (req_min_ids [1001, 2001])) (req_min_ids [1001, 2001] @ []) []"
    using srv_ready_in_bytes by simp
  show ?thesis
    using collapsed_ids_served[where ia = 1000 and ib = 2000 and i = 1 and j = 1 and w = ?w and fn = "''ids.mmapdb''",
        OF ex_content_groups[of "[]" "[]"] ex_content_groups[of "''Abrir''" "''Sair''"] ex_content_keys ex_content_keys
          cand, unfolded view, OF idmap_ok_empty _ _ _ _ _ _ _ same conf, of "in_bytes (req_min_ids [1001, 2001])" "[]" "\<lambda>_. Inr (0, 0)"]
      req cl_ready_reading
    by simp metis
qed

end
