(* ===== verification/ContentFiles.thy ===== *)
theory ContentFiles
  imports FileContents ContentFacts
begin

text \<open>
  \<open>TranslationContent\<close> and its \<open>FileContentBase\<close> (\<open>gtpo/translationcontent.cpp\<close>): the operations that it hands
  on to the object it owns, and two small programs of the repository that use it,
  \<open>tests/dump-ids\<close> and \<open>examples/edit-po-translation\<close>. None is the null pointer.
\<close>

definition tc_poFileRead ::
    "(string \<Rightarrow> po_file lib_outcome) \<Rightarrow> (byte list option \<Rightarrow> po_file lib_outcome) \<Rightarrow> sys_env \<Rightarrow> file_content option \<Rightarrow>
     (proc, po_file option) sm" where
  "tc_poFileRead lib_file lib_stdin env fc = (case fc of
      None \<Rightarrow> sm_fail AssertFail
    | Some c \<Rightarrow> poFileRead lib_file lib_stdin env c)"

definition tc_gitBlobHash ::
    "(byte list \<Rightarrow> git_oid) \<Rightarrow> world \<Rightarrow> file_content option \<Rightarrow> (git_oid option \<times> file_content option) res" where
  "tc_gitBlobHash git_odb_hash w fc = (case fc of
      None \<Rightarrow> Inl AssertFail
    | Some c \<Rightarrow> rbind (gitBlobHash git_odb_hash w c) (\<lambda>(h, c'). Inr (h, Some c')))"

definition tc_writeBufferToFile :: "world \<Rightarrow> file_content option \<Rightarrow> string \<Rightarrow> (file_content option \<times> world) res" where
  "tc_writeBufferToFile w fc filename = (case fc of
      None \<Rightarrow> Inl AssertFail
    | Some c \<Rightarrow> rbind (writeBufferToFile w c filename) (\<lambda>(c', w'). Inr (Some c', w')))"

text \<open>\<open>writeToFile()\<close> goes to the file the content was made from; the result is what is written there.\<close>

definition tc_writeToFile :: "content \<Rightarrow> (string \<times> catalog) option res" where
  "tc_writeToFile c = (case c_fs_name c of
      None \<Rightarrow> Inl AssertFail
    | Some filename \<Rightarrow> rbind (content_writeToFile c False) (\<lambda>out. Inr (map_option (Pair filename) out)))"

section \<open>Checking a blob out\<close>

text \<open>
  A blob written to a file keeps its ID: where objects are stored under the hash of their bytes, the content
  made from the file has the hash that the blob was asked for by, and writing it again, from a buffer with
  its bytes, gives the same file.
\<close>

lemma checked_out_blob:
  assumes "blobLookup oid = Some bs" "bs \<noteq> []" "git_odb_hash bs = oid" "can_append w filename"
  shows "\<exists>c w'. tc_writeBufferToFile w (Some (new_content_git (Some blobLookup) oid)) filename = Inr (Some c, w')
    \<and> fct_buffer c = Some bs \<and> w_files w' filename = Some bs
    \<and> (\<exists>c'. tc_gitBlobHash git_odb_hash w' (Some (new_content_fs filename)) = Inr (Some oid, c'))
    \<and> (\<exists>c''. tc_writeBufferToFile w' (Some (new_content_buffer bs)) filename = Inr (c'', w'))"
  using assms
  by (auto simp: tc_writeBufferToFile_def writeBufferToFile_def loadToBuffer_def new_content_git_def git_loadToBuffer_def
      tc_gitBlobHash_def gitBlobHash_def new_content_fs_def gitBlobHashImpl_def new_content_buffer_def
      can_append_def dir_exists_def fun_upd_idem)

text \<open>A content made from a file name cannot be written that way: nothing has loaded its buffer.\<close>

lemma file_not_buffered: "tc_writeBufferToFile w (Some (new_content_fs name)) filename = Inl AssertFail"
  by (simp add: tc_writeBufferToFile_def writeBufferToFile_def loadToBuffer_def new_content_fs_def)

section \<open>\<open>tests/dump-ids\<close>\<close>

text \<open>The lines that the tool prints.\<close>

definition dump_ids_main :: "(string \<Rightarrow> content) \<Rightarrow> string list \<Rightarrow> string list res" where
  "dump_ids_main new_content_of argv = (case argv of
      [_, a, ia, b, ib] \<Rightarrow> rbind (list_equal_messages_ids_2 (new_content_of a) (atoi ia) (new_content_of b) (atoi ib))
        (\<lambda>l. Inr (map (\<lambda>p. int_dec (fst p) @ '' '' @ int_dec (snd p)) l))
    | _ \<Rightarrow> Inl AssertFail)"

section \<open>\<open>examples/edit-po-translation\<close>\<close>

text \<open>The example puts the first translation of a file between two pairs of \<open>x\<close> and writes the file.\<close>

definition edit_po_translation_main :: "content \<Rightarrow> (string \<times> catalog) option res" where
  "edit_po_translation_main c =
     rbind (readMessages c) (\<lambda>messages. rbind (nth_res messages 0) (\<lambda>g. rbind (group_message g 0) (\<lambda>trans.
     rbind (msgstr trans 0) (\<lambda>s. rbind (os_to_string s) (\<lambda>str.
     rbind (editMsgstr trans 0 (os_of_string (''xx'' @ str @ ''xx''))) (\<lambda>_. tc_writeToFile c))))))"

text \<open>It never changes the file.\<close>

lemma example_changes_nothing:
  assumes "c_read c = Inr (Some cat)" "edit_po_translation_main c = Inr out"
  shows "out = None"
  using assms writeToFile_never_changes[OF assms(1), of False]
  by (auto simp: edit_po_translation_main_def tc_writeToFile_def res_simps split: option.splits)

lemma example_changes_nothing_witness:
  "edit_po_translation_main (ex_content ''Abrir'' ''Sair'') = Inr None"
proof -
  let ?c = "ex_content ''Abrir'' ''Sair''"
  obtain m where g: "m_messages (group_read (ex_entry ''Open'' ''Abrir'') 0 ''a.po'') = [m]" "mt_view m = [Some ''Abrir'']"
    using group_read_simps(2)[of "ex_entry ''Open'' ''Abrir''" 0 "''a.po''"] by (auto simp: ex_entry_def Let_def)
  have "m_msgstr m \<noteq> []" using g(2) by (auto simp: mt_view_def)
  then obtain s ss where s: "m_msgstr m = s # ss" "os_view s = Some ''Abrir''" using g(2) by (cases "m_msgstr m") (auto simp: mt_view_def)
  then have "\<exists>m'. editMsgstr m 0 (os_of_string (''xx'' @ ''Abrir'' @ ''xx'')) = Inr m'"
    using editMsgstr_Inr[of 0 m] by (auto simp: numPlurals_def editMsgstr_def os_view_def split: if_splits)
  moreover have "tc_writeToFile ?c = Inr None"
    using writeToFile_never_changes_witness by (simp add: tc_writeToFile_def ex_content_def new_content_def)
  ultimately have "\<exists>out. edit_po_translation_main ?c = Inr out"
    using s g(1) by (auto simp: edit_po_translation_main_def ex_content_groups nth_res_def group_message_def
        group_size_def msgstr_def os_to_string_view)
  then show ?thesis using example_changes_nothing[OF ex_content_read] by blast
qed

end
