(* ===== verification/UnitTests.thy ===== *)
theory UnitTests
  imports IddiffJson ContentFacts
begin

text \<open>
  The unit tests of the repository (\<open>autotests\<close>) on the model: the bodies of the tests, and that their
  expectations hold. The documents are those of \<open>autotests/data\<close>; of the translation files the tests have the
  fields that the compared functions look at.
\<close>

definition utf8 :: "nat list \<Rightarrow> string" where
  "utf8 = map char_of"

definition ru_object1 :: string where
  "ru_object1 = utf8 [0x25, 0x31, 0x20, 0xD0, 0xBE, 0xD0, 0xB1, 0xD1, 0x8A, 0xD0, 0xB5, 0xD0, 0xBA, 0xD1,
  0x82]"

definition ru_object2 :: string where
  "ru_object2 = utf8 [0x25, 0x31, 0x20, 0xD0, 0xBE, 0xD0, 0xB1, 0xD1, 0x8A, 0xD0, 0xB5, 0xD0, 0xBA, 0xD1, 0x82,
  0xD0, 0xB0]"

definition ru_object3 :: string where
  "ru_object3 = utf8 [0x25, 0x31, 0x20, 0xD0, 0xBE, 0xD0, 0xB1, 0xD1, 0x8A, 0xD0, 0xB5, 0xD0, 0xBA, 0xD1, 0x82,
  0xD0, 0xBE, 0xD0, 0xB2]"

definition ru_clear :: string where
  "ru_clear = utf8 [0xD0, 0x9E, 0xD1, 0x87, 0xD0, 0xB8, 0xD1, 0x81, 0xD1, 0x82, 0xD0, 0xB8, 0xD1, 0x82, 0xD1,
  0x8C, 0x20, 0xD1, 0x81, 0xD0, 0xBF, 0xD0, 0xB8, 0xD1, 0x81, 0xD0, 0xBE, 0xD0, 0xBA, 0x20, 0xD0, 0xB7, 0xD0,
  0xB0, 0xD0, 0xBA, 0xD1, 0x80, 0xD1, 0x8B, 0xD1, 0x82, 0xD1, 0x8B, 0xD1, 0x85, 0x20, 0xD0, 0xB2, 0xD0, 0xBA,
  0xD0, 0xBB, 0xD0, 0xB0, 0xD0, 0xB4, 0xD0, 0xBE, 0xD0, 0xBA]"

definition ru_recent :: string where
  "ru_recent = utf8 [0xD0, 0x9D, 0xD0, 0xB5, 0xD0, 0xB4, 0xD0, 0xB0, 0xD0, 0xB2, 0xD0, 0xBD, 0xD0, 0xBE, 0x20,
  0xD0, 0xB7, 0xD0, 0xB0, 0xD0, 0xBA, 0xD1, 0x80, 0xD1, 0x8B, 0xD1, 0x82, 0xD1, 0x8B, 0xD0, 0xB5, 0x20, 0xD0,
  0xB2, 0xD0, 0xBA, 0xD0, 0xBB, 0xD0, 0xB0, 0xD0, 0xB4, 0xD0, 0xBA, 0xD0, 0xB8]"

definition ru_change :: string where
  "ru_change = utf8 [0xD0, 0x98, 0xD0, 0xB7, 0xD0, 0xBC, 0xD0, 0xB5, 0xD0, 0xBD, 0xD0, 0xB8, 0xD1, 0x82, 0xD1,
  0x8C]"

definition ru_edit :: string where
  "ru_edit = utf8 [0xD0, 0x9F, 0xD1, 0x80, 0xD0, 0xB0, 0xD0, 0xB2, 0xD0, 0xBA, 0xD0, 0xB0]"

definition trueg :: string where
  "trueg = ''Sebastian Tr'' @ utf8 [0xC3, 0xBC] @ ''g''"

section \<open>\<open>test_iddiff.cpp\<close>\<close>

text \<open>
  The date of a new iddiff holds what its memory held. \<open>jsonEqual\<close> compares parsed documents; the tests
  below give the very document.
\<close>

definition test_LoadSave :: "file_date_time \<Rightarrow> json \<Rightarrow> json res" where
  "test_LoadSave t0 input = rbind (load_json (new_iddiff t0) input) generate_json"

definition new_message :: "bool \<Rightarrow> string list \<Rightarrow> translation" where
  "new_message fuzzy forms = foldl (\<lambda>t s. addMsgstr t (os_of_string s)) (setFuzzy mtb_empty fuzzy) forms"

definition test_Build1 :: "file_date_time \<Rightarrow> json res" where
  "test_Build1 t0 =
     rbind (insertAddedNew (new_iddiff t0) 39147300 (new_message False
         [ru_object1, ru_object2, ru_object3, ru_object1])) (\<lambda>d1.
     rbind (insertAddedNew d1 39147465 (new_message False
         [ru_clear])) (\<lambda>d2.
     rbind (insertRemovedNew d2 39147465 (new_message True
         [ru_recent])) (\<lambda>d3.
     rbind (insertReviewNew d3 39147465 (new_message False [''bla bla''])) generate_json)))"

definition test_MergeHeaders :: "file_date_time \<Rightarrow> json \<Rightarrow> json \<Rightarrow> json res" where
  "test_MergeHeaders t0 a b =
     rbind (load_json (new_iddiff t0) a) (\<lambda>diff_a.
     rbind (load_json (new_iddiff t0) b) (\<lambda>diff_b. generate_json (mergeHeaders diff_a diff_b)))"

definition doc_1 :: json where
  "doc_1 =
     JObj [(''subject'', JStr []), (''authors'', JArr []), (''dateCreated'', JStr []), (''messages'',
     JArr [JObj [(''ref'', JObj [(''intid'', JInt 39147300)]), (''accept'', JArr [JObj [(''fuzzy'',
     JBool False), (''msgstr'', JArr [JStr ru_object1, JStr ru_object2, JStr ru_object3, JStr ru_object1])]])],
     JObj [(''ref'', JObj [(''intid'', JInt 39147465)]), (''accept'', JArr [JObj [(''fuzzy'', JBool False),
     (''msgstr'', JArr [JStr ru_clear])]]), (''reject'', JArr [JObj [(''fuzzy'', JBool True), (''msgstr'',
     JArr [JStr ru_recent])]]), (''review'', JArr [JObj [(''fuzzy'', JBool False), (''msgstr'',
     JArr [JStr ''bla bla''])]])]])]"

definition doc_merge_a :: json where
  "doc_merge_a =
     JObj [(''subject'', JStr []), (''authors'', JArr [JStr ''Alexander Potashev <aspotashev@gmail.com>'',
     JStr ''John Doe <john.doe@example.com>'']), (''dateCreated'', JStr []), (''messages'',
     JArr [JObj [(''ref'', JObj [(''intid'', JInt 45657469)]), (''accept'', JArr [JObj [(''fuzzy'',
     JBool False), (''msgstr'', JArr [JStr ru_change])]]), (''reject'', JArr [JObj [(''fuzzy'', JBool False),
     (''msgstr'', JArr [JStr ru_edit])]])]])]"

definition doc_merge_b :: json where
  "doc_merge_b =
     JObj [(''subject'', JStr []), (''authors'', JArr [JStr ''Ivan Ivanov <ivan.ivanov@example.com>'',
     JStr ''Alexander Potashev <aspotashev@gmail.com>'']), (''dateCreated'', JStr []), (''messages'',
     JArr [JObj [(''ref'', JObj [(''intid'', JInt 45657469)]), (''accept'', JArr [JObj [(''fuzzy'',
     JBool False), (''msgstr'', JArr [JStr ru_change])]]), (''reject'', JArr [JObj [(''fuzzy'', JBool False),
     (''msgstr'', JArr [JStr ru_edit])]])]])]"

definition doc_merged :: json where
  "doc_merged =
     JObj [(''subject'', JStr []), (''authors'', JArr [JStr ''Alexander Potashev <aspotashev@gmail.com>'',
     JStr ''Ivan Ivanov <ivan.ivanov@example.com>'', JStr ''John Doe <john.doe@example.com>'']),
     (''dateCreated'', JStr []), (''messages'', JArr [JObj [(''ref'', JObj [(''intid'', JInt 45657469)]),
     (''accept'', JArr [JObj [(''fuzzy'', JBool False), (''msgstr'', JArr [JStr ru_change])]]), (''reject'',
     JArr [JObj [(''fuzzy'', JBool False), (''msgstr'', JArr [JStr ru_edit])]])]])]"

section \<open>\<open>test_matchpomessages.cpp\<close>\<close>

definition test_Match :: "content \<Rightarrow> content \<Rightarrow> (int \<times> int) list res" where
  "test_Match file_a file_b = list_equal_messages_ids_2 file_a 1000 file_b 101000"

definition test_entry :: "string option \<Rightarrow> string \<Rightarrow> string option \<Rightarrow> po_message" where
  "test_entry ctxt msgid plural = \<lparr>po_msgctxt = ctxt, po_msgid = msgid, po_msgid_plural = plural, po_msgstr = [],
     po_plural_forms = [], po_fuzzy = False, po_obsolete = False, po_comments = [], po_extracted_comments = None,
     po_filepos = [], po_formats = [], po_range = None\<rparr>"

definition test_content :: "string \<Rightarrow> po_message list \<Rightarrow> content" where
  "test_content name pms = new_content (Inr (Some \<lparr>po_header_field = \<lambda>_. None,
     po_entries = test_entry None [] None # pms\<rparr>)) (Some name)"

definition dumpids_a :: content where
  "dumpids_a = test_content ''dumpids-a.po''
     [test_entry None ''Nepomuk Controller'' None,
      test_entry None ''A small tool to monitor and control Nepomuk file indexing'' None,
      test_entry None (''(c) 2008-2011, '' @ trueg) None,
      test_entry None trueg None,
      test_entry None ''Maintainer'' None,
      test_entry None ''Nepomuk File Indexing'' None,
      test_entry None ''Suspend File Indexing'' None,
      test_entry None ''Suspend or resume the file indexer manually'' None,
      test_entry None ''Configure File Indexing'' None,
      test_entry None ''Nepomuk File Indexing Service not running'' None,
      test_entry None ''Search Service'' None,
      test_entry (Some ''NAME OF TRANSLATORS'') ''Your names'' None,
      test_entry (Some ''EMAIL OF TRANSLATORS'') ''Your emails'' None]"

definition dumpids_b :: content where
  "dumpids_b = test_content ''dumpids-b.po''
     [test_entry None ''Maintainer'' (Some ''99 maintainers on the wall''),
      test_entry (Some ''NAME OF TRANSLATORS + context corruption :)'') ''Your names'' None,
      test_entry None ''Nepomuk File Indexing'' None,
      test_entry None ''Suspend File Indexing'' None,
      test_entry None ''Nepomuk Controllerxx'' None,
      test_entry None ''A small tool to monitor and control Nepomuk file indexing'' None,
      test_entry None (''(c) 2008-2011, '' @ trueg) None,
      test_entry None ''Suspend or resume the file indexer manually'' None,
      test_entry None ''Configure File Indexing'' None,
      test_entry None ''Nepomuk File Indexing Service not running'' None,
      test_entry None ''Search Service'' None,
      test_entry (Some ''EMAIL OF TRANSLATORS'') ''Your emails'' None,
      test_entry None trueg (Some ''There is only one of me // Linus Torvalds'')]"

lemma test_Match_passes:
  "test_Match dumpids_a dumpids_b = Inr [(1002, 101006), (1001, 101005), (1008, 101008), (1005, 101002), (1009, 101009),
     (1010, 101010), (1006, 101003), (1007, 101007), (1012, 101011)]"
  by code_simp

lemma clear_not_recent: "ru_clear \<noteq> ru_recent"
  by (simp add: ru_clear_def ru_recent_def utf8_def)

lemmas iddiff_run = load_json_def load_id_def load_section_def loadMessageList_def load_message_def new_iddiff_def
  fromString_def dateString_def fdt_isNull_def fdt_default_def
  insertAddedNew_def insertRemovedNew_def insertReviewNew_def insertAdded_def insertRemoved_def insertReview_def
  alloc_def findRemoved_def findAdded_def findRemovedAll_def findAddedAll_def find_change_def findIddiffMessageList_def
  put_change_def change_of_def new_change_def emptyRemoved_def emptyAdded_def emptyReview_def im_isTranslated_def
  setFuzzy_def addMsgstr_def mtb_empty_def mt_view_def os_view_def os_of_cstr_def os_of_string_def
  generate_json_def getRemovedVector_def getAddedVector_def getReviewVector_def id_json_def list_member_def of_id_def
  message_list_json_def mtb_writeJson_cases mtb_isUntranslated_iff isFuzzy_def

lemma test_LoadSave_passes: "test_LoadSave (fdt_default a b) doc_1 = Inr doc_1"
  by (simp add: test_LoadSave_def doc_1_def iddiff_run clear_not_recent[symmetric] clear_not_recent)

lemma test_Build1_passes: "test_Build1 (fdt_default a b) = Inr doc_1"
  by (simp add: test_Build1_def new_message_def doc_1_def iddiff_run clear_not_recent[symmetric] clear_not_recent)

lemma change_not_edit: "ru_change \<noteq> ru_edit"
  by (simp add: ru_change_def ru_edit_def utf8_def)

lemma test_MergeHeaders_passes:
  "test_MergeHeaders (fdt_default a b) doc_merge_a doc_merge_b = Inr doc_merged"
  by (simp add: test_MergeHeaders_def doc_merge_a_def doc_merge_b_def doc_merged_def iddiff_run change_not_edit
    change_not_edit[symmetric] mergeHeaders_def sort_uniq_def fdt_greater_def)

end
