(* ===== verification/Sha1Test.thy ===== *)
theory Sha1Test
  imports Sha1Facts
begin

text \<open>
  \<open>autotests/test_sha1buffer.cpp\<close>: the hash of the 14 bytes of \<open>"Hello, world!"\<close> with its NUL, computed with the rounds
  of the routine in five parts.
\<close>

definition test_Sha1Buffer :: "(nat \<Rightarrow> byte) \<Rightarrow> git_oid" where
  "test_Sha1Buffer w = sha1_buffer w (map (\<lambda>c. of_nat (of_char c)) (''Hello, world!'' @ [CHR 0x00]))"

definition hello_block :: "byte list" where
  "hello_block = [0x48, 0x65, 0x6C, 0x6C, 0x6F, 0x2C, 0x20, 0x77, 0x6F, 0x72, 0x6C, 0x64, 0x21, 0x0, 0x80, 0x0, 0x0, 0x0, 0x0, 0x0, 0x0, 0x0, 0x0, 0x0, 0x0, 0x0, 0x0, 0x0, 0x0, 0x0, 0x0, 0x0, 0x0, 0x0, 0x0, 0x0, 0x0, 0x0, 0x0, 0x0, 0x0, 0x0, 0x0, 0x0, 0x0, 0x0, 0x0, 0x0, 0x0, 0x0, 0x0, 0x0, 0x0, 0x0, 0x0, 0x0, 0x0, 0x0, 0x0, 0x0, 0x0, 0x0, 0x0, 0x70]"

lemma rotl_shifts:
  fixes x :: u32
  assumes "0 < n" "n < 32"
  shows "word_rotl n x = push_bit n x OR drop_bit (32 - n) x"
proof (rule bit_word_eqI)
  fix i assume "i < LENGTH(32)"
  then have i: "i < 32" by simp
  show "bit (word_rotl n x) i = bit (push_bit n x OR drop_bit (32 - n) x) i"
  proof (cases "i < n")
    case True
    then have "(i + (32 - n)) mod 32 = 32 - n + i" using assms i by simp
    then show ?thesis using True assms i by (simp add: bit_word_rotl_iff bit_simps)
  next
    case False
    then have "i + (32 - n) = 32 + (i - n)" using assms by simp
    then have "(i + (32 - n)) mod 32 = i - n" using i by (simp only: mod_add_self1 mod_less)
    moreover have "\<not> bit x (32 - n + i)" using False assms bit_imp_le_length[of x "32 - n + i"] by auto
    ultimately show ?thesis using False assms i by (simp add: bit_word_rotl_iff bit_simps)
  qed
qed

lemma rotations:
  "SHA_ROL x (Suc 0) = push_bit 1 x OR drop_bit 31 x" "SHA_ROL x 5 = push_bit 5 x OR drop_bit 27 x"
  "SHA_ROR x 2 = push_bit 30 x OR drop_bit 2 x"
  unfolding ror_2 SHA_ROL_def by (subst rotl_shifts; simp)+

lemmas round_run = SHA_ROUND_def SHA_MIX_def arr_def rotations upt_conv_Cons

lemma hello_src:
  "SHA_SRC hello_block 0 = 0x48656C6C" "SHA_SRC hello_block (Suc 0) = 0x6F2C2077"
  "SHA_SRC hello_block 2 = 0x6F726C64" "SHA_SRC hello_block 3 = 0x21008000"
  "SHA_SRC hello_block 4 = 0x0" "SHA_SRC hello_block 5 = 0x0"
  "SHA_SRC hello_block 6 = 0x0" "SHA_SRC hello_block 7 = 0x0"
  "SHA_SRC hello_block 8 = 0x0" "SHA_SRC hello_block 9 = 0x0"
  "SHA_SRC hello_block 10 = 0x0" "SHA_SRC hello_block 11 = 0x0"
  "SHA_SRC hello_block 12 = 0x0" "SHA_SRC hello_block 13 = 0x0"
  "SHA_SRC hello_block 14 = 0x0" "SHA_SRC hello_block 15 = 0x70"
  by (simp_all add: hello_block_def SHA_SRC_def of_bytes_def)

lemma first_rounds: "[0..<16] = [0, 1, 2, 3, 4, 5, 6, 7, 8, 9, 10, 11, 12, 13, 14, 15 :: nat]"
  by (simp add: upt_conv_Cons)

lemma hello_rounds_0:
  "fold (T_0_15 hello_block) [0..<16] ((0x67452301, 0xEFCDAB89, 0x98BADCFE, 0x10325476, 0xC3D2E1F0),
     [0x0, 0x0, 0x0, 0x0, 0x0, 0x0, 0x0, 0x0, 0x0, 0x0, 0x0, 0x0, 0x0, 0x0, 0x0, 0x0])
   = ((0xB4DA8549, 0xFB8EE147, 0x9E6E394, 0x55E7BB0D, 0x3A642A0C),
     [0x48656C6C, 0x6F2C2077, 0x6F726C64, 0x21008000, 0x0, 0x0, 0x0, 0x0, 0x0, 0x0, 0x0, 0x0, 0x0, 0x0, 0x0, 0x70])"
  unfolding first_rounds by (simp add: T_0_15_def hello_src round_run)

lemma hello_rounds_16:
  "fold T_16_19 [16..<20] ((0xB4DA8549, 0xFB8EE147, 0x9E6E394, 0x55E7BB0D, 0x3A642A0C),
     [0x48656C6C, 0x6F2C2077, 0x6F726C64, 0x21008000, 0x0, 0x0, 0x0, 0x0, 0x0, 0x0, 0x0, 0x0, 0x0, 0x0, 0x0, 0x70])
   = ((0xACF6628B, 0x4C5FD9F9, 0xA514D5D6, 0xE31351FD, 0x6D36A152),
     [0x4E2E0010, 0x9C5940EE, 0xDEE4D828, 0xDE5D0020, 0x0, 0x0, 0x0, 0x0, 0x0, 0x0, 0x0, 0x0, 0x0, 0x0, 0x0, 0x70])"
  by (simp add: T_16_19_def round_run)

lemma hello_rounds_20:
  "fold T_20_39 [20..<40] ((0xACF6628B, 0x4C5FD9F9, 0xA514D5D6, 0xE31351FD, 0x6D36A152),
     [0x4E2E0010, 0x9C5940EE, 0xDEE4D828, 0xDE5D0020, 0x0, 0x0, 0x0, 0x0, 0x0, 0x0, 0x0, 0x0, 0x0, 0x0, 0x0, 0x70])
   = ((0x7B354362, 0xE4F61D0C, 0x145A56D5, 0xFAB95D4F, 0x597A9C),
     [0x65236A65, 0x146877E, 0xDFAD529, 0xEB2636A4, 0xEF4C0FC8, 0x984D756, 0x6665A893, 0xC08E1091, 0xE7CF6083, 0x41C6815E, 0x5F03B6E5, 0x7324C146, 0xF2E80106, 0xC5940D89, 0x361822F, 0x3FA88584])"
  by (simp add: T_20_39_def round_run)

lemma hello_rounds_40:
  "fold T_40_59 [40..<60] ((0x7B354362, 0xE4F61D0C, 0x145A56D5, 0xFAB95D4F, 0x597A9C),
     [0x65236A65, 0x146877E, 0xDFAD529, 0xEB2636A4, 0xEF4C0FC8, 0x984D756, 0x6665A893, 0xC08E1091, 0xE7CF6083, 0x41C6815E, 0x5F03B6E5, 0x7324C146, 0xF2E80106, 0xC5940D89, 0x361822F, 0x3FA88584])
   = ((0x5CDDA5BA, 0x521756A6, 0x40C9F972, 0x2714F5FF, 0x5FF8D486),
     [0x4A043C7B, 0x2958B903, 0x14AAAD5C, 0x844D0810, 0x95FF709F, 0x715A3A83, 0x3F608933, 0xAE5DAE3B, 0xA56C69CA, 0xAE756CB6, 0x228E838C, 0x5D589F03, 0x6A8EA617, 0x650D77DA, 0xD54E32B1, 0x29DD68F9])"
  by (simp add: T_40_59_def round_run)

lemma hello_rounds_60:
  "fold T_60_79 [60..<80] ((0x5CDDA5BA, 0x521756A6, 0x40C9F972, 0x2714F5FF, 0x5FF8D486),
     [0x4A043C7B, 0x2958B903, 0x14AAAD5C, 0x844D0810, 0x95FF709F, 0x715A3A83, 0x3F608933, 0xAE5DAE3B, 0xA56C69CA, 0xAE756CB6, 0x228E838C, 0x5D589F03, 0x6A8EA617, 0x650D77DA, 0xD54E32B1, 0x29DD68F9])
   = ((0xC619A38A, 0x1D3870EC, 0x42686F31, 0xC0D989ED, 0x8EBCBEB1),
     [0x8B97696B, 0xF309D8A1, 0xDE8307E5, 0x47B189F6, 0xA2066024, 0x7F1BBE0A, 0x4EB2B1F4, 0xDD68FE29, 0xE6DC7A4E, 0x9D2D35C0, 0x53E0D6BE, 0x847841C7, 0x9AB4EA1D, 0xBCD1F2A2, 0x7773515B, 0xF09E2251])"
  by (simp add: T_60_79_def round_run)

lemma hello_rounds:
  "fst (sha_rounds hello_block (replicate 16 0) (0x67452301, 0xEFCDAB89, 0x98BADCFE, 0x10325476, 0xC3D2E1F0)) = (0xC619A38A, 0x1D3870EC, 0x42686F31, 0xC0D989ED, 0x8EBCBEB1)"
proof -
  have "replicate 16 (0 :: u32) = [0x0, 0x0, 0x0, 0x0, 0x0, 0x0, 0x0, 0x0, 0x0, 0x0, 0x0, 0x0, 0x0, 0x0, 0x0, 0x0]"
    by (simp add: numeral_eq_Suc)
  then show ?thesis
    unfolding sha_rounds_def by (simp only: hello_rounds_0 hello_rounds_16 hello_rounds_20 hello_rounds_40 hello_rounds_60 fst_conv)
qed

lemma test_Sha1Buffer_passes:
  "test_Sha1Buffer w = [0x2D, 0x5E, 0xC6, 0x8B, 0x0D, 0x06, 0x1C, 0x75, 0xDB, 0x23, 0x4C, 0x2F, 0xD1, 0x0B, 0xDE, 0x63,
     0x52, 0x8F, 0xA0, 0xA1]"
proof -
  let ?m = "map (\<lambda>c. of_nat (of_char c)) (''Hello, world!'' @ [CHR 0x00]) :: byte list"
  let ?H = "(0x67452301, 0xEFCDAB89, 0x98BADCFE, 0x10325476, 0xC3D2E1F0) :: sha_chain"
  have zeros: "replicate 41 (0 :: byte) =
      [0x0, 0x0, 0x0, 0x0, 0x0, 0x0, 0x0, 0x0, 0x0, 0x0, 0x0, 0x0, 0x0, 0x0, 0x0, 0x0,
       0x0, 0x0, 0x0, 0x0, 0x0, 0x0, 0x0, 0x0, 0x0, 0x0, 0x0, 0x0, 0x0, 0x0, 0x0, 0x0,
       0x0, 0x0, 0x0, 0x0, 0x0, 0x0, 0x0, 0x0, 0x0]"
    by (simp add: numeral_eq_Suc)
  have m: "?m @ fips_padding ?m = hello_block @ []"
    by (simp add: fips_padding_def hello_block_def be32_def zeros)
  have "sha_H (blk_SHA1_Block (blk_SHA1_Init w\<lparr>sha_H := ?H\<rparr>) hello_block) = fips_block ?H hello_block"
    by (simp add: block_eq)
  then have block: "fips_block ?H hello_block = chain_add ?H (fst (sha_rounds hello_block (replicate 16 0) ?H))"
    by (simp add: blk_SHA1_Block_def)
  have "fips_blocks ?H (hello_block @ []) = fips_block ?H hello_block"
    by (subst fips_blocks_full) (simp_all add: hello_block_def fips_blocks_small)
  then have "fips_sha1 ?m = (case chain_add ?H (0xC619A38A, 0x1D3870EC, 0x42686F31, 0xC0D989ED, 0x8EBCBEB1) of
      (h0, h1, h2, h3, h4) \<Rightarrow> be32 h0 @ be32 h1 @ be32 h2 @ be32 h3 @ be32 h4)"
    by (simp only: fips_sha1_def m block hello_rounds)
  then show ?thesis
    by (simp add: test_Sha1Buffer_def sha1_buffer_def oid_of_raw_def oid_size_def sha1_eq chain_add_def be32_def)
qed

end
