(* ===== verification/Spec2Isabelle.thy ===== *)
theory Spec2Isabelle
  imports StupPrelude
    OptString Json Messages PoMessages FileDateTime IddiffChange Iddiff IddiffSpec IddiffMerge IddiffUnion
    MinIds IddiffMinimize Bytes IdMap StateExn GitOid TcpServer Server Client ClientServer Protocol
    Content ContentFacts IddiffDiff IddiffApply IddiffDiffFacts IddiffComments IddiffJson IddiffRoundtrip IddiffStore Sha1 Sha1Facts
    Commits GitTree GitTreeFacts Repository RepositoryFacts RepositoryHistory RepositoryWitness
    CStrings ProcessOrphans Detector DetectorFacts DetectorWitness Clusters FirstIds OidCache FileContents Config GitLoad DateText TrDb TrDbFacts
    DirWalk IddiffTools Coverage ReviewMail Lokalize Tools PoFiles ServerStart Conflicts Globalize
    StupidsDb RubyApi Collapse MappedFiles Pipeline ContentFiles UnitTests Sha1Test
begin

text \<open>
  stupid-ids: a verification development.

  \<^bold>\<open>The program.\<close> stupid-ids gives numbers to the messages of translation templates, so that
  translations can follow a message through files, branches and projects. A file is identified by
  its \<open>tp_hash\<close>, the SHA-1 of a JSON dump of its template part; its messages have consecutive IDs
  from a first ID; IDs that stand for the same text are collapsed to their minimum ID. A server
  answers questions about the IDs over a TCP socket. A difference of two translated files is an
  iddiff: for every ID the translations to remove, to add, and a review comment. The detector reads
  the Git history of templates for pairs of files that follow each other, to collapse their IDs. All
  paths below are under \<open>src/\<close>; \<open>gtpo\<close> stands for \<open>gettextpo-helper/gtpo\<close>.

  \<^bold>\<open>Conventions.\<close> A call that can fail gives \<open>error + 'a\<close> (type \<open>res\<close> of \<open>StupPrelude\<close>): a C++
  exception is \<open>Throw\<close> with its kind and text, a failed assertion \<open>AssertFail\<close>, and what C++ leaves
  undefined is an error of its own (\<open>NullDeref\<close>, \<open>OutOfBounds\<close>), so that a theorem that a call
  returns \<open>Inr\<close> says that nothing of this happens. \<open>rbind\<close>, \<open>rfold\<close> and \<open>rmap\<close> are sequences and
  loops of such calls. Where state survives an exception (sockets) the computations are those of
  \<open>StateExn\<close>. A class is a record, a class derived from it a record that extends it; a pointer that
  may be null is an option; objects that are shared are in a heap (\<open>im_ptr\<close> in \<open>IddiffChange\<close>,
  because the sections of an iddiff hold and compare pointers). \<open>std::map\<close> is an association list
  sorted by key (\<open>omap\<close>), \<open>std::set\<close> a sorted list. A C++ \<open>int\<close> is an \<open>int\<close> where nothing in the
  code lets it overflow, and a word where it does (network and file formats, \<open>size_t\<close>
  subtractions, SHA-1). Assertions are taken as enabled.

  \<^bold>\<open>Theories.\<close>
  \<^item> \<open>StupPrelude\<close>: results, loops, maps and sets; the locale \<open>std_map\<close> of what clients rely on in
    \<open>std::map\<close>, interpreted by the sorted lists. \<open>StateExn\<close>: computations that change a state and may
    fail. \<open>Bytes\<close>: integers as bytes, \<open>htonl\<close>. \<open>CStrings\<close>: \<open>fgets\<close>, \<open>atoi\<close>, strings up to NUL. \<open>Json\<close>:
    the documents of rapidjson.
  \<^item> \<open>OptString\<close> (\<open>gtpo/optstring\<close>), \<open>Messages\<close> and \<open>PoMessages\<close> (\<open>gtpo/messagetranslationbase\<close>, \<open>message\<close>,
    \<open>iddiffmessage\<close>, \<open>messageoriginaltext\<close>, \<open>messagegroup\<close>, and the queries of \<open>gettextpo-helper.cpp\<close> on
    a message of libgettext-po), \<open>FileDateTime\<close> (\<open>gtpo/filedatetime\<close>) with
    \<open>DateText\<close>: the text of a date is read back.
  \<^item> \<open>IddiffChange\<close> and \<open>Iddiff\<close> (\<open>gtpo/iddiffchange\<close>, \<open>gtpo/iddiff\<close>): the store of changes, its
    insertions, the review operations, \<open>merge\<close>, \<open>minimizeIds\<close>. \<open>IddiffSpec\<close> states what an iddiff means:
    a patch, which gives for every ID the set of removed translations, the set of added ones and the
    review; \<open>refines\<close> says that an operation implements one on patches. \<open>IddiffMerge\<close> and \<open>IddiffUnion\<close>
    prove it for the operations and for \<open>merge\<close>, \<open>IddiffStore\<close> that every sequence of operations keeps
    the invariant of the class.
  \<^item> \<open>IddiffDiff\<close>, \<open>IddiffApply\<close> (iddiff from the difference of two files; applying it to messages;
    \<open>gtpo/translation-collector\<close>), \<open>IddiffDiffFacts\<close> and \<open>IddiffComments\<close> with their properties;
    \<open>IddiffJson\<close> and \<open>IddiffRoundtrip\<close>: the file format and that it is read back.
  \<^item> \<open>Content\<close>, \<open>ContentFacts\<close> (\<open>gtpo/translationcontent\<close>, \<open>gettextpo-helper.cpp\<close>): reading the messages of
    a file, the document of the \<open>tp_hash\<close>, the pairing of equal messages, writing. \<open>PoFiles\<close>
    (\<open>gettextpo-helper.cpp\<close>, \<open>gettextparserexception.cpp\<close>): the wrappers of libgettext-po and their
    exceptions; \<open>po_buffer_read\<close> feeds the library through a pipe, so its state is the process with its
    descriptors and children. \<open>FileContents\<close> (\<open>gtpo/filecontent*\<close>): where the bytes of a file come from, and
    \<open>ContentFiles\<close> what a \<open>TranslationContent\<close> hands on to it, with two small programs (\<open>tests/dump-ids\<close>,
    \<open>examples\<close>). \<open>Sha1\<close>, \<open>Sha1Facts\<close> (\<open>gtpo/block-sha1\<close>): the hash, against FIPS 180-4. \<open>GitOid\<close> (\<open>gtpo/gitoid\<close>).
  \<^item> \<open>IdMap\<close> (\<open>gtpo/mappedfile\<close>): the file of collapsed IDs as its bytes; \<open>row\<close> and \<open>root\<close> are the
    abstract view of it, a forest. \<open>MinIds\<close> is the interface (locale \<open>min_id_map\<close>) of a minimum-ID map,
    which \<open>IdMap\<close> provides and \<open>IddiffMinimize\<close> (\<open>substituteMsgId\<close>, \<open>minimizeIds\<close>) relies on. \<open>MappedFiles\<close>: the
    same operations over the file system, where the mapping is shared with the file and \<open>ptr\<close> makes the
    file grow; \<open>implements\<close> says that a step on the file is the step of \<open>IdMap\<close> on \<open>mm_view\<close>. \<open>Collapse\<close>:
    collapsing the IDs of the equal messages of two files. \<open>Pipeline\<close>: from the scripts that write the
    database to the server that opens it (\<open>stupids-server/server.cpp\<close>) and its clients.
  \<^item> \<open>FirstIds\<close> (\<open>gtpo/filedbfirstids\<close>) and \<open>OidCache\<close> (\<open>gtpo/oidmapcache\<close>): the table of first IDs, and
    the map of object IDs to \<open>tp_hash\<close> kept in an appended file.
  \<^item> \<open>TcpServer\<close>, \<open>Server\<close> (\<open>stupids-server/tcpcommandserver\<close>, \<open>server\<close>): a connection is the list of
    what \<open>recv\<close> returns, the sent bytes and the database; \<open>commandHandler\<close> is one turn of the loop and
    \<open>session_step\<close> the step relation. \<open>ServerStart\<close>: the process that accepts connections, its forked
    children and their interleaving (\<open>server_step\<close>). \<open>StupidsDb\<close> (\<open>stupids-server/stupidsdatabase\<close>): the
    first IDs that the server asks a web service for. \<open>Client\<close> (\<open>gtpo/stupids-client\<close>). \<open>ClientServer\<close> and \<open>Protocol\<close>
    compose them: what the server answers to the bytes the client sends, and what the client makes of
    it.
  \<^item> \<open>Commits\<close>, \<open>GitTree\<close>, \<open>Repository\<close> (\<open>gtpo/commitfilechange\<close>, \<open>commit\<close>, \<open>repository\<close>): a Git commit is a
    value with its tree and parents; \<open>diffTree\<close>, the history with its searches by time and by name, the
    iterator over a tree. The locale \<open>change_lookup\<close> is what the searches need of a commit.
    \<open>GitTreeFacts\<close>, \<open>RepositoryFacts\<close>, \<open>RepositoryHistory\<close> and \<open>RepositoryWitness\<close>: their properties.
    \<open>GitLoad\<close>, \<open>Config\<close> (\<open>gtpo/gitloader\<close>, \<open>config\<close>).
  \<^item> \<open>ProcessOrphans\<close>, \<open>Detector\<close> (\<open>gtpo/processorphans\<close>, \<open>detectorbase\<close>, \<open>detector\<close>): the detectors of
    transitions share the loop over all changes of a repository (locale \<open>change_processor\<close>,
    interpreted for two of them), the filter of processed pairs, the clusters. \<open>DetectorFacts\<close>,
    \<open>DetectorWitness\<close>, \<open>Clusters\<close>: their properties.
  \<^item> \<open>TrDb\<close>, \<open>TrDbFacts\<close> (\<open>tools/impl/tryfilltr.cpp\<close>): the database of translations in two mapped files,
    whose abstract view is the list of messages of every ID.
  \<^item> \<open>DirWalk\<close> (\<open>gtpo/translation-collector\<close>): collecting the contents of the files below a directory,
    with templates or without; \<open>Coverage\<close> (\<open>tools/impl/lokalizereviewiddiff\<close>): the greedy choice of
    the files to review, against the locale \<open>min_ids_source\<close> of what it needs of a content.
  \<^item> \<open>Conflicts\<close>, \<open>Globalize\<close> (\<open>globalize\<close>): the conflicts between translations, the tool that prints them,
    and what the widgets of the window show.
  \<^item> The command-line tools (\<open>tools/impl\<close>): \<open>IddiffTools\<close> (merging, minimizing, filtering of iddiff
    files; the files are the state), \<open>Lokalize\<close> (with \<open>dbuslokalize\<close>: the review in Lokalize over the D-Bus),
    \<open>ReviewMail\<close> (the mail about a review), \<open>Tools\<close> (the others, and the table of commands). What a tool
    prints for its user to pipe on is its result.
  \<^item> \<open>RubyApi\<close> (\<open>gettextpo-helper/ruby-ext\<close>): the Ruby bindings, by which scripts compute hashes and
    detect transitions incrementally; a Ruby value is a datatype.
  \<^item> \<open>UnitTests\<close>, \<open>Sha1Test\<close> (\<open>autotests\<close>): the repository's own tests on the model, with their data; that
    they pass is evidence that the definitions compute what the code does.

  \<^bold>\<open>What is shown.\<close>
  \<^item> Iddiffs: \<open>merge\<close>, \<open>acceptTranslation\<close> and \<open>rejectTranslation\<close> against patches, errors included;
    \<open>diffFiles\<close> fills the sections as its table says and applying the result brings the first file to
    the second; the JSON document is read back; \<open>minimizeIds\<close> moves the changes.
  \<^item> IDs: \<open>addRow\<close> collapses two IDs, in the file as in memory, and those of all equal messages of two files
    come together; \<open>normalizeDatabase\<close> changes no minimum ID, the protocol delivers
    the IDs, first IDs and involved files that the database has; every session ends, and the clients
    of the server do not disturb each other.
  \<^item> Files: equal dumps exactly for equal templates, the pairs of equal messages, the numbering of
    messages, SHA-1.
  \<^item> Git: \<open>diffTree\<close> is exact, a history is read with the right differences, the searches by time find
    what they should where times are sorted, and something local otherwise; the detector finds every
    modification; clusters are connected components.
  \<^item> Tools: merging of files is the union, filtering takes away exactly the trusted changes, the choice
    of files covers every ID, the walk through a directory finds every template; what a review in
    Lokalize shows.
  \<^item> Where the code does something else than it means to, the theorem says what it does, and the
    manifest lists it as a finding.

  \<^bold>\<open>Bounds and termination.\<close> No definition has fuel. Loops are structural recursion or \<open>function\<close> with
  a measure; the graph search of \<open>dumpCluster\<close> ends because vertices get marked; \<open>diffTree\<close> because
  the trees get smaller. The iterator over a Git tree and the loop that uses it may run for ever
  (on an empty directory they do), so they are \<open>partial_function (option)\<close>, and
  \<open>getCurrentOids_complete\<close> shows that they return on all other trees. The recursion of
  \<open>getRecursiveMinId\<close> ends because the code asserts that IDs get smaller.

  \<^bold>\<open>Parameters.\<close> libgettext-po: what it gives for a file is a \<open>catalog\<close>, or a report of an error. libgit2: a repository is its
  commits and trees; printing and reading an object ID is a codec (\<open>hex_codec\<close>). \<open>odb\<close> in the
  theorems is the object database, a function from IDs to trees: equal IDs are equal trees, as
  hashes promise. The \<open>tp_hash\<close> of a blob is a parameter in \<open>GitLoad\<close>. Uninitialised memory that the
  code copies (the buffer of SHA-1) is an argument of the definitions. The HTTP client of the server
  gives the body of an answer for an address.

  \<^bold>\<open>Not modelled.\<close> The web service behind the server; the painting and layout of the Qt widgets; \<open>getopt\<close>; the scripts in Ruby and
  Python; the tests that need a running server, and those of the hashes of whole files.
  \<open>copyTranslationsFrom\<close>, which a tool calls but which is commented out in the library, is a parameter,
  as are the D-Bus and the user's editor. Progress messages on the terminal are left out.
\<close>

end
